(* ===== verification/Zona_Prelude.thy ===== *)
theory Zona_Prelude
  imports
    Main
    "HOL-Library.Word"
    "HOL-Library.List_Lexorder"
    "HOL-Library.Multiset"
begin

section \<open>Shared types, iterator combinators and automation\<close>

text \<open>
  What the component theories share.
  \<^item> Machine integers: \<^verbatim>\<open>u8\<close>, \<^verbatim>\<open>u16\<close>, \<^verbatim>\<open>u32\<close> and \<^verbatim>\<open>u64\<close> are words of
    that width, so \<^verbatim>\<open>+\<close> wraps, as it does in the release build of the crates.  A
    \<^verbatim>\<open>usize\<close> that only counts elements held in memory is a natural number.
  \<^item> \<^verbatim>\<open>Result<T, E>\<close> is the sum type \<open>'e + 'a\<close>, with \<open>Err\<close> and \<open>Ok\<close> for its
    injections.
  \<^item> The iterator methods of the Rust standard library the code uses and HOL's list
    library lacks: \<^verbatim>\<open>position\<close>, \<^verbatim>\<open>max_by\<close> (the last maximal element),
    \<^verbatim>\<open>min_by_key\<close> (the first minimal element), \<^verbatim>\<open>count\<close> after \<^verbatim>\<open>filter\<close>.  The others are
    HOL functions: \<^verbatim>\<open>find\<close> is \<open>List.find\<close>, \<^verbatim>\<open>filter_map\<close> is \<open>List.map_filter\<close>,
    \<^verbatim>\<open>sort_by_key\<close> (stable) is \<open>sort_key\<close>, \<^verbatim>\<open>truncate\<close> and \<^verbatim>\<open>take\<close> are
    \<open>take\<close>, \<^verbatim>\<open>retain\<close> is \<open>filter\<close>, \<^verbatim>\<open>dedup\<close> is \<open>remdups_adj\<close>.
  \<^item> The collections \<open>model_defs\<close> (definitions the component proofs unfold) and
    \<open>inv_intros\<close> (preservation lemmas used as introduction rules).
\<close>

named_theorems model_defs "definitions unfolded by the component proofs"

named_theorems inv_intros "preservation lemmas of the component invariants"

subsection \<open>Machine integers and results\<close>

type_synonym u8 = "8 word"
type_synonym u16 = "16 word"
type_synonym u32 = "32 word"
type_synonym u64 = "64 word"

type_synonym bytes = "u8 list"

type_synonym ('a, 'e) result = "'e + 'a"

abbreviation Ok :: "'a \<Rightarrow> ('a, 'e) result" where
  "Ok \<equiv> Inr"

abbreviation Err :: "'e \<Rightarrow> ('a, 'e) result" where
  "Err \<equiv> Inl"

definition is_ok :: "('a, 'e) result \<Rightarrow> bool" where
  "is_ok r \<longleftrightarrow> (case r of Inl _ \<Rightarrow> False | Inr _ \<Rightarrow> True)"

lemma is_ok_simps [simp]: "is_ok (Ok x)" "\<not> is_ok (Err e)"
  by (simp_all add: is_ok_def)

text \<open>\<^verbatim>\<open>saturating_sub\<close> of the unsigned integers.\<close>

definition saturating_sub :: "('a :: len) word \<Rightarrow> 'a word \<Rightarrow> 'a word" where
  "saturating_sub a b = (if a < b then 0 else a - b)"

lemma unat_saturating_sub: "unat (saturating_sub a b) = unat a - unat b"
proof (cases "a < b")
  case True
  then have "unat a \<le> unat b" by (simp add: word_less_nat_alt)
  with True show ?thesis by (simp add: saturating_sub_def)
next
  case False
  then have "b \<le> a" by simp
  with False show ?thesis by (simp add: saturating_sub_def unat_sub)
qed

lemma two_not_le_one [simp]: "\<not> (2 :: u8) \<le> 1"
  by (simp add: word_le_nat_alt)

subsection \<open>Iterator combinators\<close>

primrec position :: "('a \<Rightarrow> bool) \<Rightarrow> 'a list \<Rightarrow> nat option" where
  "position p [] = None"
| "position p (x # xs) = (if p x then Some 0 else map_option Suc (position p xs))"

lemma position_Some_iff:
  "position p xs = Some i \<longleftrightarrow> i < length xs \<and> p (xs ! i) \<and> (\<forall>j < i. \<not> p (xs ! j))"
proof (induction xs arbitrary: i)
  case Nil
  show ?case by simp
next
  case (Cons x xs)
  show ?case
  proof (cases i)
    case 0
    then show ?thesis by auto
  next
    case (Suc k)
    then show ?thesis using Cons.IH [of k] by (auto simp: less_Suc_eq_0_disj nth_Cons split: nat.splits)
  qed
qed

lemma position_None_iff: "position p xs = None \<longleftrightarrow> (\<forall>x \<in> set xs. \<not> p x)"
  by (induction xs) auto

lemma position_lt: "position p xs = Some i \<Longrightarrow> i < length xs"
  by (simp add: position_Some_iff)

lemma position_holds: "position p xs = Some i \<Longrightarrow> p (xs ! i)"
  by (simp add: position_Some_iff)

text \<open>
  \<^verbatim>\<open>Iterator::max_by\<close> returns the last of several equally maximal elements,
  \<^verbatim>\<open>Iterator::min_by_key\<close> the first of several equally minimal ones.
\<close>

fun max_by_from :: "('a \<Rightarrow> 'k :: linorder) \<Rightarrow> 'a \<Rightarrow> 'a list \<Rightarrow> 'a" where
  "max_by_from f b [] = b"
| "max_by_from f b (x # xs) = max_by_from f (if f b \<le> f x then x else b) xs"

fun max_by :: "('a \<Rightarrow> 'k :: linorder) \<Rightarrow> 'a list \<Rightarrow> 'a option" where
  "max_by f [] = None"
| "max_by f (x # xs) = Some (max_by_from f x xs)"

fun min_by_from :: "('a \<Rightarrow> 'k :: linorder) \<Rightarrow> 'a \<Rightarrow> 'a list \<Rightarrow> 'a" where
  "min_by_from f b [] = b"
| "min_by_from f b (x # xs) = min_by_from f (if f x < f b then x else b) xs"

fun min_by_key :: "('a \<Rightarrow> 'k :: linorder) \<Rightarrow> 'a list \<Rightarrow> 'a option" where
  "min_by_key f [] = None"
| "min_by_key f (x # xs) = Some (min_by_from f x xs)"

lemma max_by_from_in: "max_by_from f b xs \<in> insert b (set xs)"
proof (induction xs arbitrary: b)
  case (Cons x xs)
  show ?case using Cons.IH [of "if f b \<le> f x then x else b"] by (auto split: if_splits)
qed simp

lemma max_by_from_ge: "y \<in> insert b (set xs) \<Longrightarrow> f y \<le> f (max_by_from f b xs)"
proof (induction xs arbitrary: b y)
  case (Cons x xs)
  let ?b = "if f b \<le> f x then x else b"
  have "f ?b \<le> f (max_by_from f ?b xs)" by (rule Cons.IH) simp
  moreover have "y \<in> set xs \<Longrightarrow> f y \<le> f (max_by_from f ?b xs)" by (rule Cons.IH) simp
  ultimately show ?case using Cons.prems by (auto split: if_splits)
qed simp

lemma min_by_from_in: "min_by_from f b xs \<in> insert b (set xs)"
proof (induction xs arbitrary: b)
  case (Cons x xs)
  show ?case using Cons.IH [of "if f x < f b then x else b"] by (auto split: if_splits)
qed simp

lemma min_by_from_le: "y \<in> insert b (set xs) \<Longrightarrow> f (min_by_from f b xs) \<le> f y"
proof (induction xs arbitrary: b y)
  case (Cons x xs)
  let ?b = "if f x < f b then x else b"
  have "f (min_by_from f ?b xs) \<le> f ?b" by (rule Cons.IH) simp
  moreover have "y \<in> set xs \<Longrightarrow> f (min_by_from f ?b xs) \<le> f y" by (rule Cons.IH) simp
  ultimately show ?case using Cons.prems by (auto split: if_splits)
qed simp

lemma max_by_None [simp]: "max_by f xs = None \<longleftrightarrow> xs = []"
  by (cases xs) auto

lemma min_by_key_None [simp]: "min_by_key f xs = None \<longleftrightarrow> xs = []"
  by (cases xs) auto

lemma max_by_in: "max_by f xs = Some x \<Longrightarrow> x \<in> set xs"
  by (cases xs) (use max_by_from_in [of f] in force)+

lemma max_by_ge: "max_by f xs = Some x \<Longrightarrow> y \<in> set xs \<Longrightarrow> f y \<le> f x"
  by (cases xs) (auto intro: max_by_from_ge)

lemma min_by_key_in: "min_by_key f xs = Some x \<Longrightarrow> x \<in> set xs"
  by (cases xs) (use min_by_from_in [of f] in force)+

lemma min_by_key_le: "min_by_key f xs = Some x \<Longrightarrow> y \<in> set xs \<Longrightarrow> f x \<le> f y"
  by (cases xs) (auto intro: min_by_from_le)

definition count_if :: "('a \<Rightarrow> bool) \<Rightarrow> 'a list \<Rightarrow> nat" where
  "count_if p xs = length (filter p xs)"

lemma count_if_simps [simp]:
  "count_if p [] = 0"
  "count_if p (x # xs) = (if p x then Suc (count_if p xs) else count_if p xs)"
  "count_if p (xs @ ys) = count_if p xs + count_if p ys"
  by (simp_all add: count_if_def)

lemma count_if_le_length: "count_if p xs \<le> length xs"
  by (simp add: count_if_def)

lemma count_if_filter_le: "count_if p (filter q xs) \<le> count_if p xs"
  by (induction xs) auto

lemma count_if_update:
  assumes "i < length xs"
  shows "count_if p (xs[i := x]) =
    count_if p xs - (if p (xs ! i) then 1 else 0) + (if p x then 1 else 0)"
  using assms
proof (induction xs arbitrary: i)
  case (Cons y ys)
  show ?case
  proof (cases i)
    case (Suc k)
    with Cons.prems have k: "k < length ys" by simp
    have pos: "p (ys ! k) \<Longrightarrow> 0 < count_if p ys"
      using k by (metis count_if_def filter_False length_greater_0_conv filter_empty_conv nth_mem)
    show ?thesis using Suc Cons.IH [OF k] pos by auto
  qed simp
qed simp

lemma count_if_update_same:
  "i < length xs \<Longrightarrow> p (xs ! i) = p x \<Longrightarrow> count_if p (xs[i := x]) = count_if p xs"
  by (induction xs arbitrary: i) (auto split: nat.split)

lemma count_if_map: "count_if p (map f xs) = count_if (p \<circ> f) xs"
  by (simp add: count_if_def filter_map)

lemma count_if_pos: "x \<in> set xs \<Longrightarrow> p x \<Longrightarrow> 0 < count_if p xs"
  by (induction xs) auto

subsection \<open>Lists\<close>

lemma find_Some_in: "List.find p xs = Some x \<Longrightarrow> x \<in> set xs \<and> p x"
  by (auto simp: find_Some_iff)

lemma map_filter_subset:
  "y \<in> set (List.map_filter f xs) \<longleftrightarrow> (\<exists>x \<in> set xs. f x = Some y)"
  by (force simp: List.map_filter_def)

lemma map_filter_set: "y \<in> set (List.map_filter f xs) \<longleftrightarrow> (\<exists>x \<in> set xs. f x = Some y)"
  by (induction xs) (auto simp: List.map_filter_simps split: option.splits)

lemma length_map_filter_le: "length (List.map_filter f xs) \<le> length xs"
  by (simp add: List.map_filter_def)

lemma all_nat_Suc: "(\<forall>n. P n) \<longleftrightarrow> P 0 \<and> (\<forall>n. P (Suc n))"
  by (metis nat.exhaust)

lemma filter_update_neither:
  "i < length xs \<Longrightarrow> \<not> p (xs ! i) \<Longrightarrow> \<not> p x \<Longrightarrow> filter p (xs[i := x]) = filter p xs"
  by (induction xs arbitrary: i) (auto split: nat.split)

lemma find_append:
  "List.find p (xs @ ys) = (case List.find p xs of None \<Rightarrow> List.find p ys | Some x \<Rightarrow> Some x)"
  by (induction xs) auto

lemma distinct_map_update:
  assumes "distinct (map f xs)" "i < length xs" "f x \<notin> f ` set xs"
  shows "distinct (map f (xs[i := x]))"
  using assms by (simp add: map_update distinct_list_update)

lemma sorted_key_take_drop:
  assumes "sorted (map f xs)" "x \<in> set (take n xs)" "y \<in> set (drop n xs)"
  shows "f x \<le> f y"
proof -
  have "sorted (map f (take n xs @ drop n xs))" using assms(1) by simp
  then show ?thesis using assms(2,3) unfolding map_append sorted_append by auto
qed

text \<open>The decimal digits of a number, as \<^verbatim>\<open>format!\<close> and \<^verbatim>\<open>to_string\<close> print it.\<close>

fun nat_to_string :: "nat \<Rightarrow> string" where
  "nat_to_string n =
     (if n < 10 then [char_of (48 + n)] else nat_to_string (n div 10) @ [char_of (48 + n mod 10)])"

declare nat_to_string.simps [simp del]

end
