(* ===== verification/Node_Id.thy ===== *)
theory Node_Id
  imports Zona_Prelude
begin

unbundle bit_operations_syntax

section \<open>Node identifiers and the XOR metric\<close>

text \<open>
  \<^verbatim>\<open>zona-p2p-types/src/node_id.rs\<close>.  The Rust type \<^verbatim>\<open>[u8; 32]\<close> is the type
  \<open>bytes32\<close> of byte lists of length 32, ordered lexicographically as Rust orders
  arrays; it is used for identifiers, public keys and SHA-256 digests alike.  A
  \<^verbatim>\<open>NodeId\<close> wraps one such array.  The laws of the distance are collected in the
  locale \<open>xor_space\<close>, on which greedy routing rests.
\<close>

subsection \<open>Arrays of 32 bytes\<close>

typedef bytes32 = "{bs :: bytes. length bs = 32}"
  morphisms bytes_of Array32
  by (rule exI [of _ "replicate 32 0"]) simp

setup_lifting type_definition_bytes32

lemma length_bytes_of [simp]: "length (bytes_of a) = 32"
  using bytes_of [of a] by simp

lemma bytes_of_inject_iff: "bytes_of a = bytes_of b \<longleftrightarrow> a = b"
  by (simp add: bytes_of_inject)

text \<open>\<^verbatim>\<open>[b; 32]\<close>\<close>

definition fill32 :: "u8 \<Rightarrow> bytes32" where
  "fill32 b = Array32 (replicate 32 b)"

lemma bytes_of_fill32: "bytes_of (fill32 b) = replicate 32 b"
  by (simp add: fill32_def Array32_inverse)

text \<open>\<^verbatim>\<open>TryFrom<Vec<u8>> for [u8; 32]\<close>: fails unless the length is 32.\<close>

definition array32 :: "bytes \<Rightarrow> bytes32 option" where
  "array32 bs = (if length bs = 32 then Some (Array32 bs) else None)"

lemma array32_bytes_of [simp]: "array32 (bytes_of a) = Some a"
  by (simp add: array32_def bytes_of_inverse)

lemma array32_Some: "array32 bs = Some a \<longleftrightarrow> bytes_of a = bs"
  by (auto simp: array32_def bytes_of_inverse Array32_inverse split: if_splits)

instantiation bytes32 :: equal
begin

definition equal_bytes32 :: "bytes32 \<Rightarrow> bytes32 \<Rightarrow> bool" where
  "equal_bytes32 a b \<longleftrightarrow> bytes_of a = bytes_of b"

instance
  by standard (simp add: equal_bytes32_def bytes_of_inject)

end

instantiation bytes32 :: linorder
begin

definition less_eq_bytes32 :: "bytes32 \<Rightarrow> bytes32 \<Rightarrow> bool" where
  "less_eq_bytes32 a b \<longleftrightarrow> bytes_of a \<le> bytes_of b"

definition less_bytes32 :: "bytes32 \<Rightarrow> bytes32 \<Rightarrow> bool" where
  "less_bytes32 a b \<longleftrightarrow> bytes_of a < bytes_of b"

instance
  by standard
    (auto simp: less_eq_bytes32_def less_bytes32_def less_le_not_le simp flip: bytes_of_inject)

end

lemma fill32_inject [simp]: "fill32 a = fill32 b \<longleftrightarrow> a = b"
  by (simp add: bytes_of_fill32 replicate_eq_replicate flip: bytes_of_inject_iff)

subsection \<open>Identifiers\<close>

datatype node_id = NodeId (node_bytes: bytes32)

definition node_id_ZERO :: node_id where
  "node_id_ZERO = NodeId (fill32 0)"

definition as_bytes :: "node_id \<Rightarrow> bytes32" where
  "as_bytes n = node_bytes n"

definition from_bytes :: "bytes32 \<Rightarrow> node_id" where
  "from_bytes raw = NodeId raw"

definition xor32 :: "bytes32 \<Rightarrow> bytes32 \<Rightarrow> bytes32" where
  "xor32 a b = Array32 (map2 (XOR) (bytes_of a) (bytes_of b))"

definition xor_distance :: "node_id \<Rightarrow> node_id \<Rightarrow> bytes32" where
  "xor_distance n other = xor32 (node_bytes n) (node_bytes other)"

text \<open>\<open>is_closer_to n target other\<close>: the node is closer to the target than the other is.\<close>

definition is_closer_to :: "node_id \<Rightarrow> node_id \<Rightarrow> node_id \<Rightarrow> bool" where
  "is_closer_to n target other \<longleftrightarrow> xor_distance n target < xor_distance other target"

lemma bytes_of_xor32: "bytes_of (xor32 a b) = map2 (XOR) (bytes_of a) (bytes_of b)"
  by (simp add: xor32_def Array32_inverse)

subsection \<open>The order of the arrays is the order of 256-bit numbers\<close>

fun be_nat :: "bytes \<Rightarrow> nat" where
  "be_nat [] = 0"
| "be_nat (b # bs) = unat b * 256 ^ length bs + be_nat bs"

definition value32 :: "bytes32 \<Rightarrow> nat" where
  "value32 a = be_nat (bytes_of a)"

lemma unat_u8_less: "unat (b :: u8) < 256"
  using unsigned_less [of b] by simp

lemma be_nat_less: "be_nat bs < 256 ^ length bs"
proof (induction bs)
  case (Cons b bs)
  have "unat b * 256 ^ length bs + be_nat bs < (unat b + 1) * 256 ^ length bs"
    using Cons.IH by simp
  also have "\<dots> \<le> 256 * 256 ^ length bs"
    using unat_u8_less [of b] by (intro mult_right_mono) auto
  finally show ?case by simp
qed simp

lemma be_nat_order:
  "length xs = length ys \<Longrightarrow> xs < ys \<longleftrightarrow> be_nat xs < be_nat ys"
proof (induction xs ys rule: list_induct2)
  case (Cons x xs y ys)
  have bound: "be_nat xs < 256 ^ length ys" "be_nat ys < 256 ^ length ys"
    using be_nat_less [of xs] be_nat_less [of ys] Cons.hyps by simp_all
  have step: "unat a * 256 ^ length ys + be_nat u < unat b * 256 ^ length ys + be_nat v"
    if "a < b" "be_nat u < 256 ^ length ys" for a b :: u8 and u v
  proof -
    have "unat a + 1 \<le> unat b" using \<open>a < b\<close> by (simp add: word_less_nat_alt)
    then have "(unat a + 1) * 256 ^ length ys \<le> unat b * 256 ^ length ys"
      by (rule mult_right_mono) simp
    then show ?thesis using that(2) by simp
  qed
  consider "x < y" | "x = y" | "y < x" by (rule linorder_cases)
  then show ?case
  proof cases
    case 1
    with step [of x y xs ys] bound Cons.hyps show ?thesis by simp
  next
    case 2
    with Cons show ?thesis by simp
  next
    case 3
    with step [of y x ys xs] bound Cons.hyps show ?thesis by (auto simp: not_less)
  qed
qed simp

lemma less_bytes32_value: "a < b \<longleftrightarrow> value32 a < value32 b"
  by (simp add: less_bytes32_def value32_def be_nat_order)

lemma le_bytes32_value: "a \<le> b \<longleftrightarrow> value32 a \<le> value32 b"
  by (simp add: less_bytes32_value flip: not_less)

lemma value32_inject: "value32 a = value32 b \<longleftrightarrow> a = b"
  by (auto simp: order_eq_iff le_bytes32_value)

lemma wf_bytes32: "wf {(a :: bytes32, b). a < b}"
  by (rule wf_subset [OF wf_measure [of value32]]) (auto simp: less_bytes32_value)

subsection \<open>The XOR distance\<close>

lemma map2_xor_cancel:
  "length xs = length ts \<Longrightarrow> length ys = length ts \<Longrightarrow>
    map2 (XOR) xs ts = map2 (XOR) ys (ts :: bytes) \<longleftrightarrow> xs = ys"
proof (induction ts arbitrary: xs ys)
  case (Cons t ts)
  then obtain x xs' y ys' where [simp]: "xs = x # xs'" "ys = y # ys'"
    by (auto simp: length_Suc_conv)
  have "x XOR t = y XOR t \<longleftrightarrow> x = y"
    by (metis xor.assoc xor.right_neutral xor_self_eq)
  with Cons show ?case by simp
qed simp

lemma map2_xor_self: "map2 (XOR) xs (xs :: bytes) = replicate (length xs) 0"
  by (induction xs) auto

lemma map2_xor_comm: "map2 (XOR) xs (ys :: bytes) = map2 (XOR) ys xs"
proof (induction xs arbitrary: ys)
  case (Cons x xs)
  then show ?case by (cases ys) (auto simp: xor.commute)
qed simp

lemma map2_xor_trans:
  "length xs = length ys \<Longrightarrow> length ys = length zs \<Longrightarrow>
    map2 (XOR) (map2 (XOR) xs ys) (map2 (XOR) ys (zs :: bytes)) = map2 (XOR) xs zs"
proof (induction xs ys zs rule: list_induct3)
  case (Cons x xs y ys z zs)
  have "(x XOR y) XOR (y XOR z) = x XOR z"
    by (metis xor.assoc xor.right_neutral xor_self_eq)
  with Cons show ?case by simp
qed simp

lemma xor32_cancel: "xor32 a t = xor32 b t \<longleftrightarrow> a = b"
  unfolding bytes_of_inject_iff [symmetric] bytes_of_xor32
  by (rule map2_xor_cancel) simp_all

lemma xor_distance_cancel [simp]:
  "xor_distance a t = xor_distance b t \<longleftrightarrow> a = b"
  by (cases a; cases b) (simp add: xor_distance_def xor32_cancel)

lemma xor_distance_self: "xor_distance t t = fill32 0"
  unfolding xor_distance_def bytes_of_inject_iff [symmetric] bytes_of_xor32 bytes_of_fill32
  by (simp add: map2_xor_self)

lemma xor_distance_comm: "xor_distance a b = xor_distance b a"
  unfolding xor_distance_def bytes_of_inject_iff [symmetric] bytes_of_xor32
  by (rule map2_xor_comm)

lemma xor_distance_trans:
  "xor32 (xor_distance a b) (xor_distance b c) = xor_distance a c"
  unfolding xor_distance_def bytes_of_inject_iff [symmetric] bytes_of_xor32
  by (rule map2_xor_trans) simp_all

lemma be_nat_replicate_0: "be_nat (replicate n 0) = 0"
  by (induction n) auto

lemma value32_zero [simp]: "value32 (fill32 0) = 0"
  by (simp add: value32_def bytes_of_fill32 be_nat_replicate_0)

lemma fill32_zero_le: "fill32 0 \<le> d"
  by (simp add: le_bytes32_value)

text \<open>Evaluation on the arrays \<^verbatim>\<open>[b; 32]\<close>, which the witnesses use.\<close>

lemma xor32_fill [simp]: "xor32 (fill32 a) (fill32 b) = fill32 (a XOR b)"
  by (simp add: bytes_of_xor32 bytes_of_fill32 map_replicate_const zip_replicate
      flip: bytes_of_inject_iff)

lemma replicate_less:
  "replicate n (a :: 'a :: linorder) < replicate n b \<longleftrightarrow> 0 < n \<and> a < b"
  by (induction n) (auto simp: Cons_less_Cons)

lemma fill32_less [simp]: "fill32 a < fill32 b \<longleftrightarrow> a < b"
  by (simp add: less_bytes32_def bytes_of_fill32 replicate_less)

lemma fill32_le [simp]: "fill32 a \<le> fill32 b \<longleftrightarrow> a \<le> b"
  by (simp flip: not_less)

abbreviation idn :: "u8 \<Rightarrow> node_id" where
  "idn b \<equiv> NodeId (fill32 b)"

lemma xor_distance_idn [simp]: "xor_distance (idn a) (idn b) = fill32 (a XOR b)"
  by (simp add: xor_distance_def)

subsection \<open>The interface of a distance to route by\<close>

text \<open>
  What greedy routing needs of its distance: a target is strictly closer to itself than
  every other node is, and no two nodes are equally far from a target.  A walk on which
  every step comes closer to a fixed target never visits a node twice.
\<close>

locale xor_space =
  fixes dist :: "'n \<Rightarrow> 'n \<Rightarrow> 'd :: linorder"
  assumes dist_inj: "dist a t = dist b t \<longleftrightarrow> a = b"
    and dist_target_least: "dist t t \<le> dist a t"
    and dist_sym: "dist a b = dist b a"
    and dist_wf: "wf {(d :: 'd, d'). d < d'}"
begin

lemma dist_target_less: "a \<noteq> t \<Longrightarrow> dist t t < dist a t"
  using dist_target_least [of t a] dist_inj [of a t t] by (auto simp: less_le)

lemma dist_trichotomy: "a \<noteq> b \<Longrightarrow> dist a t < dist b t \<or> dist b t < dist a t"
  using dist_inj [of a t b] by (auto simp: neq_iff)

lemma descends_distinct: "sorted_wrt (\<lambda>a b. dist b t < dist a t) p \<Longrightarrow> distinct p"
  by (induction p) auto

lemma descends_snoc:
  "sorted_wrt (\<lambda>a b. dist b t < dist a t) (p @ [a]) \<Longrightarrow> dist b t < dist a t \<Longrightarrow>
   sorted_wrt (\<lambda>a b. dist b t < dist a t) (p @ [a, b])"
  by (auto simp: sorted_wrt_append)

lemma descends_fresh:
  assumes "sorted_wrt (\<lambda>a b. dist b t < dist a t) (p @ [a])" "dist b t < dist a t"
  shows "b \<notin> set (p @ [a])"
  using descends_distinct [OF descends_snoc [OF assms]] by auto

end

interpretation xs: xor_space xor_distance
proof unfold_locales
  fix a b t :: node_id
  show "xor_distance a t = xor_distance b t \<longleftrightarrow> a = b" by simp
  show "xor_distance t t \<le> xor_distance a t" by (simp add: xor_distance_self fill32_zero_le)
  show "xor_distance a b = xor_distance b a" by (rule xor_distance_comm)
qed (rule wf_bytes32)

subsection \<open>Properties\<close>

text \<open>
  The byte-wise comparison of \<^verbatim>\<open>is_closer_to\<close> compares the 256-bit XOR values as numbers; the
  distance is symmetric, is zero exactly between a node and itself, determines the node for a
  given target, and composes by XOR along a path.
\<close>

theorem xor_metric:
  "(is_closer_to a t b \<longleftrightarrow> value32 (xor_distance a t) < value32 (xor_distance b t)) \<and>
   xor_distance a b = xor_distance b a \<and>
   (value32 (xor_distance a b) = 0 \<longleftrightarrow> a = b) \<and>
   (xor_distance a t = xor_distance b t \<longleftrightarrow> a = b) \<and>
   xor32 (xor_distance a b) (xor_distance b t) = xor_distance a t"
proof -
  have "value32 (xor_distance a b) = 0 \<longleftrightarrow> xor_distance a b = xor_distance b b"
    unfolding xor_distance_self [of b] value32_inject [symmetric] by simp
  then have "value32 (xor_distance a b) = 0 \<longleftrightarrow> a = b" by simp
  then show ?thesis
    using xor_distance_comm [of a b] xor_distance_trans [of a b t]
    by (simp add: is_closer_to_def less_bytes32_value)
qed

end
