(* ===== verification/Wire_Types.thy ===== *)
theory Wire_Types
  imports Node_Id
begin

section \<open>Wire-level data\<close>

text \<open>
  The data types of \<^verbatim>\<open>zona-p2p-types\<close>: reachability, descriptors, envelopes with their message
  bodies, protocol errors.  The third-party crates the code calls, \<^verbatim>\<open>sha2\<close>, \<^verbatim>\<open>hex\<close>,
  \<^verbatim>\<open>ed25519-dalek\<close> and \<^verbatim>\<open>bincode\<close>, are the fields of the record \<open>libs\<close>, an argument of every
  definition that uses one of them.
\<close>

subsection \<open>Reachability\<close>

datatype socket_addr = SocketAddrV4 u32 u16 | SocketAddrV6 "128 word" u16 u32 u32

datatype reach_spec = Direct socket_addr | Relayed (relay: node_id) (circuit_handle: u64)

datatype reach_list = ReachList (reach_specs: "reach_spec list")

definition reach_direct :: "socket_addr \<Rightarrow> reach_list" where
  "reach_direct addr = ReachList [Direct addr]"

definition reach_relayed :: "node_id \<Rightarrow> u64 \<Rightarrow> reach_list" where
  "reach_relayed via handle = ReachList [Relayed via handle]"

definition reach_is_empty :: "reach_list \<Rightarrow> bool" where
  "reach_is_empty r \<longleftrightarrow> reach_specs r = []"

definition reach_default :: reach_list where
  "reach_default = ReachList []"

subsection \<open>Descriptors and envelopes\<close>

record descriptor =
  d_node_id :: node_id
  d_pubkey :: bytes32
  d_reach :: reach_list
  d_version :: u64
  d_provisional :: bool
  d_signature :: bytes

datatype message_class = Normal | CriticalUser

record pex_candidate =
  c_descriptor :: descriptor
  c_referrer_id :: node_id

datatype message_kind =
    Hello descriptor
  | FindNode node_id u8
  | FoundNodes "pex_candidate list"
  | Pex "pex_candidate list"
  | Ping u64
  | Pong u64
  | AnnounceDescriptor descriptor
  | UserData bytes
  | Invite bytes

record envelope =
  env_to :: node_id
  env_from :: node_id
  env_message_id :: u64
  env_ttl :: u8
  env_class :: message_class
  env_route_fork :: bool
  env_body :: message_kind
  env_signature :: bytes

text \<open>The tuples the two \<^verbatim>\<open>signing_payload\<close> methods serialise: everything but the signature.\<close>

type_synonym descriptor_fields = "node_id \<times> bytes32 \<times> reach_list \<times> u64 \<times> bool"

type_synonym envelope_fields =
  "node_id \<times> node_id \<times> u64 \<times> u8 \<times> message_class \<times> bool \<times> message_kind"

subsection \<open>Errors\<close>

text \<open>\<^verbatim>\<open>std::io::Error\<close> as the code makes it (kind \<^verbatim>\<open>InvalidData\<close> with a message) or passes it on.\<close>

datatype io_error = InvalidData string | OtherIo string

datatype protocol_error =
    InvalidSignature string
  | EnvelopeSignatureInvalid string
  | StaleDescriptor u64 u64
  | InviteQuotaExceeded
  | RateLimitExceeded string
  | PeerTableFull
  | Codec string
  | Io io_error
  | Serialise string
  | UnknownSender string

subsection \<open>Third-party functions\<close>

text \<open>
  \<open>sha256\<close>: \<^verbatim>\<open>Sha256::new\<close>, \<^verbatim>\<open>update\<close> on the concatenated input, \<^verbatim>\<open>finalize\<close>.
  \<open>hex_encode\<close>: \<^verbatim>\<open>hex::encode\<close>.
  \<open>vk_from_bytes\<close>: \<^verbatim>\<open>VerifyingKey::from_bytes\<close> accepts these bytes as a point.
  \<open>ed_verify pk msg sig\<close>: \<^verbatim>\<open>vk.verify(msg, &sig).is_ok()\<close> for 64 signature bytes.
  \<open>ed_sign seed msg\<close>: the signature bytes of a \<^verbatim>\<open>SigningKey\<close>, which is given by its 32-byte
  seed; \<open>ed_public\<close> is its \<^verbatim>\<open>verifying_key().as_bytes()\<close>.
  \<open>bin_*\<close> and \<open>unbin_envelope\<close>: \<^verbatim>\<open>bincode::serialize\<close> and \<^verbatim>\<open>deserialize\<close> at the types the code uses
  them with.
\<close>

record libs =
  sha256 :: "bytes \<Rightarrow> bytes32"
  hex_encode :: "bytes \<Rightarrow> string"
  vk_from_bytes :: "bytes32 \<Rightarrow> bool"
  ed_verify :: "bytes32 \<Rightarrow> bytes \<Rightarrow> bytes \<Rightarrow> bool"
  ed_sign :: "bytes32 \<Rightarrow> bytes \<Rightarrow> bytes"
  ed_public :: "bytes32 \<Rightarrow> bytes32"
  bin_descriptor :: "descriptor_fields \<Rightarrow> bytes"
  bin_envelope_fields :: "envelope_fields \<Rightarrow> bytes"
  bin_envelope :: "envelope \<Rightarrow> (bytes, string) result"
  unbin_envelope :: "bytes \<Rightarrow> (envelope, string) result"
  bin_invite :: "node_id \<times> u64 \<times> node_id \<Rightarrow> bytes"

text \<open>\<^verbatim>\<open>Display\<close> of a \<^verbatim>\<open>NodeId\<close>: the first eight bytes in hex.\<close>

definition node_id_to_string :: "'a libs_scheme \<Rightarrow> node_id \<Rightarrow> string" where
  "node_id_to_string L n = hex_encode L (take 8 (bytes_of (node_bytes n)))"

definition descriptor_signing_payload :: "'a libs_scheme \<Rightarrow> descriptor \<Rightarrow> bytes" where
  "descriptor_signing_payload L d =
     bin_descriptor L (d_node_id d, d_pubkey d, d_reach d, d_version d, d_provisional d)"

definition envelope_signing_payload :: "'a libs_scheme \<Rightarrow> envelope \<Rightarrow> bytes" where
  "envelope_signing_payload L e =
     bin_envelope_fields L (env_to e, env_from e, env_message_id e, env_ttl e, env_class e,
       env_route_fork e, env_body e)"

lemma signing_payload_ignores_signature [simp]:
  "descriptor_signing_payload L (d\<lparr>d_signature := s\<rparr>) = descriptor_signing_payload L d"
  "envelope_signing_payload L (e\<lparr>env_signature := s\<rparr>) = envelope_signing_payload L e"
  by (simp_all add: descriptor_signing_payload_def envelope_signing_payload_def)

end
