(* ===== verification/Crypto.thy ===== *)
theory Crypto
  imports Wire_Types
begin

section \<open>Identities, signatures and invites\<close>

text \<open>
  \<^verbatim>\<open>zona-p2p-crypto\<close>: node ids derived from public keys, key pairs, signing and verification of
  descriptors, envelopes and byte strings, and invite tokens.  What the code relies on of
  Ed25519 is \<open>ed25519_ok\<close>.  The locale \<open>signed_object\<close> is the contract that descriptors,
  envelopes and byte strings share; it is interpreted on each of them.
\<close>

subsection \<open>Identity and key pairs\<close>

definition derive_node_id :: "'a libs_scheme \<Rightarrow> bytes \<Rightarrow> node_id" where
  "derive_node_id L pubkey_bytes = NodeId (sha256 L pubkey_bytes)"

text \<open>A \<^verbatim>\<open>SigningKey\<close> is represented by its 32-byte seed, a \<^verbatim>\<open>VerifyingKey\<close> by its bytes.\<close>

record node_keypair =
  kp_signing :: bytes32
  kp_verifying :: bytes32
  kp_node_id :: node_id

definition keypair_from_bytes :: "'a libs_scheme \<Rightarrow> bytes32 \<Rightarrow> node_keypair" where
  "keypair_from_bytes L seed =
     (let verifying = ed_public L seed
      in \<lparr>kp_signing = seed, kp_verifying = verifying,
          kp_node_id = derive_node_id L (bytes_of verifying)\<rparr>)"

definition keypair_from_seed :: "'a libs_scheme \<Rightarrow> bytes32 \<Rightarrow> node_keypair" where
  "keypair_from_seed L seed = keypair_from_bytes L seed"

text \<open>\<^verbatim>\<open>NodeKeypair::generate\<close>: the operating system's random seed is an argument.\<close>

definition keypair_generate :: "'a libs_scheme \<Rightarrow> bytes32 \<Rightarrow> node_keypair" where
  "keypair_generate L os_random =
     (let signing = os_random; verifying = ed_public L signing
      in \<lparr>kp_signing = signing, kp_verifying = verifying,
          kp_node_id = derive_node_id L (bytes_of verifying)\<rparr>)"

definition raw_public :: "node_keypair \<Rightarrow> bytes32" where
  "raw_public kp = kp_verifying kp"

subsection \<open>Signing and verification\<close>

definition sign_descriptor :: "'a libs_scheme \<Rightarrow> descriptor \<Rightarrow> bytes32 \<Rightarrow> descriptor" where
  "sign_descriptor L desc signing =
     (let payload = descriptor_signing_payload L desc
      in desc\<lparr>d_signature := ed_sign L signing payload\<rparr>)"

definition verify_descriptor :: "'a libs_scheme \<Rightarrow> descriptor \<Rightarrow> (unit, protocol_error) result" where
  "verify_descriptor L desc =
     (let err = Err (InvalidSignature (node_id_to_string L (d_node_id desc)))
      in if \<not> vk_from_bytes L (d_pubkey desc) then err
         else if derive_node_id L (bytes_of (d_pubkey desc)) \<noteq> d_node_id desc then err
         else if length (d_signature desc) \<noteq> 64 then err
         else if ed_verify L (d_pubkey desc) (descriptor_signing_payload L desc) (d_signature desc)
           then Ok ()
         else err)"

definition sign_envelope :: "'a libs_scheme \<Rightarrow> envelope \<Rightarrow> bytes32 \<Rightarrow> envelope" where
  "sign_envelope L env signing =
     (let payload = envelope_signing_payload L env
      in env\<lparr>env_signature := ed_sign L signing payload\<rparr>)"

definition verify_envelope ::
  "'a libs_scheme \<Rightarrow> envelope \<Rightarrow> bytes32 \<Rightarrow> (unit, protocol_error) result" where
  "verify_envelope L env sender_pubkey =
     (let err = Err (EnvelopeSignatureInvalid (node_id_to_string L (env_from env)))
      in if env_signature env = [] then Ok ()
         else if \<not> vk_from_bytes L sender_pubkey then err
         else if length (env_signature env) \<noteq> 64 then err
         else if ed_verify L sender_pubkey (envelope_signing_payload L env) (env_signature env)
           then Ok ()
         else err)"

definition sign_bytes :: "'a libs_scheme \<Rightarrow> bytes \<Rightarrow> bytes32 \<Rightarrow> bytes" where
  "sign_bytes L payload signing = ed_sign L signing payload"

definition verify_bytes ::
  "'a libs_scheme \<Rightarrow> bytes \<Rightarrow> bytes \<Rightarrow> bytes32 \<Rightarrow> node_id \<Rightarrow> (unit, protocol_error) result" where
  "verify_bytes L payload sig_bytes pubkey signer_id =
     (let err = Err (InvalidSignature (node_id_to_string L signer_id))
      in if \<not> vk_from_bytes L pubkey then err
         else if length sig_bytes \<noteq> 64 then err
         else if ed_verify L pubkey payload sig_bytes then Ok ()
         else err)"

subsection \<open>Invite tokens\<close>

record invite_token =
  inv_invitee_id :: node_id
  inv_expires_at :: u64
  inv_issuer_id :: node_id
  inv_issuer_pk :: bytes32
  inv_signature :: bytes

definition invite_payload :: "'a libs_scheme \<Rightarrow> node_id \<Rightarrow> u64 \<Rightarrow> node_id \<Rightarrow> bytes" where
  "invite_payload L invitee_id expires_at issuer_id = bin_invite L (invitee_id, expires_at, issuer_id)"

definition create_invite :: "'a libs_scheme \<Rightarrow> node_keypair \<Rightarrow> node_id \<Rightarrow> u64 \<Rightarrow> invite_token" where
  "create_invite L issuer_kp invitee_id expires_at =
     (let payload = invite_payload L invitee_id expires_at (kp_node_id issuer_kp);
          sig = sign_bytes L payload (kp_signing issuer_kp)
      in \<lparr>inv_invitee_id = invitee_id, inv_expires_at = expires_at,
          inv_issuer_id = kp_node_id issuer_kp, inv_issuer_pk = raw_public issuer_kp,
          inv_signature = sig\<rparr>)"

definition verify_invite :: "'a libs_scheme \<Rightarrow> invite_token \<Rightarrow> u64 \<Rightarrow> (unit, protocol_error) result" where
  "verify_invite L token now_unix =
     (if inv_expires_at token < now_unix
      then Err (InvalidSignature (node_id_to_string L (inv_invitee_id token)))
      else
        let payload = invite_payload L (inv_invitee_id token) (inv_expires_at token) (inv_issuer_id token)
        in verify_bytes L payload (inv_signature token) (inv_issuer_pk token) (inv_issuer_id token))"

subsection \<open>What is relied on of Ed25519\<close>

text \<open>
  The public key of a seed is a valid key, signatures have 64 bytes, and a signature made with
  a seed verifies under its public key.
\<close>

definition ed25519_ok :: "'a libs_scheme \<Rightarrow> bool" where
  "ed25519_ok L \<longleftrightarrow>
     (\<forall>seed. vk_from_bytes L (ed_public L seed)) \<and>
     (\<forall>seed msg. length (ed_sign L seed msg) = 64) \<and>
     (\<forall>seed msg. ed_verify L (ed_public L seed) msg (ed_sign L seed msg))"

lemma ed25519_okD:
  assumes "ed25519_ok L"
  shows "vk_from_bytes L (ed_public L seed)" "length (ed_sign L seed msg) = 64"
    "ed_verify L (ed_public L seed) msg (ed_sign L seed msg)"
  using assms by (auto simp: ed25519_ok_def)

text \<open>
  A stand-in for the third-party functions that meets \<open>ed25519_ok\<close>; only witnesses use it.
  The digest of a byte string is its first 32 bytes, the public key is the seed, and a
  signature is the key followed by the digest of the message.
\<close>

definition demo_sha :: "bytes \<Rightarrow> bytes32" where
  "demo_sha bs = Array32 (take 32 (bs @ replicate 32 0))"

definition demo_sign :: "bytes32 \<Rightarrow> bytes \<Rightarrow> bytes" where
  "demo_sign seed msg = bytes_of seed @ bytes_of (demo_sha msg)"

definition demo_libs :: libs where
  "demo_libs =
     \<lparr>sha256 = demo_sha, hex_encode = map (\<lambda>b. CHR ''x''), vk_from_bytes = (\<lambda>_. True),
      ed_verify = (\<lambda>pk msg sig. sig = demo_sign pk msg), ed_sign = demo_sign, ed_public = (\<lambda>s. s),
      bin_descriptor = (\<lambda>(n, k, r, v, p). [word_of_nat (unat v), if p then 1 else 0] @ bytes_of (node_bytes n) @ bytes_of k),
      bin_envelope_fields = (\<lambda>(t, f, i, l, c, r, b). bytes_of (node_bytes t) @ bytes_of (node_bytes f) @ [word_of_nat (unat i), l]),
      bin_envelope = (\<lambda>e. Inr (bytes_of (node_bytes (env_to e)))),
      unbin_envelope = (\<lambda>bs. Inl ''''),
      bin_invite = (\<lambda>(i, e, s). bytes_of (node_bytes i) @ [word_of_nat (unat e)] @ bytes_of (node_bytes s))\<rparr>"

lemma demo_libs_simps [simp]:
  "sha256 demo_libs = demo_sha" "vk_from_bytes demo_libs k" "ed_public demo_libs s = s"
  "ed_sign demo_libs = demo_sign" "ed_verify demo_libs k m sg = (sg = demo_sign k m)"
  by (simp_all add: demo_libs_def)

lemma bytes_of_demo_sha: "bytes_of (demo_sha bs) = take 32 (bs @ replicate 32 0)"
  by (simp add: demo_sha_def Array32_inverse)

lemma demo_sha_bytes_of [simp]: "demo_sha (bytes_of a) = a"
  by (simp add: demo_sha_def bytes_of_inverse)

lemma demo_libs_ok: "ed25519_ok demo_libs"
  by (simp add: ed25519_ok_def demo_sign_def)

lemma demo_keypair [simp]:
  "keypair_from_bytes demo_libs s = \<lparr>kp_signing = s, kp_verifying = s, kp_node_id = NodeId s\<rparr>"
  "keypair_from_seed demo_libs s = \<lparr>kp_signing = s, kp_verifying = s, kp_node_id = NodeId s\<rparr>"
  by (simp_all add: keypair_from_bytes_def keypair_from_seed_def derive_node_id_def Let_def)

subsection \<open>Signed objects\<close>

text \<open>
  What a signer and a verifier share: signing with a seed is accepted under its public key,
  and acceptance of a signature made for one object by another is only possible when the
  verification primitive accepts the other object's bytes.
\<close>

locale signed_object =
  fixes seal :: "'o \<Rightarrow> bytes32 \<Rightarrow> 'o"
    and accepts :: "'o \<Rightarrow> bytes32 \<Rightarrow> bool"
    and content :: "'o \<Rightarrow> 'c"
    and owned :: "'o \<Rightarrow> bytes32 \<Rightarrow> bool"
    and public :: "bytes32 \<Rightarrow> bytes32"
  assumes seal_accepted: "owned x (public k) \<Longrightarrow> accepts (seal x k) (public k)"
    and seal_content: "content (seal x k) = content x"
    and seal_owned: "owned (seal x k) p = owned x p"
begin

lemma reseal_accepted: "owned x (public k) \<Longrightarrow> accepts (seal (seal x k') k) (public k)"
  by (rule seal_accepted) (simp add: seal_owned)

lemma seal_chain_content: "content (foldl seal x ks) = content x"
  by (induction ks arbitrary: x) (simp_all add: seal_content)

lemma seal_chain_accepted:
  assumes "owned x (public k)" shows "accepts (foldl seal x (ks @ [k])) (public k)"
proof -
  have "owned (foldl seal x ks) p = owned x p" for p
    by (induction ks arbitrary: x) (simp_all add: seal_owned)
  then show ?thesis using assms by (simp add: seal_accepted)
qed

end

text \<open>Verification succeeds exactly when every check of the code passes.\<close>

lemma verify_descriptor_ok_iff:
  "is_ok (verify_descriptor L d) \<longleftrightarrow>
     vk_from_bytes L (d_pubkey d) \<and> derive_node_id L (bytes_of (d_pubkey d)) = d_node_id d \<and>
     length (d_signature d) = 64 \<and>
     ed_verify L (d_pubkey d) (descriptor_signing_payload L d) (d_signature d)"
  by (simp add: verify_descriptor_def Let_def)

lemma verify_envelope_ok_iff:
  "is_ok (verify_envelope L e pk) \<longleftrightarrow>
     env_signature e = [] \<or>
     vk_from_bytes L pk \<and> length (env_signature e) = 64 \<and>
     ed_verify L pk (envelope_signing_payload L e) (env_signature e)"
  by (simp add: verify_envelope_def Let_def)

lemma verify_bytes_ok_iff:
  "is_ok (verify_bytes L m s pk n) \<longleftrightarrow> vk_from_bytes L pk \<and> length s = 64 \<and> ed_verify L pk m s"
  by (simp add: verify_bytes_def Let_def)

lemma result_unit_ok: "is_ok r \<longleftrightarrow> r = Ok (() :: unit)"
  by (cases r) auto

interpretation sd: signed_object "sign_descriptor L" "\<lambda>d pk. d_pubkey d = pk \<and> is_ok (verify_descriptor L d)"
  "descriptor_signing_payload L"
  "\<lambda>d pk. ed25519_ok L \<and> d_pubkey d = pk \<and> d_node_id d = derive_node_id L (bytes_of pk)"
  "ed_public L" for L :: "'a libs_scheme"
proof
  fix d :: descriptor and k
  assume "ed25519_ok L \<and> d_pubkey d = ed_public L k \<and>
    d_node_id d = derive_node_id L (bytes_of (ed_public L k))"
  then show "d_pubkey (sign_descriptor L d k) = ed_public L k \<and>
      is_ok (verify_descriptor L (sign_descriptor L d k))"
    using ed25519_okD [of L k]
    by (simp add: verify_descriptor_ok_iff sign_descriptor_def Let_def)
qed (simp_all add: sign_descriptor_def Let_def)

interpretation se: signed_object "sign_envelope L" "\<lambda>e pk. is_ok (verify_envelope L e pk)"
  "envelope_signing_payload L" "\<lambda>e pk. ed25519_ok L" "ed_public L" for L :: "'a libs_scheme"
proof
  fix e k
  assume "ed25519_ok L"
  then show "is_ok (verify_envelope L (sign_envelope L e k) (ed_public L k))"
    using ed25519_okD [of L k] by (simp add: verify_envelope_ok_iff sign_envelope_def Let_def)
qed (simp_all add: sign_envelope_def Let_def)

interpretation sb: signed_object "\<lambda>(m, s) k. (m, sign_bytes L m k)"
  "\<lambda>(m, s) pk. \<forall>n. is_ok (verify_bytes L m s pk n)" fst "\<lambda>_ pk. ed25519_ok L" "ed_public L"
  for L :: "'a libs_scheme"
  by unfold_locales (auto simp: verify_bytes_ok_iff sign_bytes_def ed25519_okD)

definition keypair_wf :: "'a libs_scheme \<Rightarrow> node_keypair \<Rightarrow> bool" where
  "keypair_wf L kp \<longleftrightarrow>
     kp_verifying kp = ed_public L (kp_signing kp) \<and>
     kp_node_id kp = derive_node_id L (bytes_of (kp_verifying kp))"

lemma keypair_wf_made [simp]:
  "keypair_wf L (keypair_from_bytes L s)" "keypair_wf L (keypair_from_seed L s)"
  "keypair_wf L (keypair_generate L s)"
  by (simp_all add: keypair_wf_def keypair_from_bytes_def keypair_from_seed_def keypair_generate_def Let_def)

lemma signed_by_keypair:
  assumes "ed25519_ok L" "keypair_wf L kp" "d_pubkey d = raw_public kp" "d_node_id d = kp_node_id kp"
  shows "verify_descriptor L (sign_descriptor L d (kp_signing kp)) = Ok ()"
  using sd.seal_accepted [of L d "kp_signing kp"] assms
  by (simp add: keypair_wf_def raw_public_def result_unit_ok)

subsection \<open>Properties\<close>

text \<open>
  A descriptor that carries a key pair's public key and node id verifies after it is signed
  with that key pair, whatever its signature field held before and however many other signatures
  were put on it in between; and a descriptor verifies only if its node id is the hash of its
  public key, so that a descriptor can never be passed off under an id that its key does not own.
\<close>

theorem descriptor_sign_verify:
  assumes "ed25519_ok L" "keypair_wf L kp" "d_pubkey d = raw_public kp" "d_node_id d = kp_node_id kp"
  shows "verify_descriptor L (sign_descriptor L (foldl (sign_descriptor L) d others) (kp_signing kp)) = Ok () \<and>
    (\<forall>d'. is_ok (verify_descriptor L d') \<longrightarrow>
       d_node_id d' = derive_node_id L (bytes_of (d_pubkey d')) \<and> length (d_signature d') = 64 \<and>
       ed_verify L (d_pubkey d') (descriptor_signing_payload L d') (d_signature d'))"
  using sd.seal_chain_accepted [of L d "kp_signing kp" others] assms
  by (auto simp: keypair_wf_def raw_public_def result_unit_ok [symmetric] verify_descriptor_ok_iff)

theorem descriptor_sign_verify_witness:
  "let kp = keypair_from_seed demo_libs (fill32 7);
       d = \<lparr>d_node_id = kp_node_id kp, d_pubkey = raw_public kp, d_reach = ReachList [], d_version = 1,
            d_provisional = False, d_signature = replicate 64 0\<rparr>
   in verify_descriptor demo_libs (sign_descriptor demo_libs d (fill32 7)) = Ok ()"
  using descriptor_sign_verify [OF demo_libs_ok keypair_wf_made(2) [of demo_libs "fill32 7"], where others = "[]"
      and d = "\<lparr>d_node_id = kp_node_id (keypair_from_seed demo_libs (fill32 7)),
        d_pubkey = raw_public (keypair_from_seed demo_libs (fill32 7)), d_reach = ReachList [],
        d_version = 1, d_provisional = False, d_signature = replicate 64 0\<rparr>"]
  by (simp add: Let_def keypair_from_seed_def keypair_from_bytes_def)

text \<open>
  An invite made with a key pair verifies at exactly the times up to and including its
  expiry; after the expiry the error names the invitee.
\<close>

theorem invite_roundtrip:
  assumes "ed25519_ok L" "keypair_wf L kp"
  shows "verify_invite L (create_invite L kp invitee expires) now =
    (if now \<le> expires then Ok () else Err (InvalidSignature (node_id_to_string L invitee)))"
  using sb.seal_accepted [of L "(invite_payload L invitee expires (kp_node_id kp), [])" "kp_signing kp"] assms
  by (auto simp: verify_invite_def create_invite_def Let_def keypair_wf_def raw_public_def result_unit_ok)

theorem invite_roundtrip_witness:
  "let kp = keypair_from_seed demo_libs (fill32 7); token = create_invite demo_libs kp (idn 9) 100
   in verify_invite demo_libs token 100 = Ok () \<and> verify_invite demo_libs token 101 \<noteq> Ok ()"
  using invite_roundtrip [OF demo_libs_ok keypair_wf_made(2) [of demo_libs "fill32 7"], where invitee = "idn 9"
      and expires = 100 and now = 100]
    invite_roundtrip [OF demo_libs_ok keypair_wf_made(2) [of demo_libs "fill32 7"], where invitee = "idn 9"
      and expires = 100 and now = 101]
  by (simp add: Let_def)

text \<open>
  \<^verbatim>\<open>verify_invite\<close> does not tie the issuer's id to the issuer's key: a token for any invitee
  and expiry that names any issuer id is accepted when it is signed with a key of the
  attacker's choice that is put into its \<^verbatim>\<open>issuer_pk\<close> field.
\<close>

theorem invite_issuer_not_bound:
  assumes "ed25519_ok L" "now \<le> expires"
  shows "verify_invite L
     \<lparr>inv_invitee_id = invitee, inv_expires_at = expires, inv_issuer_id = victim,
      inv_issuer_pk = ed_public L attacker,
      inv_signature = sign_bytes L (invite_payload L invitee expires victim) attacker\<rparr> now = Ok ()"
  using sb.seal_accepted [of L "(invite_payload L invitee expires victim, [])" attacker] assms
  by (auto simp: verify_invite_def Let_def result_unit_ok)

theorem invite_issuer_not_bound_witness:
  "let token = \<lparr>inv_invitee_id = idn 1, inv_expires_at = 5, inv_issuer_id = idn 2,
      inv_issuer_pk = ed_public demo_libs (fill32 66),
      inv_signature = sign_bytes demo_libs (invite_payload demo_libs (idn 1) 5 (idn 2)) (fill32 66)\<rparr>
   in verify_invite demo_libs token 3 = Ok () \<and>
      derive_node_id demo_libs (bytes_of (inv_issuer_pk token)) \<noteq> inv_issuer_id token"
  using invite_issuer_not_bound [OF demo_libs_ok, of 3 5 "idn 1" "idn 2" "fill32 66"]
  by (simp add: Let_def derive_node_id_def)

end
