(* ===== verification/Codec.thy ===== *)
theory Codec
  imports Crypto
begin

section \<open>Framing\<close>

text \<open>
  \<^verbatim>\<open>zona-p2p-transport/src/codec.rs\<close>: envelopes as frames with a four-byte big-endian length.  The
  buffer \<^verbatim>\<open>BytesMut\<close> is a byte list; \<^verbatim>\<open>decode\<close> returns what is left of it.  \<open>feed\<close> is a
  connection that receives a byte stream in pieces of any size and calls the decoder after each.
\<close>

subsection \<open>The codec\<close>

definition MAX_FRAME :: nat where
  "MAX_FRAME = 4 * 1024 * 1024"

text \<open>\<^verbatim>\<open>put_u32\<close> and \<^verbatim>\<open>u32::from_be_bytes\<close>.\<close>

definition u32_be_bytes :: "nat \<Rightarrow> bytes" where
  "u32_be_bytes n =
     [word_of_nat (n div 256 ^ 3), word_of_nat (n div 256 ^ 2), word_of_nat (n div 256), word_of_nat n]"

definition decode ::
  "'a libs_scheme \<Rightarrow> bytes \<Rightarrow> (envelope option, io_error) result \<times> bytes" where
  "decode L src =
     (if length src < 4 then (Ok None, src)
      else
        let len = be_nat [src ! 0, src ! 1, src ! 2, src ! 3]
        in if MAX_FRAME < len then (Err (InvalidData (''frame too large: '' @ nat_to_string len)), src)
           else if length src < 4 + len then (Ok None, src)
           else
             let src = drop 4 src; data = take len src; src = drop len src
             in case unbin_envelope L data of
                  Inl e \<Rightarrow> (Err (InvalidData e), src)
                | Inr envelope \<Rightarrow> (Ok (Some envelope), src))"

definition encode ::
  "'a libs_scheme \<Rightarrow> envelope \<Rightarrow> bytes \<Rightarrow> (unit, io_error) result \<times> bytes" where
  "encode L item dst =
     (case bin_envelope L item of
        Inl e \<Rightarrow> (Err (InvalidData e), dst)
      | Inr data \<Rightarrow>
          if MAX_FRAME < length data
          then (Err (InvalidData ''serialised envelope exceeds MAX_FRAME''), dst)
          else (Ok (), dst @ u32_be_bytes (length data) @ data))"

subsection \<open>Frames\<close>

lemma decode_take4:
  assumes "4 \<le> length src"
  shows "decode L src =
    (let len = be_nat (take 4 src)
     in if MAX_FRAME < len then (Err (InvalidData (''frame too large: '' @ nat_to_string len)), src)
        else if length src < 4 + len then (Ok None, src)
        else case unbin_envelope L (take len (drop 4 src)) of
               Inl e \<Rightarrow> (Err (InvalidData e), drop (len + 4) src)
             | Inr envelope \<Rightarrow> (Ok (Some envelope), drop (len + 4) src))"
proof -
  have "take 4 src = [src ! 0, src ! 1, src ! 2, src ! 3]"
    using assms by (intro nth_equalityI) (auto simp: less_Suc_eq numeral_eq_Suc)
  then show ?thesis using assms by (simp add: decode_def Let_def del: be_nat.simps split: sum.split)
qed

lemma length_u32_be_bytes [simp]: "length (u32_be_bytes n) = 4"
  by (simp add: u32_be_bytes_def)

lemma be_nat_u32_be_bytes: assumes "n < 2 ^ 32" shows "be_nat (u32_be_bytes n) = n"
proof -
  let ?a = "n div 256" and ?b = "n div 256 div 256" and ?c = "n div 256 div 256 div 256"
  have quot: "n div 256 ^ 2 = ?b" "n div 256 ^ 3 = ?c" by (simp_all flip: div_mult2_eq)
  have "?c < 256" using assms by (simp add: less_mult_imp_div_less)
  then have "be_nat (u32_be_bytes n) = ?c * 16777216 + (?b mod 256 * 65536 + (?a mod 256 * 256 + n mod 256))"
    unfolding u32_be_bytes_def quot by (simp add: unat_of_nat)
  moreover have "n = 256 * ?a + n mod 256" "?a = 256 * ?b + ?a mod 256" "?b = 256 * ?c + ?b mod 256"
    by (simp_all only: mult_div_mod_eq)
  ultimately show ?thesis by linarith
qed

definition frame :: "bytes \<Rightarrow> bytes" where
  "frame data = u32_be_bytes (length data) @ data"

lemma MAX_FRAME_less: "n \<le> MAX_FRAME \<Longrightarrow> n < 2 ^ 32"
  by (simp add: MAX_FRAME_def)

lemma decode_length_prefix:
  assumes "length data \<le> MAX_FRAME"
  shows "be_nat [(frame data @ rest) ! 0, (frame data @ rest) ! 1, (frame data @ rest) ! 2, (frame data @ rest) ! 3]
    = length data"
  using be_nat_u32_be_bytes [OF MAX_FRAME_less [OF assms]] by (simp add: frame_def u32_be_bytes_def nth_append)

lemma decode_frame:
  assumes "length data \<le> MAX_FRAME" "unbin_envelope L data = Ok e"
  shows "decode L (frame data @ rest) = (Ok (Some e), rest)"
  using decode_length_prefix [OF assms(1), of rest] assms
  by (simp add: decode_def Let_def frame_def)

lemma decode_Some_shorter: "decode L src = (Ok (Some e), rest) \<Longrightarrow> length rest < length src"
  by (auto simp: decode_def Let_def split: if_splits sum.splits)

text \<open>What the decoder returned does not change when more bytes follow.\<close>

lemma decode_extend:
  assumes "decode L src = (r, rest)" "r \<noteq> Ok None"
  shows "decode L (src @ tail) = (r, rest @ tail)"
  using assms by (auto simp: decode_def Let_def nth_append split: if_splits sum.splits)

lemma decode_None_same: "decode L src = (Ok None, rest) \<Longrightarrow> rest = src"
  by (auto simp: decode_def Let_def split: if_splits sum.splits)

text \<open>Decode until the buffer holds no further complete frame, stopping at the first error.\<close>

function drain :: "'a libs_scheme \<Rightarrow> bytes \<Rightarrow> (envelope, io_error) result list \<times> bytes" where
  "drain L src =
     (case decode L src of
        (Inr None, rest) \<Rightarrow> ([], rest)
      | (Inr (Some e), rest) \<Rightarrow> (let (es, rest') = drain L rest in (Ok e # es, rest'))
      | (Inl err, rest) \<Rightarrow> ([Err err], rest))"
  by pat_completeness auto

termination drain
  by (relation "measure (\<lambda>(L, src). length src)") (auto dest: decode_Some_shorter [OF sym])

declare drain.simps [simp del]

definition good_frames :: "'a libs_scheme \<Rightarrow> (bytes \<times> envelope) list \<Rightarrow> bool" where
  "good_frames L fs \<longleftrightarrow> list_all (\<lambda>(d, e). length d \<le> MAX_FRAME \<and> unbin_envelope L d = Ok e) fs"

definition frames :: "(bytes \<times> envelope) list \<Rightarrow> bytes" where
  "frames fs = concat (map (\<lambda>f. frame (fst f)) fs)"

lemma frames_simps [simp]: "frames [] = []" "frames (f # fs) = frame (fst f) @ frames fs"
  by (simp_all add: frames_def)

lemma drain_Cons:
  "decode L a = (Ok (Some e), rest) \<Longrightarrow> drain L a = (Ok e # fst (drain L rest), snd (drain L rest))"
  by (simp add: drain.simps [of L a] case_prod_beta' Let_def)

lemma drain_frames:
  assumes "good_frames L fs" "decode L rest = (Ok None, rest)"
  shows "drain L (frames fs @ rest) = (map Ok (map snd fs), rest)"
  using assms(1)
proof (induction fs)
  case Nil
  show ?case using assms(2) by (simp add: drain.simps)
next
  case (Cons f fs)
  have "decode L (frame (fst f) @ frames fs @ rest) = (Ok (Some (snd f)), frames fs @ rest)"
    using Cons.prems by (intro decode_frame) (auto simp: good_frames_def)
  from drain_Cons [OF this] Cons show ?case by (simp add: good_frames_def)
qed

text \<open>A connection's receiving side: append a received piece to the buffer, then drain it.\<close>

fun feed :: "'a libs_scheme \<Rightarrow> bytes \<Rightarrow> bytes list \<Rightarrow> (envelope, io_error) result list \<times> bytes" where
  "feed L buf [] = ([], buf)"
| "feed L buf (c # cs) =
     (let (es, buf) = drain L (buf @ c); (es', buf) = feed L buf cs in (es @ es', buf))"

lemma feed_Cons:
  "feed L buf (c # cs) =
    (fst (drain L (buf @ c)) @ fst (feed L (snd (drain L (buf @ c))) cs), snd (feed L (snd (drain L (buf @ c))) cs))"
  by (simp add: Let_def case_prod_beta')

declare feed.simps(2) [simp del]

definition no_errors :: "(envelope, io_error) result list \<Rightarrow> bool" where
  "no_errors es \<longleftrightarrow> list_all is_ok es"

text \<open>Draining a buffer piece by piece.\<close>

lemma drain_append:
  "no_errors (fst (drain L a)) \<Longrightarrow>
   drain L (a @ b) = (fst (drain L a) @ fst (drain L (snd (drain L a) @ b)), snd (drain L (snd (drain L a) @ b)))
   \<and> decode L (snd (drain L a)) = (Ok None, snd (drain L a))"
proof (induction "length a" arbitrary: a rule: less_induct)
  case less
  obtain r rest where d: "decode L a = (r, rest)" by fastforce
  consider err where "r = Inl err" | "r = Ok None" | e where "r = Ok (Some e)" by (cases r) auto
  then show ?case
  proof cases
    case 1
    then show ?thesis using less.prems d by (simp add: drain.simps [of L a] no_errors_def)
  next
    case 2
    then show ?thesis using d decode_None_same [of L a rest] by (simp add: drain.simps [of L a])
  next
    case 3
    note a = drain_Cons [OF d [unfolded 3]]
    have "decode L (a @ b) = (Ok (Some e), rest @ b)" using decode_extend [OF d, of b] 3 by simp
    note ab = drain_Cons [OF this]
    have "length rest < length a" "no_errors (fst (drain L rest))"
      using decode_Some_shorter d 3 less.prems by (auto simp: a no_errors_def)
    from less.hyps [OF this] show ?thesis by (simp add: a ab)
  qed
qed

lemma drain_error_stays: "no_errors (fst (drain L (a @ b))) \<Longrightarrow> no_errors (fst (drain L a))"
proof (induction "length a" arbitrary: a rule: less_induct)
  case less
  obtain r rest where d: "decode L a = (r, rest)" by fastforce
  consider err where "r = Inl err" | "r = Ok None" | e where "r = Ok (Some e)" by (cases r) auto
  then show ?case
  proof cases
    case 1
    then show ?thesis using less.prems decode_extend [OF d, of b] by (simp add: drain.simps [of L "a @ b"] no_errors_def)
  next
    case 2
    then show ?thesis using d by (simp add: drain.simps [of L a] no_errors_def)
  next
    case 3
    have "decode L (a @ b) = (Ok (Some e), rest @ b)" using decode_extend [OF d, of b] 3 by simp
    from drain_Cons [OF this] less.prems have "no_errors (fst (drain L (rest @ b)))" by (simp add: no_errors_def)
    with less.hyps decode_Some_shorter d 3 have "no_errors (fst (drain L rest))" by blast
    then show ?thesis using drain_Cons [OF d [unfolded 3]] by (simp add: no_errors_def)
  qed
qed

lemma feed_is_drain:
  "no_errors (fst (drain L (buf @ concat cs))) \<Longrightarrow> decode L buf = (Ok None, buf) \<Longrightarrow>
   feed L buf cs = drain L (buf @ concat cs)"
proof (induction cs arbitrary: buf)
  case Nil
  then show ?case by (simp add: drain.simps)
next
  case (Cons c cs)
  let ?d = "drain L (buf @ c)"
  have "no_errors (fst ?d)" using Cons.prems(1) drain_error_stays [of L "buf @ c" "concat cs"] by simp
  note split = drain_append [OF this, of "concat cs"]
  have "no_errors (fst (drain L (snd ?d @ concat cs)))"
    using Cons.prems(1) split by (simp add: no_errors_def)
  from Cons.IH [OF this] split show ?case by (simp add: feed_Cons)
qed

subsection \<open>Properties\<close>

text \<open>The bytes that the encoder writes for a sequence of envelopes, or its first error.\<close>

fun encode_all :: "'a libs_scheme \<Rightarrow> envelope list \<Rightarrow> bytes \<Rightarrow> (unit, io_error) result \<times> bytes" where
  "encode_all L [] dst = (Ok (), dst)"
| "encode_all L (e # es) dst =
     (case encode L e dst of (Inl err, dst) \<Rightarrow> (Err err, dst) | (Inr _, dst) \<Rightarrow> encode_all L es dst)"

lemma encode_all_frames:
  assumes "encode_all L es dst = (Ok (), wire)"
    "\<And>e d. e \<in> set es \<Longrightarrow> bin_envelope L e = Ok d \<Longrightarrow> unbin_envelope L d = Ok e"
  shows "\<exists>fs. map snd fs = es \<and> wire = dst @ frames fs \<and> good_frames L fs"
  using assms
proof (induction es arbitrary: dst)
  case Nil
  then show ?case by (intro exI [of _ "[]"]) (simp add: good_frames_def)
next
  case (Cons e es)
  then obtain d where d: "bin_envelope L e = Ok d" "length d \<le> MAX_FRAME"
      "encode_all L es (dst @ frame d) = (Ok (), wire)"
    by (auto simp: encode_def frame_def split: sum.splits prod.splits if_splits)
  have "\<exists>fs. map snd fs = es \<and> wire = (dst @ frame d) @ frames fs \<and> good_frames L fs"
    using Cons.prems(2) by (intro Cons.IH [OF d(3)]) simp
  then obtain fs where fs: "map snd fs = es" "wire = (dst @ frame d) @ frames fs" "good_frames L fs" by blast
  then show ?case using d Cons.prems(2) [of e d] by (intro exI [of _ "(d, e) # fs"]) (simp add: good_frames_def)
qed

text \<open>
  Whatever envelopes are encoded into a stream, and in whatever pieces the stream arrives,
  the receiver decodes exactly these envelopes in order, without error, and is left with an
  empty buffer; given that \<^verbatim>\<open>bincode\<close> reads back what it wrote for them.
\<close>

theorem codec_stream_roundtrip:
  assumes "encode_all L es [] = (Ok (), wire)" "concat chunks = wire"
    and "\<And>e d. e \<in> set es \<Longrightarrow> bin_envelope L e = Ok d \<Longrightarrow> unbin_envelope L d = Ok e"
  shows "feed L [] chunks = (map Ok es, [])"
proof -
  from encode_all_frames [OF assms(1,3)] obtain fs where
    fs: "map snd fs = es" "wire = frames fs" "good_frames L fs" by auto
  have "drain L wire = (map Ok es, [])"
    using drain_frames [OF fs(3), of "[]"] fs(1,2) by (simp add: decode_def)
  moreover have "no_errors (map Ok es)" by (simp add: no_errors_def list_all_iff)
  ultimately show ?thesis using feed_is_drain [of L "[]" chunks] assms(2) by (simp add: decode_def)
qed

definition demo_envelope :: envelope where
  "demo_envelope = \<lparr>env_to = idn 1, env_from = idn 2, env_message_id = 3, env_ttl = 4, env_class = Normal,
     env_route_fork = False, env_body = Ping 5, env_signature = []\<rparr>"

theorem codec_stream_roundtrip_witness:
  "let L = demo_libs\<lparr>bin_envelope := (\<lambda>e. if e = demo_envelope then Ok [9, 8] else Err []),
             unbin_envelope := (\<lambda>bs. if bs = [9, 8] then Ok demo_envelope else Err [])\<rparr>
   in feed L [] [[0, 0], [0], [2, 9], [8, 0, 0, 0, 2], [9, 8]] = ([Ok demo_envelope, Ok demo_envelope], [])"
proof -
  let ?L = "demo_libs\<lparr>bin_envelope := (\<lambda>e. if e = demo_envelope then Ok [9, 8] else Err []),
             unbin_envelope := (\<lambda>bs. if bs = [9, 8] then Ok demo_envelope else Err [])\<rparr>"
  have "encode_all ?L [demo_envelope, demo_envelope] [] = (Ok (), [0, 0, 0, 2, 9, 8, 0, 0, 0, 2, 9, 8])"
    by (simp add: encode_def MAX_FRAME_def u32_be_bytes_def)
  from codec_stream_roundtrip [OF this, of "[[0, 0], [0], [2, 9], [8, 0, 0, 0, 2], [9, 8]]"]
  show ?thesis by (simp add: Let_def split: if_splits)
qed

text \<open>
  The decoder never reads beyond a frame: an incomplete frame leaves the buffer untouched and
  asks for more, a frame announced as longer than 4 MiB is refused before its body is awaited,
  and a decoded envelope consumes exactly the four length bytes and that many bytes.
\<close>

theorem decode_frame_discipline:
  "(decode L src = (Ok None, rest) \<longrightarrow>
     rest = src \<and> (length src < 4 \<or> length src < 4 + be_nat (take 4 src) \<and> be_nat (take 4 src) \<le> MAX_FRAME)) \<and>
   (decode L src = (Ok (Some e), rest) \<longrightarrow>
     4 \<le> length src \<and> be_nat (take 4 src) \<le> MAX_FRAME \<and>
     src = take 4 src @ take (be_nat (take 4 src)) (drop 4 src) @ rest \<and>
     unbin_envelope L (take (be_nat (take 4 src)) (drop 4 src)) = Ok e) \<and>
   (4 \<le> length src \<and> MAX_FRAME < be_nat (take 4 src) \<longrightarrow>
     decode L src = (Err (InvalidData (''frame too large: '' @ nat_to_string (be_nat (take 4 src)))), src))"
proof (cases "4 \<le> length src")
  case True
  define len where "len = be_nat (take 4 src)"
  have "src = take 4 src @ take len (drop 4 src) @ drop (len + 4) src"
    by (metis append_take_drop_id drop_drop)
  then show ?thesis
    using True unfolding decode_take4 [OF True] len_def [symmetric]
    by (auto simp: Let_def split: if_splits sum.splits)
qed (auto simp: decode_def)

theorem decode_frame_discipline_witness:
  "decode demo_libs [1, 0, 0, 0, 7] =
     (Err (InvalidData (''frame too large: '' @ nat_to_string 16777216)), [1, 0, 0, 0, 7])"
  using decode_frame_discipline [of demo_libs "[1, 0, 0, 0, 7]"] by (simp add: MAX_FRAME_def)

end
