(* ===== verification/Connection.thy ===== *)
theory Connection
  imports Codec "HOL-Library.Sublist"
begin

section \<open>Connections\<close>

text \<open>
  \<^verbatim>\<open>zona-p2p-transport/src/connection.rs\<close> and \<^verbatim>\<open>listener.rs\<close>: envelopes over one TCP stream, and the listener
  that yields streams.  \<^verbatim>\<open>Framed\<close> of \<^verbatim>\<open>tokio-util\<close> is a parameter over any type of streams; what is relied on
  (\<open>framed_ok\<close>) is that it hands to the stream what the encoder writes, all of it or after an
  error of the stream a part, and returns what the decoder reads from the bytes that arrive, then the end.
\<close>

subsection \<open>A peer's connection\<close>

record 's framed_lib =
  fr_send :: "envelope \<Rightarrow> 's \<Rightarrow> (unit, io_error) result \<times> 's"
  fr_next :: "'s \<Rightarrow> (envelope, io_error) result option \<times> 's"

record 's peer_connection =
  pc_remote_id :: node_id
  pc_framed :: 's

definition PeerConnection_new :: "('stream \<Rightarrow> 's) \<Rightarrow> node_id \<Rightarrow> 'stream \<Rightarrow> 's peer_connection" where
  "PeerConnection_new framed_new remote_id stream = \<lparr>pc_remote_id = remote_id, pc_framed = framed_new stream\<rparr>"

definition conn_send ::
  "'s framed_lib \<Rightarrow> 's peer_connection \<Rightarrow> envelope \<Rightarrow> (unit, protocol_error) result \<times> 's peer_connection" where
  "conn_send F c envelope =
     (let (r, s) = fr_send F envelope (pc_framed c) in (map_sum Io (\<lambda>u. u) r, c\<lparr>pc_framed := s\<rparr>))"

definition conn_recv ::
  "'s framed_lib \<Rightarrow> 's peer_connection \<Rightarrow> (envelope, protocol_error) result option \<times> 's peer_connection" where
  "conn_recv F c = (let (r, s) = fr_next F (pc_framed c) in (map_option (map_sum Io (\<lambda>e. e)) r, c\<lparr>pc_framed := s\<rparr>))"

subsection \<open>The listener\<close>

text \<open>The sockets of \<^verbatim>\<open>tokio\<close>: binding, the bound address, and the next stream with its address.\<close>

record ('addr, 'l, 'stream) tcp_lib =
  tcp_bind :: "'addr \<Rightarrow> ('l, io_error) result"
  tcp_local_addr :: "'l \<Rightarrow> ('addr, io_error) result"
  tcp_accept :: "'l \<Rightarrow> ('stream \<times> 'addr, io_error) result"

record ('addr, 'l) listener =
  li_inner :: 'l
  li_local :: 'addr

definition listener_bind ::
  "('addr, 'l, 'stream) tcp_lib \<Rightarrow> 'addr \<Rightarrow> (('addr, 'l) listener, protocol_error) result" where
  "listener_bind T addr =
     (case tcp_bind T addr of
        Inl e \<Rightarrow> Err (Io e)
      | Inr inner \<Rightarrow>
          (case tcp_local_addr T inner of
             Inl e \<Rightarrow> Err (Io e)
           | Inr local \<Rightarrow> Ok \<lparr>li_inner = inner, li_local = local\<rparr>))"

definition listener_accept ::
  "('addr, 'l, 'stream) tcp_lib \<Rightarrow> ('addr, 'l) listener \<Rightarrow> ('stream \<times> 'addr, protocol_error) result" where
  "listener_accept T l = map_sum Io (\<lambda>s. s) (tcp_accept T (li_inner l))"

subsection \<open>What is relied on\<close>

text \<open>
  \<open>written\<close> is what the stream was given so far, \<open>arriving\<close> what is still to be read until its end, and
  \<open>intact\<close> says that there was no error on it yet: after one, nothing is promised.
\<close>

record 's framed_view =
  written :: "'s \<Rightarrow> bytes"
  arriving :: "'s \<Rightarrow> bytes"
  intact :: "'s \<Rightarrow> bool"

definition framed_ok :: "'a libs_scheme \<Rightarrow> 's framed_lib \<Rightarrow> 's framed_view \<Rightarrow> bool" where
  "framed_ok L F V \<longleftrightarrow>
     (\<forall>e s. intact V s \<longrightarrow> (let (r, s') = fr_send F e s in
        case encode L e [] of
          (Inl err, _) \<Rightarrow> r = Err err \<and> written V s' = written V s \<and> intact V s'
        | (Inr _, bs) \<Rightarrow>
            r = Ok () \<and> written V s' = written V s @ bs \<and> intact V s' \<or>
            (\<exists>m n. r = Err (OtherIo m) \<and> written V s' = written V s @ take n bs))) \<and>
     (\<forall>s. intact V s \<longrightarrow> (let (r, s') = fr_next F s in
        (\<exists>m. r = Some (Err (OtherIo m))) \<or>
        (case decode L (arriving V s) of
           (Inl err, _) \<Rightarrow> r = Some (Err err)
         | (Inr (Some e), rest) \<Rightarrow> r = Some (Ok e) \<and> arriving V s' = rest \<and> intact V s'
         | (Inr None, _) \<Rightarrow> arriving V s = [] \<and> r = None)))"

lemma framed_ok_send:
  assumes "framed_ok L F V" "intact V (pc_framed c)" "conn_send F c e = (r, c')"
  obtains
    (refused) err bs where "encode L e [] = (Err err, bs)" "r = Err (Io err)"
      "written V (pc_framed c') = written V (pc_framed c)" "intact V (pc_framed c')"
  | (sent) bs where "encode L e [] = (Ok (), bs)" "r = Ok ()"
      "written V (pc_framed c') = written V (pc_framed c) @ bs" "intact V (pc_framed c')"
  | (broken) bs m n where "encode L e [] = (Ok (), bs)" "r = Err (Io (OtherIo m))"
      "written V (pc_framed c') = written V (pc_framed c) @ take n bs"
proof -
  obtain r' s' where s: "fr_send F e (pc_framed c) = (r', s')" by fastforce
  then have "r = map_sum Io (\<lambda>u. u) r'" "pc_framed c' = s'" using assms(3) by (auto simp: conn_send_def)
  then show ?thesis
    using conjunct1 [OF assms(1) [unfolded framed_ok_def], rule_format, OF assms(2), of e] s that
    by (auto simp: Let_def split: prod.splits sum.splits)
qed

lemma framed_ok_recv:
  assumes "framed_ok L F V" "intact V (pc_framed c)" "conn_recv F c = (r, c')"
  obtains
    (unread) m where "r = Some (Err (Io (OtherIo m)))"
  | (malformed) err rest where "decode L (arriving V (pc_framed c)) = (Err err, rest)" "r = Some (Err (Io err))"
  | (received) e rest where "decode L (arriving V (pc_framed c)) = (Ok (Some e), rest)" "r = Some (Ok e)"
      "arriving V (pc_framed c') = rest" "intact V (pc_framed c')"
  | (ended) "arriving V (pc_framed c) = []" "r = None"
proof -
  obtain r' s' where s: "fr_next F (pc_framed c) = (r', s')" by fastforce
  then have "r = map_option (map_sum Io (\<lambda>e. e)) r'" "pc_framed c' = s'" using assms(3) by (auto simp: conn_recv_def)
  then show ?thesis
    using conjunct2 [OF assms(1) [unfolded framed_ok_def], rule_format, OF assms(2)] s that
    by (auto simp: Let_def split: prod.splits sum.splits option.splits)
qed

subsection \<open>Both ends\<close>

text \<open>A sender that gives up after an error of the stream, and a receiver that stops at the end or an error.\<close>

fun conn_sends ::
  "'s framed_lib \<Rightarrow> 's peer_connection \<Rightarrow> envelope list \<Rightarrow> (unit, protocol_error) result list \<times> 's peer_connection" where
  "conn_sends F c [] = ([], c)"
| "conn_sends F c (e # es) =
     (let (r, c) = conn_send F c e
      in case r of
           Inl (Io (OtherIo _)) \<Rightarrow> ([r], c)
         | _ \<Rightarrow> (let (rs, c) = conn_sends F c es in (r # rs, c)))"

datatype recv_end = StillOpen | Closed | Failed protocol_error

fun conn_recvs :: "'s framed_lib \<Rightarrow> nat \<Rightarrow> 's peer_connection \<Rightarrow> envelope list \<times> recv_end" where
  "conn_recvs F 0 c = ([], StillOpen)"
| "conn_recvs F (Suc n) c =
     (case conn_recv F c of
        (None, _) \<Rightarrow> ([], Closed)
      | (Some (Inl e), _) \<Rightarrow> ([], Failed e)
      | (Some (Inr envelope), c) \<Rightarrow> (let (es, ending) = conn_recvs F n c in (envelope # es, ending)))"

definition stream_failed :: "(unit, protocol_error) result \<Rightarrow> bool" where
  "stream_failed r \<longleftrightarrow> (\<exists>m. r = Err (Io (OtherIo m)))"

definition sent :: "envelope list \<Rightarrow> (unit, protocol_error) result list \<Rightarrow> envelope list" where
  "sent es rs = map fst (filter (\<lambda>(_, r). is_ok r) (zip es rs))"

definition broken :: "envelope list \<Rightarrow> (unit, protocol_error) result list \<Rightarrow> envelope list" where
  "broken es rs = map fst (filter (\<lambda>(_, r). stream_failed r) (zip es rs))"


text \<open>What a sender that gives up leaves on the stream: the frames that were sent, then part of one.\<close>

lemma sends_written:
  assumes "framed_ok L F V" "intact V (pc_framed a)" "conn_sends F a es = (rs, a')"
    and "\<And>e d. e \<in> set es \<Longrightarrow> bin_envelope L e = Ok d \<Longrightarrow> unbin_envelope L d = Ok e"
  shows "\<exists>fs d n. good_frames L fs \<and> map snd fs = sent es rs \<and>
    (broken es rs = [] \<and> written V (pc_framed a') = written V (pc_framed a) @ frames fs \<or>
     (\<exists>e. broken es rs = [e] \<and> good_frames L [(d, e)] \<and>
        written V (pc_framed a') = written V (pc_framed a) @ frames fs @ take n (frame d)))"
  using assms(2-)
proof (induction es arbitrary: a a' rs)
  case Nil
  then show ?case by (intro exI [of _ "[]"]) (simp add: good_frames_def sent_def broken_def)
next
  case (Cons e es)
  obtain r a1 where step: "conn_send F a e = (r, a1)" by fastforce
  obtain rs1 a2 where rest: "conn_sends F a1 es = (rs1, a2)" by fastforce
  have data: "\<exists>d. bs = frame d \<and> good_frames L [(d, e)]" if "encode L e [] = (Ok (), bs)" for bs
    using that Cons.prems(3) [of e]
    by (auto simp: encode_def frame_def good_frames_def split: sum.splits if_splits)
  from assms(1) Cons.prems(1) step show ?case
  proof (cases rule: framed_ok_send)
    case (broken bs m n)
    then obtain d where "bs = frame d" "good_frames L [(d, e)]" using data by blast
    then show ?thesis
      using broken Cons.prems(2) step
      by (intro exI [of _ "[]"] exI [of _ d] exI [of _ n]) (auto simp: good_frames_def sent_def broken_def stream_failed_def is_ok_def)
  next
    case (sent bs)
    then obtain d where d: "bs = frame d" "good_frames L [(d, e)]" using data by blast
    have all: "rs = r # rs1" "a' = a2" using Cons.prems(2) step rest sent by (auto)
    from Cons.IH [OF sent(4) rest] Cons.prems(3) obtain fs d' n where
      IH: "good_frames L fs" "map snd fs = Connection.sent es rs1"
        "Connection.broken es rs1 = [] \<and> written V (pc_framed a2) = written V (pc_framed a1) @ frames fs \<or>
         (\<exists>e. Connection.broken es rs1 = [e] \<and> good_frames L [(d', e)] \<and>
            written V (pc_framed a2) = written V (pc_framed a1) @ frames fs @ take n (frame d'))" by auto
    then show ?thesis
      unfolding all using sent d
      by (intro exI [of _ "(d, e) # fs"] exI [of _ d'] exI [of _ n])
        (auto simp: good_frames_def Connection.sent_def Connection.broken_def stream_failed_def is_ok_def)
  next
    case (refused err bs)
    have no: "\<not> stream_failed r"
      using refused by (auto simp: stream_failed_def encode_def split: sum.splits if_splits)
    then have all: "rs = r # rs1" "a' = a2"
      using Cons.prems(2) step rest refused by (auto simp: stream_failed_def split: protocol_error.splits io_error.splits)
    from Cons.IH [OF refused(4) rest] Cons.prems(3) show ?thesis
      unfolding all using refused no by (auto simp: Connection.sent_def Connection.broken_def is_ok_def)
  qed
qed

text \<open>What a receiver gets from complete frames with part of one behind them.\<close>

lemma decode_part:
  assumes "length d \<le> MAX_FRAME" "n < length (frame d)"
  shows "decode L (take n (frame d)) = (Ok None, take n (frame d))"
proof (cases "n < 4")
  case False
  then have "be_nat (take 4 (take n (frame d))) = length d" "4 \<le> length (take n (frame d))"
    using be_nat_u32_be_bytes [OF MAX_FRAME_less [OF assms(1)]] assms(2) by (simp_all add: frame_def)
  then show ?thesis
    using assms by (simp add: decode_take4 Let_def) (simp add: frame_def)
qed (simp add: decode_def min_less_iff_disj)

lemma recvs_frames:
  assumes "framed_ok L F V" "intact V (pc_framed b)" "arriving V (pc_framed b) = frames fs @ rest" "good_frames L fs"
    and "decode L rest = (Ok None, rest)" "conn_recvs F n b = (got, ending)"
  shows "prefix got (map snd fs) \<and>
    (case ending of
       StillOpen \<Rightarrow> n \<le> length fs
     | Closed \<Rightarrow> got = map snd fs \<and> rest = []
     | Failed e \<Rightarrow> \<exists>m. e = Io (OtherIo m))"
  using assms(2-4,6)
proof (induction n arbitrary: b fs got)
  case (Suc n)
  obtain r b' where step: "conn_recv F b = (r, b')" by fastforce
  have front: "\<exists>d e fs'. fs = (d, e) # fs' \<and> decode L (arriving V (pc_framed b)) = (Ok (Some e), frames fs' @ rest)" if "fs \<noteq> []"
    using that Suc.prems(2,3) decode_frame [of "fst (hd fs)" L "snd (hd fs)"]
    by (cases fs) (auto simp: good_frames_def)
  from assms(1) Suc.prems(1) step show ?case
  proof (cases rule: framed_ok_recv)
    case (unread m)
    then show ?thesis using Suc.prems(4) step by auto
  next
    case (malformed err rest')
    then have "fs = []" using front by auto
    then show ?thesis using malformed assms(5) Suc.prems(2) by simp
  next
    case (received e rest')
    then have "fs \<noteq> []" using assms(5) Suc.prems(2) by auto
    then obtain d fs' where fs: "fs = (d, e) # fs'" "rest' = frames fs' @ rest" using front received(1) by auto
    obtain got' ending' where more: "conn_recvs F n b' = (got', ending')" by fastforce
    have "got = e # got'" "ending = ending'" using Suc.prems(4) step received(2) more by auto
    then show ?thesis
      using Suc.IH [OF received(4) _ _, of fs' got'] received(3) fs Suc.prems(3) more
      by (auto simp: good_frames_def split: recv_end.splits)
  next
    case ended
    have "frame (fst f) \<noteq> []" for f :: "bytes \<times> envelope" by (simp add: frame_def u32_be_bytes_def)
    then have "fs = []" using ended(1) Suc.prems(2) by (cases fs) auto
    then show ?thesis using ended Suc.prems(2,4) step by auto
  qed
qed (simp add: assms)

lemma sent_all:
  assumes "framed_ok L F V" "intact V (pc_framed a)" "conn_sends F a es = (rs, a')" "broken es rs = []"
  shows "sent es rs = filter (\<lambda>e. is_ok (fst (encode L e []))) es"
  using assms(2-)
proof (induction es arbitrary: a rs)
  case (Cons e es)
  obtain r a1 where step: "conn_send F a e = (r, a1)" by fastforce
  obtain rs1 a2 where rest: "conn_sends F a1 es = (rs1, a2)" by fastforce
  have alive: "\<not> stream_failed r"
    using Cons.prems(2,3) step by (auto simp: broken_def stream_failed_def split: protocol_error.splits io_error.splits prod.splits)
  then have all: "rs = r # rs1" "a' = a2"
    using Cons.prems(2) step rest by (auto simp: stream_failed_def split: sum.splits protocol_error.splits io_error.splits)
  have "broken es rs1 = []" using Cons.prems(3) by (simp add: all broken_def split: if_splits)
  moreover from assms(1) Cons.prems(1) step have "intact V (pc_framed a1) \<and> is_ok r = is_ok (fst (encode L e []))"
    by (cases rule: framed_ok_send) (use alive in \<open>auto simp: stream_failed_def is_ok_def\<close>)
  ultimately show ?case using Cons.IH [of a1 rs1] rest by (simp add: all sent_def)
qed (simp add: sent_def)

lemma sent_broken: "length (sent es rs) + length (broken es rs) \<le> length es"
proof -
  have "length (filter (\<lambda>(_, r). is_ok r) ps) + length (filter (\<lambda>(_, r). stream_failed r) ps) \<le> length ps"
    for ps :: "(envelope \<times> (unit, protocol_error) result) list"
    by (induction ps) (auto simp: is_ok_def stream_failed_def)
  from this [of "zip es rs"] show ?thesis by (simp add: sent_def broken_def)
qed

text \<open>
  C39: Two ends of a connection.  Whatever one end sends, giving up at an error of the stream, the other receives
  it in order, with nothing in between and nothing twice: a prefix of what was sent, with at most the one envelope
  behind it whose sending failed.  If the receiver sees the end, it has everything that was sent; the
  only errors it can see are those of the stream; and an envelope that the codec refuses is reported to the
  sender and otherwise as if it had not been sent.
\<close>
theorem connection_delivers:
  assumes "framed_ok L F V" "intact V (pc_framed a)" "intact V (pc_framed b)" "written V (pc_framed a) = []"
    and "conn_sends F a es = (results, a')" "arriving V (pc_framed b) = written V (pc_framed a')"
    and "\<And>e d. e \<in> set es \<Longrightarrow> bin_envelope L e = Ok d \<Longrightarrow> unbin_envelope L d = Ok e"
    and "conn_recvs F n b = (got, ending)"
  shows "prefix got (sent es results @ broken es results) \<and> length (broken es results) \<le> 1 \<and>
    (broken es results = [] \<longrightarrow> sent es results = filter (\<lambda>e. is_ok (fst (encode L e []))) es) \<and>
    (case ending of
       StillOpen \<Rightarrow> n \<le> length es
     | Closed \<Rightarrow> prefix (sent es results) got
     | Failed e \<Rightarrow> \<exists>m. e = Io (OtherIo m))"
proof -
  from sends_written [OF assms(1,2,5,7)] obtain fs d k where
    fs: "good_frames L fs" "map snd fs = sent es results" and
    tail: "broken es results = [] \<and> written V (pc_framed a') = frames fs \<or>
       (\<exists>e. broken es results = [e] \<and> good_frames L [(d, e)] \<and> written V (pc_framed a') = frames fs @ take k (frame d))"
    unfolding assms(4) append_Nil by blast
  have all: "broken es results = [] \<longrightarrow> sent es results = filter (\<lambda>e. is_ok (fst (encode L e []))) es"
    using sent_all [OF assms(1,2,5)] by blast
  have count: "length fs \<le> length es"
    using arg_cong [OF fs(2), of length] sent_broken [of es results] by simp
  note recv = recvs_frames [OF assms(1,3) _ _ _ assms(8)]
  consider (whole) "broken es results = []" "written V (pc_framed a') = frames fs"
    | (part) e where "broken es results = [e]" "good_frames L [(d, e)]" "k < length (frame d)"
        "written V (pc_framed a') = frames fs @ take k (frame d)"
    | (late) e where "broken es results = [e]" "good_frames L [(d, e)]" "written V (pc_framed a') = frames (fs @ [(d, e)])"
    using tail by (cases "k < length (frame d)") (auto simp: frames_def)
  then show ?thesis
  proof cases
    case whole
    then show ?thesis
      using recv [of fs "[]"] fs assms(6) count all by (auto simp: decode_def split: recv_end.splits)
  next
    case part
    then show ?thesis
      using recv [of fs "take k (frame d)"] fs assms(6) count decode_part [of d k L]
      by (auto simp: good_frames_def split: recv_end.splits intro: prefix_order.trans)
  next
    case late
    have "length (fs @ [(d, e)]) \<le> length es"
      using sent_broken [of es results] arg_cong [OF fs(2), of length] late(1) by simp
    then show ?thesis
      using recv [of "fs @ [(d, e)]" "[]"] fs assms(6) late
      by (auto simp: good_frames_def decode_def split: recv_end.splits)
  qed
qed

subsection \<open>An instance\<close>

text \<open>A stream in memory: what was written to it, and what is to be read from it.\<close>

definition memory_framed :: "'a libs_scheme \<Rightarrow> (bytes \<times> bytes) framed_lib" where
  "memory_framed L =
     \<lparr>fr_send = (\<lambda>e (w, r). let (res, w) = encode L e w in (res, (w, r))),
      fr_next = (\<lambda>(w, r).
        case decode L r of
          (Inl err, rest) \<Rightarrow> (Some (Err err), (w, rest))
        | (Inr (Some e), rest) \<Rightarrow> (Some (Ok e), (w, rest))
        | (Inr None, rest) \<Rightarrow> (if r = [] then None else Some (Err (OtherIo ''bytes remaining on stream'')), (w, rest)))\<rparr>"

definition memory_view :: "(bytes \<times> bytes) framed_view" where
  "memory_view = \<lparr>written = fst, arriving = snd, intact = (\<lambda>_. True)\<rparr>"

lemma memory_framed_ok: "framed_ok L (memory_framed L) memory_view"
  unfolding framed_ok_def
proof (intro conjI allI impI)
  fix e and s :: "bytes \<times> bytes"
  obtain w r where s: "s = (w, r)" by (cases s)
  show "let (r, s') = fr_send (memory_framed L) e s in
      case encode L e [] of
        (Inl err, _) \<Rightarrow> r = Err err \<and> written memory_view s' = written memory_view s \<and> intact memory_view s'
      | (Inr _, bs) \<Rightarrow>
          r = Ok () \<and> written memory_view s' = written memory_view s @ bs \<and> intact memory_view s' \<or>
          (\<exists>m n. r = Err (OtherIo m) \<and> written memory_view s' = written memory_view s @ take n bs)"
    by (simp add: s memory_framed_def memory_view_def encode_def split: sum.split)
next
  fix s :: "bytes \<times> bytes"
  obtain w r where s: "s = (w, r)" by (cases s)
  obtain x rest where d: "decode L r = (x, rest)" by fastforce
  then show "let (r, s') = fr_next (memory_framed L) s in
      (\<exists>m. r = Some (Err (OtherIo m))) \<or>
      (case decode L (arriving memory_view s) of
         (Inl err, _) \<Rightarrow> r = Some (Err err)
       | (Inr (Some e), rest) \<Rightarrow> r = Some (Ok e) \<and> arriving memory_view s' = rest \<and> intact memory_view s'
       | (Inr None, _) \<Rightarrow> arriving memory_view s = [] \<and> r = None)"
    by (simp add: s memory_framed_def memory_view_def split: sum.split option.split)
qed

definition demo_bincode :: libs where
  "demo_bincode = demo_libs\<lparr>bin_envelope := (\<lambda>e. if e = demo_envelope then Ok [9, 8] else Err []),
     unbin_envelope := (\<lambda>bs. if bs = [9, 8] then Ok demo_envelope else Err [])\<rparr>"

theorem connection_delivers_witness:
  "\<exists>results a got. conn_sends (memory_framed demo_bincode) (PeerConnection_new (\<lambda>s. s) (idn 1) ([], []))
       [demo_envelope, demo_envelope\<lparr>env_ttl := 0\<rparr>, demo_envelope] = (results, a) \<and>
     conn_recvs (memory_framed demo_bincode) 9 (PeerConnection_new (\<lambda>s. s) (idn 2) ([], fst (pc_framed a))) = (got, Closed) \<and>
     got = [demo_envelope, demo_envelope] \<and> results = [Ok (), Err (Io (InvalidData [])), Ok ()]"
proof -
  let ?F = "memory_framed demo_bincode" and ?es = "[demo_envelope, demo_envelope\<lparr>env_ttl := 0\<rparr>, demo_envelope]"
  let ?a = "PeerConnection_new (\<lambda>s. s) (idn 1) ([], [])"
  let ?wire = "[0, 0, 0, 2, 9, 8, 0, 0, 0, 2, 9, 8] :: bytes"
  let ?b = "PeerConnection_new (\<lambda>s. s) (idn 2) ([], ?wire)"
  let ?results = "[Ok (), Err (Io (InvalidData [])), Ok ()]"
  have bin: "bin_envelope demo_bincode e = (if e = demo_envelope then Ok [9, 8] else Err [])"
    "unbin_envelope demo_bincode bs = (if bs = [9, 8] then Ok demo_envelope else Err [])" for e bs
    by (simp_all add: demo_bincode_def)
  have other: "demo_envelope\<lparr>env_ttl := 0\<rparr> \<noteq> demo_envelope" by (simp add: demo_envelope_def)
  have enc: "encode demo_bincode e w = (if e = demo_envelope then (Ok (), w @ [0, 0, 0, 2, 9, 8]) else (Err (InvalidData []), w))"
    for e w by (simp add: encode_def bin MAX_FRAME_def u32_be_bytes_def)
  have sends: "conn_sends ?F ?a ?es = (?results, \<lparr>pc_remote_id = idn 1, pc_framed = (?wire, [])\<rparr>)"
    using other by (simp add: conn_send_def PeerConnection_new_def memory_framed_def enc)
  obtain got ending where recvs: "conn_recvs ?F 9 ?b = (got, ending)" by fastforce
  have read: "unbin_envelope demo_bincode d = Ok e" if "e \<in> set ?es" "bin_envelope demo_bincode e = Ok d" for e d
    using that by (auto simp: bin split: if_splits)
  have "prefix got (sent ?es ?results @ broken ?es ?results) \<and> length (broken ?es ?results) \<le> 1 \<and>
      (broken ?es ?results = [] \<longrightarrow> sent ?es ?results = filter (\<lambda>e. is_ok (fst (encode demo_bincode e []))) ?es) \<and>
      (case ending of StillOpen \<Rightarrow> 9 \<le> length ?es | Closed \<Rightarrow> prefix (sent ?es ?results) got | Failed e \<Rightarrow> \<exists>m. e = Io (OtherIo m))"
    by (rule connection_delivers [OF memory_framed_ok _ _ _ sends _ read recvs])
      (simp_all add: memory_view_def PeerConnection_new_def)
  then have "prefix got (sent ?es ?results @ broken ?es ?results) \<and>
      (case ending of StillOpen \<Rightarrow> 9 \<le> length ?es | Closed \<Rightarrow> prefix (sent ?es ?results) got | Failed e \<Rightarrow> \<exists>m. e = Io (OtherIo m))"
    by (elim conjE) (intro conjI)
  moreover have "sent ?es ?results = [demo_envelope, demo_envelope]" "broken ?es ?results = []"
    by (simp_all add: sent_def broken_def stream_failed_def)
  moreover have "ending = Closed"
  proof -
    let ?c = "\<lambda>r. \<lparr>pc_remote_id = idn 2, pc_framed = ([] :: bytes, r)\<rparr>" and ?frame = "[0, 0, 0, 2, 9, 8] :: bytes"
    have "decode demo_bincode (?frame @ rest) = (Ok (Some demo_envelope), rest)" for rest
      using decode_frame [of "[9, 8]" demo_bincode demo_envelope rest] by (simp add: bin frame_def u32_be_bytes_def MAX_FRAME_def)
    then have one: "conn_recv ?F (?c (?frame @ rest)) = (Some (Ok demo_envelope), ?c rest)" for rest
      by (simp only: conn_recv_def memory_framed_def) simp
    have stop: "conn_recv ?F (?c []) = (None, ?c [])"
      by (simp add: conn_recv_def memory_framed_def decode_def)
    have "conn_recvs ?F (Suc (Suc (Suc 6))) (?c (?frame @ ?frame @ [])) = ([demo_envelope, demo_envelope], Closed)"
      by (simp only: conn_recvs.simps one stop prod.case option.case sum.case Let_def)
    then show ?thesis using recvs by (simp add: PeerConnection_new_def)
  qed
  ultimately have "prefix got ([demo_envelope, demo_envelope] @ []) \<and> prefix [demo_envelope, demo_envelope] got"
    by (simp only: recv_end.case)
  then have "got = [demo_envelope, demo_envelope]" unfolding append_Nil2 by (blast intro: prefix_order.antisym)
  then show ?thesis using sends recvs \<open>ending = Closed\<close> by simp
qed

end
