(* ===== verification/Bft_Quorum.thy ===== *)
theory Bft_Quorum
  imports Crypto
begin

section \<open>Validator sets and certificates\<close>

text \<open>
  \<^verbatim>\<open>zona-p2p-bft/src/validator.rs\<close>, \<^verbatim>\<open>certificate.rs\<close> and \<^verbatim>\<open>error.rs\<close>.  Weights and thresholds are \<^verbatim>\<open>u64\<close>
  words, added with wrap-around as the release build adds them; \<open>weights_fit\<close> says when
  nothing wraps.  The locale \<open>weighted_quorum\<close> holds the counting argument that two quorums
  share more than a third of the weight; it is interpreted on validator sets.
\<close>

subsection \<open>Data\<close>

datatype bft_error =
    BftInvalidSignature string
  | UnknownValidator string
  | InsufficientQuorum (accumulated: u64) (required: u64)
  | EpochMismatch (cert_epoch: u64) (set_epoch: u64)
  | ValidatorSetHashMismatch (expected_hash: bytes32) (got_hash: bytes32)
  | NonConsecutiveEpoch (expected_epoch: u64) (got_epoch: u64)
  | NoNextEpochCommitment
  | FinalityPaused

record validator_entry =
  ve_node_id :: node_id
  ve_pubkey :: bytes32
  ve_weight :: u64

record validator_set =
  vs_epoch :: u64
  vs_entries :: "validator_entry list"
  vs_set_hash :: bytes32

record cert_payload =
  cp_epoch :: u64
  cp_height :: u64
  cp_block_hash :: bytes32

type_synonym signatures = "(node_id \<times> bytes) list"

record bft_certificate =
  cert_payload :: cert_payload
  cert_signatures :: signatures

text \<open>The \<^verbatim>\<open>bincode\<close> serialisations this crate uses.\<close>

record bft_libs = libs +
  bin_validators :: "u64 \<times> validator_entry list \<Rightarrow> bytes"
  bin_cert_payload :: "cert_payload \<Rightarrow> bytes"
  bin_certificate :: "bft_certificate \<Rightarrow> bytes"

subsection \<open>Operations\<close>

definition compute_set_hash :: "'a bft_libs_scheme \<Rightarrow> u64 \<Rightarrow> validator_entry list \<Rightarrow> bytes32" where
  "compute_set_hash L epoch entries = sha256 L (bin_validators L (epoch, entries))"

definition ValidatorSet_new :: "'a bft_libs_scheme \<Rightarrow> u64 \<Rightarrow> validator_entry list \<Rightarrow> validator_set" where
  "ValidatorSet_new L epoch entries =
     \<lparr>vs_epoch = epoch, vs_entries = entries, vs_set_hash = compute_set_hash L epoch entries\<rparr>"

definition total_weight :: "validator_set \<Rightarrow> u64" where
  "total_weight vs = sum_list (map ve_weight (vs_entries vs))"

definition quorum_threshold :: "validator_set \<Rightarrow> u64" where
  "quorum_threshold vs = (let total = total_weight vs in (2 * total) div 3 + 1)"

definition validator_get :: "validator_set \<Rightarrow> node_id \<Rightarrow> validator_entry option" where
  "validator_get vs n = List.find (\<lambda>e. ve_node_id e = n) (vs_entries vs)"

fun quorum_loop ::
  "'a libs_scheme \<Rightarrow> validator_set \<Rightarrow> bytes \<Rightarrow> signatures \<Rightarrow> node_id set \<Rightarrow> u64 \<Rightarrow> (u64, bft_error) result" where
  "quorum_loop L vs message [] seen acc = Ok acc"
| "quorum_loop L vs message ((signer_id, sig_bytes) # sigs) seen acc =
     (if signer_id \<in> seen then quorum_loop L vs message sigs seen acc
      else
        let seen = insert signer_id seen
        in case validator_get vs signer_id of
             None \<Rightarrow> Err (UnknownValidator (node_id_to_string L signer_id))
           | Some entry \<Rightarrow>
               if \<not> vk_from_bytes L (ve_pubkey entry)
               then Err (BftInvalidSignature (node_id_to_string L signer_id))
               else if length sig_bytes \<noteq> 64
               then Err (BftInvalidSignature (node_id_to_string L signer_id))
               else if \<not> ed_verify L (ve_pubkey entry) message sig_bytes
               then Err (BftInvalidSignature (node_id_to_string L signer_id))
               else quorum_loop L vs message sigs seen (acc + ve_weight entry))"

definition verify_quorum ::
  "'a libs_scheme \<Rightarrow> validator_set \<Rightarrow> bytes \<Rightarrow> signatures \<Rightarrow> (unit, bft_error) result" where
  "verify_quorum L vs message signatures =
     (case quorum_loop L vs message signatures {} 0 of
        Inl e \<Rightarrow> Err e
      | Inr weight_accumulated \<Rightarrow>
          if weight_accumulated < quorum_threshold vs
          then Err (InsufficientQuorum weight_accumulated (quorum_threshold vs))
          else Ok ())"

definition cert_payload_to_bytes :: "'a bft_libs_scheme \<Rightarrow> cert_payload \<Rightarrow> bytes" where
  "cert_payload_to_bytes L p = bin_cert_payload L p"

definition cert_verify :: "'a bft_libs_scheme \<Rightarrow> bft_certificate \<Rightarrow> validator_set \<Rightarrow> (unit, bft_error) result" where
  "cert_verify L cert vs =
     (if cp_epoch (cert_payload cert) \<noteq> vs_epoch vs
      then Err (EpochMismatch (cp_epoch (cert_payload cert)) (vs_epoch vs))
      else
        let msg = cert_payload_to_bytes L (cert_payload cert)
        in verify_quorum L vs msg (cert_signatures cert))"

definition cert_hash :: "'a bft_libs_scheme \<Rightarrow> bft_certificate \<Rightarrow> bytes32" where
  "cert_hash L cert = sha256 L (bin_certificate L cert)"

subsection \<open>What the quorum check establishes\<close>

text \<open>A member whose key validly signed the message, and its weight.\<close>

definition signed_by :: "'a libs_scheme \<Rightarrow> validator_set \<Rightarrow> bytes \<Rightarrow> node_id \<Rightarrow> bytes \<Rightarrow> bool" where
  "signed_by L vs message n sig \<longleftrightarrow>
     (case validator_get vs n of
        None \<Rightarrow> False
      | Some e \<Rightarrow> vk_from_bytes L (ve_pubkey e) \<and> length sig = 64 \<and> ed_verify L (ve_pubkey e) message sig)"

definition weight_of :: "validator_set \<Rightarrow> node_id \<Rightarrow> u64" where
  "weight_of vs n = (case validator_get vs n of None \<Rightarrow> 0 | Some e \<Rightarrow> ve_weight e)"

lemma quorum_loop_iff:
  "quorum_loop L vs m sigs seen acc = Ok acc' \<longleftrightarrow>
     (\<forall>n \<in> fst ` set sigs - seen. signed_by L vs m n (the (map_of sigs n))) \<and>
     acc' = acc + (\<Sum>n \<in> fst ` set sigs - seen. weight_of vs n)"
proof (induction sigs arbitrary: seen acc)
  case Nil
  show ?case by (auto simp: eq_commute)
next
  case (Cons s sigs)
  obtain n sg where s: "s = (n, sg)" by fastforce
  show ?case
  proof (cases "n \<in> seen")
    case True
    then have "fst ` set (s # sigs) - seen = fst ` set sigs - seen" by (auto simp: s)
    moreover have "\<forall>k \<in> fst ` set sigs - seen. map_of (s # sigs) k = map_of sigs k" using True by (auto simp: s)
    ultimately show ?thesis using True Cons.IH [of seen acc] by (simp add: s)
  next
    case False
    let ?R = "fst ` set sigs - insert n seen"
    have rest: "fst ` set (s # sigs) - seen = insert n ?R" using False by (auto simp: s)
    have sum: "(\<Sum>k \<in> insert n ?R. weight_of vs k) = weight_of vs n + (\<Sum>k \<in> ?R. weight_of vs k)" by simp
    have all: "(\<forall>k \<in> insert n ?R. signed_by L vs m k (the (map_of (s # sigs) k))) \<longleftrightarrow>
        signed_by L vs m n sg \<and> (\<forall>k \<in> ?R. signed_by L vs m k (the (map_of sigs k)))"
      by (auto simp: s)
    have "quorum_loop L vs m (s # sigs) seen acc = Ok acc' \<longleftrightarrow>
        signed_by L vs m n sg \<and> quorum_loop L vs m sigs (insert n seen) (acc + weight_of vs n) = Ok acc'"
      using False by (simp add: s signed_by_def weight_of_def split: option.split)
    then show ?thesis unfolding rest sum all using Cons.IH by (auto simp: add.assoc)
  qed
qed

lemma verify_quorum_iff:
  "verify_quorum L vs m sigs = Ok () \<longleftrightarrow>
     (\<forall>n \<in> fst ` set sigs. signed_by L vs m n (the (map_of sigs n))) \<and>
     quorum_threshold vs \<le> (\<Sum>n \<in> fst ` set sigs. weight_of vs n)"
proof (cases "quorum_loop L vs m sigs {} 0")
  case (Inl e)
  then show ?thesis
    using quorum_loop_iff [of L vs m sigs "{}" 0 "\<Sum>n \<in> fst ` set sigs. weight_of vs n"]
    by (auto simp: verify_quorum_def)
next
  case (Inr acc)
  then have "(\<forall>n \<in> fst ` set sigs. signed_by L vs m n (the (map_of sigs n))) \<and>
      acc = (\<Sum>n \<in> fst ` set sigs. weight_of vs n)"
    using quorum_loop_iff [of L vs m sigs "{}" 0 acc] by simp
  then show ?thesis using Inr by (auto simp: verify_quorum_def not_less)
qed

subsection \<open>Weights without overflow\<close>

definition nat_total :: "validator_set \<Rightarrow> nat" where
  "nat_total vs = sum_list (map (\<lambda>e. unat (ve_weight e)) (vs_entries vs))"

definition weights_fit :: "validator_set \<Rightarrow> bool" where
  "weights_fit vs \<longleftrightarrow> nat_total vs < 2 ^ 63"

definition nat_weight :: "validator_set \<Rightarrow> node_id \<Rightarrow> nat" where
  "nat_weight vs n = unat (weight_of vs n)"

definition members :: "validator_set \<Rightarrow> node_id set" where
  "members vs = ve_node_id ` set (vs_entries vs)"

lemma unat_sum_list: "unat (sum_list (xs :: u64 list)) = sum_list (map unat xs) mod 2 ^ 64"
  by (induction xs) (simp_all add: unat_word_ariths mod_add_right_eq)

lemma unat_sum: "finite A \<Longrightarrow> unat (\<Sum>a \<in> A. f a :: u64) = (\<Sum>a \<in> A. unat (f a)) mod 2 ^ 64"
  by (induction rule: finite_induct) (simp_all add: unat_word_ariths mod_add_right_eq)

lemma total_weight_fit: "weights_fit vs \<Longrightarrow> unat (total_weight vs) = nat_total vs"
  by (simp add: total_weight_def unat_sum_list weights_fit_def nat_total_def comp_def)

lemma threshold_fit:
  assumes "weights_fit vs" shows "unat (quorum_threshold vs) = 2 * nat_total vs div 3 + 1"
proof -
  have "unat (2 * total_weight vs) = 2 * nat_total vs"
    using assms by (simp add: unat_word_ariths total_weight_fit weights_fit_def)
  then have "unat (2 * total_weight vs div 3) = 2 * nat_total vs div 3"
    by (simp add: unat_div)
  moreover have "2 * nat_total vs div 3 + 1 < 2 ^ 64" using assms by (simp add: weights_fit_def)
  ultimately show ?thesis by (simp add: quorum_threshold_def Let_def unat_word_ariths)
qed

lemma nat_weight_none: "n \<notin> members vs \<Longrightarrow> nat_weight vs n = 0"
  by (auto simp: nat_weight_def weight_of_def validator_get_def members_def split: option.split
      dest: find_Some_in)

lemma members_weight: "(\<Sum>n \<in> members vs. nat_weight vs n) \<le> nat_total vs"
proof -
  have "(\<Sum>n \<in> ve_node_id ` set es. unat (case List.find (\<lambda>e. ve_node_id e = n) es of None \<Rightarrow> 0 | Some e \<Rightarrow> ve_weight e))
      \<le> sum_list (map (\<lambda>e. unat (ve_weight e)) es)" for es
  proof (induction es)
    case (Cons e es)
    let ?w = "\<lambda>es n. unat (case List.find (\<lambda>e. ve_node_id e = n) es of None \<Rightarrow> 0 | Some e \<Rightarrow> ve_weight e)"
    let ?M = "ve_node_id ` set es - {ve_node_id e}"
    have "(\<Sum>n \<in> insert (ve_node_id e) (ve_node_id ` set es). ?w (e # es) n) =
        unat (ve_weight e) + (\<Sum>n \<in> ?M. ?w (e # es) n)"
      by (subst sum.insert_remove) simp_all
    also have "(\<Sum>n \<in> ?M. ?w (e # es) n) = (\<Sum>n \<in> ?M. ?w es n)" by (intro sum.cong) auto
    also have "\<dots> \<le> (\<Sum>n \<in> ve_node_id ` set es. ?w es n)" by (intro sum_mono2) auto
    finally show ?case using Cons.IH by (simp del: find.simps)
  qed simp
  then show ?thesis by (simp add: members_def nat_weight_def weight_of_def validator_get_def nat_total_def)
qed

subsection \<open>Quorum intersection\<close>

locale weighted_quorum =
  fixes V :: "'v set" and wt :: "'v \<Rightarrow> nat" and total :: nat
  assumes finite_V: "finite V" and weight_bound: "(\<Sum>v \<in> V. wt v) \<le> total"
begin

lemma quorums_overlap:
  assumes "A \<subseteq> V" "B \<subseteq> V" "2 * total < 3 * (\<Sum>v \<in> A. wt v)" "2 * total < 3 * (\<Sum>v \<in> B. wt v)"
  shows "total < 3 * (\<Sum>v \<in> A \<inter> B. wt v)"
proof -
  have fin: "finite A" "finite B" using assms(1,2) finite_V by (auto intro: finite_subset)
  have "(\<Sum>v \<in> A. wt v) + (\<Sum>v \<in> B. wt v) = (\<Sum>v \<in> A \<union> B. wt v) + (\<Sum>v \<in> A \<inter> B. wt v)"
    using fin by (rule sum.union_inter [symmetric])
  moreover have "(\<Sum>v \<in> A \<union> B. wt v) \<le> (\<Sum>v \<in> V. wt v)"
    using assms(1,2) finite_V by (intro sum_mono2) auto
  ultimately show ?thesis using assms(3,4) weight_bound by linarith
qed

text \<open>More than a third of the weight cannot consist of faulty members only.\<close>

lemma honest_member:
  assumes "A \<subseteq> V" "total < 3 * (\<Sum>v \<in> A. wt v)" "F \<subseteq> V" "3 * (\<Sum>v \<in> F. wt v) \<le> total"
  shows "\<exists>v \<in> A. v \<notin> F"
proof (rule ccontr)
  assume "\<not> (\<exists>v \<in> A. v \<notin> F)"
  then have "(\<Sum>v \<in> A. wt v) \<le> (\<Sum>v \<in> F. wt v)"
    using assms(3) finite_V by (intro sum_mono2) (auto intro: finite_subset)
  then show False using assms(2,4) by linarith
qed

end

interpretation wq: weighted_quorum "members vs" "nat_weight vs" "nat_total vs" for vs :: validator_set
  by unfold_locales (simp_all add: members_weight, simp add: members_def)

lemma signed_by_member: "signed_by L vs m n s \<Longrightarrow> n \<in> members vs"
  by (auto simp: signed_by_def validator_get_def members_def split: option.splits dest: find_Some_in)

text \<open>The distinct nodes that a signature list names.\<close>

definition signers :: "signatures \<Rightarrow> node_id set" where
  "signers sigs = fst ` set sigs"

lemma verified_members: "verify_quorum L vs m sigs = Ok () \<Longrightarrow> signers sigs \<subseteq> members vs"
  unfolding verify_quorum_iff signers_def using signed_by_member by blast

lemma verified_signature:
  assumes "verify_quorum L vs m sigs = Ok ()" "n \<in> signers sigs"
  shows "\<exists>s. (n, s) \<in> set sigs \<and> signed_by L vs m n s"
proof -
  obtain s where "map_of sigs n = Some s"
    using assms(2) unfolding signers_def by (metis map_of_eq_None_iff not_Some_eq)
  moreover from this have "(n, s) \<in> set sigs" by (rule map_of_SomeD)
  ultimately show ?thesis using assms unfolding verify_quorum_iff signers_def by force
qed

lemma verified_weight:
  assumes "weights_fit vs" "verify_quorum L vs m sigs = Ok ()"
  shows "2 * nat_total vs < 3 * (\<Sum>n \<in> signers sigs. nat_weight vs n)"
proof -
  have "unat (\<Sum>n \<in> signers sigs. weight_of vs n) \<le> (\<Sum>n \<in> signers sigs. nat_weight vs n)"
    using unat_sum [of "signers sigs" "weight_of vs"] by (simp add: nat_weight_def signers_def)
  moreover have "unat (quorum_threshold vs) \<le> unat (\<Sum>n \<in> signers sigs. weight_of vs n)"
    using assms(2) by (simp add: verify_quorum_iff signers_def word_le_nat_alt)
  ultimately show ?thesis using threshold_fit [OF assms(1)] by linarith
qed

lemma unat_threshold: "unat (quorum_threshold vs) = (2 * nat_total vs) mod 2 ^ 64 div 3 + 1"
proof -
  let ?t = "2 * total_weight vs"
  have t: "unat ?t = (2 * nat_total vs) mod 2 ^ 64"
    by (simp add: unat_word_ariths total_weight_def unat_sum_list nat_total_def comp_def mod_mult_right_eq)
  have "unat (?t div 3) + 1 < 2 ^ 64"
    by (simp add: unat_div t)
  then have "unat (?t div 3 + 1) = unat (?t div 3) + 1"
    by (simp add: unat_word_ariths)
  then show ?thesis by (simp add: quorum_threshold_def Let_def unat_div t)
qed

lemma verify_quorum_wrapped:
  "verify_quorum L vs m sigs = Ok () \<longleftrightarrow>
     (\<forall>n \<in> fst ` set sigs. signed_by L vs m n (the (map_of sigs n))) \<and>
     (2 * nat_total vs) mod 2 ^ 64 div 3 + 1 \<le> (\<Sum>n \<in> fst ` set sigs. nat_weight vs n) mod 2 ^ 64"
  by (simp add: verify_quorum_iff word_le_nat_alt unat_threshold unat_sum nat_weight_def)

lemma members_subset_weight:
  assumes "A \<subseteq> members vs" shows "(\<Sum>n \<in> A. nat_weight vs n) \<le> nat_total vs"
proof -
  have "(\<Sum>n \<in> A. nat_weight vs n) \<le> (\<Sum>n \<in> members vs. nat_weight vs n)"
    using assms by (intro sum_mono2) (simp_all add: members_def)
  then show ?thesis using members_weight [of vs] by linarith
qed

lemma verify_quorum_fit:
  assumes "weights_fit vs"
  shows "verify_quorum L vs m sigs = Ok () \<longleftrightarrow>
     (\<forall>n \<in> fst ` set sigs. signed_by L vs m n (the (map_of sigs n))) \<and>
     2 * nat_total vs < 3 * (\<Sum>n \<in> fst ` set sigs. nat_weight vs n)"
proof (cases "\<forall>n \<in> fst ` set sigs. signed_by L vs m n (the (map_of sigs n))")
  case True
  let ?S = "\<Sum>n \<in> fst ` set sigs. nat_weight vs n"
  have "?S \<le> nat_total vs" using True signed_by_member by (intro members_subset_weight) blast
  then have "?S mod 2 ^ 64 = ?S" "(2 * nat_total vs) mod 2 ^ 64 = 2 * nat_total vs"
    using assms by (simp_all add: weights_fit_def)
  then have "verify_quorum L vs m sigs = Ok () \<longleftrightarrow> 2 * nat_total vs div 3 + 1 \<le> ?S"
    using True by (simp only: verify_quorum_wrapped) blast
  also have "\<dots> \<longleftrightarrow> 2 * nat_total vs < 3 * ?S" by linarith
  finally show ?thesis using True by blast
next
  case False
  then show ?thesis unfolding verify_quorum_iff by blast
qed

lemma cert_verify_quorum:
  "cert_verify L c vs = Ok () \<longleftrightarrow>
     cp_epoch (cert_payload c) = vs_epoch vs \<and>
     verify_quorum L vs (cert_payload_to_bytes L (cert_payload c)) (cert_signatures c) = Ok ()"
  by (simp add: cert_verify_def)

lemma common_signers_signed:
  assumes "cert_verify L c vs = Ok ()" "cert_verify L c' vs = Ok ()"
    and "n \<in> signers (cert_signatures c) \<inter> signers (cert_signatures c')"
  shows "n \<in> members vs \<and> (\<forall>d \<in> {c, c'}. \<exists>s. (n, s) \<in> set (cert_signatures d) \<and>
      signed_by L vs (cert_payload_to_bytes L (cert_payload d)) n s)"
  using assms verified_signature signed_by_member unfolding cert_verify_quorum by blast

lemma common_signers_weight:
  assumes "weights_fit vs" "cert_verify L c vs = Ok ()" "cert_verify L c' vs = Ok ()"
  shows "nat_total vs < 3 * (\<Sum>n \<in> signers (cert_signatures c) \<inter> signers (cert_signatures c'). nat_weight vs n)"
  using assms(2,3) verified_members verified_weight [OF assms(1)] unfolding cert_verify_quorum
  by (intro wq.quorums_overlap) blast+

subsection \<open>Properties\<close>

text \<open>
  C22: \<open>verify_quorum\<close> accepts exactly when every listed signer is a member of the set whose first
  listed signature verifies under its registered key, and the weights of the distinct signers,
  added modulo \<open>2 ^ 64\<close>, reach \<open>((2 * total) mod 2 ^ 64) div 3 + 1\<close>.  If the total weight is below
  \<open>2 ^ 63\<close>, nothing wraps and the second condition is that the distinct signers weigh more than two thirds
  of the total.
\<close>

theorem verify_quorum_spec:
  "(verify_quorum L vs m sigs = Ok () \<longleftrightarrow>
     (\<forall>n \<in> fst ` set sigs. signed_by L vs m n (the (map_of sigs n))) \<and>
     (2 * nat_total vs) mod 2 ^ 64 div 3 + 1 \<le> (\<Sum>n \<in> fst ` set sigs. nat_weight vs n) mod 2 ^ 64) \<and>
   (weights_fit vs \<longrightarrow>
     (verify_quorum L vs m sigs = Ok () \<longleftrightarrow>
       (\<forall>n \<in> fst ` set sigs. signed_by L vs m n (the (map_of sigs n))) \<and>
       2 * nat_total vs < 3 * (\<Sum>n \<in> fst ` set sigs. nat_weight vs n)))"
  using verify_quorum_wrapped verify_quorum_fit by (intro conjI impI)

definition demo_bft_libs :: bft_libs where
  "demo_bft_libs = libs.extend demo_libs
     \<lparr>bin_validators = (\<lambda>(e, vs). [word_of_nat (unat e)]), bin_cert_payload = (\<lambda>p. bytes_of (cp_block_hash p)),
      bin_certificate = (\<lambda>c. bytes_of (cp_block_hash (cert_payload c)))\<rparr>"

lemma demo_bft_libs_simps [simp]:
  "sha256 demo_bft_libs = demo_sha" "vk_from_bytes demo_bft_libs k" "ed_public demo_bft_libs s = s"
  "ed_sign demo_bft_libs = demo_sign" "ed_verify demo_bft_libs k m sg = (sg = demo_sign k m)"
  "bin_cert_payload demo_bft_libs p = bytes_of (cp_block_hash p)"
  by (simp_all add: demo_bft_libs_def libs.defs demo_libs_def)

lemma length_demo_sign [simp]: "length (demo_sign k m) = 64"
  by (simp add: demo_sign_def)

text \<open>A set of three validators of weights 1, 1 and 2, whose keys are their ids.\<close>

definition demo_set :: validator_set where
  "demo_set = \<lparr>vs_epoch = 7, vs_entries =
     [\<lparr>ve_node_id = idn 1, ve_pubkey = fill32 1, ve_weight = 1\<rparr>,
      \<lparr>ve_node_id = idn 2, ve_pubkey = fill32 2, ve_weight = 1\<rparr>,
      \<lparr>ve_node_id = idn 3, ve_pubkey = fill32 3, ve_weight = 2\<rparr>], vs_set_hash = fill32 0\<rparr>"

definition demo_cert :: "u64 \<Rightarrow> u8 \<Rightarrow> u8 list \<Rightarrow> bft_certificate" where
  "demo_cert h b ns =
     \<lparr>cert_payload = \<lparr>cp_epoch = 7, cp_height = h, cp_block_hash = fill32 b\<rparr>,
      cert_signatures = map (\<lambda>n. (idn n, demo_sign (fill32 n) (replicate 32 b))) ns\<rparr>"

lemmas demo_bft_evals = demo_set_def demo_cert_def cert_verify_def verify_quorum_def validator_get_def
  quorum_threshold_def total_weight_def cert_payload_to_bytes_def bytes_of_fill32

theorem verify_quorum_spec_witness:
  "verify_quorum demo_bft_libs demo_set [9] [(idn 1, demo_sign (fill32 1) [9]), (idn 3, demo_sign (fill32 3) [9])] = Ok () \<and>
   8 < 3 * (\<Sum>n \<in> {idn 1, idn 3}. nat_weight demo_set n)"
proof -
  let ?sigs = "[(idn 1, demo_sign (fill32 1) [9]), (idn 3, demo_sign (fill32 3) [9])]"
  have "verify_quorum demo_bft_libs demo_set [9] ?sigs = Ok ()"
    by (simp add: demo_bft_evals Let_def)
  moreover have "weights_fit demo_set" "nat_total demo_set = 4"
    by (simp_all add: weights_fit_def nat_total_def demo_set_def)
  ultimately show ?thesis
    using verify_quorum_spec [THEN conjunct2, of demo_set demo_bft_libs "[9]" ?sigs] by simp
qed

text \<open>
  C1: two certificates that verify against one validator set whose total weight is below \<open>2 ^ 63\<close>
  (beyond it \<open>threshold_overflow\<close> below) have common signers holding more than a third of the total
  weight, each of them a member with a valid signature of both payloads.  Hence, for every set \<open>F\<close> of members
  holding at most a third of the weight: if the signatures of the members outside \<open>F\<close> cannot be
  forged (those in the two certificates were issued: \<open>issued n p\<close>) and they issue signatures for at most one block hash
  per height, two such certificates for the same height carry the same block hash.
\<close>

theorem certificate_agreement:
  assumes "weights_fit vs" "cert_verify L c vs = Ok ()" "cert_verify L c' vs = Ok ()"
  shows "nat_total vs < 3 * (\<Sum>n \<in> signers (cert_signatures c) \<inter> signers (cert_signatures c'). nat_weight vs n) \<and>
    (\<forall>n \<in> signers (cert_signatures c) \<inter> signers (cert_signatures c'). n \<in> members vs \<and>
      (\<forall>d \<in> {c, c'}. \<exists>s. (n, s) \<in> set (cert_signatures d) \<and>
         signed_by L vs (cert_payload_to_bytes L (cert_payload d)) n s)) \<and>
    (\<forall>F issued.
       F \<subseteq> members vs \<and> 3 * (\<Sum>n \<in> F. nat_weight vs n) \<le> nat_total vs \<and>
       (\<forall>d \<in> {c, c'}. \<forall>n \<in> members vs - F. \<forall>s. (n, s) \<in> set (cert_signatures d) \<and>
          signed_by L vs (cert_payload_to_bytes L (cert_payload d)) n s \<longrightarrow> issued n (cert_payload d)) \<and>
       (\<forall>n \<in> members vs - F. \<forall>p p'. issued n p \<and> issued n p' \<and> cp_height p = cp_height p' \<longrightarrow>
          cp_block_hash p = cp_block_hash p') \<and>
       cp_height (cert_payload c) = cp_height (cert_payload c') \<longrightarrow>
       cp_block_hash (cert_payload c) = cp_block_hash (cert_payload c'))"
proof -
  let ?AB = "signers (cert_signatures c) \<inter> signers (cert_signatures c')"
  note overlap = common_signers_weight [OF assms] and both = common_signers_signed [OF assms(2,3)]
  have "cp_block_hash (cert_payload c) = cp_block_hash (cert_payload c')"
    if F: "F \<subseteq> members vs" "3 * (\<Sum>n \<in> F. nat_weight vs n) \<le> nat_total vs"
      and unforged: "\<forall>d \<in> {c, c'}. \<forall>n \<in> members vs - F. \<forall>s. (n, s) \<in> set (cert_signatures d) \<and>
          signed_by L vs (cert_payload_to_bytes L (cert_payload d)) n s \<longrightarrow> issued n (cert_payload d)"
      and honest: "\<forall>n \<in> members vs - F. \<forall>p p'. issued n p \<and> issued n p' \<and> cp_height p = cp_height p' \<longrightarrow>
          cp_block_hash p = cp_block_hash p'"
      and height: "cp_height (cert_payload c) = cp_height (cert_payload c')" for F issued
  proof -
    obtain n where n: "n \<in> ?AB" "n \<in> members vs - F"
      using wq.honest_member [of ?AB vs F] both overlap F by blast
    then have "\<forall>d \<in> {c, c'}. issued n (cert_payload d)" using both unforged by blast
    then show ?thesis using honest n(2) height by blast
  qed
  then show ?thesis using overlap both by blast
qed

theorem certificate_agreement_witness:
  "let c = demo_cert 5 9 [1, 3]; c' = demo_cert 5 9 [2, 3]
   in cert_verify demo_bft_libs c demo_set = Ok () \<and> cert_verify demo_bft_libs c' demo_set = Ok () \<and>
      cert_signatures c \<noteq> cert_signatures c' \<and>
      cp_block_hash (cert_payload c) = cp_block_hash (cert_payload c')"
proof -
  let ?c = "demo_cert 5 9 [1, 3]" and ?c' = "demo_cert 5 9 [2, 3]"
  have ok: "cert_verify demo_bft_libs ?c demo_set = Ok ()" "cert_verify demo_bft_libs ?c' demo_set = Ok ()"
    by (simp_all add: demo_bft_evals Let_def)
  have "weights_fit demo_set" "nat_weight demo_set (idn 1) = 1" "nat_total demo_set = 4"
    by (simp_all add: weights_fit_def nat_total_def demo_set_def nat_weight_def weight_of_def validator_get_def)
  then have "cp_block_hash (cert_payload ?c) = cp_block_hash (cert_payload ?c')"
    using certificate_agreement [THEN conjunct2, THEN conjunct2, THEN spec, THEN spec, THEN mp,
        of demo_set demo_bft_libs ?c ?c' "{idn 1}" "\<lambda>n p. p = cert_payload ?c"] ok
    by (auto simp: members_def demo_set_def demo_cert_def)
  then show ?thesis using ok by (simp add: Let_def demo_cert_def)
qed

text \<open>
  With weights that overflow, the threshold collapses: in a set of a validator of weight
  \<open>2 ^ 63\<close> and one of weight 1 the threshold is 1, and the signature of the second alone passes
  the quorum check.
\<close>

theorem threshold_overflow:
  assumes "ed25519_ok L"
    and "vs_entries vs = [\<lparr>ve_node_id = a, ve_pubkey = pk, ve_weight = 2 ^ 63\<rparr>,
      \<lparr>ve_node_id = b, ve_pubkey = ed_public L seed, ve_weight = 1\<rparr>]" "a \<noteq> b"
  shows "quorum_threshold vs = 1 \<and> verify_quorum L vs m [(b, ed_sign L seed m)] = Ok ()"
proof -
  have "quorum_threshold vs = 1"
    using assms(2) by (simp add: quorum_threshold_def total_weight_def)
  then show ?thesis
    using assms by (simp add: verify_quorum_iff signed_by_def weight_of_def validator_get_def ed25519_okD)
qed

theorem threshold_overflow_witness:
  "let vs = \<lparr>vs_epoch = 0, vs_entries = [\<lparr>ve_node_id = idn 1, ve_pubkey = fill32 1, ve_weight = 2 ^ 63\<rparr>,
      \<lparr>ve_node_id = idn 2, ve_pubkey = ed_public demo_libs (fill32 2), ve_weight = 1\<rparr>], vs_set_hash = fill32 0\<rparr>
   in verify_quorum demo_libs vs [7] [(idn 2, ed_sign demo_libs (fill32 2) [7])] = Ok ()"
  using threshold_overflow [OF demo_libs_ok, of "\<lparr>vs_epoch = 0,
      vs_entries = [\<lparr>ve_node_id = idn 1, ve_pubkey = fill32 1, ve_weight = 2 ^ 63\<rparr>,
      \<lparr>ve_node_id = idn 2, ve_pubkey = ed_public demo_libs (fill32 2), ve_weight = 1\<rparr>], vs_set_hash = fill32 0\<rparr>"
      "idn 1" "fill32 1" "idn 2" "fill32 2" "[7]"]
  by (simp add: Let_def)

end
