(* ===== verification/Bft_State.thy ===== *)
theory Bft_State
  imports Bft_Quorum
begin

section \<open>Epochs and the finality state\<close>

text \<open>
  \<^verbatim>\<open>zona-p2p-bft/src/epoch.rs\<close> and \<^verbatim>\<open>state.rs\<close>: headers that commit to the next validator set, the
  verification of a chain of them, and the state of a full node as a state machine with
  certificates, epoch changes, divergence reports and resumptions as its steps.
\<close>

subsection \<open>Epoch headers\<close>

record epoch_header =
  eh_epoch :: u64
  eh_validator_set_hash :: bytes32
  eh_next_validator_commitment :: "bytes32 option"
  eh_published_at_height :: u64

definition EpochHeader_new :: "validator_set \<Rightarrow> validator_set option \<Rightarrow> u64 \<Rightarrow> epoch_header" where
  "EpochHeader_new current next_set published_at_height =
     \<lparr>eh_epoch = vs_epoch current, eh_validator_set_hash = vs_set_hash current,
      eh_next_validator_commitment = map_option vs_set_hash next_set,
      eh_published_at_height = published_at_height\<rparr>"

definition verify_current_set :: "epoch_header \<Rightarrow> validator_set \<Rightarrow> (unit, bft_error) result" where
  "verify_current_set h current_vs =
     (if vs_set_hash current_vs \<noteq> eh_validator_set_hash h
      then Err (ValidatorSetHashMismatch (eh_validator_set_hash h) (vs_set_hash current_vs))
      else Ok ())"

definition verify_next_set :: "epoch_header \<Rightarrow> validator_set \<Rightarrow> (unit, bft_error) result" where
  "verify_next_set h next_vs =
     (case eh_next_validator_commitment h of
        None \<Rightarrow> Err NoNextEpochCommitment
      | Some committed \<Rightarrow>
          if vs_set_hash next_vs \<noteq> committed
          then Err (ValidatorSetHashMismatch committed (vs_set_hash next_vs))
          else Ok ())"

text \<open>The loop over \<^verbatim>\<open>chain.windows(2)\<close>.\<close>

fun verify_windows :: "epoch_header list \<Rightarrow> (unit, bft_error) result" where
  "verify_windows (parent # child # rest) =
     (if eh_epoch child \<noteq> eh_epoch parent + 1
      then Err (NonConsecutiveEpoch (eh_epoch parent + 1) (eh_epoch child))
      else case eh_next_validator_commitment parent of
          None \<Rightarrow> Err NoNextEpochCommitment
        | Some committed \<Rightarrow>
            if eh_validator_set_hash child \<noteq> committed
            then Err (ValidatorSetHashMismatch committed (eh_validator_set_hash child))
            else verify_windows (child # rest))"
| "verify_windows _ = Ok ()"

definition verify_epoch_chain :: "bytes32 \<Rightarrow> epoch_header list \<Rightarrow> (unit, bft_error) result" where
  "verify_epoch_chain anchor_set_hash chain =
     (case chain of
        [] \<Rightarrow> Ok ()
      | first # _ \<Rightarrow>
          if eh_validator_set_hash first \<noteq> anchor_set_hash
          then Err (ValidatorSetHashMismatch anchor_set_hash (eh_validator_set_hash first))
          else verify_windows chain)"

subsection \<open>The state of a full node\<close>

datatype finality_status = Active | Paused

record bft_state =
  bs_finalised_height :: u64
  bs_block_hash :: bytes32
  bs_epoch :: u64
  bs_validator_set :: validator_set
  bs_finality_status :: finality_status
  bs_divergence_count :: u32

definition bft_genesis :: "validator_set \<Rightarrow> bytes32 \<Rightarrow> bft_state" where
  "bft_genesis vs genesis_hash =
     \<lparr>bs_finalised_height = 0, bs_block_hash = genesis_hash, bs_epoch = vs_epoch vs,
      bs_validator_set = vs, bs_finality_status = Active, bs_divergence_count = 0\<rparr>"

definition apply_certificate ::
  "'a bft_libs_scheme \<Rightarrow> bft_state \<Rightarrow> bft_certificate \<Rightarrow> (bool, bft_error) result \<times> bft_state" where
  "apply_certificate L s cert =
     (if bs_finality_status s = Paused then (Err FinalityPaused, s)
      else case cert_verify L cert (bs_validator_set s) of
          Inl e \<Rightarrow> (Err e, s)
        | Inr _ \<Rightarrow>
            if cp_height (cert_payload cert) \<le> bs_finalised_height s then (Ok False, s)
            else (Ok True, s\<lparr>bs_finalised_height := cp_height (cert_payload cert),
                             bs_block_hash := cp_block_hash (cert_payload cert)\<rparr>))"

definition bft_advance_epoch ::
  "bft_state \<Rightarrow> validator_set \<Rightarrow> epoch_header \<Rightarrow> (unit, bft_error) result \<times> bft_state" where
  "bft_advance_epoch s new_set header =
     (case verify_next_set header new_set of
        Inl e \<Rightarrow> (Err e, s)
      | Inr _ \<Rightarrow>
          if vs_epoch new_set \<noteq> bs_epoch s + 1
          then (Err (NonConsecutiveEpoch (bs_epoch s + 1) (vs_epoch new_set)), s)
          else (Ok (), s\<lparr>bs_epoch := vs_epoch new_set, bs_validator_set := new_set\<rparr>))"

definition record_divergence :: "bft_state \<Rightarrow> bft_state" where
  "record_divergence s =
     (let s = s\<lparr>bs_divergence_count := bs_divergence_count s + 1\<rparr>
      in if 1 \<le> bs_divergence_count s
         then if bs_finality_status s = Active then s\<lparr>bs_finality_status := Paused\<rparr> else s
         else s)"

definition resume_finality :: "bft_state \<Rightarrow> bft_state" where
  "resume_finality s = s\<lparr>bs_divergence_count := 0, bs_finality_status := Active\<rparr>"

definition is_final :: "bft_state \<Rightarrow> u64 \<Rightarrow> bool" where
  "is_final s height \<longleftrightarrow> bs_finality_status s = Active \<and> height \<le> bs_finalised_height s"

subsection \<open>The state machine\<close>

inductive bft_step :: "'a bft_libs_scheme \<Rightarrow> bft_state \<Rightarrow> bft_state \<Rightarrow> bool" for L where
  bft_step_cert: "bft_step L s (snd (apply_certificate L s cert))"
| bft_step_epoch: "bft_step L s (snd (bft_advance_epoch s new_set header))"
| bft_step_diverge: "bft_step L s (record_divergence s)"
| bft_step_resume: "bft_step L s (resume_finality s)"

text \<open>Reachable states, with the validator sets the node has had on the way.\<close>

inductive bft_reachable ::
  "'a bft_libs_scheme \<Rightarrow> validator_set \<Rightarrow> bytes32 \<Rightarrow> validator_set set \<Rightarrow> bft_state \<Rightarrow> bool" for L vs g where
  bft_reach_genesis: "bft_reachable L vs g {vs} (bft_genesis vs g)"
| bft_reach_step: "bft_reachable L vs g vss s \<Longrightarrow> bft_step L s s' \<Longrightarrow>
    bft_reachable L vs g (insert (bs_validator_set s') vss) s'"

inductive_cases bft_stepE: "bft_step L s s'"

text \<open>
  The head of a state is the genesis block or was certified by one of the node's validator
  sets; finality is active only when no divergence is counted.
\<close>

definition certified :: "'a bft_libs_scheme \<Rightarrow> bytes32 \<Rightarrow> validator_set set \<Rightarrow> bft_state \<Rightarrow> bool" where
  "certified L g vss s \<longleftrightarrow>
     bs_finalised_height s = 0 \<and> bs_block_hash s = g \<or>
     (\<exists>cert. \<exists>vs \<in> vss. cert_verify L cert vs = Ok () \<and>
        cp_height (cert_payload cert) = bs_finalised_height s \<and>
        cp_block_hash (cert_payload cert) = bs_block_hash s)"

definition bft_inv :: "'a bft_libs_scheme \<Rightarrow> bytes32 \<Rightarrow> validator_set set \<Rightarrow> bft_state \<Rightarrow> bool" where
  "bft_inv L g vss s \<longleftrightarrow>
     bs_epoch s = vs_epoch (bs_validator_set s) \<and> bs_validator_set s \<in> vss \<and> certified L g vss s \<and>
     (bs_finality_status s = Active \<longrightarrow> bs_divergence_count s = 0)"

lemma apply_certificate_cases:
  obtains (unchanged) "snd (apply_certificate L s cert) = s" "fst (apply_certificate L s cert) \<noteq> Ok True"
  | (advanced) "fst (apply_certificate L s cert) = Ok True" "bs_finality_status s = Active"
      "cert_verify L cert (bs_validator_set s) = Ok ()" "bs_finalised_height s < cp_height (cert_payload cert)"
      "snd (apply_certificate L s cert) = s\<lparr>bs_finalised_height := cp_height (cert_payload cert),
         bs_block_hash := cp_block_hash (cert_payload cert)\<rparr>"
proof (cases "bs_finality_status s = Active \<and> cert_verify L cert (bs_validator_set s) = Ok () \<and>
    bs_finalised_height s < cp_height (cert_payload cert)")
  case True
  then have "\<not> cp_height (cert_payload cert) \<le> bs_finalised_height s" by (simp add: not_le)
  with True show ?thesis by (intro advanced) (simp_all add: apply_certificate_def)
next
  case False
  then have "snd (apply_certificate L s cert) = s \<and> fst (apply_certificate L s cert) \<noteq> Ok True"
    by (cases "bs_finality_status s") (auto simp: apply_certificate_def not_less split: sum.split)
  then show ?thesis using unchanged by blast
qed

lemma bft_inv_mono: "bft_inv L g vss s \<Longrightarrow> bft_inv L g (insert v vss) s"
  by (auto simp: bft_inv_def certified_def)

lemma apply_certificate_inv:
  assumes "bft_inv L g vss s" shows "bft_inv L g vss (snd (apply_certificate L s cert))"
  using assms by (cases rule: apply_certificate_cases [of L s cert]) (auto simp: bft_inv_def certified_def)

lemma bft_advance_epoch_inv:
  "bft_inv L g vss s \<Longrightarrow>
   bft_inv L g (insert (bs_validator_set (snd (bft_advance_epoch s vs h))) vss) (snd (bft_advance_epoch s vs h))"
  by (auto simp: bft_advance_epoch_def bft_inv_def certified_def split: sum.split)

lemma record_divergence_inv:
  assumes "bft_inv L g vss s" shows "bft_inv L g vss (record_divergence s)"
proof -
  have "(1 :: u32) \<le> 0 + 1" by simp
  then show ?thesis
    using assms by (cases "bs_finality_status s") (auto simp: record_divergence_def bft_inv_def certified_def Let_def)
qed

lemma resume_finality_inv: "bft_inv L g vss s \<Longrightarrow> bft_inv L g vss (resume_finality s)"
  by (auto simp: resume_finality_def bft_inv_def certified_def)

lemma bft_step_inv:
  "bft_step L s s' \<Longrightarrow> bft_inv L g vss s \<Longrightarrow> bft_inv L g (insert (bs_validator_set s') vss) s'"
  by (erule bft_stepE)
    (auto simp: apply_certificate_inv record_divergence_inv resume_finality_inv bft_inv_mono bft_advance_epoch_inv)

lemma bft_reachable_inv: "bft_reachable L vs g vss s \<Longrightarrow> bft_inv L g vss s"
proof (induction rule: bft_reachable.induct)
  case bft_reach_genesis
  show ?case by (simp add: bft_inv_def bft_genesis_def certified_def)
qed (rule bft_step_inv)

lemma bft_step_monotone:
  assumes "bft_step L s s'"
  shows "bs_finalised_height s \<le> bs_finalised_height s' \<and>
    (bs_finalised_height s' = bs_finalised_height s \<longrightarrow> bs_block_hash s' = bs_block_hash s)"
  using assms
proof (cases rule: bft_step.cases)
  case (bft_step_cert cert)
  then show ?thesis by (cases rule: apply_certificate_cases [of L s cert]) auto
qed (auto simp: bft_advance_epoch_def record_divergence_def resume_finality_def Let_def split: sum.split)

lemma bft_steps_monotone:
  "(bft_step L)\<^sup>*\<^sup>* s s' \<Longrightarrow> bs_finalised_height s \<le> bs_finalised_height s' \<and>
    (bs_finalised_height s' = bs_finalised_height s \<longrightarrow> bs_block_hash s' = bs_block_hash s)"
proof (induction rule: rtranclp_induct)
  case (step t u)
  note mono = step.IH bft_step_monotone [OF step.hyps(2)]
  then have "bs_finalised_height s \<le> bs_finalised_height u" by (meson order_trans)
  moreover have "bs_finalised_height t = bs_finalised_height s" if "bs_finalised_height u = bs_finalised_height s"
    using mono that by (metis order_antisym)
  ultimately show ?case using mono by metis
qed simp

subsection \<open>Properties\<close>

text \<open>
  C23: finality is monotone and certified.  A reachable state's epoch is that of its validator set,
  and its head is the genesis block or carries a certificate that verifies against a validator
  set the node has had.  Whatever certificates, epoch changes, divergence reports and resumptions
  follow, the finalised height never decreases and the block at an unchanged height never changes.
\<close>

theorem finality_monotone:
  assumes "bft_reachable L vs g vss s" "(bft_step L)\<^sup>*\<^sup>* s s'"
  shows "certified L g vss s \<and> bs_epoch s = vs_epoch (bs_validator_set s) \<and>
    bs_finalised_height s \<le> bs_finalised_height s' \<and>
    (bs_finalised_height s' = bs_finalised_height s \<longrightarrow> bs_block_hash s' = bs_block_hash s)"
  using bft_steps_monotone [OF assms(2)] bft_reachable_inv [OF assms(1)] by (simp add: bft_inv_def)

theorem finality_monotone_witness:
  "let s = bft_genesis demo_set (fill32 0); s' = snd (apply_certificate demo_bft_libs s (demo_cert 5 9 [1, 3]))
   in bs_finalised_height s' = 5 \<and> bs_finalised_height s' \<le> bs_finalised_height (record_divergence s') \<and>
      certified demo_bft_libs (fill32 0) {demo_set} s'"
proof -
  let ?s = "bft_genesis demo_set (fill32 0)"
  let ?s' = "snd (apply_certificate demo_bft_libs ?s (demo_cert 5 9 [1, 3]))"
  have s': "bs_finalised_height ?s' = 5" "bs_validator_set ?s' = demo_set"
    by (simp_all add: apply_certificate_def bft_genesis_def demo_bft_evals Let_def)
  have "bft_reachable demo_bft_libs demo_set (fill32 0) {demo_set} ?s'"
    using bft_reach_step [OF bft_reach_genesis bft_step_cert [where cert = "demo_cert 5 9 [1, 3]"],
        of demo_bft_libs demo_set "fill32 0"] unfolding s'(2) insert_absorb2 .
  moreover have "(bft_step demo_bft_libs)\<^sup>*\<^sup>* ?s' (record_divergence ?s')"
    by (intro r_into_rtranclp bft_step_diverge)
  note finality_monotone [OF calculation this]
  with s'(1) show ?thesis unfolding Let_def by blast
qed

text \<open>
  One divergence report pauses finality in every reachable state: no height is final and
  every certificate is refused without any change, however many reports follow, until
  \<^verbatim>\<open>resume_finality\<close>; resuming makes exactly the heights up to the finalised one final again.
\<close>

theorem divergence_pauses:
  assumes "bft_reachable L vs g vss s" "p = (record_divergence ^^ Suc n) s"
  shows "\<not> is_final p h \<and> apply_certificate L p cert = (Err FinalityPaused, p) \<and>
    (is_final (resume_finality p) h \<longleftrightarrow> h \<le> bs_finalised_height s)"
proof -
  have "bs_finality_status ((record_divergence ^^ Suc n) s) = Paused \<and>
      bs_finalised_height ((record_divergence ^^ Suc n) s) = bs_finalised_height s"
  proof (induction n)
    case 0
    have "(1 :: u32) \<le> 0 + 1" by simp
    then show ?case using bft_reachable_inv [OF assms(1)]
      by (cases "bs_finality_status s") (auto simp: bft_inv_def record_divergence_def Let_def)
  next
    case (Suc n)
    then show ?case by (simp add: record_divergence_def Let_def)
  qed
  then show ?thesis unfolding assms(2) by (simp add: is_final_def apply_certificate_def resume_finality_def)
qed

theorem divergence_pauses_witness:
  "\<not> is_final (record_divergence (bft_genesis demo_set (fill32 0))) 0 \<and>
   is_final (resume_finality (record_divergence (bft_genesis demo_set (fill32 0)))) 0"
  using divergence_pauses [OF bft_reach_genesis, of "record_divergence (bft_genesis demo_set (fill32 0))" 0
      demo_set "fill32 0" 0 demo_bft_libs]
  by (simp add: bft_genesis_def)

text \<open>
  \<^verbatim>\<open>verify_epoch_chain\<close> accepts exactly the chains that start at the anchor and in which every
  header's epoch is one more than its predecessor's and its validator set hash is the one its
  predecessor committed to.
\<close>

theorem verify_epoch_chain_spec:
  "verify_epoch_chain anchor chain = Ok () \<longleftrightarrow>
     (chain \<noteq> [] \<longrightarrow> eh_validator_set_hash (chain ! 0) = anchor) \<and>
     (\<forall>i. Suc i < length chain \<longrightarrow>
        eh_epoch (chain ! Suc i) = eh_epoch (chain ! i) + 1 \<and>
        eh_next_validator_commitment (chain ! i) = Some (eh_validator_set_hash (chain ! Suc i)))"
proof -
  let ?link = "\<lambda>c i. Suc i < length c \<longrightarrow> eh_epoch (c ! Suc i) = eh_epoch (c ! i) + 1 \<and>
    eh_next_validator_commitment (c ! i) = Some (eh_validator_set_hash (c ! Suc i))"
  have "verify_windows chain = Ok () \<longleftrightarrow> (\<forall>i. ?link chain i)"
  proof (induction chain rule: verify_windows.induct)
    case (1 p c cs)
    have "(\<forall>i. ?link (p # c # cs) i) \<longleftrightarrow> ?link (p # c # cs) 0 \<and> (\<forall>i. ?link (c # cs) i)"
      by (subst all_nat_Suc) simp
    then show ?case using "1.IH" by (auto split: option.split)
  qed simp_all
  then show ?thesis by (cases chain) (simp_all add: verify_epoch_chain_def)
qed

theorem verify_epoch_chain_spec_witness:
  "let a = EpochHeader_new demo_set (Some (demo_set\<lparr>vs_epoch := 8\<rparr>)) 10;
       b = EpochHeader_new (demo_set\<lparr>vs_epoch := 8\<rparr>) None 20
   in verify_epoch_chain (fill32 0) [a, b] = Ok () \<and> verify_epoch_chain (fill32 0) [b, a] \<noteq> Ok ()"
proof -
  let ?a = "EpochHeader_new demo_set (Some (demo_set\<lparr>vs_epoch := 8\<rparr>)) 10"
  let ?b = "EpochHeader_new (demo_set\<lparr>vs_epoch := 8\<rparr>) None 20"
  have "verify_epoch_chain (fill32 0) [?a, ?b] = Ok ()"
    by (simp add: verify_epoch_chain_spec EpochHeader_new_def demo_set_def)
  moreover have "verify_epoch_chain (fill32 0) [?b, ?a] \<noteq> Ok ()"
    by (auto simp: verify_epoch_chain_spec EpochHeader_new_def demo_set_def)
  ultimately show ?thesis by (simp add: Let_def)
qed

text \<open>
  The epoch change of a full node is not authenticated: in any state, anyone can install any
  list of validators by presenting it as the set of the next epoch together with a header
  of their own making that commits to it; the header is neither signed nor compared with the
  current epoch or the current set.
\<close>

theorem epoch_change_unauthenticated:
  "let new_set = ValidatorSet_new L (bs_epoch s + 1) entries;
       header = EpochHeader_new anything (Some new_set) height;
       (r, s') = bft_advance_epoch s new_set header
   in r = Ok () \<and> vs_entries (bs_validator_set s') = entries \<and> bs_epoch s' = bs_epoch s + 1"
  by (simp add: bft_advance_epoch_def verify_next_set_def EpochHeader_new_def ValidatorSet_new_def Let_def)

end
