(* ===== verification/Hash_Map.thy ===== *)
theory Hash_Map
  imports Zona_Prelude "HOL-Library.AList"
begin

section \<open>Hash maps\<close>

text \<open>
  \<^verbatim>\<open>std::collections::HashMap\<close> as an association list with distinct keys.  Lookups do not
  depend on the order of the list.  Where the code iterates over a map, the order in which
  the hash table yields its entries is an argument of the model, a function that permutes
  the list (\<open>is_order\<close>).  The laws that clients use are the locale \<open>hash_table\<close>.

  Several components keep one small state machine per key in a hash map (copies per message,
  a rate-limit bucket per peer).  The locale \<open>keyed_machine\<close> shows once for all of them that a run
  over interleaved inputs is, for each key, the run of that key's machine on its own inputs.
\<close>

type_synonym ('k, 'v) hash_map = "('k \<times> 'v) list"

definition hm_get :: "('k, 'v) hash_map \<Rightarrow> 'k \<Rightarrow> 'v option" where
  "hm_get m k = map_of m k"

definition hm_insert :: "'k \<Rightarrow> 'v \<Rightarrow> ('k, 'v) hash_map \<Rightarrow> ('k, 'v) hash_map" where
  "hm_insert k v m = AList.update k v m"

definition hm_remove :: "'k \<Rightarrow> ('k, 'v) hash_map \<Rightarrow> ('k, 'v) hash_map" where
  "hm_remove k m = AList.delete k m"

definition hm_keys :: "('k, 'v) hash_map \<Rightarrow> 'k set" where
  "hm_keys m = fst ` set m"

definition hm_ok :: "('k, 'v) hash_map \<Rightarrow> bool" where
  "hm_ok m \<longleftrightarrow> distinct (map fst m)"

text \<open>\<^verbatim>\<open>entry(k).or_insert(v)\<close>: the entry that is there or was just inserted, and the new map.\<close>

definition hm_or_insert :: "'k \<Rightarrow> 'v \<Rightarrow> ('k, 'v) hash_map \<Rightarrow> 'v \<times> ('k, 'v) hash_map" where
  "hm_or_insert k v m =
     (case hm_get m k of Some v' \<Rightarrow> (v', m) | None \<Rightarrow> (v, hm_insert k v m))"

definition is_order :: "(('k, 'v) hash_map \<Rightarrow> ('k \<times> 'v) list) \<Rightarrow> bool" where
  "is_order order \<longleftrightarrow> (\<forall>m. mset (order m) = mset m)"

lemma hm_get_simps [simp]:
  "hm_get [] k = None"
  "hm_get (hm_insert k v m) k' = (if k' = k then Some v else hm_get m k')"
  "hm_get (hm_remove k m) k' = (if k' = k then None else hm_get m k')"
  by (simp_all add: hm_get_def hm_insert_def hm_remove_def update_conv' delete_conv')

lemma hm_ok_simps [simp, intro]:
  "hm_ok []" "hm_ok m \<Longrightarrow> hm_ok (hm_insert k v m)" "hm_ok m \<Longrightarrow> hm_ok (hm_remove k m)"
  "hm_ok m \<Longrightarrow> hm_ok (filter p m)"
  by (simp_all add: hm_ok_def hm_insert_def hm_remove_def distinct_update distinct_delete distinct_map_filter)

lemma hm_get_in: "hm_ok m \<Longrightarrow> hm_get m k = Some v \<longleftrightarrow> (k, v) \<in> set m"
  by (simp add: hm_ok_def hm_get_def)

lemma hm_get_same_set:
  assumes "hm_ok m" "hm_ok m'" "set m = set m'" shows "hm_get m k = hm_get m' k"
  using hm_get_in [OF assms(1), of k "the (hm_get m k)"] hm_get_in [OF assms(2), of k "the (hm_get m k)"]
    hm_get_in [OF assms(1), of k "the (hm_get m' k)"] hm_get_in [OF assms(2), of k "the (hm_get m' k)"] assms(3)
  by (cases "hm_get m k"; cases "hm_get m' k") simp_all

lemma hm_get_filter:
  assumes "hm_ok m"
  shows "hm_get (filter p m) k =
    (case hm_get m k of None \<Rightarrow> None | Some v \<Rightarrow> if p (k, v) then Some v else None)"
proof -
  have "hm_get (filter p m) k = Some v \<longleftrightarrow> hm_get m k = Some v \<and> p (k, v)" for v
    using assms by (simp add: hm_get_in)
  from this [of "the (hm_get m k)"] this [of "the (hm_get (filter p m) k)"] show ?thesis
    by (cases "hm_get (filter p m) k"; cases "hm_get m k") simp_all
qed

lemma hm_keys_get: "k \<in> hm_keys m \<longleftrightarrow> hm_get m k \<noteq> None"
  by (simp add: hm_keys_def hm_get_def map_of_eq_None_iff)

lemma hm_keys_simps [simp]:
  "hm_keys [] = {}" "hm_keys (hm_insert k v m) = insert k (hm_keys m)"
  "hm_keys (hm_remove k m) = hm_keys m - {k}"
  by (auto simp: hm_keys_get split: if_splits)

lemma hm_insert_in:
  assumes "hm_ok m" "(k', v') \<in> set (hm_insert k v m)"
  shows "(k' = k \<and> v' = v) \<or> (k' \<noteq> k \<and> (k', v') \<in> set m)"
  using assms hm_get_in [of "hm_insert k v m" k' v'] hm_get_in [of m k' v'] by (auto split: if_splits)

lemma hm_remove_in: "x \<in> set (hm_remove k m) \<Longrightarrow> x \<in> set m"
  by (induction m) (auto simp: hm_remove_def split: if_splits)

lemma is_orderD: "is_order order \<Longrightarrow> set (order m) = set m" "is_order order \<Longrightarrow> length (order m) = length m"
  by (metis is_order_def mset_eq_setD, metis is_order_def size_mset)

lemma is_order_ok: "is_order order \<Longrightarrow> hm_ok m \<Longrightarrow> hm_ok (order m)"
  unfolding hm_ok_def is_order_def by (metis mset_eq_imp_distinct_iff mset_map)

lemma is_order_id [simp]: "is_order (\<lambda>m. m)" "is_order rev"
  by (simp_all add: is_order_def)

lemma hm_or_insert_get:
  "hm_or_insert k v m = (e, m') \<Longrightarrow>
    hm_get m' k = Some e \<and> (\<forall>k'. k' \<noteq> k \<longrightarrow> hm_get m' k' = hm_get m k') \<and> (hm_ok m \<longrightarrow> hm_ok m')"
  by (auto simp: hm_or_insert_def split: option.splits)

text \<open>The laws a client of a hash table may use.\<close>

locale hash_table =
  fixes get :: "'m \<Rightarrow> 'k \<Rightarrow> 'v option" and put :: "'k \<Rightarrow> 'v \<Rightarrow> 'm \<Rightarrow> 'm" and del :: "'k \<Rightarrow> 'm \<Rightarrow> 'm"
    and emp :: 'm and ok :: "'m \<Rightarrow> bool"
  assumes get_emp: "get emp k = None"
    and get_put: "get (put k v m) k' = (if k' = k then Some v else get m k')"
    and get_del: "get (del k m) k' = (if k' = k then None else get m k')"
    and ok_emp: "ok emp" and ok_put: "ok m \<Longrightarrow> ok (put k v m)" and ok_del: "ok m \<Longrightarrow> ok (del k m)"
begin

lemma ok_put_all: "ok m \<Longrightarrow> ok (foldl (\<lambda>m (k, v). put k v m) m kvs)"
  by (induction kvs arbitrary: m) (auto intro: ok_put)

lemma get_put_all:
  "get (foldl (\<lambda>m (k, v). put k v m) m kvs) k =
    (case map_of (rev kvs) k of None \<Rightarrow> get m k | Some v \<Rightarrow> Some v)"
proof (induction kvs rule: rev_induct)
  case (snoc kv kvs)
  then show ?case by (cases kv) (simp add: get_put split: option.split)
qed simp

lemma put_del_get: "get (del k (put k v m)) k' = get (del k m) k'"
  by (simp add: get_put get_del)

lemma invariant_put:
  assumes "\<And>k v. get m k = Some v \<Longrightarrow> P k v" "P k0 v0" "get (put k0 v0 m) k = Some v"
  shows "P k v"
  using assms by (auto simp: get_put split: if_splits)

end

interpretation hm: hash_table hm_get hm_insert hm_remove "[]" hm_ok
  by unfold_locales auto


subsection \<open>One state machine per key\<close>

fun run_keyed :: "('t \<Rightarrow> 'k \<Rightarrow> 'x \<Rightarrow> 'r \<times> 't) \<Rightarrow> 't \<Rightarrow> ('k \<times> 'x) list \<Rightarrow> 'r list \<times> 't" where
  "run_keyed f t [] = ([], t)"
| "run_keyed f t (c # cs) =
     (let (r, t') = f t (fst c) (snd c); (rs, t'') = run_keyed f t' cs in (r # rs, t''))"

fun run_one :: "('s \<Rightarrow> 'x \<Rightarrow> 'r \<times> 's) \<Rightarrow> 's \<Rightarrow> 'x list \<Rightarrow> 'r list \<times> 's" where
  "run_one g s [] = ([], s)"
| "run_one g s (x # xs) = (let (r, s') = g s x; (rs, s'') = run_one g s' xs in (r # rs, s''))"

text \<open>The inputs of one key, and the results at the positions of one key.\<close>

definition inputs_of :: "'k \<Rightarrow> ('k \<times> 'x) list \<Rightarrow> 'x list" where
  "inputs_of k cs = map snd (filter (\<lambda>c. fst c = k) cs)"

definition results_of :: "'k \<Rightarrow> ('k \<times> 'x) list \<Rightarrow> 'r list \<Rightarrow> 'r list" where
  "results_of k cs rs = map snd (filter (\<lambda>c. fst (fst c) = k) (zip cs rs))"

lemma keyed_simps [simp]:
  "inputs_of k [] = []" "inputs_of k (c # cs) = (if fst c = k then snd c # inputs_of k cs else inputs_of k cs)"
  "results_of k [] rs = []"
  "results_of k (c # cs) (r # rs) = (if fst c = k then r # results_of k cs rs else results_of k cs rs)"
  by (simp_all add: inputs_of_def results_of_def)

lemma run_keyed_Cons:
  "run_keyed f t (c # cs) =
    (fst (f t (fst c) (snd c)) # fst (run_keyed f (snd (f t (fst c) (snd c))) cs),
     snd (run_keyed f (snd (f t (fst c) (snd c))) cs))"
  by (simp add: Let_def case_prod_beta')

lemma run_one_Cons:
  "run_one g s (x # xs) = (fst (g s x) # fst (run_one g (snd (g s x)) xs), snd (run_one g (snd (g s x)) xs))"
  by (simp add: Let_def case_prod_beta')

declare run_keyed.simps(2) [simp del] run_one.simps(2) [simp del]

lemmas run_Cons = run_keyed_Cons run_one_Cons

lemma length_run_keyed [simp]: "length (fst (run_keyed f t cs)) = length cs"
  by (induction cs arbitrary: t) (simp_all add: run_Cons)

lemma results_of_same:
  "(\<And>c. c \<in> set cs \<Longrightarrow> fst c = k) \<Longrightarrow> length rs = length cs \<Longrightarrow> results_of k cs rs = rs"
proof (induction cs arbitrary: rs)
  case (Cons c cs)
  then show ?case by (cases rs) simp_all
qed simp

lemma keyed_count:
  "length rs = length cs \<Longrightarrow>
   count_if (\<lambda>(c, r). fst c = k \<and> P (snd c) r) (zip cs rs) =
   count_if (\<lambda>(x, r). P x r) (zip (inputs_of k cs) (results_of k cs rs))"
proof (induction cs arbitrary: rs)
  case (Cons c cs)
  then show ?case by (cases rs) auto
qed simp

lemma sorted_inputs_of: "sorted (map (\<lambda>c. f (snd c)) cs) \<Longrightarrow> sorted (map f (inputs_of k cs))"
  by (induction cs) (auto simp: inputs_of_def)

lemma run_one_append:
  "run_one g s (xs @ ys) = (fst (run_one g s xs) @ fst (run_one g (snd (run_one g s xs)) ys),
     snd (run_one g (snd (run_one g s xs)) ys))"
  by (induction xs arbitrary: s) (simp_all add: run_Cons)

lemma run_one_map: "run_one (\<lambda>s x. g s (h x)) s xs = run_one g s (map h xs)"
  by (induction xs arbitrary: s) (simp_all add: run_Cons)

locale keyed_machine =
  fixes step :: "'t \<Rightarrow> 'k \<Rightarrow> 'x \<Rightarrow> 'r \<times> 't" and state_of :: "'t \<Rightarrow> 'k \<Rightarrow> 's"
    and one :: "'s \<Rightarrow> 'x \<Rightarrow> 'r \<times> 's" and inv :: "'t \<Rightarrow> bool"
  assumes step_same: "inv t \<Longrightarrow> one (state_of t k) x = (fst (step t k x), state_of (snd (step t k x)) k)"
    and step_other: "inv t \<Longrightarrow> j \<noteq> k \<Longrightarrow> state_of (snd (step t k x)) j = state_of t j"
    and step_inv: "inv t \<Longrightarrow> inv (snd (step t k x))"
begin

lemma run_inv: "inv t \<Longrightarrow> inv (snd (run_keyed step t cs))"
  by (induction cs arbitrary: t) (simp_all add: run_Cons step_inv)

lemma run_projection:
  assumes "inv t"
  shows "run_one one (state_of t k) (inputs_of k cs) =
    (results_of k cs (fst (run_keyed step t cs)), state_of (snd (run_keyed step t cs)) k)"
  using assms
proof (induction cs arbitrary: t)
  case (Cons c cs)
  have "inv (snd (step t (fst c) (snd c)))" using Cons.prems by (rule step_inv)
  from Cons.IH [OF this] show ?case
    using step_same [OF Cons.prems, of "fst c" "snd c"] step_other [OF Cons.prems, of k "fst c" "snd c"]
    by (cases "fst c = k") (auto simp: run_Cons)
qed simp

end

end
