(* ===== verification/Light_Client.thy ===== *)
theory Light_Client
  imports Bft_State Hash_Map
begin

section \<open>The light client\<close>

text \<open>
  \<^verbatim>\<open>zona-p2p-bft/src/light_client.rs\<close>: a client that trusts a header only after two channels
  reported it or one did and an external checkpoint was provided.  A \<^verbatim>\<open>HashSet\<close> of referrers is
  a finite set.  \<open>lc_run\<close> is the client driven by any sequence of its operations.
\<close>

subsection \<open>Operations\<close>

record anchor =
  an_height :: u64
  an_block_hash :: bytes32
  an_validator_set_hash :: bytes32

record cert_observation =
  obs_cert :: bft_certificate
  obs_referrer_id :: node_id

record light_client =
  lc_anchor :: anchor
  lc_best_height :: u64
  lc_best_hash :: bytes32
  lc_pending :: "(u64 \<times> bytes32, node_id set) hash_map"
  lc_validator_set :: validator_set
  lc_has_external_checkpoint :: bool

definition lc_from_genesis :: "anchor \<Rightarrow> validator_set \<Rightarrow> light_client" where
  "lc_from_genesis an vs =
     \<lparr>lc_anchor = an, lc_best_height = an_height an, lc_best_hash = an_block_hash an, lc_pending = [],
      lc_validator_set = vs, lc_has_external_checkpoint = False\<rparr>"

definition provide_external_checkpoint :: "light_client \<Rightarrow> light_client" where
  "provide_external_checkpoint lc = lc\<lparr>lc_has_external_checkpoint := True\<rparr>"

definition observe ::
  "'a bft_libs_scheme \<Rightarrow> light_client \<Rightarrow> cert_observation \<Rightarrow> (bool, bft_error) result \<times> light_client" where
  "observe L lc obs =
     (case cert_verify L (obs_cert obs) (lc_validator_set lc) of
        Inl e \<Rightarrow> (Err e, lc)
      | Inr _ \<Rightarrow>
          let height = cp_height (cert_payload (obs_cert obs));
              hash = cp_block_hash (cert_payload (obs_cert obs))
          in if height \<le> lc_best_height lc then (Ok False, lc)
             else
               let key = (height, hash);
                   (refs, pending) = hm_or_insert key {} (lc_pending lc);
                   refs = insert (obs_referrer_id obs) refs;
                   pending = hm_insert key refs pending;
                   channel_count = card refs;
                   accepted = (2 \<le> channel_count \<or> (1 \<le> channel_count \<and> lc_has_external_checkpoint lc))
               in if accepted
                  then (Ok True, lc\<lparr>lc_best_height := height, lc_best_hash := hash,
                          lc_has_external_checkpoint := False,
                          lc_pending := filter (\<lambda>((h, _), _). height < h) pending\<rparr>)
                  else (Ok False, lc\<lparr>lc_pending := pending\<rparr>))"

definition lc_verify_epoch_chain :: "light_client \<Rightarrow> epoch_header list \<Rightarrow> (unit, bft_error) result" where
  "lc_verify_epoch_chain lc chain = verify_epoch_chain (an_validator_set_hash (lc_anchor lc)) chain"

definition lc_advance_epoch ::
  "light_client \<Rightarrow> validator_set \<Rightarrow> epoch_header \<Rightarrow> (unit, bft_error) result \<times> light_client" where
  "lc_advance_epoch lc new_set header =
     (case verify_next_set header new_set of
        Inl e \<Rightarrow> (Err e, lc)
      | Inr _ \<Rightarrow>
          if vs_epoch new_set \<noteq> vs_epoch (lc_validator_set lc) + 1
          then (Err (NonConsecutiveEpoch (vs_epoch (lc_validator_set lc) + 1) (vs_epoch new_set)), lc)
          else (Ok (), lc\<lparr>lc_validator_set := new_set\<rparr>))"

subsection \<open>Runs\<close>

datatype lc_event = Observe cert_observation | Checkpoint | AdvanceEpoch validator_set epoch_header

definition lc_apply :: "'a bft_libs_scheme \<Rightarrow> light_client \<Rightarrow> lc_event \<Rightarrow> light_client" where
  "lc_apply L lc ev =
     (case ev of
        Observe obs \<Rightarrow> snd (observe L lc obs)
      | Checkpoint \<Rightarrow> provide_external_checkpoint lc
      | AdvanceEpoch vs h \<Rightarrow> snd (lc_advance_epoch lc vs h))"

definition lc_run :: "'a bft_libs_scheme \<Rightarrow> light_client \<Rightarrow> lc_event list \<Rightarrow> light_client" where
  "lc_run L lc evs = foldl (lc_apply L) lc evs"

lemma lc_run_simps [simp]:
  "lc_run L lc [] = lc" "lc_run L lc (evs @ [ev]) = lc_apply L (lc_run L lc evs) ev"
  by (simp_all add: lc_run_def)

text \<open>The observation an event is, if its certificate verifies in the client's current epoch.\<close>

definition verified_obs :: "'a bft_libs_scheme \<Rightarrow> light_client \<Rightarrow> lc_event \<Rightarrow> cert_observation set" where
  "verified_obs L lc ev =
     (case ev of
        Observe obs \<Rightarrow> (if cert_verify L (obs_cert obs) (lc_validator_set lc) = Ok () then {obs} else {})
      | _ \<Rightarrow> {})"

fun verified_along :: "'a bft_libs_scheme \<Rightarrow> light_client \<Rightarrow> lc_event list \<Rightarrow> cert_observation set" where
  "verified_along L lc [] = {}"
| "verified_along L lc (ev # evs) = verified_obs L lc ev \<union> verified_along L (lc_apply L lc ev) evs"

lemma verified_along_snoc [simp]:
  "verified_along L lc (evs @ [ev]) = verified_along L lc evs \<union> verified_obs L (lc_run L lc evs) ev"
  by (induction evs arbitrary: lc) (auto simp: lc_run_def)

definition obs_key :: "cert_observation \<Rightarrow> u64 \<times> bytes32" where
  "obs_key obs = (cp_height (cert_payload (obs_cert obs)), cp_block_hash (cert_payload (obs_cert obs)))"

text \<open>
  Every pending key lies above the trusted header, and its referrers each delivered a verified
  certificate for it.
\<close>

definition pending_ok :: "cert_observation set \<Rightarrow> u64 \<Rightarrow> (u64 \<times> bytes32) \<times> node_id set \<Rightarrow> bool" where
  "pending_ok H best = (\<lambda>(k, refs). best < fst k \<and> finite refs \<and> refs \<noteq> {} \<and>
     refs \<subseteq> obs_referrer_id ` {obs \<in> H. obs_key obs = k})"

definition lc_inv :: "cert_observation set \<Rightarrow> light_client \<Rightarrow> bool" where
  "lc_inv H lc \<longleftrightarrow> hm_ok (lc_pending lc) \<and> list_all (pending_ok H (lc_best_height lc)) (lc_pending lc)"

lemma pending_ok_mono: "pending_ok H b x \<Longrightarrow> H \<subseteq> H' \<Longrightarrow> pending_ok H' b x"
  by (force simp: pending_ok_def)

lemma lc_inv_get:
  "lc_inv H lc \<Longrightarrow> hm_get (lc_pending lc) k = Some refs \<Longrightarrow> pending_ok H (lc_best_height lc) (k, refs)"
  by (auto simp: lc_inv_def list_all_iff hm_get_in)

text \<open>The referrers of an observation's key once it is recorded.\<close>

definition refs_after :: "light_client \<Rightarrow> cert_observation \<Rightarrow> node_id set" where
  "refs_after lc obs =
     insert (obs_referrer_id obs) (case hm_get (lc_pending lc) (obs_key obs) of None \<Rightarrow> {} | Some r \<Rightarrow> r)"

definition accepts_obs :: "light_client \<Rightarrow> cert_observation \<Rightarrow> bool" where
  "accepts_obs lc obs \<longleftrightarrow> 2 \<le> card (refs_after lc obs) \<or> 1 \<le> card (refs_after lc obs) \<and> lc_has_external_checkpoint lc"

lemma hm_insert_or_insert: "hm_insert k v (snd (hm_or_insert k w m)) = hm_insert k v m"
  by (auto simp: hm_or_insert_def hm_insert_def split: option.split)

lemma observe_cases:
  "observe L lc obs =
    (case cert_verify L (obs_cert obs) (lc_validator_set lc) of
       Inl e \<Rightarrow> (Err e, lc)
     | Inr _ \<Rightarrow>
         if fst (obs_key obs) \<le> lc_best_height lc then (Ok False, lc)
         else if accepts_obs lc obs
         then (Ok True, lc\<lparr>lc_best_height := fst (obs_key obs), lc_best_hash := snd (obs_key obs),
                 lc_has_external_checkpoint := False,
                 lc_pending := filter (\<lambda>((h, _), _). fst (obs_key obs) < h)
                   (hm_insert (obs_key obs) (refs_after lc obs) (lc_pending lc))\<rparr>)
         else (Ok False, lc\<lparr>lc_pending := hm_insert (obs_key obs) (refs_after lc obs) (lc_pending lc)\<rparr>))"
  using hm_insert_or_insert [of "obs_key obs" "refs_after lc obs" "{}" "lc_pending lc"]
  by (auto simp: observe_def accepts_obs_def refs_after_def obs_key_def hm_or_insert_def Let_def
      split: sum.split option.split)

subsection \<open>The invariant\<close>

lemma lc_inv_mono: "lc_inv H lc \<Longrightarrow> H \<subseteq> H' \<Longrightarrow> lc_inv H' lc"
  by (auto simp: lc_inv_def list_all_iff intro: pending_ok_mono)

lemma refs_after_ok:
  assumes "lc_inv H lc" "lc_best_height lc < fst (obs_key obs)"
  shows "pending_ok (insert obs H) (lc_best_height lc) (obs_key obs, refs_after lc obs)"
proof (cases "hm_get (lc_pending lc) (obs_key obs)")
  case None
  then show ?thesis using assms(2) by (auto simp: refs_after_def pending_ok_def)
next
  case (Some refs)
  from pending_ok_mono [OF lc_inv_get [OF assms(1) Some], of "insert obs H"] show ?thesis
    using Some by (auto simp: refs_after_def pending_ok_def)
qed

lemma lc_inv_record:
  assumes "lc_inv H lc" "lc_best_height lc < fst (obs_key obs)"
  shows "lc_inv (insert obs H) (lc\<lparr>lc_pending := hm_insert (obs_key obs) (refs_after lc obs) (lc_pending lc)\<rparr>)"
proof -
  have "pending_ok (insert obs H) (lc_best_height lc) x"
    if "x \<in> set (hm_insert (obs_key obs) (refs_after lc obs) (lc_pending lc))" for x
  proof -
    have "x = (obs_key obs, refs_after lc obs) \<or> x \<in> set (lc_pending lc)"
      using that assms(1) hm_insert_in [of "lc_pending lc" "fst x" "snd x" "obs_key obs" "refs_after lc obs"]
      unfolding lc_inv_def prod.collapse by (metis prod.collapse)
    then show ?thesis
      using refs_after_ok [OF assms] assms(1) pending_ok_mono [of H _ x "insert obs H"]
      unfolding lc_inv_def list_all_iff by blast
  qed
  then show ?thesis using assms(1) by (auto simp: lc_inv_def list_all_iff)
qed

lemma pending_ok_above: "pending_ok H b x \<Longrightarrow> h < fst (fst x) \<Longrightarrow> pending_ok H h x"
  by (cases x) (simp add: pending_ok_def)

lemma lc_inv_accept:
  assumes "lc_inv H lc" "\<And>x. x \<in> set p \<Longrightarrow> pending_ok H (lc_best_height lc) x" "hm_ok p"
  shows "lc_inv H (lc\<lparr>lc_best_height := h, lc_best_hash := b, lc_has_external_checkpoint := e,
    lc_pending := filter (\<lambda>((k, _), _). h < k) p\<rparr>)"
proof -
  have "pending_ok H h x" if "x \<in> set p" "h < fst (fst x)" for x
    using pending_ok_above assms(2) that by blast
  then show ?thesis using assms(3) by (simp add: lc_inv_def list_all_iff case_prod_beta')
qed

lemma observe_inv:
  assumes inv: "lc_inv H lc"
  shows "lc_inv (H \<union> verified_obs L lc (Observe obs)) (snd (observe L lc obs))"
proof (cases "cert_verify L (obs_cert obs) (lc_validator_set lc)")
  case (Inl e)
  then show ?thesis using inv by (simp add: observe_cases verified_obs_def)
next
  case (Inr u)
  then have v: "H \<union> verified_obs L lc (Observe obs) = insert obs H" by (simp add: verified_obs_def)
  show ?thesis
  proof (cases "fst (obs_key obs) \<le> lc_best_height lc")
    case True
    then show ?thesis using inv Inr by (auto simp: observe_cases v intro: lc_inv_mono)
  next
    case False
    let ?p = "hm_insert (obs_key obs) (refs_after lc obs) (lc_pending lc)"
    have rec: "lc_inv (insert obs H) (lc\<lparr>lc_pending := ?p\<rparr>)"
      using lc_inv_record [OF inv] False by (simp add: not_le)
    from rec have "lc_inv (insert obs H) (lc\<lparr>lc_best_height := fst (obs_key obs), lc_best_hash := snd (obs_key obs),
        lc_has_external_checkpoint := False, lc_pending := filter (\<lambda>((h, _), _). fst (obs_key obs) < h) ?p\<rparr>)"
      using lc_inv_mono [OF inv, of "insert obs H"]
      by (intro lc_inv_accept) (auto simp: lc_inv_def list_all_iff)
    then show ?thesis using rec False Inr by (simp add: observe_cases v)
  qed
qed

lemma lc_apply_inv: "lc_inv H lc \<Longrightarrow> lc_inv (H \<union> verified_obs L lc ev) (lc_apply L lc ev)"
proof (cases ev)
  case (Observe obs)
  then show "lc_inv H lc \<Longrightarrow> ?thesis" by (simp add: lc_apply_def observe_inv)
qed (auto simp: lc_apply_def verified_obs_def lc_inv_def provide_external_checkpoint_def lc_advance_epoch_def
    split: sum.split)

lemma lc_run_inv: "lc_inv (verified_along L (lc_from_genesis an vs) evs) (lc_run L (lc_from_genesis an vs) evs)"
proof (induction evs rule: rev_induct)
  case Nil
  show ?case by (simp add: lc_inv_def lc_from_genesis_def)
next
  case (snoc ev evs)
  then show ?case by (simp add: lc_apply_inv)
qed

text \<open>A checkpoint that is still available was provided after the last accepted observation.\<close>

lemma lc_apply_checkpoint:
  assumes "lc_has_external_checkpoint (lc_apply L lc ev)" "ev \<noteq> Checkpoint"
  shows "lc_has_external_checkpoint lc \<and>
    lc_best_height (lc_apply L lc ev) = lc_best_height lc \<and> lc_best_hash (lc_apply L lc ev) = lc_best_hash lc"
  using assms
  by (cases ev) (auto simp: lc_apply_def observe_cases lc_advance_epoch_def split: sum.splits if_splits)

lemma lc_run_checkpoint:
  assumes "lc_has_external_checkpoint (lc_run L (lc_from_genesis an vs) evs)"
  shows "\<exists>pre post. evs = pre @ Checkpoint # post \<and>
    lc_best_height (lc_run L (lc_from_genesis an vs) pre) = lc_best_height (lc_run L (lc_from_genesis an vs) evs) \<and>
    lc_best_hash (lc_run L (lc_from_genesis an vs) pre) = lc_best_hash (lc_run L (lc_from_genesis an vs) evs)"
  using assms
proof (induction evs rule: rev_induct)
  case (snoc ev evs)
  let ?run = "lc_run L (lc_from_genesis an vs)"
  show ?case
  proof (cases "ev = Checkpoint")
    case True
    then have "lc_best_height (?run (evs @ [ev])) = lc_best_height (?run evs)"
        "lc_best_hash (?run (evs @ [ev])) = lc_best_hash (?run evs)"
      by (simp_all add: lc_apply_def provide_external_checkpoint_def)
    then show ?thesis using True by (intro exI [of _ evs] exI [of _ "[]"]) simp
  next
    case False
    from snoc.prems have last: "lc_has_external_checkpoint (lc_apply L (?run evs) ev)" by simp
    note step = lc_apply_checkpoint [OF last False]
    from snoc.IH step obtain pre post where "evs = pre @ Checkpoint # post"
        "lc_best_height (?run pre) = lc_best_height (?run evs)" "lc_best_hash (?run pre) = lc_best_hash (?run evs)"
      by blast
    then have "evs @ [ev] = pre @ Checkpoint # (post @ [ev]) \<and>
        lc_best_height (?run pre) = lc_best_height (?run (evs @ [ev])) \<and>
        lc_best_hash (?run pre) = lc_best_hash (?run (evs @ [ev]))"
      unfolding lc_run_simps(2) using step by simp
    then show ?thesis by blast
  qed
qed (simp add: lc_from_genesis_def)

lemma lc_apply_monotone:
  "lc_anchor (lc_apply L lc ev) = lc_anchor lc \<and> lc_best_height lc \<le> lc_best_height (lc_apply L lc ev) \<and>
   (lc_best_height (lc_apply L lc ev) = lc_best_height lc \<longrightarrow> lc_best_hash (lc_apply L lc ev) = lc_best_hash lc)"
proof (cases ev)
  case (Observe obs)
  then show ?thesis by (auto simp: lc_apply_def observe_cases not_le split: sum.split)
qed (auto simp: lc_apply_def provide_external_checkpoint_def lc_advance_epoch_def split: sum.split)

subsection \<open>Properties\<close>

text \<open>
  C24: whatever certificates, checkpoints and epoch changes a client has processed, an
  observation advances its trusted header only to a strictly greater height, only if its own
  certificate verifies against the client's validator set, and only if an earlier verified
  observation from a different referrer was for the same height and block or an external
  checkpoint was provided since the trusted header last advanced, so that each checkpoint excuses
  at most one acceptance; and it then trusts exactly the observed header.
\<close>

theorem light_client_acceptance:
  assumes "lc = lc_run L (lc_from_genesis an vs) evs" "observe L lc obs = (Ok True, lc')"
  shows "cert_verify L (obs_cert obs) (lc_validator_set lc) = Ok () \<and>
    lc_best_height lc < fst (obs_key obs) \<and> (lc_best_height lc', lc_best_hash lc') = obs_key obs \<and>
    ((\<exists>o' \<in> verified_along L (lc_from_genesis an vs) evs.
        obs_key o' = obs_key obs \<and> obs_referrer_id o' \<noteq> obs_referrer_id obs) \<or>
     (\<exists>pre post. evs = pre @ Checkpoint # post \<and>
        lc_best_height (lc_run L (lc_from_genesis an vs) pre) = lc_best_height lc \<and>
        lc_best_hash (lc_run L (lc_from_genesis an vs) pre) = lc_best_hash lc))"
proof -
  let ?H = "verified_along L (lc_from_genesis an vs) evs"
  have inv: "lc_inv ?H lc" using lc_run_inv assms(1) by simp
  have acc: "cert_verify L (obs_cert obs) (lc_validator_set lc) = Ok ()" "lc_best_height lc < fst (obs_key obs)"
      "accepts_obs lc obs" "(lc_best_height lc', lc_best_hash lc') = obs_key obs"
    using assms(2) by (auto simp: observe_cases not_le split: sum.splits if_splits)
  show ?thesis
  proof (cases "lc_has_external_checkpoint lc")
    case True
    then show ?thesis using lc_run_checkpoint acc assms(1) by blast
  next
    case False
    then have two: "2 \<le> card (refs_after lc obs)" using acc(3) by (simp add: accepts_obs_def)
    have "\<exists>r. r \<in> refs_after lc obs \<and> r \<noteq> obs_referrer_id obs"
    proof (rule ccontr)
      assume "\<not> ?thesis"
      then have "refs_after lc obs = {obs_referrer_id obs}" by (auto simp: refs_after_def)
      with two show False by simp
    qed
    then obtain r where r: "r \<in> refs_after lc obs" "r \<noteq> obs_referrer_id obs" by blast
    then obtain refs where "hm_get (lc_pending lc) (obs_key obs) = Some refs" "r \<in> refs"
      by (auto simp: refs_after_def split: option.splits)
    with lc_inv_get [OF inv] have "r \<in> obs_referrer_id ` {o' \<in> ?H. obs_key o' = obs_key obs}"
      unfolding pending_ok_def by blast
    then obtain o' where "o' \<in> ?H" "obs_key o' = obs_key obs" "obs_referrer_id o' = r" by blast
    with acc r(2) show ?thesis by blast
  qed
qed

theorem light_client_acceptance_witness:
  "let lc0 = lc_from_genesis \<lparr>an_height = 0, an_block_hash = fill32 0, an_validator_set_hash = fill32 0\<rparr> demo_set;
       o1 = \<lparr>obs_cert = demo_cert 5 9 [1, 3], obs_referrer_id = idn 40\<rparr>;
       o2 = \<lparr>obs_cert = demo_cert 5 9 [2, 3], obs_referrer_id = idn 41\<rparr>;
       lc1 = lc_run demo_bft_libs lc0 [Observe o1]
   in lc_best_height lc1 = 0 \<and> fst (observe demo_bft_libs lc1 o2) = Ok True \<and>
      lc_best_height (snd (observe demo_bft_libs lc1 o2)) = 5"
proof -
  let ?an = "\<lparr>an_height = 0, an_block_hash = fill32 0, an_validator_set_hash = fill32 0\<rparr>"
  let ?o1 = "\<lparr>obs_cert = demo_cert 5 9 [1, 3], obs_referrer_id = idn 40\<rparr>"
  let ?o2 = "\<lparr>obs_cert = demo_cert 5 9 [2, 3], obs_referrer_id = idn 41\<rparr>"
  let ?lc1 = "lc_run demo_bft_libs (lc_from_genesis ?an demo_set) [Observe ?o1]"
  have ok: "cert_verify demo_bft_libs (demo_cert 5 9 [1, 3]) demo_set = Ok ()"
      "cert_verify demo_bft_libs (demo_cert 5 9 [2, 3]) demo_set = Ok ()"
    by (simp_all add: demo_bft_evals Let_def)
  have keys: "obs_key ?o1 = (5, fill32 9)" "obs_key ?o2 = (5, fill32 9)" by (simp_all add: obs_key_def demo_cert_def)
  have lc1: "?lc1 = (lc_from_genesis ?an demo_set)\<lparr>lc_pending := [((5, fill32 9), {idn 40})]\<rparr>"
    by (simp add: lc_run_def lc_apply_def observe_cases ok keys accepts_obs_def refs_after_def
        lc_from_genesis_def hm_insert_def)
  have acc: "observe demo_bft_libs ?lc1 ?o2 = (Ok True, snd (observe demo_bft_libs ?lc1 ?o2))"
    unfolding lc1 by (simp add: observe_cases ok keys accepts_obs_def refs_after_def lc_from_genesis_def hm_get_def)
  have "lc_best_height ?lc1 = 0" unfolding lc1 by (simp add: lc_from_genesis_def)
  moreover have "lc_best_height (snd (observe demo_bft_libs ?lc1 ?o2)) = 5"
    using light_client_acceptance [OF refl acc] unfolding keys by simp
  moreover have "fst (observe demo_bft_libs ?lc1 ?o2) = Ok True" by (subst acc) (rule fst_conv)
  ultimately show ?thesis unfolding Let_def by blast
qed

text \<open>
  A light client's trusted height never decreases, the trusted block at an unchanged height
  never changes, and its anchor never changes, over any run of its operations.
\<close>

theorem light_client_monotone:
  "lc_anchor (lc_run L lc evs) = lc_anchor lc \<and> lc_best_height lc \<le> lc_best_height (lc_run L lc evs) \<and>
   (lc_best_height (lc_run L lc evs) = lc_best_height lc \<longrightarrow> lc_best_hash (lc_run L lc evs) = lc_best_hash lc)"
proof (induction evs rule: rev_induct)
  case (snoc ev evs)
  let ?m = "lc_run L lc evs"
  note step = lc_apply_monotone [of L ?m ev]
  have "lc_best_height lc \<le> lc_best_height (lc_apply L ?m ev)" using snoc step by (meson order_trans)
  moreover have "lc_best_height ?m = lc_best_height lc" if "lc_best_height (lc_apply L ?m ev) = lc_best_height lc"
    using snoc step that by (metis order_antisym)
  ultimately show ?case using snoc step by (metis lc_run_simps(2))
qed simp

theorem light_client_monotone_witness:
  "let lc = lc_from_genesis \<lparr>an_height = 3, an_block_hash = fill32 0, an_validator_set_hash = fill32 0\<rparr> demo_set
   in 3 \<le> lc_best_height (lc_run demo_bft_libs lc [Checkpoint])"
  using light_client_monotone [of demo_bft_libs "lc_from_genesis \<lparr>an_height = 3, an_block_hash = fill32 0,
      an_validator_set_hash = fill32 0\<rparr> demo_set" "[Checkpoint]"]
  by (simp add: Let_def lc_from_genesis_def)

end
