(* ===== verification/Float_Grid.thy ===== *)
theory Float_Grid
  imports Complex_Main Zona_Prelude
begin

section \<open>Rounding to binary floating-point numbers\<close>

text \<open>
  A finite floating-point number is a rational number, and an operation rounds the exact result to
  the nearest multiple of the unit in the last place of its binade, ties to even, as IEEE 754
  prescribes.  This theory has what the formats share: rounding to an integer, the search for the
  unit, and, in the locale \<open>binary_grid\<close>, that rounding is monotone and keeps the numbers of the
  format.  \<open>p\<close> is the number of significant bits without the leading one.
\<close>

text \<open>Round to the nearest integer, ties to the even one.\<close>

definition rne :: "rat \<Rightarrow> int" where
  "rne x = (let n = \<lfloor>x\<rfloor>; r = x - of_int n
            in if r < 1 / 2 then n else if 1 / 2 < r then n + 1 else if even n then n else n + 1)"

text \<open>The spacing at a magnitude, searched from a binade downwards for at most \<open>k\<close> binades.\<close>

fun ulp_down :: "nat \<Rightarrow> nat \<Rightarrow> rat \<Rightarrow> rat \<Rightarrow> rat" where
  "ulp_down p 0 q x = q"
| "ulp_down p (Suc k) q x = (if 2 ^ p * q \<le> x then q else ulp_down p k (q / 2) x)"

subsection \<open>Rounding to an integer\<close>

lemma rne_of_int [simp]: "rne (of_int k) = k"
  by (simp add: rne_def)

lemma rne_lower: "\<lfloor>x\<rfloor> \<le> rne x" and rne_upper: "rne x \<le> \<lfloor>x\<rfloor> + 1"
  by (auto simp: rne_def Let_def)

lemma rne_mono: assumes "x \<le> y" shows "rne x \<le> rne y"
proof (cases "\<lfloor>x\<rfloor> = \<lfloor>y\<rfloor>")
  case True
  with assms show ?thesis by (auto simp: rne_def Let_def)
next
  case False
  with floor_mono [OF assms] have "\<lfloor>x\<rfloor> + 1 \<le> \<lfloor>y\<rfloor>" by simp
  with rne_upper [of x] rne_lower [of y] show ?thesis by linarith
qed

lemma rne_le_int: "x \<le> of_int k \<Longrightarrow> rne x \<le> k"
  using rne_mono [of x "of_int k"] by simp

lemma rne_ge_int: "of_int k \<le> x \<Longrightarrow> k \<le> rne x"
  using rne_mono [of "of_int k" x] by simp

lemma rne_nearest:
  assumes "\<bar>x - of_int m\<bar> < 1 / 2 \<or> \<bar>x - of_int m\<bar> = 1 / 2 \<and> even m" shows "rne x = m"
proof -
  have "\<lfloor>x\<rfloor> = m \<or> \<lfloor>x\<rfloor> = m - 1" using assms by linarith
  then show ?thesis using assms by (auto simp: rne_def Let_def)
qed

subsection \<open>The search for the unit\<close>

lemma ulp_down_ge: "0 < q \<Longrightarrow> q / 2 ^ k \<le> ulp_down p k q x"
proof (induction k arbitrary: q)
  case (Suc k)
  have "(1 :: rat) \<le> 2 ^ Suc k" by (rule one_le_power) simp
  then have "q / 2 ^ Suc k \<le> q" using Suc.prems by (simp add: field_simps)
  with Suc.IH [of "q / 2"] Suc.prems show ?case by simp
qed simp

lemma ulp_down_cases:
  assumes "0 < q" "x < 2 ^ Suc p * q"
  shows "0 < ulp_down p k q x \<and> x < 2 ^ Suc p * ulp_down p k q x \<and>
    (ulp_down p k q x = q / 2 ^ k \<or> 2 ^ p * ulp_down p k q x \<le> x)"
  using assms
proof (induction k arbitrary: q)
  case (Suc k)
  show ?case
  proof (cases "2 ^ p * q \<le> x")
    case False
    then have "x < 2 ^ Suc p * (q / 2)" by simp
    with Suc.IH [of "q / 2"] Suc.prems False show ?thesis by simp
  qed (use Suc.prems in simp)
qed simp

lemma ulp_down_antimono:
  assumes "0 < q" "x \<le> y"
  shows "\<exists>m. ulp_down p k q y = 2 ^ m * ulp_down p k q x"
  using assms
proof (induction k arbitrary: q)
  case 0
  show ?case by (rule exI [of _ 0]) simp
next
  case (Suc k)
  have deeper: "\<exists>m. r = 2 ^ m * ulp_down p j r x" if "0 < r" for r :: rat and j
    using that
  proof (induction j arbitrary: r)
    case 0
    show ?case by (rule exI [of _ 0]) simp
  next
    case (Suc j)
    obtain m where m: "r / 2 = 2 ^ m * ulp_down p j (r / 2) x" using Suc.IH [of "r / 2"] Suc.prems by auto
    show ?case
    proof (cases "2 ^ p * r \<le> x")
      case True
      then show ?thesis by (intro exI [of _ 0]) simp
    next
      case False
      with m show ?thesis by (intro exI [of _ "Suc m"]) (simp add: field_simps)
    qed
  qed
  show ?case
  proof (cases "2 ^ p * q \<le> y")
    case True
    then show ?thesis using deeper [of q "Suc k"] Suc.prems by simp
  next
    case False
    then show ?thesis using Suc.IH [of "q / 2"] Suc.prems by auto
  qed
qed

text \<open>The unit of a number whose binade is known.\<close>

lemma ulp_down_binade:
  "0 < q \<Longrightarrow> 2 ^ p * (q / 2 ^ j) \<le> x \<Longrightarrow> x < 2 ^ Suc p * (q / 2 ^ j) \<Longrightarrow> j < k \<Longrightarrow>
   ulp_down p k q x = q / 2 ^ j"
proof (induction j arbitrary: k q)
  case 0
  then show ?case by (cases k) auto
next
  case (Suc j)
  obtain k' where k: "k = Suc k'" using Suc.prems by (cases k) auto
  have "q / 2 / 2 ^ j \<le> q / 2" using Suc.prems(1) by (simp add: field_simps)
  then have "2 ^ Suc p * (q / 2 / 2 ^ j) \<le> 2 ^ Suc p * (q / 2)" by (intro mult_left_mono) auto
  moreover have "x < 2 ^ Suc p * (q / 2 / 2 ^ j)" using Suc.prems(3) by simp
  moreover have "2 ^ Suc p * (q / 2) = 2 ^ p * q" by simp
  ultimately have "\<not> 2 ^ p * q \<le> x" by linarith
  then show ?case using Suc.IH [of "q / 2" k'] Suc.prems k by simp
qed

subsection \<open>Rounding\<close>

text \<open>
  What the formats promise of their units below a bound: the significand of a number has \<open>p + 1\<close> bits,
  all of them used except at the smallest unit, and the unit of a larger number is a multiple
  of that of a smaller one by a power of two.
\<close>

locale binary_grid =
  fixes p :: nat and ulp :: "rat \<Rightarrow> rat" and least top :: rat
  assumes ulp_pos: "0 \<le> x \<Longrightarrow> x < top \<Longrightarrow> 0 < ulp x"
    and ulp_upper: "0 \<le> x \<Longrightarrow> x < top \<Longrightarrow> x < 2 ^ Suc p * ulp x"
    and ulp_lower: "0 \<le> x \<Longrightarrow> x < top \<Longrightarrow> ulp x = least \<or> 2 ^ p * ulp x \<le> x"
    and ulp_least: "0 \<le> x \<Longrightarrow> x < top \<Longrightarrow> least \<le> ulp x"
    and ulp_antimono: "0 \<le> x \<Longrightarrow> x \<le> y \<Longrightarrow> y < top \<Longrightarrow> \<exists>m. ulp y = 2 ^ m * ulp x"
    and top_pos: "0 < top"
begin

definition rounded :: "rat \<Rightarrow> rat" where
  "rounded x = of_int (rne (x / ulp x)) * ulp x"

text \<open>Across binades the coarser grid of the larger number contains the boundary between them.\<close>

lemma rounded_mono:
  assumes "0 \<le> x" "x \<le> y" "y < top"
  shows "rounded x \<le> rounded y"
proof -
  let ?q = "ulp x"
  obtain m where m: "ulp y = 2 ^ m * ?q" using ulp_antimono [OF assms] by auto
  have q: "0 < ?q" "x < 2 ^ Suc p * ?q" using assms ulp_pos [of x] ulp_upper [of x] by auto
  show ?thesis
  proof (cases m)
    case 0
    then have "ulp y = ?q" using m by simp
    moreover have "rne (x / ?q) \<le> rne (y / ?q)"
      using assms q by (intro rne_mono divide_right_mono) auto
    ultimately show ?thesis using q by (simp add: rounded_def)
  next
    case (Suc n)
    have fine: "rne (x / ?q) \<le> 2 ^ Suc p"
      using q by (intro rne_le_int) (simp add: field_simps)
    have low: "least \<le> ?q" using assms by (intro ulp_least) auto
    have coarse: "2 * ?q \<le> ulp y"
      unfolding m Suc using q(1) by (simp add: mult_le_cancel_right1)
    then have "ulp y \<noteq> least" using low q(1) by linarith
    then have "2 ^ p * ulp y \<le> y" using ulp_lower [of y] assms by auto
    then have "2 ^ p \<le> rne (y / ulp y)"
      using coarse q(1) by (intro rne_ge_int) (simp add: field_simps)
    then have "(2 :: rat) ^ p \<le> of_int (rne (y / ulp y))"
      by (metis of_int_le_iff of_int_numeral of_int_power)
    then have high: "2 ^ p * ulp y \<le> rounded y"
      unfolding rounded_def using coarse q(1) by (intro mult_right_mono) auto
    have "of_int (rne (x / ?q)) \<le> (2 :: rat) ^ Suc p"
      using fine by (metis of_int_le_iff of_int_numeral of_int_power)
    then have "rounded x \<le> 2 ^ Suc p * ?q"
      unfolding rounded_def using q(1) by (intro mult_right_mono) auto
    also have "\<dots> \<le> 2 ^ p * ulp y" using mult_left_mono [OF coarse, of "2 ^ p"] by simp
    finally show ?thesis using high by simp
  qed
qed

lemma rounded_0 [simp]: "rounded 0 = 0"
  by (simp add: rounded_def rne_def)

lemma rounded_nonneg: "0 \<le> x \<Longrightarrow> x < top \<Longrightarrow> 0 \<le> rounded x"
  using rounded_mono [of 0 x] by simp

text \<open>Multiples of a unit not below the least that need no more than \<open>p + 1\<close> bits are kept.\<close>

lemma rounded_grid:
  assumes "0 \<le> x" "x < top" "x = of_int m * ulp x"
  shows "rounded x = x"
proof -
  have "x / ulp x = of_int m" using assms ulp_pos [of x] by (simp add: field_simps)
  then show ?thesis using assms(3) by (simp add: rounded_def)
qed

lemma rounded_le_grid: "0 \<le> x \<Longrightarrow> x \<le> y \<Longrightarrow> y < top \<Longrightarrow> y = of_int m * ulp y \<Longrightarrow> rounded x \<le> y"
  using rounded_mono [of x y] rounded_grid [of y m] by simp

end

end
