(* ===== verification/F32.thy ===== *)
theory F32
  imports Float_Grid
begin

section \<open>Single-precision arithmetic\<close>

text \<open>
  The link-quality fields \<^verbatim>\<open>ewma_loss\<close> and \<^verbatim>\<open>score\<close> of a routing slot are
  \<^verbatim>\<open>f32\<close>.  A finite \<^verbatim>\<open>f32\<close> is a rational number, and an operation rounds the
  exact result to the nearest multiple of the unit in the last place of its binade, ties
  to even, as IEEE 754 prescribes: 24 significant bits, smallest spacing \<open>2 ^ -149\<close>.
  Overflow to infinity and NaN do not occur: every value the code computes stays in the
  unit interval or one rounding step beside it, which \<open>f32_round_mono\<close> and its
  corollaries show.
\<close>

type_synonym f32 = rat

text \<open>
  The spacing of the floats around a magnitude, searched from the binade of 1 down to the
  subnormals or up to the largest exponent.
\<close>

fun ulp_up :: "nat \<Rightarrow> rat \<Rightarrow> rat \<Rightarrow> rat" where
  "ulp_up 0 q x = q"
| "ulp_up (Suc k) q x = (if x < 2 ^ 24 * q then q else ulp_up k (2 * q) x)"

definition f32_ulp :: "rat \<Rightarrow> rat" where
  "f32_ulp x = (if \<bar>x\<bar> < 2 then ulp_down 23 126 (1 / 2 ^ 23) \<bar>x\<bar> else ulp_up 126 (1 / 2 ^ 22) \<bar>x\<bar>)"

definition f32_round :: "rat \<Rightarrow> f32" where
  "f32_round x = of_int (rne (x / f32_ulp x)) * f32_ulp x"

definition f32_add :: "f32 \<Rightarrow> f32 \<Rightarrow> f32" where
  "f32_add a b = f32_round (a + b)"

definition f32_sub :: "f32 \<Rightarrow> f32 \<Rightarrow> f32" where
  "f32_sub a b = f32_round (a - b)"

definition f32_mul :: "f32 \<Rightarrow> f32 \<Rightarrow> f32" where
  "f32_mul a b = f32_round (a * b)"

subsection \<open>Spacing and rounding below 2\<close>

lemma f32_ulp_below_2:
  assumes "0 \<le> x" "x < 2"
  shows "0 < f32_ulp x" "x < 2 ^ 24 * f32_ulp x"
    "f32_ulp x = 1 / 2 ^ 149 \<or> 2 ^ 23 * f32_ulp x \<le> x" "1 / 2 ^ 149 \<le> f32_ulp x"
  using ulp_down_cases [of "1 / 2 ^ 23" x 23 126] ulp_down_ge [of "1 / 2 ^ 23" 126 23 x] assms
  by (simp_all add: f32_ulp_def)

lemma f32_ulp_antimono:
  "0 \<le> x \<Longrightarrow> x \<le> y \<Longrightarrow> y < 2 \<Longrightarrow> \<exists>m. f32_ulp y = 2 ^ m * f32_ulp x"
  using ulp_down_antimono [of "1 / 2 ^ 23" x y 23 126] by (simp add: f32_ulp_def)

interpretation f32: binary_grid 23 f32_ulp "1 / 2 ^ 149" 2
  by unfold_locales (use f32_ulp_below_2 f32_ulp_antimono in auto)

lemma f32_rounded: "f32.rounded = f32_round"
  by (rule ext) (simp add: f32.rounded_def f32_round_def)

lemmas f32_round_mono = f32.rounded_mono [unfolded f32_rounded]

lemma f32_round_0 [simp]: "f32_round 0 = 0"
  by (simp add: f32_round_def rne_def)

lemma f32_round_1 [simp]: "f32_round 1 = 1"
  by code_simp

lemma f32_round_nonneg: "0 \<le> x \<Longrightarrow> x < 2 \<Longrightarrow> 0 \<le> f32_round x"
  using f32_round_mono [of 0 x] by simp

lemma f32_round_le_1: "0 \<le> x \<Longrightarrow> x \<le> 1 \<Longrightarrow> f32_round x \<le> 1"
  using f32_round_mono [of x 1] by simp

lemma f32_round_neg: "x \<le> 0 \<Longrightarrow> 0 \<le> f32_ulp x \<Longrightarrow> f32_round x \<le> 0"
  using rne_le_int [of "x / f32_ulp x" 0]
  by (simp add: f32_round_def mult_nonpos_nonneg divide_nonpos_nonneg)

text \<open>
  A rounding with its certificate: the binade \<open>j\<close> of the number and the integer \<open>m\<close> that
  is nearest to it in units of the last place.
\<close>

lemma f32_round_binade:
  assumes "1 / 2 ^ j \<le> x" "x < 2 / 2 ^ j" "j < 126"
    "\<bar>x * 2 ^ (23 + j) - of_int m\<bar> < 1 / 2 \<or> \<bar>x * 2 ^ (23 + j) - of_int m\<bar> = 1 / 2 \<and> even m"
  shows "f32_round x = of_int m / 2 ^ (23 + j)"
proof -
  have "(1 :: rat) \<le> 2 ^ j" by simp
  then have "2 / 2 ^ j \<le> (2 :: rat)" "0 < 1 / (2 :: rat) ^ j" by (simp_all add: field_simps)
  then have x: "0 \<le> x" "x < 2" using assms(1,2) by linarith+
  have "f32_ulp x = 1 / 2 ^ 23 / 2 ^ j"
    using assms(1-3) x ulp_down_binade [of "1 / 2 ^ 23" 23 j x 126] by (simp add: f32_ulp_def)
  then have u: "f32_ulp x = 1 / 2 ^ (23 + j)" by (simp add: power_add)
  have "rne (x / f32_ulp x) = m" unfolding u using assms(4) by (intro rne_nearest) simp
  then show ?thesis by (simp add: f32_round_def u)
qed

end
