(* ===== verification/Peer_Table.thy ===== *)
theory Peer_Table
  imports F32 Node_Id
begin

section \<open>The routing table\<close>

text \<open>
  \<^verbatim>\<open>zona-p2p-types/src/slots.rs\<close>: slot entries with their link quality, and the table of
  greedy, long-jump and diversity slots.  Every method that mutates returns the new table,
  with its \<^verbatim>\<open>bool\<close> result first.  \<open>table_inv\<close> is the invariant every method keeps; the locale
  \<open>slot_table\<close> is what the peer exchange, the message handlers and the HTTP
  introduction rely on when they insert.
\<close>

subsection \<open>Slot entries\<close>

datatype slot_kind = Greedy | LongJump | Diversity

record slot_entry =
  s_kind :: slot_kind
  s_peer_id :: node_id
  s_referrer_id :: node_id
  s_ewma_loss :: f32
  s_score :: f32

definition SlotEntry_new :: "slot_kind \<Rightarrow> node_id \<Rightarrow> node_id \<Rightarrow> slot_entry" where
  "SlotEntry_new k peer referrer =
     \<lparr>s_kind = k, s_peer_id = peer, s_referrer_id = referrer, s_ewma_loss = 0,
      s_score = f32_round (1 / 2)\<rparr>"

definition ALPHA :: f32 where
  "ALPHA = f32_round (2 / 10)"

definition record_probe :: "slot_entry \<Rightarrow> bool \<Rightarrow> slot_entry" where
  "record_probe s success =
     (let fail = (if success then 0 else 1)
      in s\<lparr>s_ewma_loss :=
            f32_add (f32_mul ALPHA fail) (f32_mul (f32_sub 1 ALPHA) (s_ewma_loss s))\<rparr>)"

definition adjust_score :: "slot_entry \<Rightarrow> bool \<Rightarrow> slot_entry" where
  "adjust_score s agreed =
     (if agreed then s\<lparr>s_score := min (f32_add (s_score s) (f32_round (5 / 100))) 1\<rparr>
      else s\<lparr>s_score := max (f32_sub (s_score s) (f32_round (10 / 100))) 0\<rparr>)"

definition is_degraded :: "slot_entry \<Rightarrow> bool" where
  "is_degraded s \<longleftrightarrow> f32_round (6 / 10) < s_ewma_loss s"

definition should_evict :: "slot_entry \<Rightarrow> bool" where
  "should_evict s \<longleftrightarrow> f32_round (85 / 100) < s_ewma_loss s"

subsection \<open>The table and its queries\<close>

record peer_table =
  pt_slots :: "slot_entry list"
  pt_max_greedy :: nat
  pt_self_id :: node_id
  pt_replacements_this_tick :: nat

definition MAX_TOTAL :: nat where
  "MAX_TOTAL = 5"

definition PeerTable_new :: "node_id \<Rightarrow> nat \<Rightarrow> peer_table" where
  "PeerTable_new self_id max_greedy =
     \<lparr>pt_slots = [], pt_max_greedy = max_greedy, pt_self_id = self_id,
      pt_replacements_this_tick = 0\<rparr>"

definition reset_tick :: "peer_table \<Rightarrow> peer_table" where
  "reset_tick t = t\<lparr>pt_replacements_this_tick := 0\<rparr>"

definition is_greedy :: "slot_entry \<Rightarrow> bool" where
  "is_greedy s \<longleftrightarrow> s_kind s = Greedy"

definition greedy_slots :: "peer_table \<Rightarrow> slot_entry list" where
  "greedy_slots t = filter is_greedy (pt_slots t)"

definition long_jump_slot :: "peer_table \<Rightarrow> slot_entry option" where
  "long_jump_slot t = List.find (\<lambda>s. s_kind s = LongJump) (pt_slots t)"

definition diversity_slot :: "peer_table \<Rightarrow> slot_entry option" where
  "diversity_slot t = List.find (\<lambda>s. s_kind s = Diversity) (pt_slots t)"

definition all_peers :: "peer_table \<Rightarrow> node_id list" where
  "all_peers t = map s_peer_id (pt_slots t)"

definition greedy_referrers :: "peer_table \<Rightarrow> node_id list" where
  "greedy_referrers t = map s_referrer_id (filter is_greedy (pt_slots t))"

definition referrer_quota_exceeded :: "peer_table \<Rightarrow> node_id \<Rightarrow> bool" where
  "referrer_quota_exceeded t referrer \<longleftrightarrow>
     2 \<le> count_if (\<lambda>s. is_greedy s \<and> s_referrer_id s = referrer) (pt_slots t)"

subsection \<open>Insertion\<close>

definition self_distance :: "peer_table \<Rightarrow> slot_entry \<Rightarrow> bytes32" where
  "self_distance t s = xor_distance (s_peer_id s) (pt_self_id t)"

definition worst_greedy :: "peer_table \<Rightarrow> nat option" where
  "worst_greedy t =
     map_option fst
       (max_by (\<lambda>(i, s). self_distance t s)
         (filter (\<lambda>(i, s). is_greedy s) (List.enumerate 0 (pt_slots t))))"

definition try_insert_greedy :: "peer_table \<Rightarrow> slot_entry \<Rightarrow> bool \<times> peer_table" where
  "try_insert_greedy t e =
     (if referrer_quota_exceeded t (s_referrer_id e) then (False, t)
      else if count_if is_greedy (pt_slots t) < pt_max_greedy t
        then (True, t\<lparr>pt_slots := pt_slots t @ [e]\<rparr>)
      else if 1 \<le> pt_replacements_this_tick t then (False, t)
      else case worst_greedy t of
          None \<Rightarrow> (False, t)
        | Some idx \<Rightarrow>
            if self_distance t e < self_distance t (pt_slots t ! idx)
            then (True, t\<lparr>pt_slots := (pt_slots t)[idx := e],
                          pt_replacements_this_tick := pt_replacements_this_tick t + 1\<rparr>)
            else (False, t))"

definition try_insert_longjump :: "peer_table \<Rightarrow> slot_entry \<Rightarrow> bool \<times> peer_table" where
  "try_insert_longjump t e =
     (case position (\<lambda>s. s_kind s = LongJump) (pt_slots t) of
        Some idx \<Rightarrow> (True, t\<lparr>pt_slots := (pt_slots t)[idx := e]\<rparr>)
      | None \<Rightarrow>
          if length (pt_slots t) < MAX_TOTAL then (True, t\<lparr>pt_slots := pt_slots t @ [e]\<rparr>)
          else (True, t))"

definition try_insert_diversity :: "peer_table \<Rightarrow> slot_entry \<Rightarrow> bool \<times> peer_table" where
  "try_insert_diversity t e =
     (if s_referrer_id e \<in> set (greedy_referrers t) then (False, t)
      else if 1 \<le> pt_replacements_this_tick t then (False, t)
      else case position (\<lambda>s. s_kind s = Diversity) (pt_slots t) of
          Some idx \<Rightarrow>
            (True, t\<lparr>pt_slots := (pt_slots t)[idx := e],
                     pt_replacements_this_tick := pt_replacements_this_tick t + 1\<rparr>)
        | None \<Rightarrow>
            if length (pt_slots t) < MAX_TOTAL
            then (True, t\<lparr>pt_slots := pt_slots t @ [e],
                          pt_replacements_this_tick := pt_replacements_this_tick t + 1\<rparr>)
            else (False, t))"

definition try_insert :: "peer_table \<Rightarrow> slot_entry \<Rightarrow> bool \<times> peer_table" where
  "try_insert t e =
     (if s_peer_id e \<in> set (all_peers t) then (False, t)
      else case s_kind e of
          Greedy \<Rightarrow> try_insert_greedy t e
        | LongJump \<Rightarrow> try_insert_longjump t e
        | Diversity \<Rightarrow> try_insert_diversity t e)"

definition evict_dead :: "peer_table \<Rightarrow> peer_table" where
  "evict_dead t = t\<lparr>pt_slots := filter (\<lambda>s. \<not> should_evict s) (pt_slots t)\<rparr>"

definition in_recovery :: "peer_table \<Rightarrow> bool" where
  "in_recovery t \<longleftrightarrow> count_if (\<lambda>s. is_greedy s \<and> \<not> should_evict s) (pt_slots t) < 2"

subsection \<open>Link quality stays in the unit interval\<close>

definition slot_ok :: "slot_entry \<Rightarrow> bool" where
  "slot_ok s \<longleftrightarrow> 0 \<le> s_ewma_loss s \<and> s_ewma_loss s \<le> 1 \<and> 0 \<le> s_score s \<and> s_score s \<le> 1"

lemma ALPHA_value: "ALPHA = 13421773 / 67108864"
  by code_simp

lemma ALPHA_complement: "f32_sub 1 ALPHA = 13421773 / 16777216"
  by code_simp

lemma loss_weights_bounds: "0 < ALPHA" "ALPHA < 1" "0 < f32_sub 1 ALPHA" "f32_sub 1 ALPHA < 1"
  unfolding ALPHA_complement by (simp_all add: ALPHA_value)

lemma loss_weights_round_to_1: "f32_add ALPHA (f32_sub 1 ALPHA) = 1"
  by code_simp

lemma f32_mul_weight: "f32_mul (f32_sub 1 ALPHA) 1 = f32_sub 1 ALPHA" "f32_mul ALPHA 1 = ALPHA"
  by code_simp+

lemma f32_literals [simp]:
  "f32_round (1 / 2) = 1 / 2"
  "f32_round (1 / 20) = 13421773 / 268435456"
  "f32_round (1 / 10) = 13421773 / 134217728"
  by code_simp+

lemma SlotEntry_new_ok: "slot_ok (SlotEntry_new k p r)"
  by (simp add: slot_ok_def SlotEntry_new_def)

lemma SlotEntry_new_live [simp]: "\<not> should_evict (SlotEntry_new k p r)"
  using f32_round_mono [of 0 "85 / 100"] by (simp add: should_evict_def SlotEntry_new_def not_less)

lemma SlotEntry_new_sel [simp]:
  "s_kind (SlotEntry_new k p r) = k" "s_peer_id (SlotEntry_new k p r) = p"
  "s_referrer_id (SlotEntry_new k p r) = r"
  by (simp_all add: SlotEntry_new_def)

lemma decayed_loss_bounds:
  assumes "0 \<le> l" "l \<le> 1"
  shows "0 \<le> f32_mul (f32_sub 1 ALPHA) l" "f32_mul (f32_sub 1 ALPHA) l \<le> f32_sub 1 ALPHA"
proof -
  have "f32_round (f32_sub 1 ALPHA * l) \<le> f32_round (f32_sub 1 ALPHA * 1)"
    using assms by (intro f32_round_mono) (simp_all add: ALPHA_complement)
  then show "f32_mul (f32_sub 1 ALPHA) l \<le> f32_sub 1 ALPHA"
    using f32_mul_weight(1) by (simp add: f32_mul_def)
  show "0 \<le> f32_mul (f32_sub 1 ALPHA) l"
    unfolding f32_mul_def using assms by (intro f32_round_nonneg) (simp_all add: ALPHA_complement)
qed

lemma record_probe_ok: assumes "slot_ok s" shows "slot_ok (record_probe s success)"
proof -
  let ?fail = "if success then 0 else 1 :: rat"
  let ?d = "f32_mul (f32_sub 1 ALPHA) (s_ewma_loss s)"
  have d: "0 \<le> ?d" "?d \<le> f32_sub 1 ALPHA"
    using assms decayed_loss_bounds by (auto simp: slot_ok_def)
  have f: "0 \<le> f32_mul ALPHA ?fail" "f32_mul ALPHA ?fail \<le> ALPHA"
    using f32_mul_weight(2) loss_weights_bounds by (auto simp: f32_mul_def)
  have "f32_add (f32_mul ALPHA ?fail) ?d \<le> f32_add ALPHA (f32_sub 1 ALPHA)"
    unfolding f32_add_def using d f loss_weights_bounds by (intro f32_round_mono) linarith+
  moreover have "0 \<le> f32_add (f32_mul ALPHA ?fail) ?d"
    unfolding f32_add_def using d f loss_weights_bounds by (intro f32_round_nonneg) linarith+
  ultimately show ?thesis
    using assms by (simp add: slot_ok_def record_probe_def Let_def loss_weights_round_to_1)
qed

lemma adjust_score_ok: assumes "slot_ok s" shows "slot_ok (adjust_score s agreed)"
proof -
  have s: "0 \<le> s_score s" "s_score s \<le> 1" using assms by (auto simp: slot_ok_def)
  have up: "0 \<le> f32_add (s_score s) (f32_round (5 / 100))"
    unfolding f32_add_def using s by (intro f32_round_nonneg) simp_all
  have down: "f32_sub (s_score s) (f32_round (10 / 100)) \<le> 1"
  proof (cases "f32_round (10 / 100) \<le> s_score s")
    case True
    then show ?thesis unfolding f32_sub_def using s by (intro f32_round_le_1) simp_all
  next
    case False
    then have neg: "s_score s - f32_round (10 / 100) \<le> 0" by simp
    have "0 \<le> f32_ulp (s_score s - f32_round (10 / 100))"
      using f32_ulp_below_2(1) [of "\<bar>s_score s - f32_round (10 / 100)\<bar>"] neg s
      by (simp add: f32_ulp_def)
    then show ?thesis using f32_round_neg [OF neg] by (simp add: f32_sub_def)
  qed
  show ?thesis using assms up down by (auto simp: slot_ok_def adjust_score_def)
qed

subsection \<open>The invariant\<close>

definition kind_count :: "slot_kind \<Rightarrow> peer_table \<Rightarrow> nat" where
  "kind_count k t = count_if (\<lambda>s. s_kind s = k) (pt_slots t)"

definition referrer_count :: "node_id \<Rightarrow> peer_table \<Rightarrow> nat" where
  "referrer_count r t = count_if (\<lambda>s. is_greedy s \<and> s_referrer_id s = r) (pt_slots t)"

definition table_inv :: "peer_table \<Rightarrow> bool" where
  "table_inv t \<longleftrightarrow>
     distinct (all_peers t) \<and>
     kind_count Greedy t \<le> pt_max_greedy t \<and>
     kind_count LongJump t \<le> 1 \<and> kind_count Diversity t \<le> 1 \<and>
     (\<forall>r \<in> set (greedy_referrers t). referrer_count r t \<le> 2) \<and>
     pt_replacements_this_tick t \<le> 1 \<and>
     (\<forall>s \<in> set (pt_slots t). slot_ok s)"

lemmas table_defs = kind_count_def referrer_count_def all_peers_def greedy_referrers_def is_greedy_def

lemma greedy_count: "count_if is_greedy (pt_slots t) = kind_count Greedy t"
  by (simp add: kind_count_def is_greedy_def [abs_def])

lemma referrer_count_bound:
  assumes "table_inv t" shows "referrer_count r t \<le> 2"
proof (cases "r \<in> set (greedy_referrers t)")
  case False
  then have "referrer_count r t = 0"
    by (auto simp: referrer_count_def greedy_referrers_def count_if_def filter_empty_conv)
  then show ?thesis by simp
qed (use assms in \<open>simp add: table_inv_def\<close>)

lemma table_invI:
  assumes "distinct (all_peers t)" "kind_count Greedy t \<le> pt_max_greedy t"
    "kind_count LongJump t \<le> 1" "kind_count Diversity t \<le> 1"
    "\<And>r. referrer_count r t \<le> 2" "pt_replacements_this_tick t \<le> 1"
    "\<And>s. s \<in> set (pt_slots t) \<Longrightarrow> slot_ok s"
  shows "table_inv t"
  using assms by (simp add: table_inv_def)

lemma table_inv_append:
  assumes inv: "table_inv t" and fresh: "s_peer_id e \<notin> set (all_peers t)" and ok: "slot_ok e"
    and room: "s_kind e = Greedy \<Longrightarrow> kind_count Greedy t < pt_max_greedy t"
    and quota: "s_kind e = Greedy \<Longrightarrow> referrer_count (s_referrer_id e) t < 2"
    and single: "s_kind e \<noteq> Greedy \<Longrightarrow> kind_count (s_kind e) t = 0" and n: "n \<le> 1"
  shows "table_inv (t\<lparr>pt_slots := pt_slots t @ [e], pt_replacements_this_tick := n\<rparr>)"
proof (rule table_invI)
  fix r
  show "referrer_count r (t\<lparr>pt_slots := pt_slots t @ [e], pt_replacements_this_tick := n\<rparr>) \<le> 2"
    using referrer_count_bound [OF inv, of r] quota by (auto simp: referrer_count_def is_greedy_def)
qed (use inv fresh ok room single n in \<open>cases "s_kind e"; auto simp: table_inv_def kind_count_def all_peers_def\<close>)+

lemma table_inv_update:
  assumes inv: "table_inv t" and fresh: "s_peer_id e \<notin> set (all_peers t)" and ok: "slot_ok e"
    and i: "i < length (pt_slots t)" and same: "s_kind (pt_slots t ! i) = s_kind e"
    and quota: "s_kind e = Greedy \<Longrightarrow> referrer_count (s_referrer_id e) t < 2" and n: "n \<le> 1"
  shows "table_inv (t\<lparr>pt_slots := (pt_slots t)[i := e], pt_replacements_this_tick := n\<rparr>)"
    (is "table_inv ?t")
proof (rule table_invI)
  have kinds: "kind_count k ?t = kind_count k t" for k
    using i same by (simp add: kind_count_def count_if_update_same)
  show "kind_count Greedy ?t \<le> pt_max_greedy ?t" "kind_count LongJump ?t \<le> 1"
    "kind_count Diversity ?t \<le> 1"
    using inv by (simp_all only: kinds) (simp_all add: table_inv_def)
  show "referrer_count r ?t \<le> 2" for r
    using referrer_count_bound [OF inv, of r] quota i
    by (auto simp: referrer_count_def is_greedy_def count_if_update)
  show "distinct (all_peers ?t)"
    using inv fresh i by (auto simp: table_inv_def all_peers_def intro: distinct_map_update)
  show "pt_replacements_this_tick ?t \<le> 1" using n by simp
  show "slot_ok s" if "s \<in> set (pt_slots ?t)" for s
    using that inv ok i set_update_subset_insert [of "pt_slots t" i e]
    by (auto simp: table_inv_def)
qed

lemma worst_greedy_Some:
  assumes "worst_greedy t = Some i"
  shows "i < length (pt_slots t)" "is_greedy (pt_slots t ! i)"
    "s \<in> set (pt_slots t) \<Longrightarrow> is_greedy s \<Longrightarrow> self_distance t s \<le> self_distance t (pt_slots t ! i)"
proof -
  let ?xs = "filter (\<lambda>(i, s). is_greedy s) (List.enumerate 0 (pt_slots t))"
  obtain w where w: "max_by (\<lambda>(i, s). self_distance t s) ?xs = Some (i, w)"
    using assms by (auto simp: worst_greedy_def)
  have "(i, w) \<in> set ?xs" using max_by_in [OF w] .
  then have iw: "i < length (pt_slots t)" "pt_slots t ! i = w" "is_greedy w"
    by (auto simp: in_set_enumerate_eq)
  then show "i < length (pt_slots t)" "is_greedy (pt_slots t ! i)" by auto
  show "self_distance t s \<le> self_distance t (pt_slots t ! i)"
    if s: "s \<in> set (pt_slots t)" "is_greedy s"
  proof -
    obtain j where "j < length (pt_slots t)" "pt_slots t ! j = s"
      using s(1) by (auto simp: in_set_conv_nth)
    then have "(j, s) \<in> set ?xs" using s(2) by (auto simp: in_set_enumerate_eq)
    then show ?thesis using max_by_ge [OF w, of "(j, s)"] iw by simp
  qed
qed

lemma worst_greedy_None: "worst_greedy t = None \<longleftrightarrow> kind_count Greedy t = 0"
proof -
  let ?E = "List.enumerate 0 (pt_slots t)"
  have "filter is_greedy (pt_slots t) = map snd (filter (\<lambda>x. is_greedy (snd x)) ?E)"
    using filter_map [of is_greedy snd ?E] by (simp add: comp_def)
  then show ?thesis
    by (simp add: worst_greedy_def kind_count_def count_if_def case_prod_beta'
        flip: is_greedy_def)
qed

lemma pt_update_noop [simp]:
  "t\<lparr>pt_slots := xs, pt_replacements_this_tick := pt_replacements_this_tick t\<rparr> = t\<lparr>pt_slots := xs\<rparr>"
  by (cases t) simp

lemma position_kind_None:
  "position (\<lambda>s. s_kind s = k) (pt_slots t) = None \<longleftrightarrow> kind_count k t = 0"
  by (simp add: position_None_iff kind_count_def count_if_def filter_empty_conv)

lemma table_inv_new [inv_intros]: "table_inv (PeerTable_new self n)"
  by (simp add: table_inv_def PeerTable_new_def table_defs)

lemma reset_tick_inv [inv_intros]: "table_inv t \<Longrightarrow> table_inv (reset_tick t)"
  by (simp add: table_inv_def reset_tick_def table_defs)

lemma try_insert_greedy_inv:
  assumes inv: "table_inv t" and "s_peer_id e \<notin> set (all_peers t)" "slot_ok e" "s_kind e = Greedy"
  shows "table_inv (snd (try_insert_greedy t e))"
proof -
  have "kind_count Greedy t < pt_max_greedy t \<Longrightarrow> \<not> referrer_quota_exceeded t (s_referrer_id e) \<Longrightarrow>
      table_inv (t\<lparr>pt_slots := pt_slots t @ [e]\<rparr>)"
    using table_inv_append [of t e "pt_replacements_this_tick t"] assms
    by (simp add: referrer_quota_exceeded_def referrer_count_def table_inv_def)
  moreover have "worst_greedy t = Some i \<Longrightarrow> \<not> referrer_quota_exceeded t (s_referrer_id e) \<Longrightarrow>
      pt_replacements_this_tick t = 0 \<Longrightarrow>
      table_inv (t\<lparr>pt_slots := (pt_slots t)[i := e], pt_replacements_this_tick := Suc 0\<rparr>)" for i
    using worst_greedy_Some [of t i] assms
    by (intro table_inv_update) (auto simp: is_greedy_def referrer_quota_exceeded_def referrer_count_def)
  ultimately show ?thesis
    using inv by (auto simp: try_insert_greedy_def greedy_count not_le split: option.split)
qed

lemma try_insert_longjump_inv:
  assumes inv: "table_inv t" and "s_peer_id e \<notin> set (all_peers t)" "slot_ok e" "s_kind e = LongJump"
  shows "table_inv (snd (try_insert_longjump t e))"
  using assms table_inv_append [of t e "pt_replacements_this_tick t"]
    table_inv_update [of t e _ "pt_replacements_this_tick t"]
  by (auto simp: try_insert_longjump_def position_kind_None position_Some_iff table_inv_def
      split: option.split)

lemma try_insert_diversity_inv:
  assumes inv: "table_inv t" and "s_peer_id e \<notin> set (all_peers t)" "slot_ok e" "s_kind e = Diversity"
  shows "table_inv (snd (try_insert_diversity t e))"
  using assms table_inv_append [of t e 1] table_inv_update [of t e _ 1]
  by (auto simp: try_insert_diversity_def position_kind_None position_Some_iff not_le
      split: option.split)

lemma try_insert_inv [inv_intros]:
  "table_inv t \<Longrightarrow> slot_ok e \<Longrightarrow> table_inv (snd (try_insert t e))"
  by (auto simp: try_insert_def try_insert_greedy_inv try_insert_longjump_inv
      try_insert_diversity_inv split: slot_kind.split)

lemma evict_dead_inv [inv_intros]:
  assumes "table_inv t" shows "table_inv (evict_dead t)"
proof (rule table_invI)
  have le: "kind_count k (evict_dead t) \<le> kind_count k t" for k
    by (simp add: kind_count_def evict_dead_def count_if_filter_le)
  show "kind_count Greedy (evict_dead t) \<le> pt_max_greedy (evict_dead t)"
    using le [of Greedy] assms by (simp add: table_inv_def evict_dead_def)
  show "kind_count LongJump (evict_dead t) \<le> 1" "kind_count Diversity (evict_dead t) \<le> 1"
    using le [of LongJump] le [of Diversity] assms by (simp_all add: table_inv_def)
  show "referrer_count r (evict_dead t) \<le> 2" for r
    using referrer_count_bound [OF assms, of r]
    by (auto simp: referrer_count_def evict_dead_def intro: le_trans [OF count_if_filter_le])
qed (use assms in \<open>auto simp: table_inv_def evict_dead_def all_peers_def distinct_map_filter\<close>)

text \<open>
  A handler that finds one slot by its peer and updates that slot's link quality
  (\<^verbatim>\<open>iter_mut().find(..)\<close>).
\<close>

definition update_slot :: "(slot_entry \<Rightarrow> slot_entry) \<Rightarrow> node_id \<Rightarrow> peer_table \<Rightarrow> peer_table" where
  "update_slot f peer t =
     (case position (\<lambda>s. s_peer_id s = peer) (pt_slots t) of
        None \<Rightarrow> t
      | Some i \<Rightarrow> t\<lparr>pt_slots := (pt_slots t)[i := f (pt_slots t ! i)]\<rparr>)"

definition quality_update :: "(slot_entry \<Rightarrow> slot_entry) \<Rightarrow> bool" where
  "quality_update f \<longleftrightarrow>
     (\<forall>s. s_kind (f s) = s_kind s \<and> s_peer_id (f s) = s_peer_id s \<and>
          s_referrer_id (f s) = s_referrer_id s \<and> (slot_ok s \<longrightarrow> slot_ok (f s)))"

lemma quality_update_probe: "quality_update (\<lambda>s. record_probe s b)"
  using record_probe_ok by (simp add: quality_update_def record_probe_def Let_def)

lemma quality_update_adjust: "quality_update (\<lambda>s. adjust_score s b)"
  using adjust_score_ok by (simp add: quality_update_def adjust_score_def)

lemma update_slot_inv [inv_intros]:
  assumes inv: "table_inv t" and f: "quality_update f" shows "table_inv (update_slot f peer t)"
proof (cases "position (\<lambda>s. s_peer_id s = peer) (pt_slots t)")
  case (Some i)
  then have i: "i < length (pt_slots t)" by (rule position_lt)
  let ?t = "update_slot f peer t"
  have t: "pt_slots ?t = (pt_slots t)[i := f (pt_slots t ! i)]" "pt_max_greedy ?t = pt_max_greedy t"
    "pt_replacements_this_tick ?t = pt_replacements_this_tick t"
    using Some by (simp_all add: update_slot_def)
  have same: "map s_peer_id (pt_slots ?t) = map s_peer_id (pt_slots t)"
    using f i by (simp add: t quality_update_def map_update list_update_same_conv)
  have counts: "kind_count k ?t = kind_count k t" "referrer_count r ?t = referrer_count r t" for k r
    using f i by (simp_all add: kind_count_def referrer_count_def t count_if_update_same
        quality_update_def is_greedy_def)
  show ?thesis
  proof (rule table_invI)
    show "slot_ok s" if "s \<in> set (pt_slots ?t)" for s
      using that inv f i set_update_subset_insert [of "pt_slots t" i]
      by (fastforce simp: t table_inv_def quality_update_def)
    show "referrer_count r ?t \<le> 2" for r using referrer_count_bound [OF inv] counts by simp
  qed (use inv same in \<open>simp_all add: table_inv_def all_peers_def counts t(2,3)\<close>)
qed (use inv in \<open>simp add: update_slot_def\<close>)

subsection \<open>What an insertion does\<close>

lemma try_insert_False: "try_insert t e = (False, t') \<Longrightarrow> t' = t"
  by (auto simp: try_insert_def try_insert_greedy_def try_insert_longjump_def
      try_insert_diversity_def split: if_splits option.splits slot_kind.splits)

lemma try_insert_frame:
  "pt_self_id (snd (try_insert t e)) = pt_self_id t"
  "pt_max_greedy (snd (try_insert t e)) = pt_max_greedy t"
  by (auto simp: try_insert_def try_insert_greedy_def try_insert_longjump_def
      try_insert_diversity_def split: option.splits slot_kind.splits)

lemma try_insert_slots:
  "set (pt_slots (snd (try_insert t e))) \<subseteq> insert e (set (pt_slots t))"
  using set_update_subset_insert [of "pt_slots t" _ e]
  by (fastforce simp: try_insert_def try_insert_greedy_def try_insert_longjump_def
      try_insert_diversity_def split: if_splits option.splits slot_kind.splits)

lemma try_insert_stored:
  assumes "try_insert t e = (True, t')" "s_kind e = LongJump \<Longrightarrow> length (pt_slots t) < MAX_TOTAL"
  shows "e \<in> set (pt_slots t')"
  using assms
  by (auto simp: try_insert_def try_insert_greedy_def try_insert_longjump_def
      try_insert_diversity_def position_Some_iff set_update_memI worst_greedy_Some
      split: if_splits option.splits slot_kind.splits)

lemma table_length_bound:
  assumes "table_inv t" shows "length (pt_slots t) \<le> pt_max_greedy t + 2"
proof -
  have "length xs = count_if (\<lambda>s. s_kind s = Greedy) xs + count_if (\<lambda>s. s_kind s = LongJump) xs
      + count_if (\<lambda>s. s_kind s = Diversity) xs" for xs :: "slot_entry list"
  proof (induction xs)
    case (Cons x xs)
    then show ?case by (cases "s_kind x") auto
  qed simp
  then show ?thesis using assms by (simp add: table_inv_def kind_count_def)
qed


text \<open>
  Clients never look inside the table when they insert: they need that the invariant is
  kept, that a refused insertion changes nothing and that only the offered entries can
  appear.
\<close>

locale slot_table =
  fixes insertion :: "'t \<Rightarrow> 'e \<Rightarrow> bool \<times> 't"
    and inv :: "'t \<Rightarrow> bool" and entry_ok :: "'e \<Rightarrow> bool" and entries :: "'t \<Rightarrow> 'e set"
  assumes insertion_inv: "inv t \<Longrightarrow> entry_ok e \<Longrightarrow> inv (snd (insertion t e))"
    and insertion_refused: "insertion t e = (False, t') \<Longrightarrow> t' = t"
    and insertion_entries: "entries (snd (insertion t e)) \<subseteq> insert e (entries t)"
begin

lemma insert_all_inv:
  "inv t \<Longrightarrow> (\<And>e. e \<in> set es \<Longrightarrow> entry_ok e) \<Longrightarrow> inv (foldl (\<lambda>t e. snd (insertion t e)) t es)"
  by (induction es arbitrary: t) (auto intro: insertion_inv)

lemma insert_all_entries:
  "entries (foldl (\<lambda>t e. snd (insertion t e)) t es) \<subseteq> set es \<union> entries t"
proof (induction es arbitrary: t)
  case (Cons e es)
  then show ?case using insertion_entries [of t e] by fastforce
qed simp

lemma insert_all_refused:
  "(\<And>e. e \<in> set es \<Longrightarrow> \<not> fst (insertion t e)) \<Longrightarrow> foldl (\<lambda>t e. snd (insertion t e)) t es = t"
proof (induction es)
  case (Cons e es)
  have "snd (insertion t e) = t"
    using Cons.prems [of e] insertion_refused [of t e "snd (insertion t e)"]
    by (cases "insertion t e") auto
  then show ?case using Cons by simp
qed simp

end

interpretation pt: slot_table try_insert table_inv slot_ok "\<lambda>t. set (pt_slots t)"
  by unfold_locales (auto intro: try_insert_inv try_insert_False dest: subsetD [OF try_insert_slots])

subsection \<open>The table as a state machine\<close>

text \<open>
  Everything the crates do to a table after \<^verbatim>\<open>PeerTable::new\<close>: entries made by
  \<^verbatim>\<open>SlotEntry::new\<close> are inserted, ticks are reset, dead slots evicted, and slots of the table
  have a probe or a checkpoint verdict recorded.
\<close>

inductive table_step :: "peer_table \<Rightarrow> peer_table \<Rightarrow> bool" where
  step_insert: "table_step t (snd (try_insert t (SlotEntry_new k peer referrer)))"
| step_reset: "table_step t (reset_tick t)"
| step_evict: "table_step t (evict_dead t)"
| step_probe: "table_step t (update_slot (\<lambda>s. record_probe s success) peer t)"
| step_score: "table_step t (update_slot (\<lambda>s. adjust_score s agreed) peer t)"

inductive table_reachable :: "node_id \<Rightarrow> nat \<Rightarrow> peer_table \<Rightarrow> bool" for self_id max_greedy where
  reach_new: "table_reachable self_id max_greedy (PeerTable_new self_id max_greedy)"
| reach_step: "table_reachable self_id max_greedy t \<Longrightarrow> table_step t t'
    \<Longrightarrow> table_reachable self_id max_greedy t'"

inductive_cases table_stepE: "table_step t t'"

lemma update_slot_frame [simp]:
  "pt_self_id (update_slot f p t) = pt_self_id t" "pt_max_greedy (update_slot f p t) = pt_max_greedy t"
  by (auto simp: update_slot_def split: option.split)

lemma table_step_inv: "table_step t t' \<Longrightarrow> table_inv t \<Longrightarrow> table_inv t'"
  by (erule table_stepE)
    (auto intro!: inv_intros SlotEntry_new_ok quality_update_probe quality_update_adjust)

lemma table_step_frame:
  "table_step t t' \<Longrightarrow> pt_self_id t' = pt_self_id t \<and> pt_max_greedy t' = pt_max_greedy t"
  by (erule table_stepE) (simp_all add: try_insert_frame reset_tick_def evict_dead_def)

lemma table_reachable_frame:
  "table_reachable s g t \<Longrightarrow> table_inv t \<and> pt_self_id t = s \<and> pt_max_greedy t = g"
  by (induction rule: table_reachable.induct)
    (auto intro: table_inv_new dest: table_step_inv table_step_frame, simp_all add: PeerTable_new_def)


subsection \<open>Properties\<close>

text \<open>
  C40: whatever sequence of insertions, tick resets, evictions, probe results and score
  adjustments a table goes through, it holds no peer twice, at most \<^verbatim>\<open>max_greedy\<close> greedy slots,
  at most one long-jump and one diversity slot, at most two greedy slots per referrer, at most
  one replacement per tick, losses and scores in the unit interval, and so at most
  \<^verbatim>\<open>max_greedy + 2\<close> slots in all.
\<close>

theorem table_reachable_inv:
  assumes "table_reachable self_id max_greedy t"
  shows "distinct (all_peers t) \<and> kind_count Greedy t \<le> max_greedy \<and>
    kind_count LongJump t \<le> 1 \<and> kind_count Diversity t \<le> 1 \<and> (\<forall>r. referrer_count r t \<le> 2) \<and>
    pt_replacements_this_tick t \<le> 1 \<and> list_all slot_ok (pt_slots t) \<and>
    length (pt_slots t) \<le> max_greedy + 2"
  using table_reachable_frame [OF assms] table_length_bound [of t] referrer_count_bound [of t]
  by (auto simp: table_inv_def list_all_iff)

lemmas insert_evals = try_insert_def try_insert_greedy_def try_insert_longjump_def
  try_insert_diversity_def referrer_quota_exceeded_def worst_greedy_def self_distance_def
  all_peers_def greedy_referrers_def is_greedy_def SlotEntry_new_def PeerTable_new_def MAX_TOTAL_def
  reset_tick_def

theorem table_reachable_inv_witness:
  "\<exists>t. all_peers t = [idn 1, idn 2] \<and> distinct (all_peers t) \<and> kind_count Greedy t \<le> 3"
proof -
  let ?e = "\<lambda>b r. SlotEntry_new Greedy (idn b) (idn r)"
  let ?t1 = "snd (try_insert (PeerTable_new (idn 0) 3) (?e 1 7))"
  let ?t2 = "snd (try_insert ?t1 (?e 2 7))"
  have "table_reachable (idn 0) 3 ?t2"
    by (rule reach_step [OF reach_step [OF reach_new step_insert] step_insert])
  from table_reachable_inv [OF this] have "distinct (all_peers ?t2) \<and> kind_count Greedy ?t2 \<le> 3"
    by blast
  moreover have "all_peers ?t2 = [idn 1, idn 2]" by (simp add: insert_evals)
  ultimately show ?thesis by blast
qed

lemma worst_greedy_beats:
  "(\<exists>i. worst_greedy t = Some i \<and> d < self_distance t (pt_slots t ! i)) \<longleftrightarrow>
   (\<exists>s \<in> set (greedy_slots t). d < self_distance t s)"
proof
  assume "\<exists>i. worst_greedy t = Some i \<and> d < self_distance t (pt_slots t ! i)"
  then obtain i where "worst_greedy t = Some i" "d < self_distance t (pt_slots t ! i)" by blast
  moreover from this worst_greedy_Some(1,2) have "pt_slots t ! i \<in> set (greedy_slots t)"
    by (simp add: greedy_slots_def)
  ultimately show "\<exists>s \<in> set (greedy_slots t). d < self_distance t s" by blast
next
  assume "\<exists>s \<in> set (greedy_slots t). d < self_distance t s"
  then obtain s where s: "s \<in> set (pt_slots t)" "is_greedy s" "d < self_distance t s"
    by (auto simp: greedy_slots_def)
  then have "worst_greedy t \<noteq> None"
    using worst_greedy_None [of t] count_if_pos [of s _ is_greedy] by (simp add: greedy_count [symmetric])
  then show "\<exists>i. worst_greedy t = Some i \<and> d < self_distance t (pt_slots t ! i)"
    using s worst_greedy_Some(3) [of t _ s] by (auto intro: less_le_trans)
qed

text \<open>
  A greedy entry is accepted exactly when its peer is not in the table, its referrer has
  fewer than two greedy slots, and either a greedy slot is free or no replacement was made in
  this tick and some greedy slot is strictly farther from the own id; with the table full, the
  slot it takes is the farthest greedy one, all others stay, and the tick's replacement is used
  up; otherwise nothing changes.
\<close>

theorem try_insert_greedy_outcome:
  assumes kind: "s_kind e = Greedy" and call: "try_insert t e = (accepted, t')"
  shows "(accepted \<longleftrightarrow> s_peer_id e \<notin> set (all_peers t) \<and> referrer_count (s_referrer_id e) t < 2 \<and>
      (kind_count Greedy t < pt_max_greedy t \<or>
       pt_replacements_this_tick t = 0 \<and>
       (\<exists>s \<in> set (greedy_slots t). self_distance t e < self_distance t s))) \<and>
    (\<not> accepted \<longrightarrow> t' = t) \<and>
    (accepted \<longrightarrow> kind_count Greedy t < pt_max_greedy t \<longrightarrow>
      t' = t\<lparr>pt_slots := pt_slots t @ [e]\<rparr>) \<and>
    (accepted \<longrightarrow> pt_max_greedy t \<le> kind_count Greedy t \<longrightarrow>
      (\<exists>i < length (pt_slots t). is_greedy (pt_slots t ! i) \<and>
        (\<forall>s \<in> set (greedy_slots t). self_distance t s \<le> self_distance t (pt_slots t ! i)) \<and>
        self_distance t e < self_distance t (pt_slots t ! i) \<and>
        t' = t\<lparr>pt_slots := (pt_slots t)[i := e], pt_replacements_this_tick := 1\<rparr>))"
    (is "?iff \<and> ?refused \<and> ?room \<and> ?full")
proof (intro conjI)
  have quota: "referrer_quota_exceeded t (s_referrer_id e) \<longleftrightarrow> \<not> referrer_count (s_referrer_id e) t < 2"
    by (simp add: referrer_quota_exceeded_def referrer_count_def not_less)
  have "try_insert t e = (if s_peer_id e \<in> set (all_peers t) then (False, t)
      else try_insert_greedy t e)"
    using kind by (simp add: try_insert_def)
  note out = call [unfolded this try_insert_greedy_def quota greedy_count]
  show ?iff
    using out worst_greedy_beats [of t "self_distance t e"] by (auto split: if_splits option.splits)
  show ?refused using call try_insert_False by auto
  show ?room using out by (auto split: if_splits)
  show ?full
  proof (intro impI)
    assume "accepted" "pt_max_greedy t \<le> kind_count Greedy t"
    with out obtain i where i: "worst_greedy t = Some i"
        "self_distance t e < self_distance t (pt_slots t ! i)"
        "t' = t\<lparr>pt_slots := (pt_slots t)[i := e], pt_replacements_this_tick := 1\<rparr>"
      by (auto split: if_splits option.splits)
    then show "\<exists>i < length (pt_slots t). is_greedy (pt_slots t ! i) \<and>
        (\<forall>s \<in> set (greedy_slots t). self_distance t s \<le> self_distance t (pt_slots t ! i)) \<and>
        self_distance t e < self_distance t (pt_slots t ! i) \<and>
        t' = t\<lparr>pt_slots := (pt_slots t)[i := e], pt_replacements_this_tick := 1\<rparr>"
      using worst_greedy_Some [of t i] by (auto simp: greedy_slots_def)
  qed
qed

theorem try_insert_greedy_outcome_witness:
  "let t = (PeerTable_new (idn 0) 2)\<lparr>pt_slots := [SlotEntry_new Greedy (idn 6) (idn 9),
              SlotEntry_new Diversity (idn 30) (idn 8), SlotEntry_new Greedy (idn 12) (idn 9)]\<rparr>;
       e = SlotEntry_new Greedy (idn 5) (idn 7); t' = snd (try_insert t e)
   in all_peers t' = [idn 6, idn 30, idn 5] \<and> referrer_count (idn 7) t < 2 \<and>
      (\<exists>i < 3. \<forall>s \<in> set (greedy_slots t). self_distance t s \<le> self_distance t (pt_slots t ! i))"
proof -
  let ?t = "(PeerTable_new (idn 0) 2)\<lparr>pt_slots := [SlotEntry_new Greedy (idn 6) (idn 9),
              SlotEntry_new Diversity (idn 30) (idn 8), SlotEntry_new Greedy (idn 12) (idn 9)]\<rparr>"
  let ?e = "SlotEntry_new Greedy (idn 5) (idn 7)"
  have call: "try_insert ?t ?e = (True, snd (try_insert ?t ?e))"
    by (simp add: insert_evals)
  have kind: "s_kind ?e = Greedy" "s_referrer_id ?e = idn 7" by (simp_all add: SlotEntry_new_def)
  have full: "pt_max_greedy ?t \<le> kind_count Greedy ?t" "length (pt_slots ?t) = 3"
    by (simp_all add: kind_count_def SlotEntry_new_def PeerTable_new_def)
  have "all_peers (snd (try_insert ?t ?e)) = [idn 6, idn 30, idn 5]" by (simp add: insert_evals)
  then show ?thesis
    using try_insert_greedy_outcome [OF kind(1) call] full kind(2) unfolding Let_def by metis
qed

lemma greedy_referrers_slots: "greedy_referrers t = map s_referrer_id (greedy_slots t)"
  by (simp add: greedy_referrers_def greedy_slots_def)

lemma diversity_replaced:
  assumes inv: "table_inv t" and e: "s_kind e = Diversity"
    and i: "position (\<lambda>s. s_kind s = Diversity) (pt_slots t) = Some i"
    and t': "t' = t\<lparr>pt_slots := (pt_slots t)[i := e], pt_replacements_this_tick := 1\<rparr>"
  shows "diversity_slot t' = Some e \<and> greedy_referrers t' = greedy_referrers t \<and>
    kind_count Diversity t' = 1 \<and> greedy_slots t' = greedy_slots t \<and> pt_replacements_this_tick t' = 1"
proof -
  have i': "i < length (pt_slots t)" "s_kind (pt_slots t ! i) = Diversity"
      "\<And>j. j < i \<Longrightarrow> s_kind (pt_slots t ! j) \<noteq> Diversity"
    using i by (auto simp: position_Some_iff)
  have "diversity_slot t' = Some e"
    unfolding diversity_slot_def t' find_Some_iff
    using i' e by (intro exI [of _ i]) (auto simp: nth_list_update)
  moreover have "greedy_slots t' = greedy_slots t"
    using i'(1,2) e by (simp add: t' greedy_slots_def filter_update_neither is_greedy_def)
  moreover have "kind_count Diversity t' = 1"
    using i' e inv position_kind_None [of Diversity t] i
    by (simp add: t' kind_count_def count_if_update_same table_inv_def)
  ultimately show ?thesis by (simp add: greedy_referrers_slots t')
qed

lemma diversity_appended:
  assumes inv: "table_inv t" and e: "s_kind e = Diversity"
    and n: "position (\<lambda>s. s_kind s = Diversity) (pt_slots t) = None"
    and t': "t' = t\<lparr>pt_slots := pt_slots t @ [e], pt_replacements_this_tick := 1\<rparr>"
  shows "diversity_slot t' = Some e \<and> greedy_referrers t' = greedy_referrers t \<and>
    kind_count Diversity t' = 1 \<and> greedy_slots t' = greedy_slots t \<and> pt_replacements_this_tick t' = 1"
proof -
  have "diversity_slot t' = Some e"
    using n e by (simp add: t' diversity_slot_def find_append position_None_iff find_None_iff [THEN iffD2])
  moreover have "kind_count Diversity t = 0" using n by (simp add: position_kind_None)
  ultimately show ?thesis
    using e by (simp add: t' greedy_referrers_def greedy_slots_def is_greedy_def kind_count_def)
qed

text \<open>
  A diversity entry is accepted exactly when its peer is new, its referrer is no greedy
  slot's referrer, no replacement was made in this tick, and a diversity slot exists or the
  table has fewer than five slots; it then is the table's only diversity slot and differs
  from every greedy slot in its referrer.
\<close>

theorem try_insert_diversity_outcome:
  assumes "table_inv t" "s_kind e = Diversity" "try_insert t e = (accepted, t')"
  shows "(accepted \<longleftrightarrow> s_peer_id e \<notin> set (all_peers t) \<and> s_referrer_id e \<notin> set (greedy_referrers t) \<and>
      pt_replacements_this_tick t = 0 \<and>
      (kind_count Diversity t = 1 \<or> length (pt_slots t) < MAX_TOTAL)) \<and>
    (accepted \<longrightarrow> diversity_slot t' = Some e \<and> s_referrer_id e \<notin> set (greedy_referrers t') \<and>
      kind_count Diversity t' = 1 \<and> greedy_slots t' = greedy_slots t \<and>
      pt_replacements_this_tick t' = 1) \<and>
    (\<not> accepted \<longrightarrow> t' = t)"
    (is "?iff \<and> ?stored \<and> ?refused")
proof (intro conjI)
  have one: "kind_count Diversity t = 1 \<longleftrightarrow> position (\<lambda>s. s_kind s = Diversity) (pt_slots t) \<noteq> None"
    using assms(1) position_kind_None [of Diversity t] by (auto simp: table_inv_def)
  have res: "try_insert t e = (if s_peer_id e \<in> set (all_peers t) then (False, t)
      else try_insert_diversity t e)"
    using assms(2) by (simp add: try_insert_def)
  note out = assms(3) [unfolded res try_insert_diversity_def]
  show ?iff using out unfolding one by (auto split: if_splits option.splits)
  show ?refused using assms(3) try_insert_False by auto
  show ?stored
  proof
    assume accepted
    with out have "(\<exists>i. position (\<lambda>s. s_kind s = Diversity) (pt_slots t) = Some i \<and>
          t' = t\<lparr>pt_slots := (pt_slots t)[i := e], pt_replacements_this_tick := 1\<rparr>) \<or>
        position (\<lambda>s. s_kind s = Diversity) (pt_slots t) = None \<and>
          t' = t\<lparr>pt_slots := pt_slots t @ [e], pt_replacements_this_tick := 1\<rparr>"
      and ref: "s_referrer_id e \<notin> set (greedy_referrers t)"
      by (auto split: if_splits option.splits)
    then have "diversity_slot t' = Some e \<and> greedy_referrers t' = greedy_referrers t \<and>
        kind_count Diversity t' = 1 \<and> greedy_slots t' = greedy_slots t \<and> pt_replacements_this_tick t' = 1"
      by (elim disjE exE conjE)
        (erule (1) diversity_replaced [OF assms(1,2)], erule (1) diversity_appended [OF assms(1,2)])
    then show "diversity_slot t' = Some e \<and> s_referrer_id e \<notin> set (greedy_referrers t') \<and>
      kind_count Diversity t' = 1 \<and> greedy_slots t' = greedy_slots t \<and>
      pt_replacements_this_tick t' = 1"
      using ref by simp
  qed
qed

theorem try_insert_diversity_outcome_witness:
  "let t = snd (try_insert (PeerTable_new (idn 0) 3) (SlotEntry_new Greedy (idn 1) (idn 9)));
       e = SlotEntry_new Diversity (idn 2) (idn 8); t' = snd (try_insert t e)
   in fst (try_insert t e) \<and> diversity_slot t' = Some e \<and> idn 8 \<notin> set (greedy_referrers t')"
proof -
  let ?t = "snd (try_insert (PeerTable_new (idn 0) 3) (SlotEntry_new Greedy (idn 1) (idn 9)))"
  let ?e = "SlotEntry_new Diversity (idn 2) (idn 8)"
  have inv: "table_inv ?t" by (intro inv_intros SlotEntry_new_ok)
  have e: "s_kind ?e = Diversity" "s_referrer_id ?e = idn 8" by (simp_all add: SlotEntry_new_def)
  have call: "try_insert ?t ?e = (True, snd (try_insert ?t ?e))" by (simp add: insert_evals)
  show ?thesis
    unfolding Let_def using try_insert_diversity_outcome [OF inv e(1) call] e(2) call by (metis fst_conv)
qed

text \<open>The loss of a fresh slot after \<open>n\<close> lost probes in a row.\<close>

primrec lost_probes_loss :: "nat \<Rightarrow> f32" where
  "lost_probes_loss 0 = 0"
| "lost_probes_loss (Suc n) =
     f32_add (f32_mul ALPHA 1) (f32_mul (f32_sub 1 ALPHA) (lost_probes_loss n))"

lemma lost_probes_next:
  assumes l: "lost_probes_loss n = l" and k: "k = Suc n"
    and y: "f32_round (13421773 / 16777216 * l) = y" and z: "f32_round (13421773 / 67108864 + y) = z"
  shows "lost_probes_loss k = z"
  using l y z unfolding k by (simp only: lost_probes_loss.simps f32_mul_weight f32_add_def ALPHA_complement)
    (simp add: ALPHA_value f32_mul_def)

lemma lost_probes_1: "lost_probes_loss 1 = 13421773 / 67108864"
  by (simp add: f32_add_def f32_mul_weight) (simp add: f32_mul_def, code_simp)

lemma lost_probes_2: "lost_probes_loss 2 = 3019899 / 8388608"
  by (rule lost_probes_next [OF lost_probes_1 _ f32_round_binade [of 3 _ 10737419] f32_round_binade [of 2 _ 12079596, THEN trans]])
    simp_all

lemma lost_probes_3: "lost_probes_loss 3 = 4093641 / 8388608"
  by (rule lost_probes_next [OF lost_probes_2 _ f32_round_binade [of 2 _ 9663677] f32_round_binade [of 2 _ 16374564, THEN trans]])
    simp_all

lemma lost_probes_4: "lost_probes_loss 4 = 9905269 / 16777216"
  by (rule lost_probes_next [OF lost_probes_3 _ f32_round_binade [of 2 _ 13099651] f32_round_binade [of 1 _ 9905269, THEN trans]])
    simp_all

lemma lost_probes_5: "lost_probes_loss 5 = 11279659 / 16777216"
  by (rule lost_probes_next [OF lost_probes_4 _ f32_round_binade [of 2 _ 15848431] f32_round_binade [of 1 _ 11279659, THEN trans]])
    simp_all

lemma lost_probes_6: "lost_probes_loss 6 = 6189585 / 8388608"
  by (rule lost_probes_next [OF lost_probes_5 _ f32_round_binade [of 1 _ 9023727] f32_round_binade [of 1 _ 12379170, THEN trans]])
    simp_all

lemma lost_probes_7: "lost_probes_loss 7 = 13258779 / 16777216"
  by (rule lost_probes_next [OF lost_probes_6 _ f32_round_binade [of 1 _ 9903336] f32_round_binade [of 1 _ 13258779, THEN trans]])
    simp_all

lemma lost_probes_8: "lost_probes_loss 8 = 6981233 / 8388608"
  by (rule lost_probes_next [OF lost_probes_7 _ f32_round_binade [of 1 _ 10607023] f32_round_binade [of 1 _ 13962466, THEN trans]])
    simp_all

lemma lost_probes_9: "lost_probes_loss 9 = 1815677 / 2097152"
  by (rule lost_probes_next [OF lost_probes_8 _ f32_round_binade [of 1 _ 11169973] f32_round_binade [of 1 _ 14525416, THEN trans]])
    simp_all

text \<open>
  Starting from a fresh slot, eight probes lost in a row leave the slot alive and nine
  make it evictable, and \<^verbatim>\<open>is_degraded\<close> already holds after five; all in the single-precision
  arithmetic of the code.
\<close>

theorem nine_lost_probes_evict:
  "let lost = (\<lambda>n. ((\<lambda>s. record_probe s False) ^^ n) (SlotEntry_new k p r))
   in \<not> should_evict (lost 8) \<and> should_evict (lost 9) \<and> \<not> is_degraded (lost 4) \<and> is_degraded (lost 5)"
proof -
  have loss: "s_ewma_loss (((\<lambda>s. record_probe s False) ^^ n) (SlotEntry_new k p r)) = lost_probes_loss n" for n
    by (induction n) (simp_all add: record_probe_def Let_def SlotEntry_new_def)
  have "f32_round (85 / 100) = 7130317 / 8388608"
    by (rule f32_round_binade [of 1 _ 14260634, THEN trans]) simp_all
  moreover have "f32_round (6 / 10) = 5033165 / 8388608"
    by (rule f32_round_binade [of 1 _ 10066330, THEN trans]) simp_all
  ultimately show ?thesis
    unfolding Let_def should_evict_def is_degraded_def loss
    by (simp only: lost_probes_4 lost_probes_5 lost_probes_8 lost_probes_9) simp
qed

end
