(* ===== verification/Routing.thy ===== *)
theory Routing
  imports Peer_Table
begin

section \<open>Greedy routing\<close>

text \<open>
  \<^verbatim>\<open>zona-p2p-overlay/src/routing/xor.rs\<close>: the next hop towards a target and the peers closest to
  a target.  The locale \<open>greedy_routing\<close> is the contract of a hop function, that every hop comes
  strictly closer; it is interpreted on \<open>next_hop\<close>, and the route tracing of the simulator
  rests on it.
\<close>

datatype next_hop_result = Forward node_id | Deliver | LocalMinimum

definition next_hop :: "node_id \<Rightarrow> node_id \<Rightarrow> peer_table \<Rightarrow> next_hop_result" where
  "next_hop self_id target table =
     (if self_id = target then Deliver
      else
        let self_dist = xor_distance self_id target;
            best = min_by_key (\<lambda>s. xor_distance (s_peer_id s) target)
                     (filter (\<lambda>s. \<not> should_evict s) (pt_slots table))
        in case best of
             None \<Rightarrow> LocalMinimum
           | Some entry \<Rightarrow>
               if xor_distance (s_peer_id entry) target < self_dist then Forward (s_peer_id entry)
               else LocalMinimum)"

definition closest_peers :: "node_id \<Rightarrow> peer_table \<Rightarrow> nat \<Rightarrow> node_id list" where
  "closest_peers target table n =
     (let peers = map s_peer_id (filter (\<lambda>s. \<not> should_evict s) (pt_slots table))
      in take n (sort_key (\<lambda>p. xor_distance p target) peers))"

definition live_peers :: "peer_table \<Rightarrow> node_id list" where
  "live_peers t = map s_peer_id (filter (\<lambda>s. \<not> should_evict s) (pt_slots t))"

lemma live_peers_subset: "set (live_peers t) \<subseteq> set (all_peers t)"
  by (auto simp: live_peers_def all_peers_def)

lemma distinct_live_peers: "table_inv t \<Longrightarrow> distinct (live_peers t)"
  by (simp add: live_peers_def table_inv_def all_peers_def distinct_map_filter)

lemma next_hop_Forward:
  assumes "next_hop self target t = Forward n"
  shows "n \<in> set (live_peers t)" "xor_distance n target < xor_distance self target"
    "p \<in> set (live_peers t) \<Longrightarrow> xor_distance n target \<le> xor_distance p target" "self \<noteq> target"
proof -
  let ?live = "filter (\<lambda>s. \<not> should_evict s) (pt_slots t)"
  obtain e where e: "min_by_key (\<lambda>s. xor_distance (s_peer_id s) target) ?live = Some e" "n = s_peer_id e"
      "xor_distance n target < xor_distance self target" "self \<noteq> target"
    using assms by (auto simp: next_hop_def Let_def split: if_splits option.splits)
  then show "n \<in> set (live_peers t)" "xor_distance n target < xor_distance self target" "self \<noteq> target"
    using min_by_key_in [OF e(1)] by (auto simp: live_peers_def)
  show "xor_distance n target \<le> xor_distance p target" if "p \<in> set (live_peers t)"
    using that min_by_key_le [OF e(1)] e(2) by (auto simp: live_peers_def)
qed

lemma next_hop_closer_exists:
  assumes "self \<noteq> target" "p \<in> set (live_peers t)" "xor_distance p target < xor_distance self target"
  shows "\<exists>n. next_hop self target t = Forward n"
proof -
  obtain s where s: "s \<in> set (filter (\<lambda>s. \<not> should_evict s) (pt_slots t))" "p = s_peer_id s"
    using assms(2) by (auto simp: live_peers_def)
  then have "filter (\<lambda>s. \<not> should_evict s) (pt_slots t) \<noteq> []" by (auto simp: filter_empty_conv)
  then obtain e where "min_by_key (\<lambda>s. xor_distance (s_peer_id s) target)
      (filter (\<lambda>s. \<not> should_evict s) (pt_slots t)) = Some e"
    by (metis min_by_key_None not_None_eq)
  with min_by_key_le [OF this s(1)] s(2) assms show ?thesis
    by (auto simp: next_hop_def Let_def intro: le_less_trans)
qed

subsection \<open>The contract of a hop function\<close>

locale greedy_routing = xor_space dist for dist :: "'n \<Rightarrow> 'n \<Rightarrow> 'd :: linorder" +
  fixes hop :: "'n \<Rightarrow> 'n \<Rightarrow> 'n option"
  assumes hop_closer: "hop a t = Some b \<Longrightarrow> dist b t < dist a t"
begin

lemma hop_fresh:
  assumes "sorted_wrt (\<lambda>a b. dist b t < dist a t) (p @ [a])" "hop a t = Some b"
  shows "b \<notin> set (p @ [a])" "sorted_wrt (\<lambda>a b. dist b t < dist a t) (p @ [a, b])"
  using descends_fresh [OF assms(1) hop_closer [OF assms(2)]]
    descends_snoc [OF assms(1) hop_closer [OF assms(2)]] by auto

lemma hop_from_target: "hop t t = None"
proof (rule ccontr)
  assume "hop t t \<noteq> None"
  then obtain b where "hop t t = Some b" by auto
  from hop_closer [OF this] dist_target_least [of t b] show False by simp
qed

text \<open>Iterating hops ends: there is a number of hops after which no further hop exists.\<close>

lemma hops_end: "\<exists>n b. ((\<lambda>a. case hop a t of None \<Rightarrow> a | Some b \<Rightarrow> b) ^^ n) a = b \<and> hop b t = None"
proof (induction "dist a t" arbitrary: a rule: wf_induct_rule [OF dist_wf])
  case 1
  show ?case
  proof (cases "hop a t")
    case None
    then show ?thesis by (intro exI [of _ 0]) auto
  next
    case (Some c)
    with 1 [of c] hop_closer [OF Some] obtain n b where
      "((\<lambda>a. case hop a t of None \<Rightarrow> a | Some b \<Rightarrow> b) ^^ n) c = b" "hop b t = None" by auto
    then show ?thesis using Some by (intro exI [of _ "Suc n"]) (simp add: funpow_Suc_right del: funpow.simps)
  qed
qed

end

text \<open>The hop that a node takes when every node has its table.\<close>

definition hop_via :: "(node_id \<Rightarrow> peer_table option) \<Rightarrow> node_id \<Rightarrow> node_id \<Rightarrow> node_id option" where
  "hop_via tables a t =
     (case tables a of
        None \<Rightarrow> None
      | Some table \<Rightarrow> (case next_hop a t table of Forward b \<Rightarrow> Some b | Deliver \<Rightarrow> None | LocalMinimum \<Rightarrow> None))"

interpretation gr: greedy_routing xor_distance "hop_via tables" for tables
  by unfold_locales
    (auto simp: hop_via_def dest: next_hop_Forward(2) split: option.splits next_hop_result.splits)

subsection \<open>Properties\<close>

text \<open>
  C18: \<^verbatim>\<open>next_hop\<close> forwards to a peer exactly when that peer is live, is the closest live peer to
  the target and is strictly closer to the target than the node itself; it reports a local
  minimum exactly when the node is not the target and no live peer is strictly closer, and
  delivers exactly at the target.
\<close>

theorem next_hop_spec:
  "(next_hop self target t = Forward n \<longleftrightarrow>
      self \<noteq> target \<and> n \<in> set (live_peers t) \<and>
      (\<forall>p \<in> set (live_peers t). xor_distance n target \<le> xor_distance p target) \<and>
      is_closer_to n target self) \<and>
   (next_hop self target t = LocalMinimum \<longleftrightarrow>
      self \<noteq> target \<and> \<not> (\<exists>p \<in> set (live_peers t). is_closer_to p target self)) \<and>
   (next_hop self target t = Deliver \<longleftrightarrow> self = target)"
    (is "?F \<and> ?M \<and> ?D")
proof (intro conjI)
  show D: ?D by (auto simp: next_hop_def Let_def split: option.split)
  show ?F
  proof
    assume "next_hop self target t = Forward n"
    then show "self \<noteq> target \<and> n \<in> set (live_peers t) \<and>
        (\<forall>p \<in> set (live_peers t). xor_distance n target \<le> xor_distance p target) \<and> is_closer_to n target self"
      using next_hop_Forward [of self target t n] by (auto simp: is_closer_to_def)
  next
    assume n: "self \<noteq> target \<and> n \<in> set (live_peers t) \<and>
        (\<forall>p \<in> set (live_peers t). xor_distance n target \<le> xor_distance p target) \<and> is_closer_to n target self"
    then obtain m where m: "next_hop self target t = Forward m"
      using next_hop_closer_exists [of self target n t] by (auto simp: is_closer_to_def)
    have "xor_distance m target = xor_distance n target"
      using n next_hop_Forward(1,3) [OF m] by (meson order_antisym)
    with m show "next_hop self target t = Forward n" by simp
  qed
  have "next_hop self target t \<noteq> LocalMinimum \<longleftrightarrow>
      self = target \<or> (\<exists>p \<in> set (live_peers t). is_closer_to p target self)"
    using D next_hop_closer_exists [of self target _ t] next_hop_Forward [of self target t]
    by (cases "next_hop self target t") (auto simp: is_closer_to_def)
  then show ?M by blast
qed

text \<open>
  The witness of the bounded quantifiers: a table with a live peer closer to the target.
\<close>

theorem next_hop_spec_witness:
  "let t = snd (try_insert (snd (try_insert (PeerTable_new (idn 8) 3) (SlotEntry_new Greedy (idn 1) (idn 9))))
             (SlotEntry_new Greedy (idn 3) (idn 9)))
   in next_hop (idn 8) (idn 2) t = Forward (idn 3) \<and> is_closer_to (idn 3) (idn 2) (idn 8)"
proof -
  let ?t = "snd (try_insert (snd (try_insert (PeerTable_new (idn 8) 3) (SlotEntry_new Greedy (idn 1) (idn 9))))
             (SlotEntry_new Greedy (idn 3) (idn 9)))"
  have "pt_slots ?t = [SlotEntry_new Greedy (idn 1) (idn 9), SlotEntry_new Greedy (idn 3) (idn 9)]"
    by (simp add: insert_evals)
  then have "next_hop (idn 8) (idn 2) ?t = Forward (idn 3)"
    by (simp add: next_hop_def Let_def)
  then show ?thesis using next_hop_spec [of "idn 8" "idn 2" ?t "idn 3"] by (simp add: Let_def)
qed

text \<open>
  \<^verbatim>\<open>closest_peers\<close> returns distinct live peers in order of increasing distance, as many as asked
  for or all of them, and none that is left out is closer than one that is returned.
\<close>

theorem closest_peers_spec:
  assumes "table_inv t" "ps = closest_peers target t n"
  shows "length ps = min n (length (live_peers t)) \<and> distinct ps \<and> set ps \<subseteq> set (live_peers t) \<and>
    sorted_wrt (\<lambda>a b. is_closer_to a target b) ps \<and>
    (\<forall>q \<in> set (live_peers t) - set ps. \<forall>p \<in> set ps. is_closer_to p target q)"
proof -
  let ?f = "\<lambda>p. xor_distance p target"
  let ?s = "sort_key ?f (live_peers t)"
  have ps: "ps = take n ?s" by (simp add: assms(2) closest_peers_def live_peers_def)
  have d: "distinct ?s" "set ?s = set (live_peers t)" using distinct_live_peers [OF assms(1)] by simp_all
  have "sorted_wrt (<) (map ?f ?s)"
    using d(1) by (simp add: strict_sorted_iff distinct_map inj_on_def)
  then have strict: "sorted_wrt (\<lambda>a b. is_closer_to a target b) ?s"
    by (simp add: sorted_wrt_map is_closer_to_def)
  have "is_closer_to p target q" if "q \<in> set ?s - set ps" "p \<in> set ps" for p q
  proof -
    have "q \<in> set (take n ?s @ drop n ?s)" using that(1) by simp
    then have "q \<in> set (drop n ?s)" using that(1) unfolding ps set_append by blast
    moreover have "sorted_wrt (\<lambda>a b. is_closer_to a target b) (take n ?s @ drop n ?s)" using strict by simp
    ultimately show ?thesis using that(2) unfolding ps sorted_wrt_append by blast
  qed
  moreover have "set ps \<subseteq> set ?s" unfolding ps by (rule set_take_subset)
  ultimately show ?thesis using d strict unfolding ps by (auto simp: sorted_wrt_take)
qed

theorem closest_peers_spec_witness:
  "let t = (PeerTable_new (idn 8) 3)\<lparr>pt_slots := [SlotEntry_new Greedy (idn 16) (idn 9),
             SlotEntry_new Greedy (idn 48) (idn 9)]\<rparr>
   in closest_peers (idn 52) t 1 = [idn 48] \<and> is_closer_to (idn 48) (idn 52) (idn 16)"
proof -
  let ?t = "(PeerTable_new (idn 8) 3)\<lparr>pt_slots := [SlotEntry_new Greedy (idn 16) (idn 9),
             SlotEntry_new Greedy (idn 48) (idn 9)]\<rparr>"
  have "table_inv ?t"
    by (rule table_invI) (auto simp: PeerTable_new_def all_peers_def kind_count_def referrer_count_def
        is_greedy_def SlotEntry_new_ok)
  moreover have eq: "closest_peers (idn 52) ?t 1 = [idn 48]" "live_peers ?t = [idn 16, idn 48]"
    by (simp_all add: closest_peers_def live_peers_def Let_def)
  ultimately show ?thesis using closest_peers_spec [of ?t "closest_peers (idn 52) ?t 1" "idn 52" 1]
    by (simp add: Let_def eq)
qed

end
