(* ===== verification/Critical.thy ===== *)
theory Critical
  imports Routing Wire_Types Hash_Map
begin

section \<open>Critical messages\<close>

text \<open>
  \<^verbatim>\<open>zona-p2p-overlay/src/routing/critical.rs\<close>: the sender forks a critical message over two first
  hops, the receiver waits for two matching copies.  \<open>copy_step\<close> is the receiver's behaviour
  for one message id as a three-state machine; the tracker with its hash map refines it, an
  instance of \<open>keyed_machine\<close>.
\<close>

subsection \<open>The sender\<close>

definition pick_fork_hops :: "peer_table \<Rightarrow> (node_id \<times> node_id) option" where
  "pick_fork_hops table =
     (let d_slot = map_option (\<lambda>s. (s_peer_id s, s_referrer_id s)) (diversity_slot table);
          g_slots = filter (\<lambda>s. \<not> should_evict s) (greedy_slots table);
          l_slot = map_option (\<lambda>s. (s_peer_id s, s_referrer_id s)) (long_jump_slot table);
          last_resort =
            (let all = filter (\<lambda>s. \<not> should_evict s) (pt_slots table)
             in if 2 \<le> length all then Some (s_peer_id (all ! 0), s_peer_id (all ! 1)) else None);
          fallback =
            (case g_slots of
               [] \<Rightarrow> last_resort
             | g # _ \<Rightarrow>
                 (case l_slot of
                    None \<Rightarrow> last_resort
                  | Some (l_id, _) \<Rightarrow>
                      if l_id \<noteq> s_peer_id g then Some (s_peer_id g, l_id) else last_resort))
      in case d_slot of
           None \<Rightarrow> fallback
         | Some (d_id, d_ref) \<Rightarrow>
             (case List.find (\<lambda>s. s_referrer_id s \<noteq> d_ref) g_slots of
                Some g \<Rightarrow> Some (s_peer_id g, d_id)
              | None \<Rightarrow> fallback))"

definition fork_envelopes :: "envelope \<Rightarrow> node_id \<Rightarrow> node_id \<Rightarrow> envelope \<times> envelope" where
  "fork_envelopes template hop_a hop_b =
     (let template = template\<lparr>env_route_fork := True\<rparr>
      in (template\<lparr>env_to := hop_a\<rparr>, template\<lparr>env_to := hop_b\<rparr>))"

subsection \<open>The receiver\<close>

datatype quorum_result = Pending | Accepted | Inconsistent

record pending_entry =
  pe_payload :: bytes
  pe_matches :: u8
  pe_mismatch :: bool

record quorum_tracker =
  qt_pending :: "(u64, pending_entry) hash_map"

definition QuorumTracker_new :: quorum_tracker where
  "QuorumTracker_new = \<lparr>qt_pending = []\<rparr>"

definition quorum_record :: "quorum_tracker \<Rightarrow> u64 \<Rightarrow> bytes \<Rightarrow> quorum_result \<times> quorum_tracker" where
  "quorum_record q message_id payload =
     (let (entry, pending) = hm_or_insert message_id
            \<lparr>pe_payload = payload, pe_matches = 0, pe_mismatch = False\<rparr> (qt_pending q);
          entry = (if pe_payload entry \<noteq> payload then entry\<lparr>pe_mismatch := True\<rparr> else entry)
      in if pe_mismatch entry then (Inconsistent, q\<lparr>qt_pending := hm_insert message_id entry pending\<rparr>)
         else
           let entry = entry\<lparr>pe_matches := pe_matches entry + 1\<rparr>
           in if 2 \<le> pe_matches entry then (Accepted, q\<lparr>qt_pending := hm_remove message_id pending\<rparr>)
              else (Pending, q\<lparr>qt_pending := hm_insert message_id entry pending\<rparr>))"

definition quorum_clear :: "quorum_tracker \<Rightarrow> quorum_tracker" where
  "quorum_clear q = q\<lparr>qt_pending := []\<rparr>"

subsection \<open>One message id as a state machine\<close>

datatype copy_state = Fresh | Seen bytes | Poisoned

fun copy_step :: "copy_state \<Rightarrow> bytes \<Rightarrow> quorum_result \<times> copy_state" where
  "copy_step Fresh p = (Pending, Seen p)"
| "copy_step (Seen q) p = (if p = q then (Accepted, Fresh) else (Inconsistent, Poisoned))"
| "copy_step Poisoned p = (Inconsistent, Poisoned)"

definition copy_state_of :: "quorum_tracker \<Rightarrow> u64 \<Rightarrow> copy_state" where
  "copy_state_of q i =
     (case hm_get (qt_pending q) i of
        None \<Rightarrow> Fresh
      | Some e \<Rightarrow> if pe_mismatch e then Poisoned else Seen (pe_payload e))"

definition tracker_inv :: "quorum_tracker \<Rightarrow> bool" where
  "tracker_inv q \<longleftrightarrow> hm_ok (qt_pending q) \<and> list_all (\<lambda>(i, e). pe_matches e = 1) (qt_pending q)"

lemma tracker_inv_get: "tracker_inv q \<Longrightarrow> hm_get (qt_pending q) i = Some e \<Longrightarrow> pe_matches e = 1"
  by (auto simp: tracker_inv_def list_all_iff hm_get_in)

lemma tracker_inv_insert:
  "tracker_inv q \<Longrightarrow> pe_matches e = 1 \<Longrightarrow> tracker_inv (q\<lparr>qt_pending := hm_insert i e (qt_pending q)\<rparr>)"
  by (auto simp: tracker_inv_def list_all_iff dest: hm_insert_in)

lemma tracker_inv_remove:
  "tracker_inv q \<Longrightarrow> tracker_inv (q\<lparr>qt_pending := hm_remove i (qt_pending q)\<rparr>)"
  by (auto simp: tracker_inv_def list_all_iff dest: hm_remove_in)

lemma tracker_inv_new [inv_intros]: "tracker_inv QuorumTracker_new"
  by (simp add: tracker_inv_def QuorumTracker_new_def)

lemma tracker_inv_clear [inv_intros]: "tracker_inv (quorum_clear q)"
  by (simp add: tracker_inv_def quorum_clear_def)

lemma hm_insert_twice: "hm_insert k v (hm_insert k w m) = hm_insert k v m"
  by (induction m) (auto simp: hm_insert_def)

lemma hm_remove_insert: "hm_ok m \<Longrightarrow> hm_get m k = None \<Longrightarrow> hm_remove k (hm_insert k v m) = m"
  by (induction m) (auto simp: hm_insert_def hm_remove_def hm_get_def hm_ok_def split: if_splits)

text \<open>One copy, on every branch of the code.\<close>

lemma quorum_record_cases:
  assumes "tracker_inv q"
  shows "quorum_record q i p =
    (case hm_get (qt_pending q) i of
       None \<Rightarrow> (Pending, q\<lparr>qt_pending := hm_insert i
                  \<lparr>pe_payload = p, pe_matches = 1, pe_mismatch = False\<rparr> (qt_pending q)\<rparr>)
     | Some e \<Rightarrow>
         if pe_mismatch e \<or> pe_payload e \<noteq> p
         then (Inconsistent, q\<lparr>qt_pending := hm_insert i (e\<lparr>pe_mismatch := True\<rparr>) (qt_pending q)\<rparr>)
         else (Accepted, q\<lparr>qt_pending := hm_remove i (qt_pending q)\<rparr>))"
proof (cases "hm_get (qt_pending q) i")
  case None
  then show ?thesis by (simp add: quorum_record_def hm_or_insert_def hm_insert_twice)
next
  case (Some e)
  with tracker_inv_get [OF assms Some] show ?thesis
    by (cases e) (auto simp: quorum_record_def hm_or_insert_def Let_def)
qed

lemma quorum_record_inv [inv_intros]:
  "tracker_inv q \<Longrightarrow> tracker_inv (snd (quorum_record q i p))"
  using tracker_inv_get [of q i]
  by (auto simp: quorum_record_cases tracker_inv_insert tracker_inv_remove split: option.split)

lemma copy_step_refines:
  assumes "tracker_inv q"
  shows "copy_step (copy_state_of q i) p = (fst (quorum_record q i p), copy_state_of (snd (quorum_record q i p)) i)"
    "j \<noteq> i \<Longrightarrow> copy_state_of (snd (quorum_record q i p)) j = copy_state_of q j"
  using assms by (auto simp: quorum_record_cases copy_state_of_def split: option.splits if_splits)

interpretation cm: keyed_machine quorum_record copy_state_of copy_step tracker_inv
  by unfold_locales (auto simp: copy_step_refines quorum_record_inv)

lemma copy_run_poisoned: "run_one copy_step Poisoned ps = (replicate (length ps) Inconsistent, Poisoned)"
  by (induction ps) (simp_all add: run_Cons)

lemma copy_state_of_new [simp]: "copy_state_of QuorumTracker_new i = Fresh"
  by (simp add: copy_state_of_def QuorumTracker_new_def)

subsection \<open>Properties\<close>

text \<open>
  C31: the tracker, fed any interleaving of copies of any messages, answers for each message id
  exactly as a three-state machine that sees only that id's copies: the first copy is pending,
  a second equal one is accepted and forgets the message, a different one poisons it.
\<close>

theorem quorum_tracker_refines:
  "(results_of i cs (fst (run_keyed quorum_record QuorumTracker_new cs)),
    copy_state_of (snd (run_keyed quorum_record QuorumTracker_new cs)) i) =
   run_one copy_step Fresh (inputs_of i cs)"
  using cm.run_projection [OF tracker_inv_new, of i cs] by simp

text \<open>
  In every state the tracker can be in, a copy is accepted exactly when one pending copy of
  that message has the same payload; and once two different payloads were seen for an id,
  no later copy of it is accepted, whatever else arrives, until \<^verbatim>\<open>clear\<close>.
\<close>

theorem quorum_acceptance:
  assumes "q = snd (run_keyed quorum_record QuorumTracker_new cs)"
  shows "(fst (quorum_record q i p) = Accepted \<longleftrightarrow> copy_state_of q i = Seen p) \<and>
    (copy_state_of q i = Poisoned \<longrightarrow>
      Accepted \<notin> set (results_of i later (fst (run_keyed quorum_record q later))))"
proof -
  have inv: "tracker_inv q" using cm.run_inv [OF tracker_inv_new] assms by simp
  have "fst (quorum_record q i p) = fst (copy_step (copy_state_of q i) p)"
    by (simp add: copy_step_refines [OF inv])
  then have "fst (quorum_record q i p) = Accepted \<longleftrightarrow> copy_state_of q i = Seen p"
    by (cases "copy_state_of q i") auto
  moreover have "copy_state_of q i = Poisoned \<Longrightarrow>
      Accepted \<notin> set (results_of i later (fst (run_keyed quorum_record q later)))"
    using cm.run_projection [OF inv, of i later] by (simp add: copy_run_poisoned) (metis in_set_replicate quorum_result.distinct(5))
  ultimately show ?thesis by blast
qed

theorem quorum_acceptance_witness:
  "let q = snd (run_keyed quorum_record QuorumTracker_new [(7, [1]), (8, [2])])
   in fst (quorum_record q 7 [1]) = Accepted \<and> copy_state_of q 7 = Seen [1]"
proof -
  let ?q = "snd (run_keyed quorum_record QuorumTracker_new [(7, [1]), (8, [2])])"
  have "copy_state_of ?q 7 = Seen [1]"
    by (simp add: run_Cons Let_def quorum_record_def hm_or_insert_def QuorumTracker_new_def hm_insert_def
        hm_get_def copy_state_of_def)
  then show ?thesis using quorum_acceptance [OF refl, of "[(7, [1]), (8, [2])]" 7 "[1]"] by (simp add: Let_def)
qed

lemma copy_run_replays:
  "run_one copy_step Fresh (replicate (2 * n) p) = (concat (replicate n [Pending, Accepted]), Fresh)"
  by (induction n) (simp_all add: run_Cons)

text \<open>
  The tracker forgets an accepted message, so further copies of the same message are
  accepted again: any even number of equal copies of one message makes half of them accepted.
\<close>

theorem quorum_replays_accepted:
  "fst (run_keyed quorum_record QuorumTracker_new (replicate (2 * n) (i, p))) =
     concat (replicate n [Pending, Accepted])"
proof -
  let ?cs = "replicate (2 * n) (i, p)"
  have "results_of i ?cs (fst (run_keyed quorum_record QuorumTracker_new ?cs)) =
      fst (run_keyed quorum_record QuorumTracker_new ?cs)"
    by (rule results_of_same) auto
  moreover have "inputs_of i ?cs = replicate (2 * n) p" by (simp add: inputs_of_def)
  ultimately show ?thesis
    using cm.run_projection [OF tracker_inv_new, of i ?cs] by (simp add: copy_run_replays)
qed

lemma diversity_slot_in: "diversity_slot t = Some s \<Longrightarrow> s \<in> set (pt_slots t) \<and> s_kind s = Diversity"
  by (auto simp: diversity_slot_def dest: find_Some_in)

lemma long_jump_slot_in: "long_jump_slot t = Some s \<Longrightarrow> s \<in> set (pt_slots t) \<and> s_kind s = LongJump"
  by (auto simp: long_jump_slot_def dest: find_Some_in)

lemma same_peer_same_slot:
  assumes "table_inv t" "a \<in> set (pt_slots t)" "b \<in> set (pt_slots t)" "s_peer_id a = s_peer_id b"
  shows "a = b"
  using assms by (auto simp: table_inv_def all_peers_def distinct_map dest: inj_onD)

text \<open>The two slots that a fork uses, with what the code guarantees of them.\<close>

definition fork_slots :: "peer_table \<Rightarrow> slot_entry \<Rightarrow> slot_entry \<Rightarrow> bool" where
  "fork_slots t a b \<longleftrightarrow> a \<in> set (pt_slots t) \<and> b \<in> set (pt_slots t) \<and> a \<noteq> b \<and> \<not> should_evict a"

lemma last_resort_slots:
  assumes "table_inv t" "2 \<le> length (filter (\<lambda>s. \<not> should_evict s) (pt_slots t))"
  shows "fork_slots t (filter (\<lambda>s. \<not> should_evict s) (pt_slots t) ! 0)
    (filter (\<lambda>s. \<not> should_evict s) (pt_slots t) ! 1)"
proof -
  let ?all = "filter (\<lambda>s. \<not> should_evict s) (pt_slots t)"
  have mem: "?all ! 0 \<in> set ?all" "?all ! 1 \<in> set ?all"
    using assms(2) by (auto intro!: nth_mem simp del: set_filter)
  have "distinct ?all"
    using assms(1) by (auto simp: table_inv_def all_peers_def distinct_map)
  moreover have "0 < length ?all" "1 < length ?all" using assms(2) by linarith+
  ultimately have "?all ! 0 \<noteq> ?all ! 1" using nth_eq_iff_index_eq [of ?all 0 1] by (metis zero_neq_one)
  with mem show ?thesis by (auto simp: fork_slots_def)
qed

lemma pick_fork_hops_slots:
  assumes inv: "table_inv t" and pick: "pick_fork_hops t = Some (a, b)"
  shows "\<exists>sa sb. fork_slots t sa sb \<and> a = s_peer_id sa \<and> b = s_peer_id sb"
proof -
  let ?g = "filter (\<lambda>s. \<not> should_evict s) (greedy_slots t)"
  let ?all = "filter (\<lambda>s. \<not> should_evict s) (pt_slots t)"
  have g: "s \<in> set (pt_slots t) \<and> s_kind s = Greedy \<and> \<not> should_evict s" if "s \<in> set ?g" for s
    using that by (auto simp: greedy_slots_def is_greedy_def)
  consider d s where "diversity_slot t = Some d" "s \<in> set ?g" "a = s_peer_id s" "b = s_peer_id d"
    | l s where "long_jump_slot t = Some l" "s \<in> set ?g" "a = s_peer_id s" "b = s_peer_id l"
    | "2 \<le> length ?all" "a = s_peer_id (?all ! 0)" "b = s_peer_id (?all ! 1)"
    using pick unfolding pick_fork_hops_def Let_def
    by (auto split: option.splits list.splits if_splits dest: find_Some_in simp del: set_filter)
  then show ?thesis
  proof cases
    case 1
    then have "fork_slots t s d" using g [of s] diversity_slot_in [of t d] by (auto simp: fork_slots_def)
    with 1 show ?thesis by blast
  next
    case 2
    then have "fork_slots t s l" using g [of s] long_jump_slot_in [of t l] by (auto simp: fork_slots_def)
    with 2 show ?thesis by blast
  next
    case 3
    then show ?thesis using last_resort_slots [OF inv] by blast
  qed
qed

text \<open>
  The two first hops of a fork are two different peers of the table, the first of them
  live; hops are found whenever two live slots exist; and whenever a live greedy slot and
  the diversity slot come from different referrers, so do the two hops chosen.
\<close>

theorem fork_hops_independent:
  assumes "table_inv t"
  shows "(\<forall>a b. pick_fork_hops t = Some (a, b) \<longrightarrow>
      a \<noteq> b \<and> a \<in> set (live_peers t) \<and> b \<in> set (all_peers t)) \<and>
    (2 \<le> length (live_peers t) \<longrightarrow> pick_fork_hops t \<noteq> None) \<and>
    (\<forall>d g. diversity_slot t = Some d \<longrightarrow> g \<in> set (greedy_slots t) \<longrightarrow> \<not> should_evict g \<longrightarrow>
      s_referrer_id g \<noteq> s_referrer_id d \<longrightarrow>
      (\<exists>g' \<in> set (greedy_slots t). s_referrer_id g' \<noteq> s_referrer_id d \<and>
        pick_fork_hops t = Some (s_peer_id g', s_peer_id d)))"
    (is "?hops \<and> ?found \<and> ?diverse")
proof (intro conjI)
  show ?hops
  proof (intro allI impI)
    fix a b
    assume "pick_fork_hops t = Some (a, b)"
    from pick_fork_hops_slots [OF assms this] obtain sa sb where
      s: "fork_slots t sa sb" "a = s_peer_id sa" "b = s_peer_id sb" by auto
    then have "a \<noteq> b" using same_peer_same_slot [OF assms, of sa sb] by (auto simp: fork_slots_def)
    then show "a \<noteq> b \<and> a \<in> set (live_peers t) \<and> b \<in> set (all_peers t)"
      using s by (auto simp: fork_slots_def live_peers_def all_peers_def)
  qed
  show ?found
    by (auto simp: pick_fork_hops_def live_peers_def Let_def split: option.split list.split)
  show ?diverse
  proof (intro allI impI)
    fix d g
    assume d: "diversity_slot t = Some d" and g: "g \<in> set (greedy_slots t)" "\<not> should_evict g"
      "s_referrer_id g \<noteq> s_referrer_id d"
    let ?f = "List.find (\<lambda>s. s_referrer_id s \<noteq> s_referrer_id d)
      (filter (\<lambda>s. \<not> should_evict s) (greedy_slots t))"
    have "?f \<noteq> None" using g unfolding find_None_iff by auto
    then obtain g' where g': "?f = Some g'" by auto
    then have "g' \<in> set (greedy_slots t)" "s_referrer_id g' \<noteq> s_referrer_id d"
      by (auto dest: find_Some_in)
    then show "\<exists>g' \<in> set (greedy_slots t). s_referrer_id g' \<noteq> s_referrer_id d \<and>
        pick_fork_hops t = Some (s_peer_id g', s_peer_id d)"
      using d g' by (intro bexI [of _ g']) (auto simp: pick_fork_hops_def Let_def)
  qed
qed

theorem fork_hops_independent_witness:
  "let t = (PeerTable_new (idn 8) 3)\<lparr>pt_slots := [SlotEntry_new Greedy (idn 16) (idn 9),
             SlotEntry_new Diversity (idn 48) (idn 10)]\<rparr>
   in pick_fork_hops t = Some (idn 16, idn 48) \<and> idn 16 \<in> set (live_peers t)"
proof -
  let ?t = "(PeerTable_new (idn 8) 3)\<lparr>pt_slots := [SlotEntry_new Greedy (idn 16) (idn 9),
             SlotEntry_new Diversity (idn 48) (idn 10)]\<rparr>"
  have "table_inv ?t"
    by (rule table_invI) (auto simp: PeerTable_new_def all_peers_def kind_count_def referrer_count_def
        is_greedy_def SlotEntry_new_ok)
  moreover have "pick_fork_hops ?t = Some (idn 16, idn 48)"
    by (simp add: pick_fork_hops_def Let_def diversity_slot_def greedy_slots_def is_greedy_def)
  ultimately show ?thesis using fork_hops_independent [of ?t] by (simp add: Let_def)
qed

end
