(* ===== verification/Pex.thy ===== *)
theory Pex
  imports Routing Wire_Types
begin

section \<open>Peer exchange\<close>

text \<open>
  \<^verbatim>\<open>zona-p2p-overlay/src/peers/pex.rs\<close>: what a node offers to others and how it takes over what
  others offer.  Insertion goes through the interface \<open>slot_table\<close> of the routing table.
\<close>

definition PEX_Q :: nat where
  "PEX_Q = 3"

record pex_request =
  pexr_requester :: node_id

record pex_response =
  pex_candidates :: "pex_candidate list"

record pex_manager =
  pex_self_id :: node_id

definition PexManager_new :: "node_id \<Rightarrow> pex_manager" where
  "PexManager_new self_id = \<lparr>pex_self_id = self_id\<rparr>"

definition build_response :: "pex_manager \<Rightarrow> peer_table \<Rightarrow> descriptor list \<Rightarrow> pex_response" where
  "build_response m table descriptors =
     \<lparr>pex_candidates =
        List.map_filter
          (\<lambda>slot. map_option (\<lambda>desc. \<lparr>c_descriptor = desc, c_referrer_id = pex_self_id m\<rparr>)
                   (List.find (\<lambda>d. d_node_id d = s_peer_id slot) descriptors))
          (take PEX_Q (filter (\<lambda>s. \<not> should_evict s) (pt_slots table)))\<rparr>"

definition classify_candidate :: "pex_candidate \<Rightarrow> peer_table \<Rightarrow> slot_entry" where
  "classify_candidate c table =
     (let kind = (if c_referrer_id c \<notin> set (greedy_referrers table) then Diversity else Greedy)
      in SlotEntry_new kind (d_node_id (c_descriptor c)) (c_referrer_id c))"

fun apply_loop :: "pex_manager \<Rightarrow> pex_candidate list \<Rightarrow> peer_table \<Rightarrow> nat \<Rightarrow> nat \<times> peer_table" where
  "apply_loop m [] table inserted = (inserted, table)"
| "apply_loop m (c # cs) table inserted =
     (if d_node_id (c_descriptor c) = pex_self_id m then apply_loop m cs table inserted
      else
        let entry = classify_candidate c table;
            (ok, table) = try_insert table entry
        in apply_loop m cs table (if ok then inserted + 1 else inserted))"

definition apply_candidates :: "pex_manager \<Rightarrow> pex_candidate list \<Rightarrow> peer_table \<Rightarrow> nat \<times> peer_table" where
  "apply_candidates m candidates table = apply_loop m (take PEX_Q candidates) table 0"

subsection \<open>Lemmas\<close>

lemma classify_candidate_ok: "slot_ok (classify_candidate c t)"
  by (simp add: classify_candidate_def Let_def SlotEntry_new_ok)

lemma classify_candidate_peer [simp]: "s_peer_id (classify_candidate c t) = d_node_id (c_descriptor c)"
  by (simp add: classify_candidate_def Let_def)

lemma apply_loop_Cons:
  "apply_loop m (c # cs) t n =
    (if d_node_id (c_descriptor c) = pex_self_id m then apply_loop m cs t n
     else apply_loop m cs (snd (try_insert t (classify_candidate c t)))
            (if fst (try_insert t (classify_candidate c t)) then n + 1 else n))"
  by (simp add: Let_def case_prod_beta')

declare apply_loop.simps(2) [simp del]

lemma apply_loop_inv: "table_inv t \<Longrightarrow> table_inv (snd (apply_loop m cs t n))"
  by (induction cs arbitrary: t n) (simp_all add: apply_loop_Cons pt.insertion_inv classify_candidate_ok)

lemma apply_candidates_inv [inv_intros]: "table_inv t \<Longrightarrow> table_inv (snd (apply_candidates m cs t))"
  by (simp add: apply_candidates_def apply_loop_inv)

lemma apply_loop_frame:
  "pt_self_id (snd (apply_loop m cs t n)) = pt_self_id t \<and>
   pt_max_greedy (snd (apply_loop m cs t n)) = pt_max_greedy t"
  by (induction cs arbitrary: t n) (simp_all add: apply_loop_Cons try_insert_frame)

lemma apply_loop_peers:
  "set (all_peers (snd (apply_loop m cs t n))) \<subseteq>
    set (all_peers t) \<union> ((\<lambda>c. d_node_id (c_descriptor c)) ` set cs - {pex_self_id m})"
proof (induction cs arbitrary: t n)
  case (Cons c cs)
  let ?e = "classify_candidate c t"
  have "set (all_peers (snd (try_insert t ?e))) \<subseteq> insert (d_node_id (c_descriptor c)) (set (all_peers t))"
    using pt.insertion_entries [of t ?e] by (auto simp: all_peers_def)
  then have new: "set (all_peers (snd (apply_loop m cs (snd (try_insert t ?e)) k))) \<subseteq>
      insert (d_node_id (c_descriptor c)) (set (all_peers t)) \<union>
      ((\<lambda>c. d_node_id (c_descriptor c)) ` set cs - {pex_self_id m})" for k
    using Cons.IH [of "snd (try_insert t ?e)" k] by blast
  show ?case
  proof (cases "d_node_id (c_descriptor c) = pex_self_id m")
    case True
    then show ?thesis using Cons.IH [of t n] by (auto simp: apply_loop_Cons)
  next
    case False
    then have "apply_loop m (c # cs) t n =
        apply_loop m cs (snd (try_insert t ?e)) (if fst (try_insert t ?e) then n + 1 else n)"
      by (simp add: apply_loop_Cons)
    with new [of "if fst (try_insert t ?e) then n + 1 else n"]
    have "set (all_peers (snd (apply_loop m (c # cs) t n))) \<subseteq> insert (d_node_id (c_descriptor c)) (set (all_peers t)) \<union>
        ((\<lambda>c. d_node_id (c_descriptor c)) ` set cs - {pex_self_id m})" by simp
    also have "\<dots> \<subseteq> set (all_peers t) \<union> ((\<lambda>c. d_node_id (c_descriptor c)) ` set (c # cs) - {pex_self_id m})"
      using False by auto
    finally show ?thesis .
  qed
qed simp

lemma apply_loop_count: "n \<le> fst (apply_loop m cs t n) \<and> fst (apply_loop m cs t n) \<le> n + length cs"
proof (induction cs arbitrary: t n)
  case (Cons c cs)
  show ?case
    using Cons.IH [where t = t and n = n]
      Cons.IH [where t = "snd (try_insert t (classify_candidate c t))" and n = n]
      Cons.IH [where t = "snd (try_insert t (classify_candidate c t))" and n = "n + 1"]
    by (auto simp: apply_loop_Cons)
qed simp

lemma apply_loop_none: "fst (apply_loop m cs t n) = n \<Longrightarrow> snd (apply_loop m cs t n) = t"
proof (induction cs arbitrary: t)
  case (Cons c cs)
  let ?r = "try_insert t (classify_candidate c t)"
  show ?case
  proof (cases "d_node_id (c_descriptor c) = pex_self_id m \<or> fst ?r")
    case True
    then show ?thesis using Cons apply_loop_count [of "n + 1" m cs "snd ?r"]
      by (auto simp: apply_loop_Cons split: if_splits)
  next
    case False
    then have "snd ?r = t" using pt.insertion_refused [of t "classify_candidate c t" "snd ?r"] by (cases ?r) auto
    then show ?thesis using Cons False by (simp add: apply_loop_Cons)
  qed
qed simp

subsection \<open>Properties\<close>

text \<open>
  Taking over PEX candidates keeps the table invariant, looks at no more than three
  candidates, never enters the node itself, adds no peer that was not offered, and returns
  zero only if the table is unchanged.
\<close>

theorem apply_candidates_safe:
  assumes "table_inv t" "apply_candidates m cs t = (n, t')" "pex_self_id m \<notin> set (all_peers t)"
  shows "table_inv t' \<and> pex_self_id m \<notin> set (all_peers t') \<and> n \<le> 3 \<and>
    set (all_peers t') \<subseteq> set (all_peers t) \<union> (\<lambda>c. d_node_id (c_descriptor c)) ` set (take 3 cs) \<and>
    (n = 0 \<longrightarrow> t' = t)"
proof -
  have r: "n = fst (apply_loop m (take 3 cs) t 0)" "t' = snd (apply_loop m (take 3 cs) t 0)"
    using assms(2) by (simp_all add: apply_candidates_def PEX_Q_def)
  show ?thesis
    using apply_loop_inv [OF assms(1), of m "take 3 cs" 0] apply_loop_peers [of m "take 3 cs" t 0]
      apply_loop_count [of 0 m "take 3 cs" t] apply_loop_none [of m "take 3 cs" t 0] assms(3) r
    by auto
qed

theorem apply_candidates_safe_witness:
  "let m = PexManager_new (idn 8); t = PeerTable_new (idn 8) 3;
       d = \<lparr>d_node_id = idn 5, d_pubkey = fill32 5, d_reach = ReachList [], d_version = 1,
            d_provisional = False, d_signature = []\<rparr>;
       t' = snd (apply_candidates m [\<lparr>c_descriptor = d, c_referrer_id = idn 9\<rparr>] t)
   in all_peers t' = [idn 5] \<and> table_inv t'"
proof -
  let ?m = "PexManager_new (idn 8)" and ?t = "PeerTable_new (idn 8) 3"
  let ?d = "\<lparr>d_node_id = idn 5, d_pubkey = fill32 5, d_reach = ReachList [], d_version = 1,
            d_provisional = False, d_signature = []\<rparr>"
  let ?cs = "[\<lparr>c_descriptor = ?d, c_referrer_id = idn 9\<rparr>]"
  have "all_peers (snd (apply_candidates ?m ?cs ?t)) = [idn 5]"
    by (simp add: apply_candidates_def PEX_Q_def apply_loop_Cons classify_candidate_def PexManager_new_def
        insert_evals Let_def)
  moreover have "pex_self_id ?m \<notin> set (all_peers ?t)" by (simp add: PeerTable_new_def all_peers_def)
  then have "table_inv (snd (apply_candidates ?m ?cs ?t))"
    using apply_candidates_safe [OF table_inv_new prod.collapse [symmetric]] by blast
  ultimately show ?thesis by (simp add: Let_def)
qed

text \<open>
  A PEX response offers at most three candidates, all of them descriptors the node was given
  and that belong to live slots of its table, each with the node itself as referrer.
\<close>

theorem build_response_sound:
  "length (pex_candidates (build_response m t ds)) \<le> 3 \<and>
   (\<forall>c \<in> set (pex_candidates (build_response m t ds)).
      c_descriptor c \<in> set ds \<and> c_referrer_id c = pex_self_id m \<and>
      d_node_id (c_descriptor c) \<in> set (live_peers t))"
proof -
  let ?slots = "take PEX_Q (filter (\<lambda>s. \<not> should_evict s) (pt_slots t))"
  have "length (pex_candidates (build_response m t ds)) \<le> length ?slots"
    unfolding build_response_def pex_response.simps by (rule length_map_filter_le)
  moreover have "c_descriptor c \<in> set ds \<and> c_referrer_id c = pex_self_id m \<and>
      d_node_id (c_descriptor c) \<in> set (live_peers t)"
    if c: "c \<in> set (pex_candidates (build_response m t ds))" for c
  proof -
    obtain s d where s: "s \<in> set ?slots" and d: "List.find (\<lambda>d. d_node_id d = s_peer_id s) ds = Some d"
      "c = \<lparr>c_descriptor = d, c_referrer_id = pex_self_id m\<rparr>"
      using c by (auto simp: build_response_def map_filter_subset)
    have "s \<in> set (filter (\<lambda>s. \<not> should_evict s) (pt_slots t))" using s by (rule in_set_takeD)
    then show ?thesis using find_Some_in [OF d(1)] d(2) by (auto simp: live_peers_def)
  qed
  ultimately show ?thesis by (simp add: PEX_Q_def)
qed

theorem build_response_sound_witness:
  "let t = (PeerTable_new (idn 8) 3)\<lparr>pt_slots := [SlotEntry_new Greedy (idn 5) (idn 9)]\<rparr>;
       d = \<lparr>d_node_id = idn 5, d_pubkey = fill32 5, d_reach = ReachList [], d_version = 1,
            d_provisional = False, d_signature = []\<rparr>;
       c = \<lparr>c_descriptor = d, c_referrer_id = idn 8\<rparr>
   in c \<in> set (pex_candidates (build_response (PexManager_new (idn 8)) t [d])) \<and> idn 5 \<in> set (live_peers t)"
proof -
  let ?t = "(PeerTable_new (idn 8) 3)\<lparr>pt_slots := [SlotEntry_new Greedy (idn 5) (idn 9)]\<rparr>"
  let ?d = "\<lparr>d_node_id = idn 5, d_pubkey = fill32 5, d_reach = ReachList [], d_version = 1,
            d_provisional = False, d_signature = []\<rparr>"
  have "\<lparr>c_descriptor = ?d, c_referrer_id = idn 8\<rparr>
      \<in> set (pex_candidates (build_response (PexManager_new (idn 8)) ?t [?d]))"
    by (simp add: build_response_def PEX_Q_def PexManager_new_def List.map_filter_def)
  then show ?thesis
    using build_response_sound [of "PexManager_new (idn 8)" ?t "[?d]"] by (force simp: Let_def)
qed

end
