(* ===== verification/Rate_Limits.thy ===== *)
theory Rate_Limits
  imports Wire_Types Hash_Map
begin

section \<open>Rate limits\<close>

text \<open>
  \<^verbatim>\<open>zona-p2p-overlay/src/limits.rs\<close>: a fixed-window counter per peer and operation.  An \<^verbatim>\<open>Instant\<close> is a
  number of nanoseconds, \<^verbatim>\<open>duration_since\<close> saturates at zero.  The two readings of the clock in
  one check, for a new bucket and for the attempt, are the two components of \<open>clock\<close>.  A
  bucket in a limiter is an instance of \<open>keyed_machine\<close>.
\<close>

subsection \<open>Buckets\<close>

type_synonym instant = nat

definition from_secs :: "nat \<Rightarrow> nat" where
  "from_secs s = s * 1000000000"

record limit_config =
  lc_max_per_window :: u32
  lc_window :: nat

definition FIND_NODE :: limit_config where
  "FIND_NODE = \<lparr>lc_max_per_window = 60, lc_window = from_secs 60\<rparr>"

definition PING :: limit_config where
  "PING = \<lparr>lc_max_per_window = 120, lc_window = from_secs 60\<rparr>"

definition INVITE :: limit_config where
  "INVITE = \<lparr>lc_max_per_window = 8, lc_window = from_secs 86400\<rparr>"

definition FIND_UNAUTH :: limit_config where
  "FIND_UNAUTH = \<lparr>lc_max_per_window = 10, lc_window = from_secs 60\<rparr>"

record bucket =
  b_count :: u32
  b_window_start :: instant
  b_config :: limit_config

definition Bucket_new :: "limit_config \<Rightarrow> instant \<Rightarrow> bucket" where
  "Bucket_new config now = \<lparr>b_count = 0, b_window_start = now, b_config = config\<rparr>"

definition try_consume :: "bucket \<Rightarrow> instant \<Rightarrow> bool \<times> bucket" where
  "try_consume b now =
     (let b = (if lc_window (b_config b) \<le> now - b_window_start b
               then b\<lparr>b_count := 0, b_window_start := now\<rparr> else b)
      in if b_count b < lc_max_per_window (b_config b)
         then (True, b\<lparr>b_count := b_count b + 1\<rparr>)
         else (False, b))"

subsection \<open>The limiter\<close>

record rate_limiter =
  rl_find :: "(node_id, bucket) hash_map"
  rl_ping :: "(node_id, bucket) hash_map"
  rl_invite :: "(node_id, bucket) hash_map"

definition RateLimiter_new :: rate_limiter where
  "RateLimiter_new = \<lparr>rl_find = [], rl_ping = [], rl_invite = []\<rparr>"

type_synonym clock = "instant \<times> instant"

text \<open>
  The three checks differ in the map, the configuration and the error: take the peer's bucket,
  creating it if there is none, and try to consume from it in place.
\<close>

definition consume_entry ::
  "limit_config \<Rightarrow> (node_id, bucket) hash_map \<Rightarrow> node_id \<Rightarrow> clock \<Rightarrow> bool \<times> (node_id, bucket) hash_map" where
  "consume_entry cfg m peer clock =
     (let (b, m) = hm_or_insert peer (Bucket_new cfg (fst clock)) m;
          (ok, b) = try_consume b (snd clock)
      in (ok, hm_insert peer b m))"

definition check_find ::
  "rate_limiter \<Rightarrow> node_id \<Rightarrow> bool \<Rightarrow> clock \<Rightarrow> (unit, protocol_error) result \<times> rate_limiter" where
  "check_find rl peer authenticated clock =
     (let cfg = (if authenticated then FIND_NODE else FIND_UNAUTH);
          (ok, m) = consume_entry cfg (rl_find rl) peer clock
      in (if ok then Ok () else Err (RateLimitExceeded ''find_node''), rl\<lparr>rl_find := m\<rparr>))"

definition check_ping ::
  "rate_limiter \<Rightarrow> node_id \<Rightarrow> clock \<Rightarrow> (unit, protocol_error) result \<times> rate_limiter" where
  "check_ping rl peer clock =
     (let (ok, m) = consume_entry PING (rl_ping rl) peer clock
      in (if ok then Ok () else Err (RateLimitExceeded ''ping''), rl\<lparr>rl_ping := m\<rparr>))"

definition check_invite ::
  "rate_limiter \<Rightarrow> node_id \<Rightarrow> clock \<Rightarrow> (unit, protocol_error) result \<times> rate_limiter" where
  "check_invite rl issuer clock =
     (let (ok, m) = consume_entry INVITE (rl_invite rl) issuer clock
      in (if ok then Ok () else Err InviteQuotaExceeded, rl\<lparr>rl_invite := m\<rparr>))"

subsection \<open>One bucket over time\<close>

definition bucket_max :: "bucket \<Rightarrow> nat" where
  "bucket_max b = unat (lc_max_per_window (b_config b))"

definition bucket_ok :: "bucket \<Rightarrow> bool" where
  "bucket_ok b \<longleftrightarrow> unat (b_count b) \<le> bucket_max b \<and> 0 < lc_window (b_config b)"

lemma try_consume_config [simp]: "b_config (snd (try_consume b now)) = b_config b"
  by (simp add: try_consume_def Let_def)

lemma bucket_max_try [simp]: "bucket_max (snd (try_consume b now)) = bucket_max b"
  by (simp add: bucket_max_def)

lemma count_increment: "(c :: u32) < m \<Longrightarrow> unat (c + 1) = Suc (unat c)"
  using unsigned_less [of m, where 'a = nat]
  by (simp add: unat_word_ariths word_less_nat_alt)

lemma unat_less: "(c :: u32) < m \<longleftrightarrow> unat c < unat m"
  by (rule word_less_nat_alt)

lemma try_consume_same_window:
  assumes "now < b_window_start b + lc_window (b_config b)" "bucket_ok b"
  shows "fst (try_consume b now) \<longleftrightarrow> unat (b_count b) < bucket_max b"
    "unat (b_count (snd (try_consume b now))) = unat (b_count b) + (if unat (b_count b) < bucket_max b then 1 else 0)"
    "b_window_start (snd (try_consume b now)) = b_window_start b"
  using assms count_increment [of "b_count b" "lc_max_per_window (b_config b)"]
  by (auto simp: try_consume_def Let_def bucket_max_def unat_less bucket_ok_def)

lemma try_consume_new_window:
  assumes "b_window_start b + lc_window (b_config b) \<le> now"
  shows "fst (try_consume b now) \<longleftrightarrow> 0 < bucket_max b"
    "unat (b_count (snd (try_consume b now))) = (if 0 < bucket_max b then 1 else 0)"
    "b_window_start (snd (try_consume b now)) = now"
  using assms count_increment [of 0 "lc_max_per_window (b_config b)"]
  by (auto simp: try_consume_def Let_def bucket_max_def unat_less)

lemma bucket_ok_new: "0 < lc_window cfg \<Longrightarrow> bucket_ok (Bucket_new cfg now)"
  by (simp add: bucket_ok_def Bucket_new_def)

lemma bucket_ok_try: "bucket_ok b \<Longrightarrow> bucket_ok (snd (try_consume b now))"
  using try_consume_same_window [of now b] try_consume_new_window [of b now]
  by (cases "now < b_window_start b + lc_window (b_config b)") (auto simp: bucket_ok_def)

text \<open>The instants of a sequence of attempts at which the bucket allows the operation.\<close>

fun allowed :: "bucket \<Rightarrow> instant list \<Rightarrow> instant list" where
  "allowed b [] = []"
| "allowed b (t # ts) =
     (let (ok, b') = try_consume b t in if ok then t # allowed b' ts else allowed b' ts)"

lemma allowed_Cons:
  "allowed b (t # ts) =
    (if fst (try_consume b t) then t # allowed (snd (try_consume b t)) ts else allowed (snd (try_consume b t)) ts)"
  by (simp add: case_prod_beta')

declare allowed.simps(2) [simp del]

lemma allowed_subset: "set (allowed b ts) \<subseteq> set ts"
  by (induction ts arbitrary: b) (auto simp: allowed_Cons split: if_splits)

lemma none_below: "(\<And>t. t \<in> set ts \<Longrightarrow> e \<le> t) \<Longrightarrow> count_if (\<lambda>t. t < e) (allowed b ts) = 0"
  using allowed_subset [of b ts] by (force simp: count_if_def filter_empty_conv)

text \<open>Within the current window at most the unused rest of the window's budget is allowed.\<close>

lemma allowed_current_window:
  assumes "sorted ts" "bucket_ok b"
  shows "count_if (\<lambda>t. t < b_window_start b + lc_window (b_config b)) (allowed b ts) \<le> bucket_max b - unat (b_count b)"
  using assms
proof (induction ts arbitrary: b)
  case (Cons t ts)
  let ?e = "b_window_start b + lc_window (b_config b)" and ?b = "snd (try_consume b t)"
  have ts: "sorted ts" "\<And>u. u \<in> set ts \<Longrightarrow> t \<le> u" "bucket_ok ?b"
    using Cons.prems bucket_ok_try by auto
  show ?case
  proof (cases "t < ?e")
    case True
    from Cons.IH [OF ts(1,3)] try_consume_same_window [OF True Cons.prems(2)] Cons.prems(2) show ?thesis
      by (auto simp: allowed_Cons bucket_ok_def split: if_splits)
  next
    case False
    then have "count_if (\<lambda>t. t < ?e) (allowed ?b ts) = 0" using ts(2) by (intro none_below) force
    then show ?thesis using False by (simp add: allowed_Cons)
  qed
qed simp

lemma count_if_mono: "(\<And>x. x \<in> set xs \<Longrightarrow> p x \<Longrightarrow> q x) \<Longrightarrow> count_if p xs \<le> count_if q xs"
  by (induction xs) auto

text \<open>Up to the end of the next window, at most one further full budget is allowed.\<close>

lemma allowed_next_window:
  assumes "sorted ts" "bucket_ok b"
  shows "count_if (\<lambda>t. t < b_window_start b + 2 * lc_window (b_config b)) (allowed b ts)
    \<le> (bucket_max b - unat (b_count b)) + bucket_max b"
  using assms
proof (induction ts arbitrary: b)
  case (Cons t ts)
  let ?w = "lc_window (b_config b)" and ?b = "snd (try_consume b t)"
  have ts: "sorted ts" "bucket_ok ?b" using Cons.prems bucket_ok_try by auto
  show ?case
  proof (cases "t < b_window_start b + ?w")
    case True
    from Cons.IH [OF ts] try_consume_same_window [OF True Cons.prems(2)] Cons.prems(2) show ?thesis
      by (auto simp: allowed_Cons bucket_ok_def split: if_splits)
  next
    case False
    then have new: "b_window_start b + ?w \<le> t" by simp
    have "count_if (\<lambda>u. u < b_window_start b + 2 * ?w) (allowed ?b ts)
        \<le> count_if (\<lambda>u. u < b_window_start ?b + lc_window (b_config ?b)) (allowed ?b ts)"
      using new try_consume_new_window [OF new] by (intro count_if_mono) auto
    also have "\<dots> \<le> bucket_max ?b - unat (b_count ?b)" by (rule allowed_current_window [OF ts])
    finally show ?thesis using try_consume_new_window [OF new] by (auto simp: allowed_Cons)
  qed
qed simp

lemma allowed_any_interval:
  assumes "sorted ts" "bucket_ok b"
  shows "count_if (\<lambda>t. s \<le> t \<and> t < s + lc_window (b_config b)) (allowed b ts) \<le> 2 * bucket_max b"
  using assms
proof (induction ts arbitrary: b)
  case (Cons t ts)
  let ?w = "lc_window (b_config b)" and ?b = "snd (try_consume b t)"
  have ts: "sorted ts" "bucket_ok ?b" using Cons.prems bucket_ok_try by auto
  consider "t < s" | "s \<le> t" "t < b_window_start b + ?w" | "s \<le> t" "b_window_start b + ?w \<le> t" by linarith
  then show ?case
  proof cases
    case 1
    then show ?thesis using Cons.IH [OF ts] by (simp add: allowed_Cons)
  next
    case 2
    have "count_if (\<lambda>u. s \<le> u \<and> u < s + ?w) (allowed b (t # ts))
        \<le> count_if (\<lambda>u. u < b_window_start b + 2 * ?w) (allowed b (t # ts))"
      using 2 by (intro count_if_mono) auto
    with allowed_next_window [OF Cons.prems] show ?thesis by linarith
  next
    case 3
    have "count_if (\<lambda>u. s \<le> u \<and> u < s + ?w) (allowed ?b ts)
        \<le> count_if (\<lambda>u. u < b_window_start ?b + lc_window (b_config ?b)) (allowed ?b ts)"
      using 3 try_consume_new_window [OF 3(2)] by (intro count_if_mono) auto
    also have "\<dots> \<le> bucket_max ?b - unat (b_count ?b)" by (rule allowed_current_window [OF ts])
    finally show ?thesis using try_consume_new_window [OF 3(2)] by (auto simp: allowed_Cons)
  qed
qed simp

subsection \<open>One peer's entry over time\<close>

text \<open>What a check does to the entry of the peer it is for: create it if need be, then consume.\<close>

definition entry_bucket :: "limit_config \<Rightarrow> clock \<Rightarrow> bucket option \<Rightarrow> bucket" where
  "entry_bucket cfg c s = (case s of None \<Rightarrow> Bucket_new cfg (fst c) | Some b \<Rightarrow> b)"

lemma entry_bucket_simps [simp]:
  "entry_bucket cfg c None = Bucket_new cfg (fst c)" "entry_bucket cfg c (Some b) = b"
  by (simp_all add: entry_bucket_def)

definition entry_step ::
  "protocol_error \<Rightarrow> bucket option \<Rightarrow> limit_config \<times> clock \<Rightarrow> (unit, protocol_error) result \<times> bucket option" where
  "entry_step err s x =
     (let b = entry_bucket (fst x) (snd x) s;
          (ok, b') = try_consume b (snd (snd x))
      in (if ok then Ok () else Err err, Some b'))"

lemma consume_entry_fst:
  "fst (consume_entry cfg m k c) = fst (try_consume (entry_bucket cfg c (hm_get m k)) (snd c))"
  by (simp add: consume_entry_def hm_or_insert_def Let_def case_prod_beta' split: option.split)

lemma consume_entry_get:
  "hm_get (snd (consume_entry cfg m k c)) j =
    (if j = k then Some (snd (try_consume (entry_bucket cfg c (hm_get m k)) (snd c)))
     else hm_get m j)"
  by (simp add: consume_entry_def hm_or_insert_def Let_def case_prod_beta' split: option.split)

definition find_config :: "bool \<times> clock \<Rightarrow> limit_config \<times> clock" where
  "find_config x = (if fst x then FIND_NODE else FIND_UNAUTH, snd x)"

interpretation fl: keyed_machine "\<lambda>rl p x. check_find rl p (fst x) (snd x)" "\<lambda>rl. hm_get (rl_find rl)"
  "\<lambda>s x. entry_step (RateLimitExceeded ''find_node'') s (find_config x)" "\<lambda>_. True"
  by unfold_locales (auto simp: check_find_def entry_step_def find_config_def Let_def case_prod_beta'
      consume_entry_fst consume_entry_get)

interpretation pl: keyed_machine check_ping "\<lambda>rl. hm_get (rl_ping rl)"
  "\<lambda>s c. entry_step (RateLimitExceeded ''ping'') s (PING, c)" "\<lambda>_. True"
  by unfold_locales (auto simp: check_ping_def entry_step_def Let_def case_prod_beta'
      consume_entry_fst consume_entry_get)

interpretation il: keyed_machine check_invite "\<lambda>rl. hm_get (rl_invite rl)"
  "\<lambda>s c. entry_step InviteQuotaExceeded s (INVITE, c)" "\<lambda>_. True"
  by unfold_locales (auto simp: check_invite_def entry_step_def Let_def case_prod_beta'
      consume_entry_fst consume_entry_get)

lemma entry_run_allowed:
  "count_if (\<lambda>(x, r). is_ok r \<and> P (snd (snd x))) (zip xs (fst (run_one (entry_step err) (Some b) xs))) =
   count_if P (allowed b (map (\<lambda>x. snd (snd x)) xs))"
proof (induction xs arbitrary: b)
  case (Cons x xs)
  then show ?case
    by (simp add: run_Cons allowed_Cons entry_step_def Let_def case_prod_beta')
qed simp

lemma entry_step_Some:
  "entry_step err (Some b) (cfg, u, t) =
    (if fst (try_consume b t) then Ok () else Err err, Some (snd (try_consume b t)))"
  by (simp add: entry_step_def Let_def case_prod_beta')

lemma entry_step_first:
  "run_one (entry_step err) None (x # xs) = run_one (entry_step err) (Some (Bucket_new (fst x) (fst (snd x)))) (x # xs)"
  by (simp add: run_Cons entry_step_def)

lemma entry_run_bound:
  assumes "sorted (map (\<lambda>x. snd (snd x)) xs)" "lc_window (fst (hd xs)) = w" "0 < w"
  shows "count_if (\<lambda>(x, r). is_ok r \<and> s \<le> snd (snd x) \<and> snd (snd x) < s + w)
      (zip xs (fst (run_one (entry_step err) None xs))) \<le> 2 * unat (lc_max_per_window (fst (hd xs)))"
proof (cases xs)
  case (Cons x xs')
  let ?b = "Bucket_new (fst x) (fst (snd x))"
  have b: "bucket_ok ?b" "lc_window (b_config ?b) = w" "bucket_max ?b = unat (lc_max_per_window (fst (hd xs)))"
    using assms(2,3) Cons by (simp_all add: bucket_ok_new) (simp_all add: Bucket_new_def bucket_max_def)
  have "count_if (\<lambda>t. s \<le> t \<and> t < s + w) (allowed ?b (map (\<lambda>x. snd (snd x)) xs)) \<le> 2 * bucket_max ?b"
    using allowed_any_interval [OF assms(1) b(1), of s] unfolding b(2) .
  then show ?thesis
    unfolding b(3) unfolding Cons entry_step_first entry_run_allowed [where P = "\<lambda>t. s \<le> t \<and> t < s + w"] .
qed simp

text \<open>
  A bucket refuses only when its window's budget was granted: \<open>hist\<close> are the instants granted
  before, of which at least \<open>b_count\<close> lie in the current window.
\<close>

lemma entry_refusal:
  assumes "bucket_ok b" "sorted (b_window_start b # map (\<lambda>x. snd (snd x)) xs)"
    and "unat (b_count b) \<le> count_if (\<lambda>u. b_window_start b \<le> u) hist"
    and "zip xs (fst (run_one (entry_step err) (Some b) xs)) = pre @ (x, r) # post"
  shows "r = Ok () \<or> r = Err err \<and> bucket_max b \<le>
    count_if (\<lambda>u. snd (snd x) < u + lc_window (b_config b)) hist +
    count_if (\<lambda>(y, q). is_ok q \<and> snd (snd x) < snd (snd y) + lc_window (b_config b)) pre"
  using assms
proof (induction xs arbitrary: b hist pre)
  case (Cons y xs)
  obtain cfg u t where y: "y = (cfg, u, t)" by (cases y)
  let ?w = "lc_window (b_config b)" and ?ok = "fst (try_consume b t)" and ?b = "snd (try_consume b t)"
  let ?hist = "if ?ok then hist @ [t] else hist"
  have ts: "b_window_start b \<le> t" "sorted (t # map (\<lambda>x. snd (snd x)) xs)" "\<forall>z \<in> set xs. t \<le> snd (snd z)"
    using Cons.prems(2) by (simp_all add: y)
  have zip: "(y, if ?ok then Ok () else Err err) # zip xs (fst (run_one (entry_step err) (Some ?b) xs)) = pre @ (x, r) # post"
    using Cons.prems(4) by (simp add: y run_Cons entry_step_Some)
  have window: "b_window_start ?b \<le> t" "unat (b_count ?b) \<le> count_if (\<lambda>u. b_window_start ?b \<le> u) ?hist"
    using ts(1) Cons.prems(3) try_consume_same_window [OF _ Cons.prems(1), of t] try_consume_new_window [of b t]
    by (cases "t < b_window_start b + ?w"; auto)+
  show ?case
  proof (cases pre)
    case Nil
    then have x: "x = y" "r = (if ?ok then Ok () else Err err)" using zip by auto
    have "bucket_max b \<le> count_if (\<lambda>u. t < u + ?w) hist" if "\<not> ?ok"
    proof (cases "t < b_window_start b + ?w")
      case True
      have "bucket_max b \<le> count_if (\<lambda>u. b_window_start b \<le> u) hist"
        using try_consume_same_window(1) [OF True Cons.prems(1)] that Cons.prems(3) by simp
      also have "\<dots> \<le> count_if (\<lambda>u. t < u + ?w) hist" using True by (intro count_if_mono) auto
      finally show ?thesis .
    next
      case False
      then show ?thesis using try_consume_new_window(1) [of b t] that by simp
    qed
    then show ?thesis by (simp add: x y Nil)
  next
    case (Cons z pre')
    then have pre: "pre = (y, if ?ok then Ok () else Err err) # pre'"
        "zip xs (fst (run_one (entry_step err) (Some ?b) xs)) = pre' @ (x, r) # post" using zip by auto
    have "sorted (b_window_start ?b # map (\<lambda>x. snd (snd x)) xs)"
      using ts window(1) by (auto intro: order_trans)
    from Cons.IH [OF bucket_ok_try [OF Cons.prems(1)] this window(2) pre(2)] show ?thesis
      by (auto simp: pre(1) y split: if_splits)
  qed
qed simp

subsection \<open>Budgets\<close>

text \<open>
  The specification of a limiter over a log of calls and results: the operations of a peer that
  were granted at instants with \<open>p\<close>; and a budget per window that is kept, in both directions:
  no interval of a window's length sees more than twice the budget granted, and a call is
  refused, with the limiter's error, only if the budget was granted within the window's length before.
\<close>

definition granted ::
  "('x \<Rightarrow> clock) \<Rightarrow> 'k \<Rightarrow> (instant \<Rightarrow> bool) \<Rightarrow> (('k \<times> 'x) \<times> ('a, 'e) result) list \<Rightarrow> nat" where
  "granted g peer p log = count_if (\<lambda>(c, r). fst c = peer \<and> is_ok r \<and> p (snd (g (snd c)))) log"

definition budget_kept ::
  "('x \<Rightarrow> clock) \<Rightarrow> nat \<Rightarrow> 'k \<Rightarrow> nat \<Rightarrow> 'e \<Rightarrow> (('k \<times> 'x) \<times> (unit, 'e) result) list \<Rightarrow> bool" where
  "budget_kept g window peer budget err log \<longleftrightarrow>
     (\<forall>s. granted g peer (\<lambda>t. s \<le> t \<and> t < s + window) log \<le> 2 * budget) \<and>
     (\<forall>before c r after. log = before @ (c, r) # after \<and> fst c = peer \<longrightarrow>
        r = Ok () \<or> r = Err err \<and> budget \<le> granted g peer (\<lambda>t. snd (g (snd c)) < t + window) before)"

text \<open>The clock never goes back, between calls and within one.\<close>

definition clocks_ok :: "('x \<Rightarrow> clock) \<Rightarrow> ('k \<times> 'x) list \<Rightarrow> bool" where
  "clocks_ok g cs \<longleftrightarrow> sorted (map (\<lambda>c. snd (g (snd c))) cs) \<and> (\<forall>c \<in> set cs. fst (g (snd c)) \<le> snd (g (snd c)))"

definition key_log :: "'k \<Rightarrow> (('k \<times> 'x) \<times> 'r) list \<Rightarrow> ('x \<times> 'r) list" where
  "key_log k log = map (\<lambda>(c, r). (snd c, r)) (filter (\<lambda>(c, r). fst c = k) log)"

lemma zip_key_log:
  "length rs = length cs \<Longrightarrow> zip (inputs_of k cs) (results_of k cs rs) = key_log k (zip cs rs)"
proof (induction cs arbitrary: rs)
  case (Cons c cs)
  then show ?case by (cases rs) (auto simp: key_log_def)
qed (simp add: key_log_def)

lemma granted_key_log: "granted g k p log = count_if (\<lambda>(x, r). is_ok r \<and> p (snd (g x))) (key_log k log)"
  by (induction log) (auto simp: granted_def key_log_def)

lemma key_log_split:
  "fst c = k \<Longrightarrow> key_log k (pre @ (c, r) # post) = key_log k pre @ (snd c, r) # key_log k post"
  by (simp add: key_log_def)

text \<open>One peer's part of a run over calls for many peers keeps the budget of its first call.\<close>

lemma keyed_budget_kept:
  assumes run: "fst (run_one (\<lambda>s x. entry_step err s (cf x, g x)) None (inputs_of k cs)) = results_of k cs rs"
    and len: "length rs = length cs" and clock: "clocks_ok g cs"
    and cfg: "\<And>x. lc_window (cf x) = w" and w: "0 < w"
    and budget: "inputs_of k cs \<noteq> [] \<Longrightarrow> unat (lc_max_per_window (cf (hd (inputs_of k cs)))) = B"
  shows "budget_kept g w k B err (zip cs rs)"
proof (cases "inputs_of k cs")
  case Nil
  then have "key_log k (zip cs rs) = []" using zip_key_log [OF len, of k] by simp
  then show ?thesis
    by (auto simp: budget_kept_def granted_key_log key_log_split)
next
  case (Cons x xs)
  let ?h = "\<lambda>x. (cf x, g x)" and ?err = "entry_step err"
  let ?xs = "map ?h (inputs_of k cs)"
  have sorted: "sorted (map (\<lambda>x. snd (snd x)) ?xs)"
    using sorted_inputs_of [of "\<lambda>x. snd (g x)" cs k] clock by (simp add: clocks_ok_def comp_def)
  have "run_one (\<lambda>s x. ?err s (?h x)) None (inputs_of k cs) = run_one ?err None ?xs"
    by (rule run_one_map)
  with run have rs: "results_of k cs rs = fst (run_one ?err None ?xs)" by simp
  have log: "zip ?xs (fst (run_one ?err None ?xs)) = map (\<lambda>(x, r). (?h x, r)) (key_log k (zip cs rs))"
    unfolding rs [symmetric] zip_key_log [OF len, symmetric] by (simp add: zip_map1 case_prod_beta')
  have hd: "lc_window (fst (hd ?xs)) = w" "unat (lc_max_per_window (fst (hd ?xs))) = B"
    using cfg budget Cons by simp_all
  have upper: "granted g k (\<lambda>t. s \<le> t \<and> t < s + w) (zip cs rs) \<le> 2 * B" for s
    using entry_run_bound [OF sorted hd(1) w, of s err] unfolding log hd(2) granted_key_log
    by (simp add: count_if_map comp_def case_prod_beta')
  have lower: "r = Ok () \<or> r = Err err \<and> B \<le> granted g k (\<lambda>t. snd (g (snd c)) < t + w) pre"
    if split: "zip cs rs = pre @ (c, r) # post" and k: "fst c = k" for pre c r post
  proof -
    let ?b = "Bucket_new (cf x) (fst (g x))"
    have b: "bucket_ok ?b" "lc_window (b_config ?b) = w" "bucket_max ?b = B" "b_window_start ?b = fst (g x)" "b_count ?b = 0"
      using hd cfg [of x] w Cons by (simp_all add: bucket_ok_new) (simp_all add: Bucket_new_def bucket_max_def)
    have "x \<in> set (inputs_of k cs)" using Cons by simp
    then have first: "fst (g x) \<le> snd (g x)" using clock by (auto simp: clocks_ok_def inputs_of_def)
    have times: "sorted (b_window_start ?b # map (\<lambda>x. snd (snd x)) ?xs)"
      unfolding b(4) using sorted first Cons by (auto intro: order_trans)
    have z: "zip ?xs (fst (run_one ?err (Some ?b) ?xs)) =
        map (\<lambda>(x, r). (?h x, r)) (key_log k pre) @ (?h (snd c), r) # map (\<lambda>(x, r). (?h x, r)) (key_log k post)"
      using log unfolding split key_log_split [OF k] Cons by (simp add: entry_step_first)
    from entry_refusal [OF b(1) times _ z, of "[]"] show ?thesis
      unfolding b granted_key_log by (auto simp: count_if_map comp_def case_prod_beta')
  qed
  show ?thesis unfolding budget_kept_def using upper lower by blast
qed

lemma configs:
  "lc_window (fst (find_config x)) = from_secs 60"
  "unat (lc_max_per_window (fst (find_config x))) = (if fst x then 60 else 10)"
  "lc_window PING = from_secs 60" "unat (lc_max_per_window PING) = 120"
  "lc_window INVITE = from_secs 86400" "unat (lc_max_per_window INVITE) = 8"
  by (simp_all add: find_config_def FIND_NODE_def FIND_UNAUTH_def PING_def INVITE_def)

lemma RateLimiter_new_get [simp]:
  "hm_get (rl_find RateLimiter_new) k = None" "hm_get (rl_ping RateLimiter_new) k = None"
  "hm_get (rl_invite RateLimiter_new) k = None"
  by (simp_all add: RateLimiter_new_def)

subsection \<open>Properties\<close>

text \<open>The budget of find requests a peer gets: that of its first call, for as long as its bucket lasts.\<close>

definition find_budget :: "node_id \<Rightarrow> (node_id \<times> bool \<times> clock) list \<Rightarrow> nat" where
  "find_budget peer finds =
     (case List.find (\<lambda>c. fst c = peer) finds of
        None \<Rightarrow> 0 | Some c \<Rightarrow> if fst (snd c) then 60 else 10)"

lemma find_budget_first:
  "inputs_of peer finds \<noteq> [] \<Longrightarrow>
   unat (lc_max_per_window (fst (find_config (hd (inputs_of peer finds))))) = find_budget peer finds"
  by (induction finds) (auto simp: find_budget_def configs split: if_splits)

text \<open>
  C37: with a clock that never goes back and calls interleaved over any peers, each peer has a
  budget per window: 60 \<^verbatim>\<open>FIND_NODE\<close> requests a minute if its first call was authenticated and 10 if it was
  not (whatever it is later), 120 pings a minute and 8 invites in 24 hours.  The budget is kept:
  in no interval of a window's length, however aligned, is more than twice the budget granted (20, 120, 240
  and 16; for invites this bound is reached, \<open>invite_double_budget\<close>, so that the limit is not one over a
  rolling 24 hours), and a call is refused only if the full
  budget was granted within the window's length before it, with the error of its operation.
\<close>

theorem rate_limits_hold:
  assumes "clocks_ok snd finds" "clocks_ok id pings" "clocks_ok id invites"
  shows "budget_kept snd (from_secs 60) peer (find_budget peer finds) (RateLimitExceeded ''find_node'')
      (zip finds (fst (run_keyed (\<lambda>rl p x. check_find rl p (fst x) (snd x)) RateLimiter_new finds))) \<and>
    budget_kept id (from_secs 60) peer 120 (RateLimitExceeded ''ping'')
      (zip pings (fst (run_keyed check_ping RateLimiter_new pings))) \<and>
    budget_kept id (from_secs 86400) peer 8 InviteQuotaExceeded
      (zip invites (fst (run_keyed check_invite RateLimiter_new invites)))"
    (is "?F \<and> ?P \<and> ?I")
proof (intro conjI)
  have w: "0 < from_secs 60" "0 < from_secs 86400" by (simp_all add: from_secs_def)
  have cf: "(fst (find_config x), snd x) = find_config x" for x by (simp add: find_config_def)
  have "fst (run_one (\<lambda>s x. entry_step (RateLimitExceeded ''find_node'') s (fst (find_config x), snd x)) None
      (inputs_of peer finds)) = results_of peer finds
      (fst (run_keyed (\<lambda>rl p x. check_find rl p (fst x) (snd x)) RateLimiter_new finds))"
    unfolding cf using fl.run_projection [of RateLimiter_new peer finds] by simp
  from keyed_budget_kept [OF this _ assms(1) configs(1) w(1) find_budget_first] show ?F by simp
  have "fst (run_one (\<lambda>s c. entry_step (RateLimitExceeded ''ping'') s (PING, id c)) None (inputs_of peer pings)) =
      results_of peer pings (fst (run_keyed check_ping RateLimiter_new pings))"
    using pl.run_projection [of RateLimiter_new peer pings] by simp
  from keyed_budget_kept [OF this _ assms(2) configs(3) w(1) configs(4)] show ?P by simp
  have "fst (run_one (\<lambda>s c. entry_step InviteQuotaExceeded s (INVITE, id c)) None (inputs_of peer invites)) =
      results_of peer invites (fst (run_keyed check_invite RateLimiter_new invites))"
    using il.run_projection [of RateLimiter_new peer invites] by simp
  from keyed_budget_kept [OF this _ assms(3) configs(5) w(2) configs(6)] show ?I by simp
qed

theorem rate_limits_hold_witness:
  "let cs = [(idn 3, 0, 5), (idn 4, 6, 6), (idn 3, 7, 7)] :: (node_id \<times> clock) list;
       log = zip cs (fst (run_keyed check_invite RateLimiter_new cs))
   in clocks_ok id cs \<and> granted id (idn 3) (\<lambda>t. 0 \<le> t \<and> t < 0 + from_secs 86400) log = 2 \<and>
      budget_kept id (from_secs 86400) (idn 3) 8 InviteQuotaExceeded log"
proof -
  let ?cs = "[(idn 3, 0, 5), (idn 4, 6, 6), (idn 3, 7, 7)] :: (node_id \<times> clock) list"
  let ?log = "zip ?cs (fst (run_keyed check_invite RateLimiter_new ?cs))"
  have "granted id (idn 3) (\<lambda>t. 0 \<le> t \<and> t < 0 + from_secs 86400) ?log = 2"
    by (simp add: granted_def run_Cons check_invite_def consume_entry_def hm_or_insert_def RateLimiter_new_def
        Bucket_new_def try_consume_def INVITE_def from_secs_def Let_def)
  moreover have c: "clocks_ok id ?cs" "clocks_ok snd ([] :: (node_id \<times> bool \<times> clock) list)"
      "clocks_ok id ([] :: (node_id \<times> clock) list)" by (simp_all add: clocks_ok_def)
  ultimately show ?thesis
    using rate_limits_hold [OF c(2,3,1), of "idn 3"] unfolding Let_def by blast
qed

text \<open>Attempts at one instant within the window pass as long as the budget lasts.\<close>

lemma entry_burst:
  assumes "bucket_ok b" "t < b_window_start b + lc_window (b_config b)" "unat (b_count b) + n \<le> bucket_max b"
  shows "\<exists>b'. run_one (entry_step err) (Some b) (replicate n (cfg, u, t)) = (replicate n (Ok ()), Some b') \<and>
    b_config b' = b_config b \<and> b_window_start b' = b_window_start b \<and> bucket_ok b'"
  using assms
proof (induction n arbitrary: b)
  case (Suc n)
  let ?b = "snd (try_consume b t)"
  note same = try_consume_same_window [OF Suc.prems(2,1)]
  have "bucket_ok ?b" "t < b_window_start ?b + lc_window (b_config ?b)" "unat (b_count ?b) + n \<le> bucket_max ?b"
    using Suc.prems same bucket_ok_try by auto
  from Suc.IH [OF this] obtain b' where "run_one (entry_step err) (Some ?b) (replicate n (cfg, u, t)) = (replicate n (Ok ()), Some b')"
      "b_config b' = b_config b" "b_window_start b' = b_window_start b" "bucket_ok b'"
    using same by auto
  then show ?case using same(1) Suc.prems(3) by (auto simp: run_Cons entry_step_Some)
qed auto

text \<open>The first attempt after the window opens a new one.\<close>

lemma entry_burst_new_window:
  assumes "bucket_ok b" "b_window_start b + lc_window (b_config b) \<le> t" "Suc n \<le> bucket_max b"
  shows "fst (run_one (entry_step err) (Some b) (replicate (Suc n) (cfg, u, t))) = replicate (Suc n) (Ok ())"
proof -
  let ?b = "snd (try_consume b t)"
  note new = try_consume_new_window [OF assms(2)]
  have "bucket_ok ?b" "t < b_window_start ?b + lc_window (b_config ?b)" "unat (b_count ?b) + n \<le> bucket_max ?b"
    using assms new bucket_ok_try by (auto simp: bucket_ok_def)
  from entry_burst [OF this, of err cfg u] show ?thesis
    using new(1) assms(3) by (auto simp: run_Cons entry_step_Some)
qed

text \<open>
  The bound for invites is reached: a peer whose bucket was opened at some instant gets eight
  invites through at the last instant of the 24-hour window and eight more at the first instant
  of the next one, sixteen within one nanosecond.
\<close>

theorem invite_double_budget:
  "let w = from_secs 86400; calls = replicate 8 (peer, (t, t + w - 1)) @ replicate 8 (peer, (t + w, t + w))
   in fst (run_keyed check_invite RateLimiter_new calls) = replicate 16 (Ok ())"
proof -
  let ?w = "from_secs 86400" and ?g = "entry_step InviteQuotaExceeded"
  let ?b = "Bucket_new INVITE t"
  let ?cs = "replicate 8 (peer, (t, t + ?w - 1)) @ replicate 8 (peer, (t + ?w, t + ?w))"
  let ?x = "(INVITE, t, t + ?w - 1)" and ?y = "(INVITE, t + ?w, t + ?w)"
  have w: "0 < ?w" by (simp add: from_secs_def)
  have b: "bucket_ok ?b" "lc_window (b_config ?b) = ?w" "bucket_max ?b = 8" "b_window_start ?b = t" "b_count ?b = 0"
    using w configs(5) by (simp_all add: bucket_ok_new) (simp_all add: Bucket_new_def bucket_max_def INVITE_def)
  obtain b' where b': "run_one ?g (Some ?b) (replicate 8 ?x) = (replicate 8 (Ok ()), Some b')"
      "b_config b' = b_config ?b" "b_window_start b' = t" "bucket_ok b'"
    using entry_burst [OF b(1), of "t + ?w - 1" 8 InviteQuotaExceeded INVITE t] b w by auto
  have "fst (run_one ?g (Some b') (replicate (Suc 7) ?y)) = replicate (Suc 7) (Ok ())"
    using b b' by (intro entry_burst_new_window) (simp_all add: bucket_max_def)
  then have "fst (run_one ?g (Some ?b) (replicate 8 ?x @ replicate 8 ?y)) = replicate 8 (Ok ()) @ replicate 8 (Ok ())"
    by (simp add: run_one_append b' del: replicate.simps One_nat_def)
  moreover have "replicate 8 ?x = ?x # replicate 7 ?x"
    using replicate_Suc [of 7 ?x] by (simp only: Suc_numeral arith_simps)
  then have "run_one ?g None (replicate 8 ?x @ replicate 8 ?y) = run_one ?g (Some ?b) (replicate 8 ?x @ replicate 8 ?y)"
    using entry_step_first [of InviteQuotaExceeded ?x "replicate 7 ?x @ replicate 8 ?y"]
    by (simp only: append_Cons fst_conv snd_conv)
  moreover have "run_one (\<lambda>s c. ?g s (INVITE, c)) None (inputs_of peer ?cs) = run_one ?g None (replicate 8 ?x @ replicate 8 ?y)"
    by (subst run_one_map) (simp add: inputs_of_def)
  moreover have "results_of peer ?cs (fst (run_keyed check_invite RateLimiter_new ?cs)) =
      fst (run_keyed check_invite RateLimiter_new ?cs)"
    by (rule results_of_same) auto
  ultimately show ?thesis
    using il.run_projection [of RateLimiter_new peer ?cs] by (simp add: Let_def flip: replicate_add)
qed

end
