(* ===== verification/Maintenance.thy ===== *)
theory Maintenance
  imports Peer_Table Crypto
begin

section \<open>Repair targets and recovery mode\<close>

text \<open>
  \<^verbatim>\<open>zona-p2p-overlay/src/repair.rs\<close> and \<^verbatim>\<open>recovery.rs\<close>: the pseudo-random identifiers a node looks up
  to repair its table, and the judgement whether the table is healthy.
\<close>

subsection \<open>Repair targets\<close>

definition REPAIR_TARGETS_PER_TICK :: nat where
  "REPAIR_TARGETS_PER_TICK = 2"

text \<open>\<^verbatim>\<open>u64::to_le_bytes\<close>\<close>

definition to_le_bytes :: "u64 \<Rightarrow> bytes" where
  "to_le_bytes x = map (\<lambda>i. word_of_nat (unat x div 256 ^ i)) [0..<8]"

text \<open>The byte strings \<^verbatim>\<open>b"repair"\<close> and \<^verbatim>\<open>b"longjump"\<close>.\<close>

definition repair_prefix :: bytes where
  "repair_prefix = [0x72, 0x65, 0x70, 0x61, 0x69, 0x72]"

definition longjump_prefix :: bytes where
  "longjump_prefix = [0x6c, 0x6f, 0x6e, 0x67, 0x6a, 0x75, 0x6d, 0x70]"

definition target_input :: "bytes \<Rightarrow> u64 \<Rightarrow> node_id \<Rightarrow> u64 \<Rightarrow> bytes" where
  "target_input prefix epoch_seed self_id index =
     prefix @ to_le_bytes epoch_seed @ bytes_of (as_bytes self_id) @ to_le_bytes index"

definition hash_target :: "'a libs_scheme \<Rightarrow> bytes \<Rightarrow> u64 \<Rightarrow> node_id \<Rightarrow> u64 \<Rightarrow> node_id" where
  "hash_target L prefix epoch_seed self_id index =
     NodeId (sha256 L (target_input prefix epoch_seed self_id index))"

definition repair_targets :: "'a libs_scheme \<Rightarrow> u64 \<Rightarrow> node_id \<Rightarrow> nat \<Rightarrow> node_id list" where
  "repair_targets L epoch_seed self_id n =
     map (\<lambda>i. hash_target L repair_prefix epoch_seed self_id (word_of_nat i)) [0..<n]"

definition long_jump_target :: "'a libs_scheme \<Rightarrow> u64 \<Rightarrow> node_id \<Rightarrow> node_id" where
  "long_jump_target L epoch_seed self_id = hash_target L longjump_prefix epoch_seed self_id 0"

subsection \<open>Recovery\<close>

datatype recovery_state = Healthy | Recovery

definition evaluate_recovery :: "peer_table \<Rightarrow> recovery_state" where
  "evaluate_recovery table =
     (if in_recovery table then Recovery
      else
        let referrers = remdups_adj (map s_referrer_id (greedy_slots table))
        in if length referrers < 2 then Recovery else Healthy)"

subsection \<open>Lemmas\<close>

lemma length_to_le_bytes [simp]: "length (to_le_bytes x) = 8"
  by (simp add: to_le_bytes_def)

fun le_nat :: "bytes \<Rightarrow> nat" where
  "le_nat [] = 0"
| "le_nat (b # bs) = unat b + 256 * le_nat bs"

lemma le_nat_digits:
  "le_nat (map (\<lambda>i. word_of_nat (n div 256 ^ i)) [0..<k]) = n mod 256 ^ k"
proof (induction k arbitrary: n)
  case (Suc k)
  have "[0..<Suc k] = 0 # map Suc [0..<k]" by (simp add: upt_conv_Cons map_Suc_upt del: upt_Suc)
  then have "map (\<lambda>i. word_of_nat (n div 256 ^ i) :: u8) [0..<Suc k] =
      word_of_nat n # map (\<lambda>i. word_of_nat (n div 256 div 256 ^ i)) [0..<k]"
    by (simp add: comp_def div_mult2_eq del: upt_Suc)
  then have "le_nat (map (\<lambda>i. word_of_nat (n div 256 ^ i)) [0..<Suc k]) = n mod 256 + 256 * (n div 256 mod 256 ^ k)"
    using Suc.IH [of "n div 256"] by (simp add: unat_of_nat del: upt_Suc)
  also have "\<dots> = n mod 256 ^ Suc k" by (simp add: mod_mult2_eq)
  finally show ?case .
qed simp

lemma to_le_bytes_inject: "to_le_bytes x = to_le_bytes y \<longleftrightarrow> x = y"
proof
  assume "to_le_bytes x = to_le_bytes y"
  then have "le_nat (to_le_bytes x) = le_nat (to_le_bytes y)" by simp
  then have "unat x mod 256 ^ 8 = unat y mod 256 ^ 8" unfolding to_le_bytes_def le_nat_digits .
  moreover have "unat z < 256 ^ 8" for z :: u64 using unsigned_less [of z, where 'a = nat] by simp
  ultimately show "x = y" by (simp add: word_unat_eq_iff)
qed simp

text \<open>The hash input determines the prefix, the seed, the node and the index.\<close>

lemma hash_input_inject:
  assumes "target_input p e n i = target_input p' e' n' i'"
  shows "p = p' \<and> e = e' \<and> n = n' \<and> i = i'"
proof -
  have "length p = length p'" using arg_cong [OF assms, of length] by (simp add: target_input_def)
  then have "p = p'" "to_le_bytes e = to_le_bytes e'" "bytes_of (as_bytes n) = bytes_of (as_bytes n')"
    "to_le_bytes i = to_le_bytes i'"
    using assms by (simp_all add: target_input_def append_eq_append_conv)
  then show ?thesis by (cases n; cases n') (simp add: to_le_bytes_inject as_bytes_def bytes_of_inject)
qed

subsection \<open>Properties\<close>

text \<open>The hash inputs of one tick of one node: the long-jump target and the first repair targets.\<close>

definition tick_inputs :: "u64 \<Rightarrow> node_id \<Rightarrow> nat \<Rightarrow> bytes set" where
  "tick_inputs seed self n =
     insert (target_input longjump_prefix seed self 0)
       ((\<lambda>i. target_input repair_prefix seed self (word_of_nat i)) ` {0..<n})"

text \<open>
  Where SHA-256 has no collision among the inputs of two ticks, the repair targets of a tick
  are pairwise different and different from its long-jump target, for every seed and node and
  up to \<open>2 ^ 64\<close> targets, and a target shared by the two ticks means they are the same epoch of
  the same node.
\<close>

theorem repair_targets_distinct:
  assumes "inj_on (sha256 L) (tick_inputs seed self n \<union> tick_inputs seed' self' n')" "n \<le> 2 ^ 64"
  shows "distinct (long_jump_target L seed self # repair_targets L seed self n) \<and>
    (set (repair_targets L seed self n) \<inter> set (repair_targets L seed' self' n') \<noteq> {} \<longrightarrow>
      seed = seed' \<and> self = self')"
proof -
  have target: "x = y" if "sha256 L x = sha256 L y" "x \<in> tick_inputs seed self n"
    "y \<in> tick_inputs seed self n \<union> tick_inputs seed' self' n'" for x y
    using that assms(1) by (auto dest: inj_onD)
  have word: "(word_of_nat i :: u64) = word_of_nat j \<longleftrightarrow> i = j" if "i < n" "j < n" for i j
    using that assms(2) by (simp add: word_of_nat_eq_iff take_bit_nat_eq_self)
  have "i = j" if "hash_target L repair_prefix seed self (word_of_nat i) =
      hash_target L repair_prefix seed self (word_of_nat j)" "i < n" "j < n" for i j
    using target [of "target_input repair_prefix seed self (word_of_nat i)"
        "target_input repair_prefix seed self (word_of_nat j)"] that word [OF that(2,3)]
      hash_input_inject [of repair_prefix seed self _ repair_prefix seed self]
    by (auto simp: hash_target_def tick_inputs_def)
  then have "distinct (repair_targets L seed self n)"
    by (auto simp: repair_targets_def distinct_map inj_on_def)
  moreover have "long_jump_target L seed self \<noteq> hash_target L repair_prefix seed self (word_of_nat i)" if "i < n" for i
    using target [of "target_input longjump_prefix seed self 0" "target_input repair_prefix seed self (word_of_nat i)"]
      that hash_input_inject [of longjump_prefix seed self 0 repair_prefix seed self "word_of_nat i"]
    by (auto simp: long_jump_target_def hash_target_def tick_inputs_def repair_prefix_def longjump_prefix_def)
  moreover have "seed = seed' \<and> self = self'" if "hash_target L repair_prefix seed self (word_of_nat i) =
      hash_target L repair_prefix seed' self' (word_of_nat j)" "i < n" "j < n'" for i j
    using target [of "target_input repair_prefix seed self (word_of_nat i)"
        "target_input repair_prefix seed' self' (word_of_nat j)"] that
      hash_input_inject [of repair_prefix seed self "word_of_nat i" repair_prefix seed' self' "word_of_nat j"]
    by (auto simp: hash_target_def tick_inputs_def)
  ultimately show ?thesis by (fastforce simp: repair_targets_def)
qed

theorem repair_targets_distinct_witness:
  "long_jump_target demo_libs 1 (idn 3) \<noteq> hash_target demo_libs repair_prefix 1 (idn 3) 0 \<and>
   set (repair_targets demo_libs 1 (idn 3) 1) \<inter> set (repair_targets demo_libs 2 (idn 3) 1) = {}"
proof -
  have "inj_on demo_sha (tick_inputs 1 (idn 3) 1 \<union> tick_inputs 2 (idn 3) 1)"
    by (auto simp: inj_on_def tick_inputs_def target_input_def repair_prefix_def longjump_prefix_def
        to_le_bytes_def upt_rec bytes_of_demo_sha bytes_of_fill32 as_bytes_def simp flip: bytes_of_inject_iff)
  from repair_targets_distinct [of demo_libs 1 "idn 3" 1 2 "idn 3" 1] this show ?thesis
    by (simp add: repair_targets_def)
qed

text \<open>
  A node is judged healthy exactly when it has two live greedy slots and two of its greedy
  slots, dead ones included, come from different referrers.
\<close>

lemma remdups_adj_single: "length (remdups_adj xs) < 2 \<longleftrightarrow> (\<forall>x \<in> set xs. \<forall>y \<in> set xs. x = y)"
proof -
  have "length ys < 2 \<longleftrightarrow> (\<forall>x \<in> set ys. \<forall>y \<in> set ys. x = y)" if "\<And>i. Suc i < length ys \<Longrightarrow> ys ! i \<noteq> ys ! Suc i" for ys :: "'a list"
  proof (cases "length ys < 2")
    case True
    then show ?thesis by (cases ys; cases "tl ys") auto
  next
    case False
    then have len: "0 < length ys" "Suc 0 < length ys" by linarith+
    then have "ys ! 0 \<noteq> ys ! Suc 0" "ys ! 0 \<in> set ys" "ys ! Suc 0 \<in> set ys" using that [of 0] nth_mem by blast+
    then show ?thesis using False by blast
  qed
  from this [of "remdups_adj xs"] show ?thesis by (simp add: remdups_adj_adjacent)
qed

theorem evaluate_recovery_healthy:
  "evaluate_recovery t = Healthy \<longleftrightarrow>
     2 \<le> count_if (\<lambda>s. is_greedy s \<and> \<not> should_evict s) (pt_slots t) \<and>
     (\<exists>a \<in> set (greedy_slots t). \<exists>b \<in> set (greedy_slots t). s_referrer_id a \<noteq> s_referrer_id b)"
proof -
  have "evaluate_recovery t = Healthy \<longleftrightarrow>
      \<not> in_recovery t \<and> \<not> length (remdups_adj (map s_referrer_id (greedy_slots t))) < 2"
    by (simp add: evaluate_recovery_def Let_def)
  then show ?thesis unfolding remdups_adj_single in_recovery_def by (simp add: not_less)
qed

end
