(* ===== verification/Descriptor_Store.thy ===== *)
theory Descriptor_Store
  imports Crypto Hash_Map "HOL-Library.Product_Lexorder"
begin

section \<open>The descriptor cache and gossip\<close>

text \<open>
  \<^verbatim>\<open>zona-p2p-overlay/src/descriptor_store.rs\<close> and \<^verbatim>\<open>zona-p2p-gossip/src/lib.rs\<close>.  Every entry is a
  verified descriptor under its own id (\<open>store_inv\<close>).  The three merge rules of the code are a
  comparison of ranks: finalised height, version, reversed content hash.  The locale
  \<open>preference\<close> shows for any such comparison that merging is independent of the order in which
  updates arrive; it is interpreted on \<open>prefer_incoming\<close>.
\<close>

subsection \<open>Operations\<close>

record cached_descriptor =
  cd_descriptor :: descriptor
  cd_finalised_height :: "u64 option"

record descriptor_store =
  ds_entries :: "(node_id, cached_descriptor) hash_map"

definition DescriptorStore_new :: descriptor_store where
  "DescriptorStore_new = \<lparr>ds_entries = []\<rparr>"

definition content_hash :: "'a libs_scheme \<Rightarrow> descriptor \<Rightarrow> bytes32" where
  "content_hash L d = sha256 L (descriptor_signing_payload L d)"

definition prefer_incoming ::
  "'a libs_scheme \<Rightarrow> cached_descriptor \<Rightarrow> cached_descriptor \<Rightarrow> bool" where
  "prefer_incoming L incoming existing =
     (let rest =
        (if d_version (cd_descriptor incoming) \<noteq> d_version (cd_descriptor existing)
         then d_version (cd_descriptor existing) < d_version (cd_descriptor incoming)
         else content_hash L (cd_descriptor incoming) < content_hash L (cd_descriptor existing))
      in case (cd_finalised_height incoming, cd_finalised_height existing) of
           (Some a, Some b) \<Rightarrow> if a \<noteq> b then b < a else rest
         | (Some _, None) \<Rightarrow> True
         | (None, Some _) \<Rightarrow> False
         | (None, None) \<Rightarrow> rest)"

definition upsert ::
  "'a libs_scheme \<Rightarrow> descriptor_store \<Rightarrow> descriptor \<Rightarrow> u64 option \<Rightarrow>
   (bool, protocol_error) result \<times> descriptor_store" where
  "upsert L s descriptor finalised_height =
     (case verify_descriptor L descriptor of
        Inl e \<Rightarrow> (Err e, s)
      | Inr _ \<Rightarrow>
          let key = d_node_id descriptor;
              incoming = \<lparr>cd_descriptor = descriptor, cd_finalised_height = finalised_height\<rparr>;
              should_replace =
                (case hm_get (ds_entries s) key of
                   None \<Rightarrow> True
                 | Some existing \<Rightarrow> prefer_incoming L incoming existing)
          in if should_replace
             then (Ok True, s\<lparr>ds_entries := hm_insert key incoming (ds_entries s)\<rparr>)
             else (Ok False, s))"

definition store_get :: "descriptor_store \<Rightarrow> node_id \<Rightarrow> cached_descriptor option" where
  "store_get s node_id = hm_get (ds_entries s) node_id"

text \<open>\<^verbatim>\<open>entries.values()\<close> yields the entries in the order of the hash table, an argument here.\<close>

type_synonym store_order = "(node_id, cached_descriptor) hash_map \<Rightarrow> (node_id \<times> cached_descriptor) list"

definition all_descriptors :: "store_order \<Rightarrow> descriptor_store \<Rightarrow> descriptor list" where
  "all_descriptors order s = map (\<lambda>(_, c). cd_descriptor c) (order (ds_entries s))"

definition push_descriptor ::
  "'a libs_scheme \<Rightarrow> descriptor_store \<Rightarrow> descriptor \<Rightarrow> u64 option \<Rightarrow>
   (bool, protocol_error) result \<times> descriptor_store" where
  "push_descriptor L store desc height =
     (case upsert L store desc height of
        (Inl e, store') \<Rightarrow> (Err e, store')
      | (Inr updated, store') \<Rightarrow> (Ok updated, store'))"

definition descriptors_for_peer :: "store_order \<Rightarrow> descriptor_store \<Rightarrow> nat \<Rightarrow> descriptor list" where
  "descriptors_for_peer order store limit = take limit (all_descriptors order store)"

subsection \<open>The invariant\<close>

definition store_inv :: "'a libs_scheme \<Rightarrow> descriptor_store \<Rightarrow> bool" where
  "store_inv L s \<longleftrightarrow>
     hm_ok (ds_entries s) \<and>
     list_all (\<lambda>(k, c). d_node_id (cd_descriptor c) = k \<and> is_ok (verify_descriptor L (cd_descriptor c)))
       (ds_entries s)"

lemma store_inv_new [inv_intros]: "store_inv L DescriptorStore_new"
  by (simp add: store_inv_def DescriptorStore_new_def)

lemma store_inv_get:
  "store_inv L s \<Longrightarrow> store_get s k = Some c \<Longrightarrow>
   d_node_id (cd_descriptor c) = k \<and> is_ok (verify_descriptor L (cd_descriptor c))"
  by (auto simp: store_inv_def store_get_def list_all_iff hm_get_in)

lemma upsert_inv [inv_intros]: "store_inv L s \<Longrightarrow> store_inv L (snd (upsert L s d h))"
  by (auto simp: store_inv_def upsert_def Let_def list_all_iff dest: hm_insert_in
      split: sum.split option.split)

lemma push_descriptor_upsert: "push_descriptor L s d h = upsert L s d h"
  by (simp add: push_descriptor_def split: prod.split sum.split)

lemma find_by_id:
  assumes "store_inv L s" "is_order order"
  shows "List.find (\<lambda>d. d_node_id d = k) (all_descriptors order s) =
    map_option cd_descriptor (store_get s k)"
proof -
  let ?es = "order (ds_entries s)"
  have es: "hm_ok ?es" "set ?es = set (ds_entries s)"
    using assms is_order_ok [of order "ds_entries s"] is_orderD(1) [of order "ds_entries s"]
    by (auto simp: store_inv_def)
  have own: "d_node_id (cd_descriptor c) = i" if "(i, c) \<in> set ?es" for i c
    using that es assms(1) by (auto simp: store_inv_def list_all_iff)
  have gen: "List.find (\<lambda>d. d_node_id d = k) (map (\<lambda>(_, c). cd_descriptor c) xs) =
      map_option cd_descriptor (map_of xs k)"
    if "list_all (\<lambda>(i, c). d_node_id (cd_descriptor c) = i) xs" for xs
    using that by (induction xs) auto
  have "List.find (\<lambda>d. d_node_id d = k) (all_descriptors order s) = map_option cd_descriptor (hm_get ?es k)"
    unfolding all_descriptors_def hm_get_def by (rule gen) (auto simp: list_all_iff dest: own)
  moreover have "hm_get ?es k = hm_get (ds_entries s) k"
    using es assms(1) by (intro hm_get_same_set) (simp_all add: store_inv_def)
  ultimately show ?thesis by (simp add: store_get_def)
qed

subsection \<open>Merging by rank\<close>

locale preference =
  fixes prefers :: "'c \<Rightarrow> 'c \<Rightarrow> bool" and rank :: "'c \<Rightarrow> 'r :: linorder"
  assumes prefers_rank: "prefers a b \<longleftrightarrow> rank b < rank a"
begin

text \<open>Keep the held record unless the incoming one is preferred.\<close>

lemma keep_max:
  "rank (if prefers a b then a else b) = max (rank a) (rank b)"
  by (auto simp: prefers_rank max_def)

lemma fold_rank:
  "rank (foldl (\<lambda>held x. if prefers x held then x else held) h xs) = foldl max (rank h) (map rank xs)"
  by (induction xs arbitrary: h) (simp_all add: keep_max max.commute)

lemma fold_in:
  "foldl (\<lambda>held x. if prefers x held then x else held) h xs \<in> insert h (set xs)"
proof (induction xs arbitrary: h)
  case (Cons x xs)
  show ?case using Cons.IH [of "if prefers x h then x else h"] by (auto split: if_splits)
qed simp

lemma foldl_max_perm: "mset (h # xs) = mset (k # ys) \<Longrightarrow> foldl max h xs = foldl max (k :: 'r) ys"
proof -
  assume perm: "mset (h # xs) = mset (k # ys)"
  have Max: "foldl max a zs = Max (insert a (set zs))" for a :: 'r and zs
  proof (induction zs arbitrary: a)
    case (Cons z zs)
    then show ?case by (cases "zs = []") (simp_all add: max.assoc insert_commute)
  qed simp
  have "insert h (set xs) = insert k (set ys)" using perm by (metis list.simps(15) set_mset_mset)
  then show ?thesis by (simp add: Max)
qed

text \<open>Two replicas that merge the same records in different orders hold equally ranked ones.\<close>

lemma merge_converges:
  assumes "mset (h # xs) = mset (k # ys)"
  shows "rank (foldl (\<lambda>held x. if prefers x held then x else held) h xs) =
    rank (foldl (\<lambda>held x. if prefers x held then x else held) k ys)"
proof -
  have "mset (rank h # map rank xs) = mset (rank k # map rank ys)"
    using assms by (metis list.simps(9) mset_map)
  then show ?thesis unfolding fold_rank by (rule foldl_max_perm)
qed

end

text \<open>Rules 1 to 3 as one number triple, compared lexicographically.\<close>

definition reversed :: "bytes32 \<Rightarrow> nat" where
  "reversed a = 256 ^ 32 - value32 a"

definition rank_of :: "'a libs_scheme \<Rightarrow> cached_descriptor \<Rightarrow> nat \<times> nat \<times> nat" where
  "rank_of L c =
     (case cd_finalised_height c of None \<Rightarrow> 0 | Some h \<Rightarrow> Suc (unat h),
      unat (d_version (cd_descriptor c)),
      reversed (content_hash L (cd_descriptor c)))"

lemma value32_bound: "value32 a < 256 ^ 32"
  using be_nat_less [of "bytes_of a"] by (simp add: value32_def)

lemma diff_reverses_less: "(a :: nat) < m \<Longrightarrow> b < m \<Longrightarrow> m - b < m - a \<longleftrightarrow> a < b"
  by auto

lemma reversed_less: "reversed b < reversed a \<longleftrightarrow> a < b"
  unfolding reversed_def less_bytes32_value
  using value32_bound [of a] value32_bound [of b] by (rule diff_reverses_less)

lemma reversed_inject: "reversed a = reversed b \<longleftrightarrow> a = b"
  using reversed_less [of a b] reversed_less [of b a] by (metis less_irrefl neq_iff)

lemma prefer_incoming_rank: "prefer_incoming L a b \<longleftrightarrow> rank_of L b < rank_of L a"
proof -
  have w: "unat x < unat y \<longleftrightarrow> x < y" "unat x = unat y \<longleftrightarrow> x = y" for x y :: u64
    by (simp_all add: word_less_nat_alt word_unat_eq_iff)
  show ?thesis
    by (auto simp: prefer_incoming_def rank_of_def Let_def less_prod_def' w reversed_less
        split: option.split)
qed

interpretation pref: preference "prefer_incoming L" "rank_of L" for L :: "'a libs_scheme"
  by unfold_locales (rule prefer_incoming_rank)

text \<open>
  One \<^verbatim>\<open>upsert\<close> on the entry of one key: the incoming record counts if it verifies and is for
  that key, and then the better of the two is kept.
\<close>

definition accepted_for :: "'a libs_scheme \<Rightarrow> node_id \<Rightarrow> descriptor \<times> u64 option \<Rightarrow> bool" where
  "accepted_for L k = (\<lambda>(d, h). d_node_id d = k \<and> is_ok (verify_descriptor L d))"

definition cached :: "descriptor \<times> u64 option \<Rightarrow> cached_descriptor" where
  "cached = (\<lambda>(d, h). \<lparr>cd_descriptor = d, cd_finalised_height = h\<rparr>)"

lemma upsert_get:
  "store_get (snd (upsert L s d h)) k =
    (if accepted_for L k (d, h)
     then Some (case store_get s k of None \<Rightarrow> cached (d, h)
                | Some c \<Rightarrow> if prefer_incoming L (cached (d, h)) c then cached (d, h) else c)
     else store_get s k)"
  by (auto simp: upsert_def store_get_def accepted_for_def cached_def Let_def is_ok_def
      split: sum.split option.split)

definition upsert_all ::
  "'a libs_scheme \<Rightarrow> descriptor_store \<Rightarrow> (descriptor \<times> u64 option) list \<Rightarrow> descriptor_store" where
  "upsert_all L s us = foldl (\<lambda>s (d, h). snd (upsert L s d h)) s us"

lemma upsert_all_inv: "store_inv L s \<Longrightarrow> store_inv L (upsert_all L s us)"
  unfolding upsert_all_def by (induction us arbitrary: s) (auto intro: upsert_inv)

lemma upsert_all_get:
  assumes "store_get s k = Some c"
  shows "store_get (upsert_all L s us) k =
    Some (foldl (\<lambda>held x. if prefer_incoming L x held then x else held) c
            (map cached (filter (accepted_for L k) us)))"
  using assms unfolding upsert_all_def
proof (induction us arbitrary: s c)
  case (Cons u us)
  show ?case
  proof (cases "accepted_for L k u")
    case True
    let ?c = "if prefer_incoming L (cached u) c then cached u else c"
    have "store_get (snd (upsert L s (fst u) (snd u))) k = Some ?c"
      using True Cons.prems by (simp add: upsert_get)
    then show ?thesis using Cons.IH [of _ ?c] True by (cases u) simp
  next
    case False
    then have "store_get (snd (upsert L s (fst u) (snd u))) k = Some c"
      using Cons.prems by (simp add: upsert_get)
    then show ?thesis using Cons.IH False by (cases u) simp
  qed
qed simp

lemma upsert_all_new_get:
  "store_get (upsert_all L DescriptorStore_new us) k =
    (case map cached (filter (accepted_for L k) us) of
       [] \<Rightarrow> None
     | c # cs \<Rightarrow> Some (foldl (\<lambda>held x. if prefer_incoming L x held then x else held) c cs))"
proof -
  have "store_get s k = None \<Longrightarrow> store_get (upsert_all L s us) k =
    (case map cached (filter (accepted_for L k) us) of [] \<Rightarrow> None
     | c # cs \<Rightarrow> Some (foldl (\<lambda>held x. if prefer_incoming L x held then x else held) c cs))" for s
  proof (induction us arbitrary: s)
    case (Cons u us)
    have step: "upsert_all L s (u # us) = upsert_all L (snd (upsert L s (fst u) (snd u))) us"
      by (cases u) (simp add: upsert_all_def)
    show ?case
    proof (cases "accepted_for L k u")
      case True
      then have "store_get (snd (upsert L s (fst u) (snd u))) k = Some (cached u)"
        using Cons.prems by (simp add: upsert_get)
      from upsert_all_get [OF this, of L us] True show ?thesis by (simp add: step)
    next
      case False
      then have "store_get (snd (upsert L s (fst u) (snd u))) k = None"
        using Cons.prems by (simp add: upsert_get)
      from Cons.IH [OF this] False show ?thesis by (simp add: step)
    qed
  qed (simp add: upsert_all_def)
  then show ?thesis by (simp add: store_get_def DescriptorStore_new_def)
qed

lemma rank_of_payload:
  "rank_of L a = rank_of L b \<longleftrightarrow>
    cd_finalised_height a = cd_finalised_height b \<and>
    d_version (cd_descriptor a) = d_version (cd_descriptor b) \<and>
    content_hash L (cd_descriptor a) = content_hash L (cd_descriptor b)"
  by (auto simp: rank_of_def reversed_inject word_unat_eq_iff split: option.splits)

subsection \<open>Properties\<close>

text \<open>
  C36: a store built by any sequence of \<^verbatim>\<open>upsert\<close> calls holds, under every key, a descriptor with
  that node id whose signature verifies, so its id is the hash of its public key.
\<close>

theorem store_holds_verified:
  assumes "store_get (upsert_all L DescriptorStore_new us) k = Some c"
  shows "d_node_id (cd_descriptor c) = k \<and> verify_descriptor L (cd_descriptor c) = Ok () \<and>
    k = derive_node_id L (bytes_of (d_pubkey (cd_descriptor c))) \<and>
    (cd_descriptor c, cd_finalised_height c) \<in> set us"
proof -
  have "store_inv L (upsert_all L DescriptorStore_new us)" by (intro upsert_all_inv inv_intros)
  then have ok: "d_node_id (cd_descriptor c) = k" "is_ok (verify_descriptor L (cd_descriptor c))"
    using store_inv_get assms by blast+
  obtain x xs where "map cached (filter (accepted_for L k) us) = x # xs"
    "c = foldl (\<lambda>held x. if prefer_incoming L x held then x else held) x xs"
    using assms by (auto simp: upsert_all_new_get split: list.splits)
  then have "c \<in> set (map cached (filter (accepted_for L k) us))" using pref.fold_in [of L x xs] by simp
  then have "(cd_descriptor c, cd_finalised_height c) \<in> set us" by (auto simp: cached_def)
  then show ?thesis using ok by (simp add: result_unit_ok [symmetric] verify_descriptor_ok_iff)
qed

definition demo_descriptor :: "u8 \<Rightarrow> u64 \<Rightarrow> descriptor" where
  "demo_descriptor b v =
     sign_descriptor demo_libs
       \<lparr>d_node_id = idn b, d_pubkey = fill32 b, d_reach = ReachList [], d_version = v,
        d_provisional = False, d_signature = []\<rparr> (fill32 b)"

lemma demo_descriptor_ok [simp]:
  "verify_descriptor demo_libs (demo_descriptor b v) = Ok ()" "d_node_id (demo_descriptor b v) = idn b"
  "d_version (demo_descriptor b v) = v"
proof -
  show "verify_descriptor demo_libs (demo_descriptor b v) = Ok ()"
    unfolding demo_descriptor_def
    using signed_by_keypair [OF demo_libs_ok keypair_wf_made(1) [of demo_libs "fill32 b"]]
    by (simp add: raw_public_def)
qed (simp_all add: demo_descriptor_def sign_descriptor_def Let_def)

theorem store_holds_verified_witness:
  "store_get (upsert_all demo_libs DescriptorStore_new [(demo_descriptor 4 1, None)]) (idn 4) =
     Some (cached (demo_descriptor 4 1, None)) \<and> verify_descriptor demo_libs (demo_descriptor 4 1) = Ok ()"
proof -
  have "store_get (upsert_all demo_libs DescriptorStore_new [(demo_descriptor 4 1, None)]) (idn 4) =
     Some (cached (demo_descriptor 4 1, None))"
    by (simp add: upsert_all_new_get accepted_for_def)
  with store_holds_verified [OF this] show ?thesis by (simp add: cached_def)
qed

text \<open>
  C25: gossip converges: two stores that process the same updates in different orders hold, under
  every key, records of the same finalised height, version and content hash; so, where the
  hash distinguishes the contents, the same signed content.
\<close>

theorem gossip_converges:
  assumes "mset us = mset us'"
    and "\<And>d d'. d \<in> fst ` set us \<Longrightarrow> d' \<in> fst ` set us \<Longrightarrow> content_hash L d = content_hash L d' \<Longrightarrow>
      descriptor_signing_payload L d = descriptor_signing_payload L d'"
  shows "map_option (\<lambda>c. (cd_finalised_height c, descriptor_signing_payload L (cd_descriptor c)))
      (store_get (upsert_all L DescriptorStore_new us) k) =
    map_option (\<lambda>c. (cd_finalised_height c, descriptor_signing_payload L (cd_descriptor c)))
      (store_get (upsert_all L DescriptorStore_new us') k)"
proof -
  let ?r = "\<lambda>us. map cached (filter (accepted_for L k) us)"
  let ?m = "foldl (\<lambda>held x. if prefer_incoming L x held then x else held)"
  have perm: "mset (?r us) = mset (?r us')" using assms(1) by (simp add: mset_filter)
  show ?thesis
  proof (cases "?r us")
    case Nil
    then have "length (?r us') = 0" using mset_eq_length [OF perm] by simp
    then have "?r us' = []" by (rule length_0_conv [THEN iffD1])
    with Nil show ?thesis by (simp add: upsert_all_new_get)
  next
    case (Cons c cs)
    then obtain c' cs' where c': "?r us' = c' # cs'" using perm by (cases "?r us'") auto
    have "rank_of L (?m c cs) = rank_of L (?m c' cs')"
      using perm unfolding Cons c' by (rule pref.merge_converges)
    then have eq: "cd_finalised_height (?m c cs) = cd_finalised_height (?m c' cs')"
      "content_hash L (cd_descriptor (?m c cs)) = content_hash L (cd_descriptor (?m c' cs'))"
      by (simp_all add: rank_of_payload)
    have mem: "?m c cs \<in> set (?r us)" "?m c' cs' \<in> set (?r us')"
      unfolding Cons c' using pref.fold_in [of L c cs] pref.fold_in [of L c' cs'] by simp_all
    have src: "cd_descriptor x \<in> fst ` set us" if "x \<in> set (?r us) \<or> x \<in> set (?r us')" for x
      using that mset_eq_setD [OF assms(1)] by (force simp: cached_def)
    have "descriptor_signing_payload L (cd_descriptor (?m c cs)) =
        descriptor_signing_payload L (cd_descriptor (?m c' cs'))"
      using src mem eq(2) by (intro assms(2)) blast+
    with eq(1) Cons c' show ?thesis by (simp add: upsert_all_new_get)
  qed
qed

theorem gossip_converges_witness:
  "let a = (demo_descriptor 4 1, None); b = (demo_descriptor 4 2, None);
       f = (\<lambda>us. store_get (upsert_all demo_libs DescriptorStore_new us) (idn 4))
   in map_option (\<lambda>c. d_version (cd_descriptor c)) (f [a, b]) = Some 2 \<and>
      map_option (\<lambda>c. (cd_finalised_height c, descriptor_signing_payload demo_libs (cd_descriptor c))) (f [a, b]) =
      map_option (\<lambda>c. (cd_finalised_height c, descriptor_signing_payload demo_libs (cd_descriptor c))) (f [b, a])"
proof -
  let ?a = "(demo_descriptor 4 1, None)" and ?b = "(demo_descriptor 4 2, None)"
  have pay: "descriptor_signing_payload demo_libs (demo_descriptor 4 v) =
      [word_of_nat (unat v), 0] @ replicate 64 4" for v
    by (simp add: descriptor_signing_payload_def demo_descriptor_def sign_descriptor_def Let_def demo_libs_def
        bytes_of_fill32 flip: replicate_add)
  have hash: "content_hash demo_libs (demo_descriptor 4 v) =
      content_hash demo_libs (demo_descriptor 4 w) \<longleftrightarrow> (word_of_nat (unat v) :: u8) = word_of_nat (unat w)" for v w
    by (simp add: content_hash_def pay bytes_of_demo_sha flip: bytes_of_inject_iff)
  have "map_option (\<lambda>c. d_version (cd_descriptor c))
      (store_get (upsert_all demo_libs DescriptorStore_new [?a, ?b]) (idn 4)) = Some 2"
    by (simp add: upsert_all_new_get accepted_for_def prefer_incoming_def cached_def)
  moreover have "mset [?a, ?b] = mset [?b, ?a]" by simp
  note gossip_converges [OF this, of demo_libs "idn 4"]
  ultimately show ?thesis unfolding Let_def using hash pay by fastforce
qed

end
