(* ===== verification/P2p_Node.thy ===== *)
theory P2p_Node
  imports Critical Pex Rate_Limits Maintenance Descriptor_Store
begin

section \<open>The node\<close>

text \<open>
  \<^verbatim>\<open>zona-p2p-node/src/node.rs\<close>, \<^verbatim>\<open>config.rs\<close> and \<^verbatim>\<open>metrics.rs\<close>: the protocol logic of a node, which ties
  the peer table, the descriptor store, routing, peer exchange, rate limits, critical-message
  quorums and repair together.  Every \<^verbatim>\<open>&mut self\<close> method returns its result and the new node.
  Log output is not modelled.  What the code reads from its surroundings is an argument: the
  clock of the rate limiter and the order in which the descriptor hash map is iterated.
\<close>

subsection \<open>Data\<close>

record bootstrap_peer =
  bp_addr :: socket_addr
  bp_node_id :: node_id

record node_config =
  nc_listen_addr :: socket_addr
  nc_bootstrap :: "bootstrap_peer list"
  nc_max_greedy :: nat
  nc_epoch_seed :: u64
  nc_keepalive_secs :: u64
  nc_repair_secs :: u64

definition NodeConfig_new :: "socket_addr \<Rightarrow> node_config" where
  "NodeConfig_new listen_addr =
     \<lparr>nc_listen_addr = listen_addr, nc_bootstrap = [], nc_max_greedy = 3, nc_epoch_seed = 0,
      nc_keepalive_secs = 30, nc_repair_secs = 60\<rparr>"

record metrics =
  m_messages_dropped :: u64
  m_messages_forwarded :: u64
  m_pex_rounds :: u64
  m_repair_ticks :: u64

record node =
  n_id :: node_id
  n_keypair :: node_keypair
  n_config :: node_config
  n_table :: peer_table
  n_store :: descriptor_store
  n_pex :: pex_manager
  n_limits :: rate_limiter
  n_metrics :: metrics
  n_quorum :: quorum_tracker
  n_msg_counter :: u64

type_synonym outbound = "(node_id \<times> envelope) list"

definition Node_new :: "node_keypair \<Rightarrow> node_config \<Rightarrow> node" where
  "Node_new keypair config =
     (let id = kp_node_id keypair;
          table = PeerTable_new id (nc_max_greedy config)
      in \<lparr>n_id = id, n_keypair = keypair, n_config = config, n_table = table,
          n_store = DescriptorStore_new, n_pex = PexManager_new id, n_limits = RateLimiter_new,
          n_metrics = \<lparr>m_messages_dropped = 0, m_messages_forwarded = 0, m_pex_rounds = 0,
            m_repair_ticks = 0\<rparr>,
          n_quorum = QuorumTracker_new, n_msg_counter = 0\<rparr>)"

definition own_descriptor :: "'a libs_scheme \<Rightarrow> node \<Rightarrow> reach_list \<Rightarrow> descriptor" where
  "own_descriptor L n reach =
     sign_descriptor L
       \<lparr>d_node_id = n_id n, d_pubkey = raw_public (n_keypair n), d_reach = reach, d_version = 1,
        d_provisional = False, d_signature = replicate 64 0\<rparr>
       (kp_signing (n_keypair n))"

subsection \<open>Counters and envelopes\<close>

definition count_dropped :: "node \<Rightarrow> node" where
  "count_dropped n = n\<lparr>n_metrics := (n_metrics n)\<lparr>m_messages_dropped := m_messages_dropped (n_metrics n) + 1\<rparr>\<rparr>"

definition count_forwarded :: "node \<Rightarrow> node" where
  "count_forwarded n =
     n\<lparr>n_metrics := (n_metrics n)\<lparr>m_messages_forwarded := m_messages_forwarded (n_metrics n) + 1\<rparr>\<rparr>"

definition next_msg_id :: "node \<Rightarrow> u64 \<times> node" where
  "next_msg_id n = (let n = n\<lparr>n_msg_counter := n_msg_counter n + 1\<rparr> in (n_msg_counter n, n))"

definition make_envelope :: "node \<Rightarrow> node_id \<Rightarrow> message_kind \<Rightarrow> envelope \<times> node" where
  "make_envelope n to body =
     (let (message_id, n) = next_msg_id n
      in (\<lparr>env_to = to, env_from = n_id n, env_message_id = message_id, env_ttl = 20,
           env_class = Normal, env_route_fork = False, env_body = body, env_signature = []\<rparr>, n))"

text \<open>\<^verbatim>\<open>make_envelope\<close> followed by \<^verbatim>\<open>sign_envelope\<close> with the node's own key, as in every reply.\<close>

definition signed_envelope :: "'a libs_scheme \<Rightarrow> node \<Rightarrow> node_id \<Rightarrow> message_kind \<Rightarrow> envelope \<times> node" where
  "signed_envelope L n to body =
     (let (e, n) = make_envelope n to body in (sign_envelope L e (kp_signing (n_keypair n)), n))"

definition make_ping :: "'a libs_scheme \<Rightarrow> node \<Rightarrow> node_id \<Rightarrow> envelope \<times> node" where
  "make_ping L n peer = signed_envelope L n peer (Ping (n_msg_counter n))"

definition make_find :: "'a libs_scheme \<Rightarrow> node \<Rightarrow> node_id \<Rightarrow> node_id \<Rightarrow> envelope \<times> node" where
  "make_find L n peer target = signed_envelope L n peer (FindNode target 3)"

subsection \<open>Forwarding\<close>

definition send_user_hop ::
  "'a libs_scheme \<Rightarrow> node \<Rightarrow> envelope \<Rightarrow> node_id \<Rightarrow> outbound \<Rightarrow> outbound \<times> node" where
  "send_user_hop L n envelope next out =
     (let envelope = envelope\<lparr>env_ttl := saturating_sub (env_ttl envelope) 1\<rparr>
      in if env_ttl envelope = 0 then (out, count_dropped n)
         else
           let envelope = envelope\<lparr>env_to := next\<rparr>;
               envelope = sign_envelope L envelope (kp_signing (n_keypair n))
           in (out @ [(next, envelope)], count_forwarded n))"

text \<open>The next hop, or else the peer of the first slot.\<close>

definition repair_hop :: "node \<Rightarrow> node_id \<Rightarrow> node_id option" where
  "repair_hop n target =
     (case next_hop (n_id n) target (n_table n) of
        Forward p \<Rightarrow> Some p
      | _ \<Rightarrow> (case pt_slots (n_table n) of [] \<Rightarrow> None | s # _ \<Rightarrow> Some (s_peer_id s)))"

definition emit_find_node_repair ::
  "'a libs_scheme \<Rightarrow> node \<Rightarrow> node_id \<Rightarrow> outbound \<Rightarrow> outbound \<times> node" where
  "emit_find_node_repair L n target out =
     (case repair_hop n target of
        None \<Rightarrow> (out, n)
      | Some next \<Rightarrow> let (env, n) = make_find L n next target in (out @ [(next, env)], n))"

definition forward_user_data ::
  "'a libs_scheme \<Rightarrow> node \<Rightarrow> envelope \<Rightarrow> outbound \<Rightarrow> outbound \<times> node" where
  "forward_user_data L n envelope out =
     (let target = env_to envelope;
          fallback =
            (let (out, n) = emit_find_node_repair L n target out in (out, count_dropped n))
      in case next_hop (n_id n) target (n_table n) of
           Forward next \<Rightarrow> send_user_hop L n envelope next out
         | Deliver \<Rightarrow> (out, n)
         | LocalMinimum \<Rightarrow>
             (case long_jump_slot (n_table n) of
                Some l_slot \<Rightarrow>
                  let l_peer = s_peer_id l_slot
                  in if l_peer \<noteq> n_id n
                     then
                       let (out, n) = send_user_hop L n envelope l_peer out
                       in emit_find_node_repair L n target out
                     else fallback
              | None \<Rightarrow> fallback))"

subsection \<open>Incoming envelopes\<close>

text \<open>Whether an envelope passes the signature check at the start of \<^verbatim>\<open>handle_envelope\<close>.\<close>

definition signature_guard :: "'a libs_scheme \<Rightarrow> node \<Rightarrow> node_id \<Rightarrow> envelope \<Rightarrow> bool" where
  "signature_guard L n from envelope \<longleftrightarrow>
     (if env_signature envelope \<noteq> []
      then case store_get (n_store n) from of
             Some c \<Rightarrow> is_ok (verify_envelope L envelope (d_pubkey (cd_descriptor c)))
           | None \<Rightarrow> (case env_body envelope of Hello _ \<Rightarrow> True | _ \<Rightarrow> False)
      else True)"

definition handle_hello :: "'a libs_scheme \<Rightarrow> node \<Rightarrow> node_id \<Rightarrow> descriptor \<Rightarrow> outbound \<times> node" where
  "handle_hello L n from desc =
     (let n = (case upsert L (n_store n) desc None of
                 (Inr updated, store) \<Rightarrow>
                   n\<lparr>n_store := store, n_table := snd (try_insert (n_table n) (SlotEntry_new Greedy from from))\<rparr>
               | (Inl e, store) \<Rightarrow> n\<lparr>n_store := store\<rparr>);
          own = own_descriptor L n (ReachList []);
          (reply, n) = signed_envelope L n from (Hello own)
      in ([(from, reply)], n))"

definition handle_ping :: "'a libs_scheme \<Rightarrow> node \<Rightarrow> node_id \<Rightarrow> u64 \<Rightarrow> outbound \<times> node" where
  "handle_ping L n from nonce =
     (let (reply, n) = signed_envelope L n from (Pong nonce) in ([(from, reply)], n))"

definition handle_pong :: "node \<Rightarrow> node_id \<Rightarrow> outbound \<times> node" where
  "handle_pong n from = ([], n\<lparr>n_table := update_slot (\<lambda>s. record_probe s True) from (n_table n)\<rparr>)"

definition handle_find_node ::
  "'a libs_scheme \<Rightarrow> store_order \<Rightarrow> clock \<Rightarrow> node \<Rightarrow> node_id \<Rightarrow> node_id \<Rightarrow> u8 \<Rightarrow> outbound \<times> node" where
  "handle_find_node L order clock n from target cnt =
     (case check_find (n_limits n) from True clock of
        (Inl e, limits) \<Rightarrow> ([], count_dropped (n\<lparr>n_limits := limits\<rparr>))
      | (Inr _, limits) \<Rightarrow>
          let n = n\<lparr>n_limits := limits\<rparr>;
              descs = all_descriptors order (n_store n);
              peers = closest_peers target (n_table n) (unat cnt);
              candidates =
                List.map_filter
                  (\<lambda>pid. map_option (\<lambda>d. \<lparr>c_descriptor = d, c_referrer_id = n_id n\<rparr>)
                     (List.find (\<lambda>d. d_node_id d = pid) descs))
                  peers;
              (reply, n) = signed_envelope L n from (FoundNodes candidates)
          in ([(from, reply)], n))"

fun found_nodes_loop :: "'a libs_scheme \<Rightarrow> node \<Rightarrow> pex_candidate list \<Rightarrow> node" where
  "found_nodes_loop L n [] = n"
| "found_nodes_loop L n (c # cs) =
     (let n = n\<lparr>n_store := snd (upsert L (n_store n) (c_descriptor c) None)\<rparr>;
          entry = SlotEntry_new Greedy (d_node_id (c_descriptor c)) (c_referrer_id c);
          n = n\<lparr>n_table := snd (try_insert (n_table n) entry)\<rparr>
      in found_nodes_loop L n cs)"

definition handle_pex :: "node \<Rightarrow> pex_candidate list \<Rightarrow> outbound \<times> node" where
  "handle_pex n candidates =
     (let (_, table) = apply_candidates (n_pex n) candidates (n_table n);
          n = n\<lparr>n_table := table\<rparr>
      in ([], n\<lparr>n_metrics := (n_metrics n)\<lparr>m_pex_rounds := m_pex_rounds (n_metrics n) + 1\<rparr>\<rparr>))"

definition handle_announce :: "'a libs_scheme \<Rightarrow> node \<Rightarrow> descriptor \<Rightarrow> outbound \<times> node" where
  "handle_announce L n desc = ([], n\<lparr>n_store := snd (upsert L (n_store n) desc None)\<rparr>)"

definition handle_user_data ::
  "'a libs_scheme \<Rightarrow> node \<Rightarrow> envelope \<Rightarrow> bytes \<Rightarrow> outbound \<times> node" where
  "handle_user_data L n envelope payload =
     (let is_critical = (env_class envelope = CriticalUser)
      in if env_to envelope = n_id n
         then if is_critical
              then case quorum_record (n_quorum n) (env_message_id envelope) payload of
                     (Inconsistent, q) \<Rightarrow> ([], count_dropped (n\<lparr>n_quorum := q\<rparr>))
                   | (_, q) \<Rightarrow> ([], n\<lparr>n_quorum := q\<rparr>)
              else ([], n)
         else forward_user_data L n envelope [])"

definition handle_invite :: "clock \<Rightarrow> node \<Rightarrow> node_id \<Rightarrow> outbound \<times> node" where
  "handle_invite clock n from = ([], n\<lparr>n_limits := snd (check_invite (n_limits n) from clock)\<rparr>)"

text \<open>The \<^verbatim>\<open>match\<close> on the message body.\<close>

definition dispatch ::
  "'a libs_scheme \<Rightarrow> store_order \<Rightarrow> clock \<Rightarrow> node \<Rightarrow> node_id \<Rightarrow> envelope \<Rightarrow> outbound \<times> node" where
  "dispatch L order clock n from envelope =
     (case env_body envelope of
        Hello descriptor \<Rightarrow> handle_hello L n from descriptor
      | Ping nonce \<Rightarrow> handle_ping L n from nonce
      | Pong nonce \<Rightarrow> handle_pong n from
      | FindNode target cnt \<Rightarrow> handle_find_node L order clock n from target cnt
      | FoundNodes peers \<Rightarrow> ([], found_nodes_loop L n peers)
      | Pex candidates \<Rightarrow> handle_pex n candidates
      | AnnounceDescriptor descriptor \<Rightarrow> handle_announce L n descriptor
      | UserData payload \<Rightarrow> handle_user_data L n envelope payload
      | Invite _ \<Rightarrow> handle_invite clock n from)"

definition handle_envelope ::
  "'a libs_scheme \<Rightarrow> store_order \<Rightarrow> clock \<Rightarrow> node \<Rightarrow> node_id \<Rightarrow> envelope \<Rightarrow> outbound \<times> node" where
  "handle_envelope L order clock n from envelope =
     (if signature_guard L n from envelope then dispatch L order clock n from envelope else ([], n))"

subsection \<open>Outgoing traffic\<close>

definition send_critical :: "'a libs_scheme \<Rightarrow> node \<Rightarrow> node_id \<Rightarrow> bytes \<Rightarrow> outbound \<times> node" where
  "send_critical L n to payload =
     (let (msg_id, n) = next_msg_id n;
          base = \<lparr>env_to = to, env_from = n_id n, env_message_id = msg_id, env_ttl = 20,
                  env_class = CriticalUser, env_route_fork = False, env_body = UserData payload,
                  env_signature = []\<rparr>;
          sign = (\<lambda>e. sign_envelope L e (kp_signing (n_keypair n)))
      in case pick_fork_hops (n_table n) of
           Some (hop_a, hop_b) \<Rightarrow>
             let (env_a, env_b) = fork_envelopes base hop_a hop_b
             in ([(hop_a, sign env_a), (hop_b, sign env_b)], n)
         | None \<Rightarrow>
             (case pt_slots (n_table n) of
                [] \<Rightarrow> ([], n)
              | peer # _ \<Rightarrow>
                  let peer_id = s_peer_id peer; single = base\<lparr>env_to := peer_id\<rparr>
                  in ([(peer_id, sign single)], n)))"

definition recovery_state_of :: "node \<Rightarrow> recovery_state" where
  "recovery_state_of n = evaluate_recovery (n_table n)"

fun repair_loop :: "'a libs_scheme \<Rightarrow> node \<Rightarrow> node_id list \<Rightarrow> outbound \<Rightarrow> outbound \<times> node" where
  "repair_loop L n [] out = (out, n)"
| "repair_loop L n (target # targets) out =
     (case repair_hop n target of
        None \<Rightarrow> repair_loop L n targets out
      | Some next \<Rightarrow>
          let (env, n) = make_find L n next target
          in repair_loop L n targets (out @ [(next, env)]))"

definition repair_tick :: "'a libs_scheme \<Rightarrow> node \<Rightarrow> outbound \<times> node" where
  "repair_tick L n =
     (let n = n\<lparr>n_metrics := (n_metrics n)\<lparr>m_repair_ticks := m_repair_ticks (n_metrics n) + 1\<rparr>\<rparr>;
          targets = repair_targets L (nc_epoch_seed (n_config n)) (n_id n) REPAIR_TARGETS_PER_TICK;
          (out, n) = repair_loop L n targets []
      in if long_jump_slot (n_table n) = None
         then
           let lj_target = long_jump_target L (nc_epoch_seed (n_config n)) (n_id n)
           in case pt_slots (n_table n) of
                [] \<Rightarrow> (out, n)
              | s # _ \<Rightarrow>
                  let (env, n) = make_find L n (s_peer_id s) lj_target
                  in (out @ [(s_peer_id s, env)], n)
         else (out, n))"

definition pending_inverted_connects :: "store_order \<Rightarrow> node \<Rightarrow> (node_id \<times> reach_list) list" where
  "pending_inverted_connects order n =
     (let live = set (map s_peer_id (filter (\<lambda>s. \<not> should_evict s) (pt_slots (n_table n))))
      in map (\<lambda>d. (d_node_id d, d_reach d))
           (filter (\<lambda>d. d_node_id d \<noteq> n_id n \<and> d_node_id d \<notin> live) (all_descriptors order (n_store n))))"

subsection \<open>The node as a state machine\<close>

text \<open>
  Everything the crates do to a node after \<^verbatim>\<open>Node::new\<close>: incoming envelopes, critical sends,
  pings, repair ticks, and the direct table updates of the HTTP endpoints.
\<close>

inductive node_step :: "'a libs_scheme \<Rightarrow> node \<Rightarrow> node \<Rightarrow> bool" for L where
  node_step_envelope: "node_step L n (snd (handle_envelope L order clock n sender env))"
| node_step_critical: "node_step L n (snd (send_critical L n to payload))"
| node_step_ping: "node_step L n (snd (make_ping L n peer))"
| node_step_find: "node_step L n (snd (make_find L n peer target))"
| node_step_repair: "node_step L n (snd (repair_tick L n))"
| node_step_table: "table_step (n_table n) t \<Longrightarrow> node_step L n (n\<lparr>n_table := t\<rparr>)"

inductive node_reachable :: "'a libs_scheme \<Rightarrow> node_keypair \<Rightarrow> node_config \<Rightarrow> node \<Rightarrow> bool" for L kp cfg where
  node_reach_new: "node_reachable L kp cfg (Node_new kp cfg)"
| node_reach_step: "node_reachable L kp cfg n \<Longrightarrow> node_step L n n' \<Longrightarrow> node_reachable L kp cfg n'"

inductive_cases node_stepE: "node_step L n n'"

text \<open>The steps of the parts that have machines of their own.\<close>

inductive store_step :: "'a libs_scheme \<Rightarrow> descriptor_store \<Rightarrow> descriptor_store \<Rightarrow> bool" for L where
  store_step_upsert: "store_step L s (snd (upsert L s d h))"

inductive quorum_step :: "quorum_tracker \<Rightarrow> quorum_tracker \<Rightarrow> bool" where
  quorum_step_record: "quorum_step q (snd (quorum_record q i p))"

text \<open>
  A part of a larger machine: every step of the whole is a sequence of steps of the part, so the
  part's invariants hold in the whole.
\<close>

locale machine_part =
  fixes whole :: "'w \<Rightarrow> 'w \<Rightarrow> bool" and part :: "'p \<Rightarrow> 'p \<Rightarrow> bool" and proj :: "'w \<Rightarrow> 'p"
  assumes whole_part: "whole w w' \<Longrightarrow> part\<^sup>*\<^sup>* (proj w) (proj w')"
begin

lemma run_part: "whole\<^sup>*\<^sup>* w w' \<Longrightarrow> part\<^sup>*\<^sup>* (proj w) (proj w')"
  by (induction rule: rtranclp_induct) (auto dest: whole_part)

lemma part_invariant:
  assumes "whole\<^sup>*\<^sup>* w w'" "I (proj w)" "\<And>p p'. part p p' \<Longrightarrow> I p \<Longrightarrow> I p'"
  shows "I (proj w')"
proof -
  have "part\<^sup>*\<^sup>* p p' \<Longrightarrow> I p \<Longrightarrow> I p'" for p p'
    by (induction rule: rtranclp_induct) (auto intro: assms(3))
  with run_part [OF assms(1)] assms(2) show ?thesis by blast
qed

end

text \<open>What a handler may do to a node: the identity is kept and the parts move by their own steps.\<close>

definition node_moves :: "'a libs_scheme \<Rightarrow> node \<Rightarrow> node \<Rightarrow> bool" where
  "node_moves L n n' \<longleftrightarrow>
     n_id n' = n_id n \<and> n_keypair n' = n_keypair n \<and> n_config n' = n_config n \<and> n_pex n' = n_pex n \<and>
     table_step\<^sup>*\<^sup>* (n_table n) (n_table n') \<and> (store_step L)\<^sup>*\<^sup>* (n_store n) (n_store n') \<and>
     quorum_step\<^sup>*\<^sup>* (n_quorum n) (n_quorum n')"

lemma node_moves_refl [simp]: "node_moves L n n"
  by (simp add: node_moves_def)

lemma node_moves_trans: "node_moves L a b \<Longrightarrow> node_moves L b c \<Longrightarrow> node_moves L a c"
  unfolding node_moves_def by (metis rtranclp_trans)

lemma node_moves_counters [simp]:
  "node_moves L n (count_dropped n') \<longleftrightarrow> node_moves L n n'"
  "node_moves L n (count_forwarded n') \<longleftrightarrow> node_moves L n n'"
  "node_moves L n (n'\<lparr>n_metrics := m\<rparr>) \<longleftrightarrow> node_moves L n n'"
  "node_moves L n (n'\<lparr>n_limits := l\<rparr>) \<longleftrightarrow> node_moves L n n'"
  "node_moves L n (n'\<lparr>n_msg_counter := i\<rparr>) \<longleftrightarrow> node_moves L n n'"
  by (simp_all add: node_moves_def count_dropped_def count_forwarded_def)

lemma node_moves_table: "table_step\<^sup>*\<^sup>* (n_table n) t \<Longrightarrow> node_moves L n (n\<lparr>n_table := t\<rparr>)"
  by (simp add: node_moves_def)

lemma node_moves_store: "node_moves L n (n\<lparr>n_store := snd (upsert L (n_store n) d h)\<rparr>)"
  by (auto simp: node_moves_def intro: store_step_upsert)

lemma node_moves_quorum: "node_moves L n (n\<lparr>n_quorum := snd (quorum_record (n_quorum n) i p)\<rparr>)"
  by (auto simp: node_moves_def intro: quorum_step_record)

text \<open>Envelopes the node makes itself, and their effect on it.\<close>

definition sealed :: "'a libs_scheme \<Rightarrow> node \<Rightarrow> node_id \<Rightarrow> message_kind \<Rightarrow> envelope" where
  "sealed L n to body =
     sign_envelope L
       \<lparr>env_to = to, env_from = n_id n, env_message_id = n_msg_counter n + 1, env_ttl = 20,
        env_class = Normal, env_route_fork = False, env_body = body, env_signature = []\<rparr>
       (kp_signing (n_keypair n))"

definition ticked :: "node \<Rightarrow> node" where
  "ticked n = n\<lparr>n_msg_counter := n_msg_counter n + 1\<rparr>"

lemma signed_envelope_eq: "signed_envelope L n to body = (sealed L n to body, ticked n)"
  by (simp add: signed_envelope_def make_envelope_def next_msg_id_def sealed_def ticked_def Let_def)

lemma make_find_eq: "make_find L n to target = (sealed L n to (FindNode target 3), ticked n)"
  by (simp add: make_find_def signed_envelope_eq)

lemma ticked_sel [simp]:
  "n_id (ticked n) = n_id n" "n_keypair (ticked n) = n_keypair n" "n_config (ticked n) = n_config n"
  "n_table (ticked n) = n_table n" "n_store (ticked n) = n_store n" "n_quorum (ticked n) = n_quorum n"
  "n_pex (ticked n) = n_pex n" "n_metrics (ticked n) = n_metrics n" "n_limits (ticked n) = n_limits n"
  by (simp_all add: ticked_def)

lemma count_sel [simp]:
  "n_id (count_dropped n) = n_id n" "n_keypair (count_dropped n) = n_keypair n"
  "n_table (count_dropped n) = n_table n" "n_id (count_forwarded n) = n_id n"
  "n_keypair (count_forwarded n) = n_keypair n" "n_table (count_forwarded n) = n_table n"
  by (simp_all add: count_dropped_def count_forwarded_def)

lemma node_moves_ticked [simp]: "node_moves L n (ticked n') \<longleftrightarrow> node_moves L n n'"
  by (simp add: ticked_def)

lemma emit_find_node_repair_eq:
  "emit_find_node_repair L n target out =
    (case repair_hop n target of
       None \<Rightarrow> (out, n)
     | Some p \<Rightarrow> (out @ [(p, sealed L n p (FindNode target 3))], ticked n))"
  by (simp add: emit_find_node_repair_def make_find_eq split: option.split)

definition hop_envelope :: "'a libs_scheme \<Rightarrow> node \<Rightarrow> envelope \<Rightarrow> node_id \<Rightarrow> envelope" where
  "hop_envelope L n e p =
     sign_envelope L (e\<lparr>env_ttl := saturating_sub (env_ttl e) 1, env_to := p\<rparr>) (kp_signing (n_keypair n))"

lemma send_user_hop_eq:
  "send_user_hop L n e p out =
    (if saturating_sub (env_ttl e) 1 = 0 then (out, count_dropped n)
     else (out @ [(p, hop_envelope L n e p)], count_forwarded n))"
  by (simp add: send_user_hop_def hop_envelope_def Let_def)

lemma find_repair_moves [simp]: "node_moves L n (snd (emit_find_node_repair L n' target out)) \<longleftrightarrow> node_moves L n n'"
  by (simp add: emit_find_node_repair_eq split: option.split)

lemma user_hop_moves [simp]: "node_moves L n (snd (send_user_hop L n' e p out)) \<longleftrightarrow> node_moves L n n'"
  by (simp add: send_user_hop_eq)

lemma forward_moves: "node_moves L n (snd (forward_user_data L n e out))"
  by (simp add: forward_user_data_def Let_def case_prod_beta' split: next_hop_result.split option.split)

lemma node_moves_admit:
  "node_moves L n (n\<lparr>n_store := snd (upsert L (n_store n) d h),
     n_table := snd (try_insert (n_table n) (SlotEntry_new k p r))\<rparr>)"
  using r_into_rtranclp [of "store_step L", OF store_step_upsert]
    r_into_rtranclp [of table_step, OF step_insert]
  by (simp add: node_moves_def)

lemma hello_moves: "node_moves L n (snd (handle_hello L n from d))"
  using node_moves_store [of L n d None] node_moves_admit [where n = n and L = L and d = d and h = None and p = "from" and r = "from" and k = Greedy]
  by (cases "upsert L (n_store n) d None")
    (simp add: handle_hello_def signed_envelope_eq Let_def split: sum.split)

lemma found_nodes_moves: "node_moves L n (found_nodes_loop L n cs)"
proof (induction cs arbitrary: n)
  case (Cons c cs)
  show ?case
    using node_moves_trans [OF node_moves_admit [where n = n and d = "c_descriptor c" and h = None and k = Greedy
        and p = "d_node_id (c_descriptor c)" and r = "c_referrer_id c"] Cons.IH]
    by (simp add: Let_def)
qed simp

lemma apply_loop_steps: "table_step\<^sup>*\<^sup>* t (snd (apply_loop m cs t k))"
proof (induction cs arbitrary: t k)
  case (Cons c cs)
  have "table_step t (snd (try_insert t (classify_candidate c t)))"
    unfolding classify_candidate_def Let_def by (rule step_insert)
  then show ?case using Cons.IH by (auto simp: apply_loop_Cons intro: converse_rtranclp_into_rtranclp)
qed simp

lemma user_data_moves: "node_moves L n (snd (handle_user_data L n e p))"
proof (cases "quorum_record (n_quorum n) (env_message_id e) p")
  case (Pair r q)
  then have "node_moves L n (n\<lparr>n_quorum := q\<rparr>)"
    using node_moves_quorum [of L n "env_message_id e" p] by simp
  then show ?thesis
    using Pair by (cases r) (simp_all add: handle_user_data_def forward_moves Let_def)
qed

lemma find_node_moves: "node_moves L n (snd (handle_find_node L order clock n from target cnt))"
  by (simp add: handle_find_node_def signed_envelope_eq Let_def split: prod.split sum.split)

lemma dispatch_moves: "node_moves L n (snd (dispatch L order clock n from e))"
proof (cases "env_body e")
  case (Pong nonce)
  then show ?thesis by (auto simp: dispatch_def handle_pong_def intro: node_moves_table step_probe)
next
  case (Pex cs)
  then show ?thesis
    by (auto simp: dispatch_def handle_pex_def apply_candidates_def Let_def case_prod_beta'
        intro: node_moves_table apply_loop_steps)
qed (auto simp: dispatch_def hello_moves handle_ping_def signed_envelope_eq find_node_moves found_nodes_moves
    handle_announce_def node_moves_store user_data_moves handle_invite_def)

lemma handle_envelope_moves: "node_moves L n (snd (handle_envelope L order clock n from e))"
  by (simp add: handle_envelope_def dispatch_moves)

lemma repair_loop_moves: "node_moves L n n' \<Longrightarrow> node_moves L n (snd (repair_loop L n' targets out))"
  by (induction targets arbitrary: n' out) (simp_all add: make_find_eq split: option.split)

lemma repair_tick_moves: "node_moves L n (snd (repair_tick L n))"
proof -
  let ?n = "n\<lparr>n_metrics := (n_metrics n)\<lparr>m_repair_ticks := m_repair_ticks (n_metrics n) + 1\<rparr>\<rparr>"
  have "node_moves L n (snd (repair_loop L ?n targets []))" for targets
    by (rule repair_loop_moves) simp
  then show ?thesis
    by (auto simp: repair_tick_def make_find_eq Let_def case_prod_beta' split: list.split)
qed

lemma send_critical_moves: "node_moves L n (snd (send_critical L n to p))"
  by (simp add: send_critical_def next_msg_id_def Let_def split: option.split list.split prod.split)

lemma node_step_moves: "node_step L n n' \<Longrightarrow> node_moves L n n'"
  by (erule node_stepE)
    (auto simp: handle_envelope_moves send_critical_moves make_ping_def make_find_eq signed_envelope_eq
      repair_tick_moves intro: node_moves_table)

interpretation np: machine_part "node_step L" table_step n_table for L :: "'a libs_scheme"
  by unfold_locales (auto dest: node_step_moves simp: node_moves_def)

interpretation ns: machine_part "node_step L" "store_step L" n_store for L :: "'a libs_scheme"
  by unfold_locales (auto dest: node_step_moves simp: node_moves_def)

interpretation nq: machine_part "node_step L" quorum_step n_quorum for L :: "'a libs_scheme"
  by unfold_locales (auto dest: node_step_moves simp: node_moves_def)

lemma node_reachable_steps: "node_reachable L kp cfg n \<Longrightarrow> (node_step L)\<^sup>*\<^sup>* (Node_new kp cfg) n"
  by (induction rule: node_reachable.induct) (auto intro: rtranclp.rtrancl_into_rtrancl)

lemma node_reachable_identity:
  "node_reachable L kp cfg n \<Longrightarrow>
    n_id n = kp_node_id kp \<and> n_keypair n = kp \<and> n_config n = cfg \<and> n_pex n = PexManager_new (kp_node_id kp)"
proof (induction rule: node_reachable.induct)
  case (node_reach_step n n')
  then show ?case using node_step_moves [of L n n'] by (simp add: node_moves_def)
qed (simp add: Node_new_def Let_def)

lemma table_steps_reachable:
  "table_step\<^sup>*\<^sup>* t t' \<Longrightarrow> table_reachable self g t \<Longrightarrow> table_reachable self g t'"
  by (induction rule: rtranclp_induct) (auto intro: reach_step)

lemma node_reachable_parts:
  assumes "node_reachable L kp cfg n"
  shows "table_reachable (n_id n) (nc_max_greedy cfg) (n_table n)" "store_inv L (n_store n)"
    "tracker_inv (n_quorum n)"
proof -
  note run = node_reachable_steps [OF assms]
  have init: "n_table (Node_new kp cfg) = PeerTable_new (kp_node_id kp) (nc_max_greedy cfg)"
    "n_store (Node_new kp cfg) = DescriptorStore_new" "n_quorum (Node_new kp cfg) = QuorumTracker_new"
    by (simp_all add: Node_new_def Let_def)
  show "table_reachable (n_id n) (nc_max_greedy cfg) (n_table n)"
    using np.run_part [OF run] reach_new node_reachable_identity [OF assms]
    by (metis init(1) table_steps_reachable)
  show "store_inv L (n_store n)"
    by (rule ns.part_invariant [OF run]) (auto simp: init elim!: store_step.cases intro: inv_intros)
  show "tracker_inv (n_quorum n)"
    by (rule nq.part_invariant [OF run]) (auto simp: init elim!: quorum_step.cases intro: inv_intros)
qed

lemma node_reachable_table_inv: "node_reachable L kp cfg n \<Longrightarrow> table_inv (n_table n)"
  using node_reachable_parts(1) table_reachable_frame by blast

end
