(* ===== verification/Node_Props.thy ===== *)
theory Node_Props
  imports P2p_Node
begin

section \<open>Properties of the node\<close>

text \<open>
  What a node guarantees in every state it can reach from \<^verbatim>\<open>Node::new\<close>: the invariants of its parts,
  what it sends and to whom, the accounting of forwarded user data, and that the iteration
  order of its hash map never shows.
\<close>

subsection \<open>What a node sends\<close>

text \<open>
  Addressed to its destination, which is one of \<open>dests\<close>, signed by the node, and with the node as its
  sender unless sender and body are those of a message in \<open>relayed\<close>.
\<close>

definition sent_ok ::
  "'a libs_scheme \<Rightarrow> node \<Rightarrow> node_id set \<Rightarrow> (node_id \<times> message_kind) set \<Rightarrow> node_id \<times> envelope \<Rightarrow> bool" where
  "sent_ok L n dests relayed = (\<lambda>(dest, e). env_to e = dest \<and> dest \<in> dests \<and>
     (env_from e = n_id n \<or> (env_from e, env_body e) \<in> relayed) \<and>
     (\<exists>e'. e = sign_envelope L e' (kp_signing (n_keypair n))))"

lemma sent_ok_sealed [simp]:
  "n_id n' = n_id n \<Longrightarrow> n_keypair n' = n_keypair n \<Longrightarrow> sent_ok L n D R (p, sealed L n' p body) \<longleftrightarrow> p \<in> D"
  by (auto simp: sent_ok_def sealed_def) (simp_all add: sign_envelope_def Let_def)

lemma sent_ok_hop [simp]:
  "n_keypair n' = n_keypair n \<Longrightarrow> (env_from e, env_body e) \<in> R \<Longrightarrow> sent_ok L n D R (p, hop_envelope L n' e p) \<longleftrightarrow> p \<in> D"
  by (auto simp: sent_ok_def hop_envelope_def) (simp_all add: sign_envelope_def Let_def)

text \<open>The signature is the node's, over the envelope as it is sent, and verifies under its key.\<close>

lemma sent_ok_signed:
  assumes "ed25519_ok L" "keypair_wf L (n_keypair n)" "sent_ok L n D R (d, e)"
  shows "env_to e = d \<and> d \<in> D \<and> (env_from e = n_id n \<or> (env_from e, env_body e) \<in> R) \<and>
    env_signature e = ed_sign L (kp_signing (n_keypair n)) (envelope_signing_payload L e) \<and>
    length (env_signature e) = 64 \<and>
    ed_verify L (kp_verifying (n_keypair n)) (envelope_signing_payload L e) (env_signature e)"
proof -
  obtain e' where "e = sign_envelope L e' (kp_signing (n_keypair n))" using assms(3) by (auto simp: sent_ok_def)
  then have "env_signature e = ed_sign L (kp_signing (n_keypair n)) (envelope_signing_payload L e)"
    using se.seal_content [of L e' "kp_signing (n_keypair n)"] by (simp add: sign_envelope_def Let_def)
  then show ?thesis using assms by (simp add: sent_ok_def keypair_wf_def ed25519_okD)
qed

lemma next_hop_peer: "next_hop self target t = Forward p \<Longrightarrow> p \<in> set (all_peers t)"
  using next_hop_Forward(1) live_peers_subset by blast

lemma repair_hop_peer: "repair_hop n target = Some p \<Longrightarrow> p \<in> set (all_peers (n_table n))"
  by (auto simp: repair_hop_def all_peers_def dest: next_hop_peer [unfolded all_peers_def]
      split: next_hop_result.splits list.splits)

lemma long_jump_peer: "long_jump_slot t = Some s \<Longrightarrow> s_peer_id s \<in> set (all_peers t)"
  by (auto simp: all_peers_def dest: long_jump_slot_in)

lemma find_repair_sent:
  assumes "n_table n' = n_table n" "n_keypair n' = n_keypair n" "n_id n' = n_id n" "list_all (sent_ok L n D R) out"
    "set (all_peers (n_table n)) \<subseteq> D"
  shows "list_all (sent_ok L n D R) (fst (emit_find_node_repair L n' target out)) \<and>
    length (fst (emit_find_node_repair L n' target out)) \<le> length out + 1"
  using assms repair_hop_peer [of n' target] by (auto simp: emit_find_node_repair_eq split: option.split)

lemma user_hop_sent:
  assumes "list_all (sent_ok L n D R) out" "p \<in> D" "(env_from e, env_body e) \<in> R"
  shows "list_all (sent_ok L n D R) (fst (send_user_hop L n e p out)) \<and>
    length (fst (send_user_hop L n e p out)) \<le> length out + 1"
  using assms by (simp add: send_user_hop_eq)

lemma user_hop_sel [simp]:
  "n_table (snd (send_user_hop L n e p out)) = n_table n"
  "n_keypair (snd (send_user_hop L n e p out)) = n_keypair n"
  "n_id (snd (send_user_hop L n e p out)) = n_id n"
  by (simp_all add: send_user_hop_eq)

lemma forward_sent:
  assumes D: "set (all_peers (n_table n)) \<subseteq> D" and R: "(env_from e, env_body e) \<in> R"
  shows "list_all (sent_ok L n D R) (fst (forward_user_data L n e [])) \<and>
    length (fst (forward_user_data L n e [])) \<le> 2"
proof -
  have find: "list_all (sent_ok L n D R) (fst (emit_find_node_repair L n t [])) \<and>
      length (fst (emit_find_node_repair L n t [])) \<le> 2" for t
    using find_repair_sent [of n n L D R "[]" t] D by simp
  have hop: "list_all (sent_ok L n D R) (fst (send_user_hop L n e p [])) \<and>
      length (fst (send_user_hop L n e p [])) \<le> 1" if "p \<in> set (all_peers (n_table n))" for p
    using user_hop_sent [of L n D R "[]" p e] D R that by auto
  have bypass: "list_all (sent_ok L n D R) (fst (emit_find_node_repair L (snd (send_user_hop L n e p []))
        t (fst (send_user_hop L n e p [])))) \<and>
      length (fst (emit_find_node_repair L (snd (send_user_hop L n e p [])) t (fst (send_user_hop L n e p [])))) \<le> 2"
    if "p \<in> set (all_peers (n_table n))" for p t
    using find_repair_sent [of "snd (send_user_hop L n e p [])" n L D R "fst (send_user_hop L n e p [])" t]
      hop [OF that] D by simp
  show ?thesis
    using find hop bypass le_trans [OF conjunct2 [OF hop], of _ 2]
    by (auto simp: forward_user_data_def Let_def case_prod_beta' dest: next_hop_peer long_jump_peer
        split: next_hop_result.split option.split)
qed

lemma n_keypair_store_table [simp]:
  "n_keypair (n\<lparr>n_store := s\<rparr>) = n_keypair n" "n_keypair (n\<lparr>n_table := t\<rparr>) = n_keypair n"
  by simp_all

lemma dispatch_sent:
  assumes "set (all_peers (n_table n)) \<subseteq> D" "from \<in> D" "(env_from e, env_body e) \<in> R"
  shows "list_all (sent_ok L n D R) (fst (dispatch L order clock n from e)) \<and>
    length (fst (dispatch L order clock n from e)) \<le> 2"
proof (cases "env_body e")
  case (UserData p)
  then show ?thesis
    using forward_sent [OF assms(1,3), of L]
    by (auto simp: dispatch_def handle_user_data_def Let_def split: prod.split quorum_result.split)
qed (use assms(2) in \<open>auto simp: dispatch_def handle_hello_def handle_ping_def handle_pong_def handle_find_node_def
    handle_pex_def handle_announce_def handle_invite_def signed_envelope_eq Let_def
    split: prod.split sum.split\<close>)

lemma repair_loop_sent:
  assumes "n_table n' = n_table n" "n_keypair n' = n_keypair n" "n_id n' = n_id n" "list_all (sent_ok L n D R) out"
    "set (all_peers (n_table n)) \<subseteq> D"
  shows "list_all (sent_ok L n D R) (fst (repair_loop L n' ts out)) \<and>
    length (fst (repair_loop L n' ts out)) \<le> length out + length ts \<and>
    n_table (snd (repair_loop L n' ts out)) = n_table n \<and> n_keypair (snd (repair_loop L n' ts out)) = n_keypair n \<and>
    n_id (snd (repair_loop L n' ts out)) = n_id n"
  using assms
proof (induction ts arbitrary: n' out)
  case (Cons t ts)
  show ?case
  proof (cases "repair_hop n' t")
    case None
    then show ?thesis using Cons.IH [of n' out] Cons.prems by auto
  next
    case (Some p)
    then have "p \<in> D" using Cons.prems repair_hop_peer [of n' t p] by auto
    then show ?thesis
      using Some Cons.prems Cons.IH [of "ticked n'" "out @ [(p, sealed L n' p (FindNode t 3))]"]
      by (simp add: make_find_eq)
  qed
qed simp

lemma repair_tick_sent:
  "list_all (sent_ok L n (set (all_peers (n_table n))) {}) (fst (repair_tick L n)) \<and> length (fst (repair_tick L n)) \<le> 3"
proof -
  let ?n = "n\<lparr>n_metrics := (n_metrics n)\<lparr>m_repair_ticks := m_repair_ticks (n_metrics n) + 1\<rparr>\<rparr>"
  let ?ts = "repair_targets L (nc_epoch_seed (n_config n)) (n_id n) REPAIR_TARGETS_PER_TICK"
  note loop = repair_loop_sent [of ?n n L "set (all_peers (n_table n))" "{}" "[]" ?ts]
  have "length ?ts = 2" by (simp add: repair_targets_def REPAIR_TARGETS_PER_TICK_def)
  moreover have "s_peer_id s \<in> set (all_peers (n_table n))" if "pt_slots (n_table n) = s # ss" for s ss
    using that by (simp add: all_peers_def)
  ultimately show ?thesis
    using loop by (auto simp: repair_tick_def make_find_eq Let_def case_prod_beta' split: list.split)
qed

lemma send_critical_sent:
  assumes "table_inv (n_table n)"
  shows "list_all (sent_ok L n (set (all_peers (n_table n))) {}) (fst (send_critical L n to p)) \<and>
    length (fst (send_critical L n to p)) \<le> 2"
proof -
  have "a \<in> set (all_peers (n_table n)) \<and> b \<in> set (all_peers (n_table n))"
    if "pick_fork_hops (n_table n) = Some (a, b)" for a b
    using pick_fork_hops_slots [OF assms that] by (auto simp: fork_slots_def all_peers_def)
  moreover have "sent_ok L n D {} (d, sign_envelope L e (kp_signing (n_keypair n))) \<longleftrightarrow>
      env_to e = d \<and> d \<in> D \<and> env_from e = n_id n" for D d e
    by (auto simp: sent_ok_def sign_envelope_def Let_def)
  ultimately show ?thesis
    by (auto simp: send_critical_def next_msg_id_def fork_envelopes_def Let_def all_peers_def
        split: option.split list.split prod.split)
qed

subsection \<open>Properties\<close>

text \<open>
  C19: in every state a node can reach, its identity is that of its key pair, its peer table holds
  no peer twice, at most two greedy peers per referrer and at most \<^verbatim>\<open>max_greedy + 2\<close> slots, every
  descriptor it caches is filed under its own id and verifies, and its quorum tracker is well
  formed.
\<close>

theorem node_reachable_inv:
  assumes "node_reachable L kp cfg n"
  shows "n_id n = kp_node_id kp \<and> n_keypair n = kp \<and> pt_self_id (n_table n) = n_id n \<and>
    distinct (all_peers (n_table n)) \<and> (\<forall>r. referrer_count r (n_table n) \<le> 2) \<and>
    length (pt_slots (n_table n)) \<le> nc_max_greedy cfg + 2 \<and>
    (\<forall>k c. store_get (n_store n) k = Some c \<longrightarrow>
       d_node_id (cd_descriptor c) = k \<and> verify_descriptor L (cd_descriptor c) = Ok ()) \<and>
    tracker_inv (n_quorum n)"
proof -
  note parts = node_reachable_parts [OF assms]
  note table = table_reachable_frame [OF parts(1)]
  show ?thesis
    using table table_length_bound [of "n_table n"] referrer_count_bound [of "n_table n"]
      node_reachable_identity [OF assms] parts(3) store_inv_get [OF parts(2)]
    by (auto simp: table_inv_def result_unit_ok)
qed

definition demo_node :: "u8 \<Rightarrow> node" where
  "demo_node b = Node_new (keypair_from_seed demo_libs (fill32 b)) (NodeConfig_new (SocketAddrV4 0 0))"

definition demo_env :: "u8 \<Rightarrow> u8 \<Rightarrow> message_kind \<Rightarrow> envelope" where
  "demo_env f t body = \<lparr>env_to = idn t, env_from = idn f, env_message_id = 1, env_ttl = 20, env_class = Normal,
     env_route_fork = False, env_body = body, env_signature = []\<rparr>"

lemma demo_node_sel [simp]:
  "n_id (demo_node b) = idn b" "n_table (demo_node b) = PeerTable_new (idn b) 3"
  "n_store (demo_node b) = DescriptorStore_new" "n_keypair (demo_node b) = keypair_from_seed demo_libs (fill32 b)"
  "n_msg_counter (demo_node b) = 0" "n_limits (demo_node b) = RateLimiter_new"
  "n_quorum (demo_node b) = QuorumTracker_new"
  by (simp_all add: demo_node_def Node_new_def NodeConfig_new_def Let_def)

lemma demo_env_sel [simp]:
  "env_to (demo_env f t body) = idn t" "env_from (demo_env f t body) = idn f" "env_ttl (demo_env f t body) = 20"
  "env_body (demo_env f t body) = body" "env_signature (demo_env f t body) = []" "env_class (demo_env f t body) = Normal"
  "env_message_id (demo_env f t body) = 1"
  by (simp_all add: demo_env_def)

lemma demo_hello_table:
  "n_table (snd (handle_envelope demo_libs order clock (demo_node 8) (idn 4) (demo_env 4 8 (Hello (demo_descriptor 4 1))))) =
    (PeerTable_new (idn 8) 3)\<lparr>pt_slots := [SlotEntry_new Greedy (idn 4) (idn 4)]\<rparr>"
  by (simp add: handle_envelope_def signature_guard_def dispatch_def handle_hello_def signed_envelope_eq Let_def
      upsert_def insert_evals)


lemma demo_node_reachable:
  "node_reachable demo_libs (keypair_from_seed demo_libs (fill32 b)) (NodeConfig_new (SocketAddrV4 0 0)) (demo_node b)"
  unfolding demo_node_def by (rule node_reach_new)

theorem node_reachable_inv_witness:
  "let n = snd (handle_envelope demo_libs (\<lambda>m. m) (0, 0) (demo_node 8) (idn 4) (demo_env 4 8 (Hello (demo_descriptor 4 1))))
   in all_peers (n_table n) = [idn 4] \<and> distinct (all_peers (n_table n)) \<and> n_id n = idn 8"
  using node_reachable_inv [OF node_reach_step [OF demo_node_reachable [of 8] node_step_envelope [where
      order = "\<lambda>m. m" and clock = "(0, 0)" and sender = "idn 4" and env = "demo_env 4 8 (Hello (demo_descriptor 4 1))"]]]
    demo_hello_table [of "\<lambda>m. m" "(0, 0)"]
  unfolding Let_def by (simp add: all_peers_def)

text \<open>What holds of everything a node sends: the facts of \<open>sent_ok_signed\<close> for its destinations.\<close>

definition genuine ::
  "'a libs_scheme \<Rightarrow> node_keypair \<Rightarrow> node_id set \<Rightarrow> (node_id \<times> message_kind) set \<Rightarrow> node_id \<times> envelope \<Rightarrow> bool" where
  "genuine L kp dests relayed = (\<lambda>(dest, e). env_to e = dest \<and> dest \<in> dests \<and>
     (env_from e = kp_node_id kp \<or> (env_from e, env_body e) \<in> relayed) \<and>
     env_signature e = ed_sign L (kp_signing kp) (envelope_signing_payload L e) \<and>
     length (env_signature e) = 64 \<and>
     ed_verify L (kp_verifying kp) (envelope_signing_payload L e) (env_signature e))"

lemma node_sends_genuine:
  assumes "ed25519_ok L" "keypair_wf L kp" "node_reachable L kp cfg n"
  shows "list_all (genuine L kp (insert from (set (all_peers (n_table n)))) {(env_from env, env_body env)})
      (fst (handle_envelope L order clock n from env))"
    "list_all (genuine L kp (set (all_peers (n_table n))) {}) (fst (repair_tick L n))"
    "list_all (genuine L kp (set (all_peers (n_table n))) {}) (fst (send_critical L n to payload))"
    "genuine L kp {peer} {} (peer, fst (make_ping L n peer))"
    "genuine L kp {peer} {} (peer, fst (make_find L n peer target))"
    "length (fst (handle_envelope L order clock n from env)) \<le> 2"
proof -
  note id = node_reachable_identity [OF assms(3)]
  have gen: "sent_ok L n D R x \<Longrightarrow> genuine L kp D R x" for D R x
    using sent_ok_signed [of L n D R "fst x" "snd x"] assms(1,2) id by (auto simp: genuine_def)
  have handle: "list_all (sent_ok L n (insert from (set (all_peers (n_table n)))) {(env_from env, env_body env)})
      (fst (handle_envelope L order clock n from env)) \<and> length (fst (handle_envelope L order clock n from env)) \<le> 2"
    using dispatch_sent [of n "insert from (set (all_peers (n_table n)))" "from" env "{(env_from env, env_body env)}" L order clock]
    by (auto simp: handle_envelope_def)
  show "list_all (genuine L kp (insert from (set (all_peers (n_table n)))) {(env_from env, env_body env)})
      (fst (handle_envelope L order clock n from env))" "length (fst (handle_envelope L order clock n from env)) \<le> 2"
    using handle gen by (auto simp: list_all_iff)
  show "list_all (genuine L kp (set (all_peers (n_table n))) {}) (fst (repair_tick L n))"
    using repair_tick_sent [of L n] gen by (auto simp: list_all_iff)
  show "list_all (genuine L kp (set (all_peers (n_table n))) {}) (fst (send_critical L n to payload))"
    using send_critical_sent [OF node_reachable_table_inv [OF assms(3)], of L to payload] gen
    by (auto simp: list_all_iff)
  show "genuine L kp {peer} {} (peer, fst (make_ping L n peer))" "genuine L kp {peer} {} (peer, fst (make_find L n peer target))"
    by (simp_all add: gen make_ping_def signed_envelope_eq make_find_eq)
qed

text \<open>
  C21: everything a reachable node sends carries the 64-byte signature that its own key makes over the
  envelope as sent, which verifies under its public key, and is addressed to the peer it is handed
  to; its sender field names the node, except that user data passed on keeps the sender and body it came with.
  In reply to an envelope at most two envelopes go out, and only to the
  sender or to peers of the table; a repair tick sends at most three and a critical send at most two
  envelopes, all to peers of the table; pings and lookups go to the peer they are made for.
\<close>

theorem node_outputs:
  assumes "ed25519_ok L" "keypair_wf L kp" "node_reachable L kp cfg n"
  shows "(\<forall>(dest, e) \<in> set (fst (handle_envelope L order clock n from env)) \<union> set (fst (repair_tick L n)) \<union>
        set (fst (send_critical L n to payload)) \<union> {(peer, fst (make_ping L n peer)), (peer, fst (make_find L n peer target))}.
      env_to e = dest \<and> env_signature e = ed_sign L (kp_signing kp) (envelope_signing_payload L e) \<and>
      length (env_signature e) = 64 \<and>
      ed_verify L (kp_verifying kp) (envelope_signing_payload L e) (env_signature e)) \<and>
    (\<forall>(dest, e) \<in> set (fst (handle_envelope L order clock n from env)).
      dest \<in> insert from (set (all_peers (n_table n))) \<and>
      (env_from e = kp_node_id kp \<or> (env_from e = env_from env \<and> env_body e = env_body env))) \<and>
    (\<forall>(dest, e) \<in> set (fst (repair_tick L n)) \<union> set (fst (send_critical L n to payload)).
      dest \<in> set (all_peers (n_table n)) \<and> env_from e = kp_node_id kp) \<and>
    env_from (fst (make_ping L n peer)) = kp_node_id kp \<and> env_from (fst (make_find L n peer target)) = kp_node_id kp \<and>
    length (fst (handle_envelope L order clock n from env)) \<le> 2 \<and>
    length (fst (repair_tick L n)) \<le> 3 \<and> length (fst (send_critical L n to payload)) \<le> 2"
proof -
  note sends = node_sends_genuine [OF assms]
  have bounds: "length (fst (repair_tick L n)) \<le> 3" "length (fst (send_critical L n to payload)) \<le> 2"
    using repair_tick_sent send_critical_sent [OF node_reachable_table_inv [OF assms(3)]] by blast+
  show ?thesis
    using sends(1) [of "from" env order clock] sends(2) sends(3) [of to payload] sends(4) [of peer]
      sends(5) [of peer target] sends(6) bounds
    unfolding list_all_iff by (intro conjI) (auto simp: genuine_def)
qed

theorem node_outputs_witness:
  "let out = fst (handle_envelope demo_libs (\<lambda>m. m) (0, 0) (demo_node 8) (idn 4) (demo_env 4 8 (Ping 5)))
   in map fst out = [idn 4] \<and> (\<forall>(dest, e) \<in> set out. length (env_signature e) = 64)"
proof -
  let ?out = "fst (handle_envelope demo_libs (\<lambda>m. m) (0, 0) (demo_node 8) (idn 4) (demo_env 4 8 (Ping 5)))"
  have "map fst ?out = [idn 4]"
    by (simp add: handle_envelope_def signature_guard_def dispatch_def handle_ping_def signed_envelope_eq)
  moreover have "\<forall>(dest, e) \<in> set ?out. length (env_signature e) = 64"
    using node_outputs [THEN conjunct1, OF demo_libs_ok keypair_wf_made(2) demo_node_reachable [of 8], of "\<lambda>m. m" "(0, 0)" "idn 4"
        "demo_env 4 8 (Ping 5)" "idn 0" "[]" "idn 0" "idn 0"] by auto
  ultimately show ?thesis unfolding Let_def by blast
qed

text \<open>
  The answer of a reachable node, and the state it moves to, do not depend on the order in which
  its descriptor hash map is iterated.
\<close>

theorem handle_envelope_order:
  assumes "node_reachable L kp cfg n" "is_order order" "is_order order'"
  shows "handle_envelope L order clock n from env = handle_envelope L order' clock n from env"
proof -
  note inv = node_reachable_parts(2) [OF assms(1)]
  have "handle_find_node L order clock n from target cnt = handle_find_node L order' clock n from target cnt" for target cnt
    unfolding handle_find_node_def using find_by_id [OF inv assms(2)] find_by_id [OF inv assms(3)]
    by (simp add: Let_def split: prod.split sum.split)
  then show ?thesis
    by (simp add: handle_envelope_def dispatch_def split: message_kind.split)
qed

theorem handle_envelope_order_witness:
  "handle_envelope demo_libs rev (0, 0) (demo_node 8) (idn 4) (demo_env 4 8 (FindNode (idn 9) 3)) =
   handle_envelope demo_libs (\<lambda>m. m) (0, 0) (demo_node 8) (idn 4) (demo_env 4 8 (FindNode (idn 9) 3))"
  by (rule handle_envelope_order [OF demo_node_reachable is_order_id(2) is_order_id(1)])

text \<open>A cached key hashes to the identifier it is cached under.\<close>

lemma cached_key:
  assumes "node_reachable L kp cfg n" "store_get (n_store n) k = Some c"
  shows "derive_node_id L (bytes_of (d_pubkey (cd_descriptor c))) = k"
  using store_inv_get [OF node_reachable_parts(2) [OF assms(1)] assms(2)] by (auto simp: verify_descriptor_ok_iff)

lemma handle_known_sender:
  assumes "store_get (n_store n) from = Some c" "env_signature e \<noteq> []"
  shows "handle_envelope L order clock n from e =
    (if vk_from_bytes L (d_pubkey (cd_descriptor c)) \<and> length (env_signature e) = 64 \<and>
        ed_verify L (d_pubkey (cd_descriptor c)) (envelope_signing_payload L e) (env_signature e)
     then dispatch L order clock n from e else ([], n))"
  using assms by (simp add: handle_envelope_def signature_guard_def verify_envelope_ok_iff)

lemma handle_unknown_sender:
  assumes "store_get (n_store n) from = None" "env_signature e \<noteq> []"
  shows "handle_envelope L order clock n from e =
    (if \<exists>d. env_body e = Hello d then dispatch L order clock n from e else ([], n))"
  using assms by (auto simp: handle_envelope_def signature_guard_def split: message_kind.split)



text \<open>The user data among what is sent, and the two counters.\<close>

definition passed_on :: "outbound \<Rightarrow> outbound" where
  "passed_on out = filter (\<lambda>(d, e). case env_body e of UserData q \<Rightarrow> True | _ \<Rightarrow> False) out"

definition counters :: "node \<Rightarrow> u64 \<times> u64" where
  "counters n = (m_messages_forwarded (n_metrics n), m_messages_dropped (n_metrics n))"

lemma counters_simps [simp]:
  "counters (count_dropped n) = (fst (counters n), snd (counters n) + 1)"
  "counters (count_forwarded n) = (fst (counters n) + 1, snd (counters n))"
  "counters (ticked n) = counters n"
  by (simp_all add: counters_def count_dropped_def count_forwarded_def)

lemma passed_on_simps [simp]:
  "passed_on [] = []" "passed_on (xs @ ys) = passed_on xs @ passed_on ys"
  "passed_on [(d, sealed L n to (FindNode t c))] = []"
  "env_body e = UserData q \<Longrightarrow> passed_on [(d, hop_envelope L n e p)] = [(d, hop_envelope L n e p)]"
  by (simp_all add: passed_on_def sealed_def hop_envelope_def sign_envelope_def Let_def)

lemma find_repair_counters:
  "counters (snd (emit_find_node_repair L n t out)) = counters n"
  "passed_on (fst (emit_find_node_repair L n t out)) = passed_on out"
  by (simp_all add: emit_find_node_repair_eq split: option.split)

text \<open>A hop is counted as forwarded or as dropped.\<close>

definition hop_outcome :: "'a libs_scheme \<Rightarrow> node \<Rightarrow> envelope \<Rightarrow> node_id \<Rightarrow> outbound \<times> (u64 \<times> u64)" where
  "hop_outcome L n e p =
     (if saturating_sub (env_ttl e) 1 = 0 then ([], fst (counters n), snd (counters n) + 1)
      else ([(p, hop_envelope L n e p)], fst (counters n) + 1, snd (counters n)))"

lemma user_hop_outcome:
  "env_body e = UserData q \<Longrightarrow>
    (passed_on (fst (send_user_hop L n e p [])), counters (snd (send_user_hop L n e p []))) = hop_outcome L n e p"
  by (simp add: send_user_hop_eq hop_outcome_def)

lemma forward_outcome:
  assumes "env_body e = UserData q" "env_to e \<noteq> n_id n"
  shows "(passed_on (fst (forward_user_data L n e [])), counters (snd (forward_user_data L n e []))) =
    (case next_hop (n_id n) (env_to e) (n_table n) of
       Forward p \<Rightarrow> hop_outcome L n e p
     | _ \<Rightarrow> (case long_jump_slot (n_table n) of
           None \<Rightarrow> ([], fst (counters n), snd (counters n) + 1)
         | Some s \<Rightarrow> if s_peer_id s \<noteq> n_id n then hop_outcome L n e (s_peer_id s)
             else ([], fst (counters n), snd (counters n) + 1)))"
proof -
  have "next_hop (n_id n) (env_to e) (n_table n) \<noteq> Deliver"
    using assms(2) by (auto simp: next_hop_def Let_def split: option.split)
  then show ?thesis
    by (auto simp: forward_user_data_def Let_def case_prod_beta' find_repair_counters
        user_hop_outcome [OF assms(1)] split: next_hop_result.split option.split)
qed

lemma hop_outcome_cases:
  assumes "hop_outcome L n e p = (out, c)"
  shows "(out = [] \<and> unat (env_ttl e) \<le> 1 \<and> c = (fst (counters n), snd (counters n) + 1)) \<or>
    (out = [(p, hop_envelope L n e p)] \<and> 1 < unat (env_ttl e) \<and> c = (fst (counters n) + 1, snd (counters n)))"
  using assms unat_saturating_sub [of "env_ttl e" 1]
  by (auto simp: hop_outcome_def word_unat_eq_iff split: if_splits)


definition demo_peer_node :: node where
  "demo_peer_node = (demo_node 8)\<lparr>n_table := (PeerTable_new (idn 8) 3)\<lparr>pt_slots := [SlotEntry_new Greedy (idn 4) (idn 4)]\<rparr>\<rparr>"

lemma demo_peer_node_sel [simp]:
  "n_id demo_peer_node = idn 8" "n_keypair demo_peer_node = keypair_from_seed demo_libs (fill32 8)"
  "n_table demo_peer_node = (PeerTable_new (idn 8) 3)\<lparr>pt_slots := [SlotEntry_new Greedy (idn 4) (idn 4)]\<rparr>"
  "counters demo_peer_node = (0, 0)"
  by (simp_all add: demo_peer_node_def) (simp add: demo_node_def Node_new_def counters_def Let_def)

lemma demo_peer_next_hop: "next_hop (n_id demo_peer_node) (idn 5) (n_table demo_peer_node) = Forward (idn 4)"
  by (simp add: next_hop_def PeerTable_new_def Let_def)

lemma demo_peer_forward:
  "handle_envelope demo_libs order clock demo_peer_node (idn 1) (demo_env 1 5 (UserData [7])) =
    ([(idn 4, hop_envelope demo_libs demo_peer_node (demo_env 1 5 (UserData [7])) (idn 4))], count_forwarded demo_peer_node)"
proof -
  have "idn 5 \<noteq> n_id demo_peer_node" by simp
  then show ?thesis
    using demo_peer_next_hop
    by (simp add: handle_envelope_def signature_guard_def dispatch_def handle_user_data_def forward_user_data_def
        send_user_hop_eq saturating_sub_def del: demo_peer_node_sel)
qed


text \<open>
  User data travels one hop.  Whatever envelope with user data a node sends, when it forwards or
  when it sends a critical message, the peer that receives it takes itself for the destination: it
  forwards nothing and answers nothing, so the destination the message was addressed to is never
  reached through another node.
\<close>

theorem user_data_one_hop:
  assumes "table_inv (n_table n)" "env_body e = UserData q" "n_id peer = hop"
    "(hop, e) \<in> set (fst (handle_envelope L order clock n from env)) \<union> set (fst (send_critical L n to p))"
  shows "fst (handle_envelope L order' clock' peer sender e) = []"
proof -
  have "env_to e = hop"
    using assms(4) dispatch_sent [OF subset_insertI insertI1 singletonI, of L n "from" env order clock]
      send_critical_sent [OF assms(1), of L to p]
    by (auto simp: handle_envelope_def list_all_iff sent_ok_def split: if_splits)
  then show ?thesis
    using assms(2,3)
    by (auto simp: handle_envelope_def dispatch_def handle_user_data_def split: prod.split quorum_result.split)
qed

theorem user_data_one_hop_witness:
  "let (hop, e) = hd (fst (handle_envelope demo_libs (\<lambda>m. m) (0, 0) demo_peer_node (idn 1) (demo_env 1 5 (UserData [7]))))
   in hop = idn 4 \<and> env_to e = idn 4 \<and> fst (handle_envelope demo_libs (\<lambda>m. m) (0, 0) (demo_node 4) (idn 8) e) = []"
proof -
  let ?e = "hop_envelope demo_libs demo_peer_node (demo_env 1 5 (UserData [7])) (idn 4)"
  have inv: "table_inv (n_table demo_peer_node)"
    using demo_hello_table [of "\<lambda>m. m" "(0, 0)"] node_reachable_table_inv [OF node_reach_step [OF demo_node_reachable
        [of 8] node_step_envelope [where order = "\<lambda>m. m" and clock = "(0, 0)" and sender = "idn 4"
          and env = "demo_env 4 8 (Hello (demo_descriptor 4 1))"]]] by simp
  have sel: "env_body ?e = UserData [7]" "env_to ?e = idn 4"
    by (simp_all add: hop_envelope_def sign_envelope_def Let_def)
  have "(idn 4, ?e) \<in> set (fst (handle_envelope demo_libs (\<lambda>m. m) (0, 0) demo_peer_node (idn 1)
      (demo_env 1 5 (UserData [7])))) \<union> set (fst (send_critical demo_libs demo_peer_node (idn 5) []))"
    unfolding demo_peer_forward by simp
  from user_data_one_hop [OF inv sel(1) demo_node_sel(1) this] sel(2) show ?thesis
    unfolding demo_peer_forward by simp
qed

text \<open>
  An unsigned \<^verbatim>\<open>FoundNodes\<close> from anyone puts any identifier it names into the peer table, as long as
  there is a free greedy slot and referrer quota: the identifier may be the node's own, and the
  descriptor that comes with it may fail verification, in which case the node holds a peer for which
  it has stored nothing.
\<close>

theorem found_nodes_unverified:
  assumes "env_signature env = []" "env_body env = FoundNodes [c]"
    "d_node_id (c_descriptor c) \<notin> set (all_peers (n_table n))"
    "referrer_count (c_referrer_id c) (n_table n) < 2"
    "kind_count Greedy (n_table n) < pt_max_greedy (n_table n)"
    "handle_envelope L order clock n from env = (out, n')"
  shows "all_peers (n_table n') = all_peers (n_table n) @ [d_node_id (c_descriptor c)] \<and> out = [] \<and>
    (\<not> is_ok (verify_descriptor L (c_descriptor c)) \<longrightarrow> n_store n' = n_store n)"
proof -
  let ?e = "SlotEntry_new Greedy (d_node_id (c_descriptor c)) (c_referrer_id c)"
  have "try_insert (n_table n) ?e = (True, (n_table n)\<lparr>pt_slots := pt_slots (n_table n) @ [?e]\<rparr>)"
    using assms(3-5)
    by (simp add: try_insert_def try_insert_greedy_def referrer_quota_exceeded_def referrer_count_def greedy_count)
  moreover have "snd (upsert L (n_store n) (c_descriptor c) None) = n_store n"
    if "\<not> is_ok (verify_descriptor L (c_descriptor c))"
    using that by (auto simp: upsert_def split: sum.splits)
  ultimately show ?thesis
    using assms(1,2,6)
    by (auto simp: handle_envelope_def signature_guard_def dispatch_def all_peers_def Let_def)
qed

theorem found_nodes_unverified_witness:
  "let c = \<lparr>c_descriptor = (demo_descriptor 8 1)\<lparr>d_signature := []\<rparr>, c_referrer_id = idn 3\<rparr>;
       n' = snd (handle_envelope demo_libs (\<lambda>m. m) (0, 0) (demo_node 8) (idn 4) (demo_env 4 8 (FoundNodes [c])))
   in verify_descriptor demo_libs (c_descriptor c) \<noteq> Ok () \<and> n_id n' = idn 8 \<and> idn 8 \<in> set (all_peers (n_table n'))"
proof -
  let ?c = "\<lparr>c_descriptor = (demo_descriptor 8 1)\<lparr>d_signature := []\<rparr>, c_referrer_id = idn 3\<rparr>"
  let ?h = "handle_envelope demo_libs (\<lambda>m. m) (0, 0) (demo_node 8) (idn 4) (demo_env 4 8 (FoundNodes [?c]))"
  have "all_peers (n_table (snd ?h)) = [idn 8]"
    using found_nodes_unverified [of "demo_env 4 8 (FoundNodes [?c])" ?c "demo_node 8" demo_libs "\<lambda>m. m" "(0, 0)" "idn 4"
        "fst ?h" "snd ?h"]
    by (simp add: PeerTable_new_def all_peers_def table_defs)
  moreover have "n_id (snd ?h) = idn 8"
    using handle_envelope_moves [of demo_libs "demo_node 8" "\<lambda>m. m" "(0, 0)" "idn 4"] by (simp add: node_moves_def)
  moreover have "\<not> is_ok (verify_descriptor demo_libs (c_descriptor ?c))" by (simp add: verify_descriptor_ok_iff)
  then have "verify_descriptor demo_libs (c_descriptor ?c) \<noteq> Ok ()" by auto
  ultimately show ?thesis unfolding Let_def by simp
qed

end
