(* ===== verification/Simulator.thy ===== *)
theory Simulator
  imports Node_Props
begin

section \<open>The network simulator\<close>

text \<open>
  \<^verbatim>\<open>zona-p2p-sim/src/lib.rs\<close>: a broker that owns the nodes and a queue of messages in flight and
  delivers them in rounds, with partitions and random loss.  The generator is the \<^verbatim>\<open>rand\<close> crate's, a
  parameter with its state; the drop probability, an \<^verbatim>\<open>f64\<close> that is only compared and clamped, is a
  rational.  The clock of each delivery and the iteration orders of the hash maps are arguments.
  Indexing a node that is not there panics, which is the result \<open>None\<close>.
\<close>

record 'g rng_lib =
  seed_from_u64 :: "u64 \<Rightarrow> 'g"
  gen_f64 :: "'g \<Rightarrow> rat \<times> 'g"

record in_flight =
  fl_to :: node_id
  fl_from :: node_id
  fl_envelope :: envelope

record 'g sim =
  sim_nodes :: "(node_id, node) hash_map"
  sim_queue :: "in_flight list"
  sim_rng :: 'g
  sim_drop_prob :: rat
  sim_partitioned :: "(node_id \<times> node_id) list"
  sim_ticks :: u64

definition Sim_new :: "'g rng_lib \<Rightarrow> u64 \<Rightarrow> rat \<Rightarrow> 'g sim" where
  "Sim_new R seed drop_prob =
     \<lparr>sim_nodes = [], sim_queue = [], sim_rng = seed_from_u64 R seed, sim_drop_prob = drop_prob,
      sim_partitioned = [], sim_ticks = 0\<rparr>"

text \<open>\<^verbatim>\<open>"127.0.0.1:0".parse()\<close>\<close>

definition localhost :: socket_addr where
  "localhost = SocketAddrV4 0x7F000001 0"

definition add_node :: "'g sim \<Rightarrow> node_keypair \<Rightarrow> node_id \<times> 'g sim" where
  "add_node s keypair =
     (let id = kp_node_id keypair;
          cfg = (NodeConfig_new localhost)\<lparr>nc_epoch_seed := sim_ticks s\<rparr>;
          node = Node_new keypair cfg
      in (id, s\<lparr>sim_nodes := hm_insert id node (sim_nodes s)\<rparr>))"

definition enqueue :: "'g sim \<Rightarrow> node_id \<Rightarrow> node_id \<Rightarrow> message_kind \<Rightarrow> 'g sim" where
  "enqueue s from to body =
     (case hm_get (sim_nodes s) from of
        None \<Rightarrow> s
      | Some node \<Rightarrow>
          let env = \<lparr>env_to = to, env_from = from,
                     env_message_id = m_messages_forwarded (n_metrics node) + 1, env_ttl = 20,
                     env_class = Normal, env_route_fork = False, env_body = body, env_signature = []\<rparr>
          in s\<lparr>sim_queue := sim_queue s @ [\<lparr>fl_to = to, fl_from = from, fl_envelope = env\<rparr>]\<rparr>)"

definition introduce :: "'a libs_scheme \<Rightarrow> 'g sim \<Rightarrow> node_id \<Rightarrow> node_id \<Rightarrow> 'g sim option" where
  "introduce L s a b =
     (case hm_get (sim_nodes s) a of
        None \<Rightarrow> None
      | Some node_a \<Rightarrow>
          (case hm_get (sim_nodes s) b of
             None \<Rightarrow> None
           | Some node_b \<Rightarrow>
               let desc_a = own_descriptor L node_a reach_default;
                   desc_b = own_descriptor L node_b reach_default
               in Some (enqueue (enqueue s a b (Hello desc_a)) b a (Hello desc_b))))"

definition partition_groups :: "'g sim \<Rightarrow> node_id list \<Rightarrow> node_id list \<Rightarrow> 'g sim" where
  "partition_groups s group_a group_b =
     s\<lparr>sim_partitioned := sim_partitioned s @
        concat (map (\<lambda>a. concat (map (\<lambda>b. [(a, b), (b, a)]) group_b)) group_a)\<rparr>"

definition heal_partition :: "'g sim \<Rightarrow> 'g sim" where
  "heal_partition s = s\<lparr>sim_partitioned := []\<rparr>"

definition is_partitioned :: "'g sim \<Rightarrow> node_id \<Rightarrow> node_id \<Rightarrow> bool" where
  "is_partitioned s a b \<longleftrightarrow> (a, b) \<in> set (sim_partitioned s)"

text \<open>
  One round: the messages drained from the queue, each with the clock of its delivery, the \<open>i\<close>-th
  of the round.
\<close>

definition deliver ::
  "'a libs_scheme \<Rightarrow> store_order \<Rightarrow> clock \<Rightarrow> 'g sim \<Rightarrow> in_flight \<Rightarrow> 'g sim" where
  "deliver L order clock s msg =
     (case hm_get (sim_nodes s) (fl_to msg) of
        None \<Rightarrow> s
      | Some node \<Rightarrow>
          let (responses, node) = handle_envelope L order clock node (fl_from msg) (fl_envelope msg)
          in s\<lparr>sim_nodes := hm_insert (fl_to msg) node (sim_nodes s),
               sim_queue := sim_queue s @
                 map (\<lambda>(next_hop, env). \<lparr>fl_to = next_hop, fl_from = fl_to msg, fl_envelope = env\<rparr>) responses\<rparr>)"

fun step_loop ::
  "'a libs_scheme \<Rightarrow> 'g rng_lib \<Rightarrow> store_order \<Rightarrow> (nat \<Rightarrow> clock) \<Rightarrow> nat \<Rightarrow> 'g sim \<Rightarrow> in_flight list \<Rightarrow> 'g sim" where
  "step_loop L R order clocks i s [] = s"
| "step_loop L R order clocks i s (msg # batch) =
     (if is_partitioned s (fl_from msg) (fl_to msg) then step_loop L R order clocks i s batch
      else
        let (x, rng) = gen_f64 R (sim_rng s);
            s = s\<lparr>sim_rng := rng\<rparr>
        in if x < sim_drop_prob s then step_loop L R order clocks i s batch
           else step_loop L R order clocks (Suc i) (deliver L order (clocks i) s msg) batch)"

definition sim_step ::
  "'a libs_scheme \<Rightarrow> 'g rng_lib \<Rightarrow> store_order \<Rightarrow> (nat \<Rightarrow> clock) \<Rightarrow> 'g sim \<Rightarrow> 'g sim" where
  "sim_step L R order clocks s =
     (let s = s\<lparr>sim_ticks := sim_ticks s + 1\<rparr>;
          batch = sim_queue s
      in step_loop L R order clocks 0 (s\<lparr>sim_queue := []\<rparr>) batch)"

fun run_steps ::
  "'a libs_scheme \<Rightarrow> 'g rng_lib \<Rightarrow> store_order \<Rightarrow> (nat \<Rightarrow> nat \<Rightarrow> clock) \<Rightarrow> nat \<Rightarrow> 'g sim \<Rightarrow> 'g sim" where
  "run_steps L R order clocks 0 s = s"
| "run_steps L R order clocks (Suc n) s = run_steps L R order clocks n (sim_step L R order (clocks n) s)"

fun repair_nodes :: "'a libs_scheme \<Rightarrow> 'g sim \<Rightarrow> node_id list \<Rightarrow> 'g sim option" where
  "repair_nodes L s [] = Some s"
| "repair_nodes L s (nid # ids) =
     (case hm_get (sim_nodes s) nid of
        None \<Rightarrow> None
      | Some node \<Rightarrow>
          let (outgoing, node) = repair_tick L node
          in repair_nodes L
               (s\<lparr>sim_nodes := hm_insert nid node (sim_nodes s),
                  sim_queue := sim_queue s @
                    map (\<lambda>(to, env). \<lparr>fl_to = to, fl_from = nid, fl_envelope = env\<rparr>) outgoing\<rparr>) ids)"

type_synonym node_order = "(node_id, node) hash_map \<Rightarrow> (node_id \<times> node) list"

definition repair_all :: "'a libs_scheme \<Rightarrow> node_order \<Rightarrow> 'g sim \<Rightarrow> 'g sim option" where
  "repair_all L order s = repair_nodes L s (map fst (order (sim_nodes s)))"

definition count_healthy :: "'g sim \<Rightarrow> nat" where
  "count_healthy s = count_if (\<lambda>(_, n). \<not> in_recovery (n_table n)) (sim_nodes s)"

definition sim_node :: "'g sim \<Rightarrow> node_id \<Rightarrow> node option" where
  "sim_node s nid = hm_get (sim_nodes s) nid"

definition node_count :: "'g sim \<Rightarrow> nat" where
  "node_count s = length (sim_nodes s)"

definition kill_node :: "'g sim \<Rightarrow> node_id \<Rightarrow> bool \<times> 'g sim" where
  "kill_node s nid = (hm_get (sim_nodes s) nid \<noteq> None, s\<lparr>sim_nodes := hm_remove nid (sim_nodes s)\<rparr>)"

definition set_drop_prob :: "'g sim \<Rightarrow> rat \<Rightarrow> 'g sim" where
  "set_drop_prob s p = s\<lparr>sim_drop_prob := (if p < 0 then 0 else if 1 < p then 1 else p)\<rparr>"

subsection \<open>Read-only routes\<close>

text \<open>The loops with a time to live of 30 and 20 as recursions on the time to live left.\<close>

fun trace_loop ::
  "'g sim \<Rightarrow> node_id \<Rightarrow> nat \<Rightarrow> node_id \<Rightarrow> node_id set \<Rightarrow> node_id list \<Rightarrow> node_id list" where
  "trace_loop s dst 0 current visited path = path"
| "trace_loop s dst (Suc ttl) current visited path =
     (if current = dst then path
      else case hm_get (sim_nodes s) current of
          None \<Rightarrow> path
        | Some node \<Rightarrow>
            (case next_hop current dst (n_table node) of
               Forward next \<Rightarrow>
                 if next \<in> visited then path
                 else trace_loop s dst ttl next (insert next visited) (path @ [next])
             | Deliver \<Rightarrow> path
             | LocalMinimum \<Rightarrow> path))"

definition trace_route :: "'g sim \<Rightarrow> node_id \<Rightarrow> node_id \<Rightarrow> node_id list" where
  "trace_route s src dst = trace_loop s dst 30 src {src} [src]"

fun can_route_loop :: "'g sim \<Rightarrow> node_id \<Rightarrow> nat \<Rightarrow> node_id \<Rightarrow> bool option" where
  "can_route_loop s dst 0 current = Some (current = dst)"
| "can_route_loop s dst (Suc ttl) current =
     (if current = dst then Some True
      else case hm_get (sim_nodes s) current of
          None \<Rightarrow> None
        | Some node \<Rightarrow>
            (case next_hop current dst (n_table node) of
               Forward next \<Rightarrow> can_route_loop s dst ttl next
             | Deliver \<Rightarrow> Some True
             | LocalMinimum \<Rightarrow> Some False))"

definition can_route :: "'g sim \<Rightarrow> node_id \<Rightarrow> node_id \<Rightarrow> bool option" where
  "can_route s src dst = can_route_loop s dst 20 src"

subsection \<open>Walks\<close>

text \<open>The nodes met when a hop function is followed for at most \<open>k\<close> hops.\<close>

fun walk :: "('n \<Rightarrow> 'n option) \<Rightarrow> nat \<Rightarrow> 'n \<Rightarrow> 'n list" where
  "walk h 0 a = [a]"
| "walk h (Suc k) a = a # (case h a of None \<Rightarrow> [] | Some b \<Rightarrow> walk h k b)"

lemma walk_nonempty [simp]: "walk h k a \<noteq> []"
  by (cases k) simp_all

lemma hd_walk [simp]: "hd (walk h k a) = a"
  by (cases k) simp_all

lemma nth_walk_0 [simp]: "walk h k a ! 0 = a"
  by (cases k) simp_all

lemma length_walk: "length (walk h k a) \<le> Suc k"
  by (induction k arbitrary: a) (simp_all split: option.split)

lemma walk_take: "k \<le> m \<Longrightarrow> walk h k a = take (Suc k) (walk h m a)"
proof (induction k arbitrary: m a)
  case 0
  then show ?case by (cases m) simp_all
next
  case (Suc k)
  then obtain m' where "m = Suc m'" "k \<le> m'" by (cases m) auto
  then show ?case using Suc.IH [of m'] by (cases "h a") simp_all
qed

lemma walk_hops: "Suc i < length (walk h k a) \<Longrightarrow> h (walk h k a ! i) = Some (walk h k a ! Suc i)"
proof (induction k arbitrary: a i)
  case (Suc k)
  show ?case
  proof (cases "h a")
    case (Some b)
    then show ?thesis using Suc by (cases i) auto
  qed (use Suc.prems in simp)
qed simp

lemma walk_end: "length (walk h k a) < Suc k \<Longrightarrow> h (last (walk h k a)) = None"
  by (induction k arbitrary: a) (auto split: option.splits)

lemma walk_stuck: "h (last (walk h k a)) = None \<Longrightarrow> k \<le> m \<Longrightarrow> walk h m a = walk h k a"
proof (induction k arbitrary: m a)
  case 0
  then show ?case by (cases m) simp_all
next
  case (Suc k)
  then obtain m' where "m = Suc m'" "k \<le> m'" by (cases m) auto
  then show ?case using Suc.IH [of _ m'] Suc.prems(1) by (cases "h a") simp_all
qed

context greedy_routing
begin

lemma walk_bound: "x \<in> set (walk (\<lambda>a. hop a t) k a) \<Longrightarrow> dist x t \<le> dist a t"
proof (induction k arbitrary: a)
  case (Suc k)
  show ?case
  proof (cases "hop a t")
    case (Some b)
    then show ?thesis using Suc hop_closer [OF Some] by fastforce
  qed (use Suc.prems in simp)
qed simp

lemma walk_descends: "sorted_wrt (\<lambda>a b. dist b t < dist a t) (walk (\<lambda>a. hop a t) k a)"
proof (induction k arbitrary: a)
  case (Suc k)
  show ?case
  proof (cases "hop a t")
    case (Some b)
    have "dist x t < dist a t" if "x \<in> set (walk (\<lambda>a. hop a t) k b)" for x
      using walk_bound [OF that] hop_closer [OF Some] by simp
    then show ?thesis using Some Suc.IH [of b] by simp
  qed simp
qed simp

lemma walk_distinct: "distinct (walk (\<lambda>a. hop a t) k a)"
  using walk_descends by (rule descends_distinct)

text \<open>A bounded walk reaches its target if and only if a longer one does within the bound.\<close>

lemma walk_reaches:
  assumes "k \<le> m"
  shows "last (walk (\<lambda>a. hop a t) k a) = t \<longleftrightarrow>
    last (walk (\<lambda>a. hop a t) m a) = t \<and> length (walk (\<lambda>a. hop a t) m a) \<le> Suc k"
proof
  assume "last (walk (\<lambda>a. hop a t) k a) = t"
  then show "last (walk (\<lambda>a. hop a t) m a) = t \<and> length (walk (\<lambda>a. hop a t) m a) \<le> Suc k"
    using walk_stuck [of "\<lambda>a. hop a t" k a m] hop_from_target length_walk [of _ k a] assms by auto
next
  assume "last (walk (\<lambda>a. hop a t) m a) = t \<and> length (walk (\<lambda>a. hop a t) m a) \<le> Suc k"
  then show "last (walk (\<lambda>a. hop a t) k a) = t" using walk_take [OF assms, of "\<lambda>a. hop a t" a] by simp
qed

end

definition sim_hop :: "'g sim \<Rightarrow> node_id \<Rightarrow> node_id \<Rightarrow> node_id option" where
  "sim_hop s dst a = hop_via (\<lambda>a. map_option n_table (hm_get (sim_nodes s) a)) a dst"

lemma sim_hop_eq:
  "sim_hop s dst a =
    (case hm_get (sim_nodes s) a of None \<Rightarrow> None
     | Some n \<Rightarrow> (case next_hop a dst (n_table n) of Forward b \<Rightarrow> Some b | Deliver \<Rightarrow> None | LocalMinimum \<Rightarrow> None))"
  by (simp add: sim_hop_def hop_via_def split: option.split)

lemma sim_hop_target [simp]: "sim_hop s dst dst = None"
  by (simp add: sim_hop_def gr.hop_from_target)

lemma walk_at_target [simp]: "walk (sim_hop s dst) k dst = [dst]"
  by (cases k) simp_all

lemma trace_loop_walk:
  assumes "sorted_wrt (\<lambda>a b. xor_distance b dst < xor_distance a dst) (p @ [c])"
  shows "trace_loop s dst k c (set (p @ [c])) (p @ [c]) = p @ walk (sim_hop s dst) k c"
  using assms
proof (induction k arbitrary: p c)
  case (Suc k)
  show ?case
  proof (cases "sim_hop s dst c")
    case None
    then show ?thesis by (auto simp: sim_hop_eq split: option.splits next_hop_result.splits)
  next
    case (Some b)
    then have hop: "hop_via (\<lambda>a. map_option n_table (hm_get (sim_nodes s) a)) c dst = Some b"
      by (simp add: sim_hop_def)
    note fresh = gr.hop_fresh [OF Suc.prems hop]
    have "c \<noteq> dst" using Some by auto
    moreover obtain n where "hm_get (sim_nodes s) c = Some n" "next_hop c dst (n_table n) = Forward b"
      using Some by (auto simp: sim_hop_eq split: option.splits next_hop_result.splits)
    moreover have "insert b (set (p @ [c])) = set ((p @ [c]) @ [b])" by auto
    then have "trace_loop s dst k b (insert b (set (p @ [c]))) ((p @ [c]) @ [b]) =
        (p @ [c]) @ walk (sim_hop s dst) k b"
      using Suc.IH [of "p @ [c]" b] fresh(2) by simp
    ultimately show ?thesis using fresh(1) Some by simp
  qed
qed simp

lemma trace_route_walk: "trace_route s src dst = walk (sim_hop s dst) 30 src"
  using trace_loop_walk [of dst "[]" src s 30] by (simp add: trace_route_def)

lemma can_route_walk:
  "can_route_loop s dst k c = Some True \<longleftrightarrow> last (walk (sim_hop s dst) k c) = dst"
proof (induction k arbitrary: c)
  case (Suc k)
  show ?case
  proof (cases "c = dst")
    case False
    then have "next_hop c dst t \<noteq> Deliver" for t by (auto simp: next_hop_def Let_def split: option.split)
    then show ?thesis using False Suc.IH
      by (auto simp: sim_hop_eq split: option.split next_hop_result.split)
  qed simp
qed simp

subsection \<open>Reachable simulations\<close>

inductive sim_reachable ::
  "'a libs_scheme \<Rightarrow> 'g rng_lib \<Rightarrow> store_order \<Rightarrow> 'g sim \<Rightarrow> bool" for L R order where
  sim_reach_new: "sim_reachable L R order (Sim_new R seed p)"
| sim_reach_add: "sim_reachable L R order s \<Longrightarrow> keypair_wf L kp \<Longrightarrow> sim_reachable L R order (snd (add_node s kp))"
| sim_reach_introduce: "sim_reachable L R order s \<Longrightarrow> introduce L s a b = Some s' \<Longrightarrow> sim_reachable L R order s'"
| sim_reach_enqueue: "sim_reachable L R order s \<Longrightarrow> sim_reachable L R order (enqueue s a b body)"
| sim_reach_partition: "sim_reachable L R order s \<Longrightarrow> sim_reachable L R order (partition_groups s as bs)"
| sim_reach_heal: "sim_reachable L R order s \<Longrightarrow> sim_reachable L R order (heal_partition s)"
| sim_reach_step: "sim_reachable L R order s \<Longrightarrow> sim_reachable L R order (sim_step L R order clocks s)"
| sim_reach_repair: "sim_reachable L R order s \<Longrightarrow> is_order norder \<Longrightarrow> repair_all L norder s = Some s' \<Longrightarrow>
    sim_reachable L R order s'"
| sim_reach_kill: "sim_reachable L R order s \<Longrightarrow> sim_reachable L R order (snd (kill_node s nid))"
| sim_reach_drop: "sim_reachable L R order s \<Longrightarrow> sim_reachable L R order (set_drop_prob s p)"

text \<open>
  Every node is filed under its own identity and is in a reachable state of the node machine, and
  no message in flight is handed to anyone but its addressee.
\<close>

definition node_home :: "'a libs_scheme \<Rightarrow> node_id \<Rightarrow> node \<Rightarrow> bool" where
  "node_home L k n \<longleftrightarrow>
     (\<exists>kp cfg. node_reachable L kp cfg n \<and> keypair_wf L kp \<and> kp_node_id kp = k \<and> nc_max_greedy cfg = 3)"

definition sim_inv :: "'a libs_scheme \<Rightarrow> 'g sim \<Rightarrow> bool" where
  "sim_inv L s \<longleftrightarrow> hm_ok (sim_nodes s) \<and> (\<forall>k n. hm_get (sim_nodes s) k = Some n \<longrightarrow> node_home L k n) \<and>
     list_all (\<lambda>m. env_to (fl_envelope m) = fl_to m) (sim_queue s)"

lemma sim_invD: "sim_inv L s \<Longrightarrow> hm_get (sim_nodes s) k = Some n \<Longrightarrow> node_home L k n"
  by (simp add: sim_inv_def)

lemma node_home_step: "node_home L k n \<Longrightarrow> node_step L n n' \<Longrightarrow> node_home L k n'"
  unfolding node_home_def by (blast intro: node_reach_step)

lemma node_home_table: "node_home L k n \<Longrightarrow> table_inv (n_table n)"
  unfolding node_home_def by (blast intro: node_reachable_table_inv)

lemma sim_inv_update:
  assumes "sim_inv L s" "hm_get (sim_nodes s) k = Some n" "node_step L n n'"
    "list_all (\<lambda>m. env_to (fl_envelope m) = fl_to m) q"
  shows "sim_inv L (s\<lparr>sim_nodes := hm_insert k n' (sim_nodes s), sim_queue := sim_queue s @ q\<rparr>)"
  using assms node_home_step [OF sim_invD [OF assms(1,2)] assms(3)] by (simp add: sim_inv_def)

lemma sim_inv_frame [simp]:
  "sim_inv L (s\<lparr>sim_ticks := t\<rparr>) \<longleftrightarrow> sim_inv L s" "sim_inv L (s\<lparr>sim_rng := g\<rparr>) \<longleftrightarrow> sim_inv L s"
  "sim_inv L (s\<lparr>sim_partitioned := ps\<rparr>) \<longleftrightarrow> sim_inv L s" "sim_inv L (s\<lparr>sim_drop_prob := p\<rparr>) \<longleftrightarrow> sim_inv L s"
  by (simp_all add: sim_inv_def)

lemma outbound_addressed:
  "list_all (sent_ok L n D R) out \<Longrightarrow>
   list_all (\<lambda>m. env_to (fl_envelope m) = fl_to m) (map (\<lambda>(to, env). \<lparr>fl_to = to, fl_from = f, fl_envelope = env\<rparr>) out)"
  by (induction out) (auto simp: sent_ok_def)

lemma deliver_inv:
  assumes "sim_inv L s" shows "sim_inv L (deliver L order clock s msg)"
proof (cases "hm_get (sim_nodes s) (fl_to msg)")
  case (Some n)
  let ?h = "handle_envelope L order clock n (fl_from msg) (fl_envelope msg)"
  have "list_all (sent_ok L n (insert (fl_from msg) (set (all_peers (n_table n)))) {(env_from (fl_envelope msg), env_body (fl_envelope msg))}) (fst ?h)"
    using dispatch_sent [OF subset_insertI insertI1 singletonI, of L n "fl_from msg" "fl_envelope msg" order clock]
    by (simp add: handle_envelope_def)
  from sim_inv_update [OF assms Some node_step_envelope [where order = order and clock = clock and sender = "fl_from msg"
        and env = "fl_envelope msg"] outbound_addressed [OF this, where f = "fl_to msg"]]
  show ?thesis by (simp add: deliver_def Some case_prod_beta' Let_def)
qed (use assms in \<open>simp add: deliver_def\<close>)

lemma step_loop_inv: "sim_inv L s \<Longrightarrow> sim_inv L (step_loop L R order clocks i s batch)"
  by (induction batch arbitrary: i s) (simp_all add: Let_def case_prod_beta' deliver_inv)

lemma sim_step_inv: "sim_inv L s \<Longrightarrow> sim_inv L (sim_step L R order clocks s)"
  unfolding sim_step_def Let_def by (intro step_loop_inv) (simp add: sim_inv_def)

lemma enqueue_inv: "sim_inv L s \<Longrightarrow> sim_inv L (enqueue s a b body)"
  by (auto simp: enqueue_def sim_inv_def Let_def split: option.split)

lemma repair_nodes_inv:
  "sim_inv L s \<Longrightarrow> repair_nodes L s ids = Some s' \<Longrightarrow> sim_inv L s'"
proof (induction ids arbitrary: s)
  case (Cons k ids)
  then obtain n where n: "hm_get (sim_nodes s) k = Some n" by (auto split: option.splits)
  note sent = repair_tick_sent [of L n]
  from sim_inv_update [OF Cons.prems(1) n node_step_repair outbound_addressed [OF conjunct1 [OF sent], where f = k]]
  show ?case using Cons.IH Cons.prems(2) n by (simp add: case_prod_beta' Let_def)
qed simp

text \<open>A repair round finds every node it looks up.\<close>

lemma repair_nodes_total:
  "set ids \<subseteq> hm_keys (sim_nodes s) \<Longrightarrow> \<exists>s'. repair_nodes L s ids = Some s'"
proof (induction ids arbitrary: s)
  case (Cons k ids)
  then obtain n where n: "hm_get (sim_nodes s) k = Some n" by (auto simp: hm_keys_get)
  have "set ids \<subseteq> insert k (hm_keys (sim_nodes s))" using Cons.prems by auto
  then show ?case using Cons.IH n by (simp add: case_prod_beta' Let_def)
qed simp

lemma sim_reachable_inv: "sim_reachable L R order s \<Longrightarrow> sim_inv L s"
proof (induction rule: sim_reachable.induct)
  case (sim_reach_new seed p)
  show ?case by (simp add: sim_inv_def Sim_new_def)
next
  case (sim_reach_add s kp)
  let ?cfg = "(NodeConfig_new localhost)\<lparr>nc_epoch_seed := sim_ticks s\<rparr>"
  have "node_home L (kp_node_id kp) (Node_new kp ?cfg)"
    unfolding node_home_def using sim_reach_add(2) node_reach_new [of L kp ?cfg]
    by (intro exI [of _ kp] exI [of _ ?cfg]) (simp add: NodeConfig_new_def)
  with sim_reach_add.IH show ?case by (simp add: sim_inv_def add_node_def Let_def)
next
  case (sim_reach_introduce s a b s')
  then show ?case by (auto simp: introduce_def Let_def enqueue_inv split: option.splits)
next
  case (sim_reach_repair s norder s')
  then show ?case unfolding repair_all_def by (blast intro: repair_nodes_inv)
qed (simp_all add: sim_step_inv enqueue_inv partition_groups_def heal_partition_def set_drop_prob_def,
  simp add: sim_inv_def kill_node_def)

subsection \<open>Partitions\<close>

lemma is_partitioned_frame [simp]:
  "is_partitioned (s\<lparr>sim_rng := g\<rparr>) = is_partitioned s" "is_partitioned (s\<lparr>sim_queue := q\<rparr>) = is_partitioned s"
  "is_partitioned (s\<lparr>sim_ticks := t\<rparr>) = is_partitioned s"
  "is_partitioned (deliver L order clock s msg) = is_partitioned s"
  by (auto simp: is_partitioned_def deliver_def fun_eq_iff Let_def case_prod_beta' split: option.split)

lemma step_loop_blocked:
  assumes "\<And>m. m \<in> set batch \<Longrightarrow> \<not> keep m \<Longrightarrow> is_partitioned s (fl_from m) (fl_to m)"
  shows "step_loop L R order clocks i s batch = step_loop L R order clocks i s (filter keep batch)"
  using assms
proof (induction batch arbitrary: i s)
  case (Cons m batch)
  then have "step_loop L R order clocks i s' batch = step_loop L R order clocks i s' (filter keep batch)"
    if "is_partitioned s' = is_partitioned s" for i s'
    using that by (intro Cons.IH) auto
  then show ?case using Cons.prems [of m] by (auto simp: Let_def case_prod_beta')
qed simp

lemma is_partitioned_loop [simp]:
  "is_partitioned (step_loop L R order clocks i s batch) = is_partitioned s"
  by (induction batch arbitrary: i s) (simp_all add: Let_def case_prod_beta')

definition crosses :: "node_id list \<Rightarrow> node_id list \<Rightarrow> in_flight \<Rightarrow> bool" where
  "crosses as bs m \<longleftrightarrow> fl_from m \<in> set as \<and> fl_to m \<in> set bs \<or> fl_from m \<in> set bs \<and> fl_to m \<in> set as"

lemma partition_groups_blocks:
  "crosses as bs m \<Longrightarrow> is_partitioned (partition_groups s as bs) (fl_from m) (fl_to m)"
  by (auto simp: crosses_def is_partitioned_def partition_groups_def)

subsection \<open>Introductions\<close>

lemma upsert_verified:
  assumes "verify_descriptor L d = Ok ()"
  shows "\<exists>u. fst (upsert L s d h) = Inr u" "store_get (snd (upsert L s d h)) (d_node_id d) \<noteq> None"
  using assms upsert_get [of L s d h "d_node_id d"]
  by (auto simp: upsert_def accepted_for_def Let_def split: option.split)

lemma own_descriptor_verifies:
  assumes "ed25519_ok L" "node_home L k n"
  shows "verify_descriptor L (own_descriptor L n r) = Ok ()" "d_node_id (own_descriptor L n r) = k"
proof -
  obtain kp cfg where kp: "node_reachable L kp cfg n" "keypair_wf L kp" "kp_node_id kp = k"
    using assms(2) unfolding node_home_def by blast
  from node_reachable_identity [OF kp(1)] kp(3) have n: "n_id n = k" "n_keypair n = kp" by auto
  show "verify_descriptor L (own_descriptor L n r) = Ok ()"
    unfolding own_descriptor_def n(2) using kp n by (intro signed_by_keypair assms(1) kp(2)) simp_all
  show "d_node_id (own_descriptor L n r) = k" using n by (simp add: own_descriptor_def sign_descriptor_def Let_def)
qed

text \<open>Room for a peer that refers itself.\<close>

definition has_room_for :: "node \<Rightarrow> node_id \<Rightarrow> bool" where
  "has_room_for n p \<longleftrightarrow> p \<notin> set (all_peers (n_table n)) \<and> referrer_count p (n_table n) < 2 \<and>
     kind_count Greedy (n_table n) < pt_max_greedy (n_table n)"

lemma hello_admits:
  assumes "env_signature env = []" "env_body env = Hello d" "verify_descriptor L d = Ok ()" "d_node_id d = p"
    "has_room_for n p"
  shows "p \<in> set (all_peers (n_table (snd (handle_envelope L order clock n p env)))) \<and>
    store_get (n_store (snd (handle_envelope L order clock n p env))) p \<noteq> None"
proof -
  obtain u where u: "upsert L (n_store n) d None = (Inr u, snd (upsert L (n_store n) d None))"
    using upsert_verified(1) [OF assms(3)] by (metis prod.collapse)
  have t: "try_insert (n_table n) (SlotEntry_new Greedy p p) =
      (True, (n_table n)\<lparr>pt_slots := pt_slots (n_table n) @ [SlotEntry_new Greedy p p]\<rparr>)"
    using assms(5)
    by (simp add: has_room_for_def try_insert_def try_insert_greedy_def referrer_quota_exceeded_def
        referrer_count_def greedy_count)
  have "snd (handle_envelope L order clock n p env) = ticked (n\<lparr>n_store := snd (upsert L (n_store n) d None),
      n_table := (n_table n)\<lparr>pt_slots := pt_slots (n_table n) @ [SlotEntry_new Greedy p p]\<rparr>\<rparr>)"
    using assms(1,2) t
    by (simp add: handle_envelope_def signature_guard_def dispatch_def handle_hello_def signed_envelope_eq Let_def)
      (subst u, simp)
  then show ?thesis using upsert_verified(2) [OF assms(3)] assms(4) by (simp add: all_peers_def)
qed

definition knows :: "'g sim \<Rightarrow> node_id \<Rightarrow> node_id \<Rightarrow> bool" where
  "knows s k p \<longleftrightarrow> (\<exists>n. hm_get (sim_nodes s) k = Some n \<and> p \<in> set (all_peers (n_table n)) \<and>
     store_get (n_store n) p \<noteq> None)"

subsection \<open>Properties\<close>

text \<open>
  C34: in every reachable simulation, after any additions, introductions, partitions, losses, rounds,
  repairs and crashes, every node is filed under its own identity, holds at most five peers and no
  peer twice, and no message in flight is handed to anyone but its addressee; and a repair round
  never fails.
\<close>

theorem sim_reachable_safe:
  assumes "sim_reachable L R order s"
  shows "(\<forall>k n. sim_node s k = Some n \<longrightarrow>
      n_id n = k \<and> distinct (all_peers (n_table n)) \<and> length (pt_slots (n_table n)) \<le> 5) \<and>
    (\<forall>m \<in> set (sim_queue s). env_to (fl_envelope m) = fl_to m) \<and>
    (\<forall>norder. is_order norder \<longrightarrow> repair_all L norder s \<noteq> None)"
proof -
  note inv = sim_reachable_inv [OF assms]
  have "n_id n = k \<and> distinct (all_peers (n_table n)) \<and> length (pt_slots (n_table n)) \<le> 5"
    if held: "hm_get (sim_nodes s) k = Some n" for k n
  proof -
    obtain kp cfg where kp: "node_reachable L kp cfg n" "kp_node_id kp = k" "nc_max_greedy cfg = 3"
      using sim_invD [OF inv held] unfolding node_home_def by blast
    have "table_inv (n_table n) \<and> pt_max_greedy (n_table n) = 3"
      using table_reachable_frame [OF node_reachable_parts(1) [OF kp(1)]] kp(3) by simp
    then show ?thesis
      using table_length_bound [of "n_table n"] node_reachable_identity [OF kp(1)] kp(2) by (simp add: table_inv_def)
  qed
  moreover have "repair_all L norder s \<noteq> None" if "is_order norder" for norder
    using repair_nodes_total [of "map fst (norder (sim_nodes s))" s L] is_orderD(1) [OF that, of "sim_nodes s"]
    by (auto simp: repair_all_def hm_keys_def)
  ultimately show ?thesis using inv by (simp add: sim_inv_def sim_node_def list_all_iff)
qed

definition demo_rng :: "nat rng_lib" where
  "demo_rng = \<lparr>seed_from_u64 = unat, gen_f64 = (\<lambda>g. (1 / 2, g))\<rparr>"

definition demo_kp :: "u8 \<Rightarrow> node_keypair" where
  "demo_kp b = keypair_from_seed demo_libs (fill32 b)"

definition demo_sim :: "nat sim" where
  "demo_sim = snd (add_node (snd (add_node (Sim_new demo_rng 0 0) (demo_kp 8))) (demo_kp 4))"

lemma demo_sim_reachable: "sim_reachable demo_libs demo_rng order demo_sim"
  unfolding demo_sim_def demo_kp_def by (intro sim_reach_add sim_reach_new keypair_wf_made)

lemma demo_sim_nodes:
  "hm_get (sim_nodes demo_sim) (idn b) =
    (if b = 4 \<or> b = 8 then Some (Node_new (demo_kp b) (NodeConfig_new localhost)) else None)"
proof -
  have "(NodeConfig_new localhost)\<lparr>nc_epoch_seed := 0\<rparr> = NodeConfig_new localhost" by (simp add: NodeConfig_new_def)
  then show ?thesis by (auto simp: demo_sim_def add_node_def demo_kp_def Sim_new_def Let_def fill32_inject)
qed

theorem sim_reachable_safe_witness:
  "\<exists>n. sim_node demo_sim (idn 8) = Some n \<and> n_id n = idn 8 \<and> length (pt_slots (n_table n)) \<le> 5"
  using sim_reachable_safe [OF demo_sim_reachable] demo_sim_nodes [of 8] by (auto simp: sim_node_def)

text \<open>
  C35: a partition isolates its two sides.  While it holds, a round runs exactly as if the messages
  that cross it in either direction had never been in the queue, and a pair of nodes on
  different sides stays blocked until the partition is healed.
\<close>

theorem partition_isolates:
  "sim_step L R order clocks (partition_groups s as bs) =
     sim_step L R order clocks
       ((partition_groups s as bs)\<lparr>sim_queue := filter (\<lambda>m. \<not> crosses as bs m) (sim_queue s)\<rparr>) \<and>
   is_partitioned (sim_step L R order clocks (partition_groups s as bs)) =
     is_partitioned (partition_groups s as bs) \<and>
   \<not> is_partitioned (heal_partition s) a b"
proof -
  let ?s = "(partition_groups s as bs)\<lparr>sim_ticks := sim_ticks s + 1\<rparr>"
  have "step_loop L R order clocks 0 (?s\<lparr>sim_queue := []\<rparr>) (sim_queue s) =
      step_loop L R order clocks 0 (?s\<lparr>sim_queue := []\<rparr>) (filter (\<lambda>m. \<not> crosses as bs m) (sim_queue s))"
    by (rule step_loop_blocked) (simp add: partition_groups_blocks)
  then show ?thesis
    by (simp add: sim_step_def partition_groups_def Let_def is_partitioned_def heal_partition_def)
qed

text \<open>
  C33: introductions connect.  When two nodes of a reachable simulation with nothing in flight are
  introduced to each other, neither holds the other yet and the table of each has room for the
  other under its greedy limit and its limit per referrer (\<open>has_room_for\<close>), no partition separates them and nothing
  is dropped, then after one round each holds the other in its peer table and has stored its
  descriptor.
\<close>

theorem introduction_connects:
  assumes "ed25519_ok L" "sim_reachable L R order s" "sim_queue s = []" "a \<noteq> b"
    "sim_node s a = Some na" "sim_node s b = Some nb" "has_room_for na b" "has_room_for nb a"
    "\<not> is_partitioned s a b" "\<not> is_partitioned s b a" "\<And>g. sim_drop_prob s \<le> fst (gen_f64 R g)"
  shows "\<exists>s'. introduce L s a b = Some s' \<and>
    knows (sim_step L R order clocks s') b a \<and> knows (sim_step L R order clocks s') a b"
proof -
  note nodes = assms(5,6) [unfolded sim_node_def]
  let ?msg = "\<lambda>f t n. \<lparr>fl_to = t, fl_from = f, fl_envelope = \<lparr>env_to = t, env_from = f,
    env_message_id = m_messages_forwarded (n_metrics n) + 1, env_ttl = 20, env_class = Normal,
    env_route_fork = False, env_body = Hello (own_descriptor L n reach_default), env_signature = []\<rparr>\<rparr>"
  define s' where "s' = s\<lparr>sim_queue := [?msg a b na, ?msg b a nb]\<rparr>"
  have intro: "introduce L s a b = Some s'"
    by (simp add: introduce_def nodes enqueue_def Let_def assms(3) s'_def)
  have home: "node_home L a na" "node_home L b nb"
    using sim_invD [OF sim_reachable_inv [OF assms(2)]] nodes by auto
  let ?h = "\<lambda>i n m. snd (handle_envelope L order (clocks i) n (fl_from m) (fl_envelope m))"
  have b: "a \<in> set (all_peers (n_table (?h 0 nb (?msg a b na)))) \<and> store_get (n_store (?h 0 nb (?msg a b na))) a \<noteq> None"
    using hello_admits [OF _ _ own_descriptor_verifies [OF assms(1) home(1), of reach_default] assms(8)] by simp
  have a: "b \<in> set (all_peers (n_table (?h 1 na (?msg b a nb)))) \<and> store_get (n_store (?h 1 na (?msg b a nb))) b \<noteq> None"
    using hello_admits [OF _ _ own_descriptor_verifies [OF assms(1) home(2), of reach_default] assms(7)] by simp
  have keep: "\<not> fst (gen_f64 R g) < sim_drop_prob s" for g using assms(11) [of g] by (simp add: not_less)
  have "sim_nodes (sim_step L R order clocks s') =
      hm_insert a (?h 1 na (?msg b a nb)) (hm_insert b (?h 0 nb (?msg a b na)) (sim_nodes s))"
    using assms(4,9,10) keep nodes
    by (simp add: sim_step_def s'_def Let_def case_prod_beta' deliver_def is_partitioned_def)
  then have "knows (sim_step L R order clocks s') b a \<and> knows (sim_step L R order clocks s') a b"
    using a b assms(4) by (simp add: knows_def)
  with intro show ?thesis by blast
qed

theorem introduction_connects_witness:
  "\<exists>s'. introduce demo_libs demo_sim (idn 8) (idn 4) = Some s' \<and>
     knows (sim_step demo_libs demo_rng (\<lambda>m. m) (\<lambda>_. (0, 0)) s') (idn 4) (idn 8)"
proof -
  have room: "has_room_for (Node_new (demo_kp b) (NodeConfig_new localhost)) p" for b p
    by (simp add: has_room_for_def Node_new_def NodeConfig_new_def PeerTable_new_def table_defs Let_def)
  have frame: "sim_queue demo_sim = []" "sim_partitioned demo_sim = []" "sim_drop_prob demo_sim = 0"
    by (simp_all add: demo_sim_def add_node_def Sim_new_def Let_def)
  show ?thesis
    using introduction_connects [OF demo_libs_ok demo_sim_reachable [of "\<lambda>m. m"] frame(1), of "idn 8" "idn 4" _ _
        "\<lambda>_. (0, 0)"] demo_sim_nodes [of 8] demo_sim_nodes [of 4] room
    by (simp add: sim_node_def is_partitioned_def frame demo_rng_def fill32_inject) blast
qed

text \<open>
  A traced route starts at its source, follows the nodes' own next hops, gets strictly closer to the
  destination at every hop and so never visits a node twice, has at most 30 hops, and stops short
  of 30 only where there is no next hop.  \<^verbatim>\<open>can_route\<close> agrees: it answers true exactly if
  the traced route ends at the destination within 20 hops.
\<close>

theorem trace_route_spec:
  assumes "p = trace_route s src dst"
  shows "hd p = src \<and> length p \<le> 31 \<and> distinct p \<and> sorted_wrt (\<lambda>a b. is_closer_to b dst a) p \<and>
    (\<forall>i. Suc i < length p \<longrightarrow> sim_hop s dst (p ! i) = Some (p ! Suc i)) \<and>
    (length p < 31 \<longrightarrow> sim_hop s dst (last p) = None) \<and>
    (can_route s src dst = Some True \<longleftrightarrow> last p = dst \<and> length p \<le> 21)"
proof -
  let ?h = "sim_hop s dst"
  have p: "p = walk ?h 30 src" using assms trace_route_walk by simp
  have h: "?h = (\<lambda>a. hop_via (\<lambda>a. map_option n_table (hm_get (sim_nodes s) a)) a dst)"
    by (simp add: sim_hop_def fun_eq_iff)
  have "sorted_wrt (\<lambda>a b. is_closer_to b dst a) p"
    unfolding p h is_closer_to_def by (rule gr.walk_descends)
  moreover have "distinct p" unfolding p h by (rule gr.walk_distinct)
  moreover have "can_route s src dst = Some True \<longleftrightarrow> last p = dst \<and> length p \<le> 21"
    using gr.walk_reaches [where k = 20 and m = 30 and t = dst and a = src
        and tables = "\<lambda>a. map_option n_table (hm_get (sim_nodes s) a)", folded h]
    by (simp add: can_route_def can_route_walk p)
  ultimately show ?thesis
    using length_walk [of ?h 30 src] walk_hops [of _ ?h 30 src] walk_end [of ?h 30 src] unfolding p by auto
qed

theorem trace_route_spec_witness:
  "let s = demo_sim\<lparr>sim_nodes := [(idn 8, demo_peer_node), (idn 4, demo_node 4)]\<rparr>
   in trace_route s (idn 8) (idn 4) = [idn 8, idn 4] \<and> is_closer_to (idn 4) (idn 4) (idn 8) \<and>
      can_route s (idn 8) (idn 4) = Some True"
proof -
  let ?s = "demo_sim\<lparr>sim_nodes := [(idn 8, demo_peer_node), (idn 4, demo_node 4)]\<rparr>"
  have "sim_hop ?s (idn 4) (idn 8) = Some (idn 4)"
    by (simp add: sim_hop_eq hm_get_def next_hop_def PeerTable_new_def Let_def)
  then have "walk (sim_hop ?s (idn 4)) (Suc 29) (idn 8) = [idn 8, idn 4]" unfolding walk.simps by simp
  then have route: "trace_route ?s (idn 8) (idn 4) = [idn 8, idn 4]" by (simp add: trace_route_walk)
  from trace_route_spec [OF route [symmetric]] show ?thesis by (simp add: route)
qed

end
