(* ===== verification/Relay.thy ===== *)
theory Relay
  imports Node_Props "HOL-Library.Char_ord"
begin

section \<open>The HTTP relay\<close>

text \<open>
  \<^verbatim>\<open>zona-p2p-node/src/admin.rs\<close>: the endpoints of a running node.  Its state is the node, the URLs of
  its peers and an inbox.  \<^verbatim>\<open>do_relay\<close> calls the same endpoint of another node over HTTP and awaits the
  answer, so a relay is a recursion through the network, which is here a map from endpoint
  addresses to node states; a request to an address where no node listens fails with the
  client's error text.  The \<^verbatim>\<open>hex\<close> crate is a parameter, with the hypothesis \<open>hex_ok\<close>.
  The recursion is on fuel; \<open>relay_terminates\<close> says how much is enough.
\<close>

record hex_libs = libs +
  hex_decode :: "string \<Rightarrow> (bytes, string) result"
  http_error :: "string \<Rightarrow> string"

definition hex_ok :: "'a hex_libs_scheme \<Rightarrow> bool" where
  "hex_ok L \<longleftrightarrow> (\<forall>bs. hex_decode L (hex_encode L bs) = Ok bs)"

subsection \<open>Data\<close>

record inbox_entry =
  ib_from :: string
  ib_text :: string

text \<open>
  What \<^verbatim>\<open>AdminState\<close> here and \<^verbatim>\<open>ServerState\<close> of the server crate have in common: the node, the URLs of
  its peers and its own.
\<close>

record relay_node =
  rn_node :: node
  rn_peer_urls :: "(node_id, string) hash_map"
  rn_self_url :: string

record admin_state = relay_node +
  as_inbox :: "inbox_entry list"

record api_info =
  ai_node_id :: string
  ai_healthy :: bool
  ai_slots :: nat

record api_peer_slot =
  ap_kind :: string
  ap_peer_id :: string
  ap_peer_idx :: string
  ap_loss :: f32
  ap_referrer :: string

record introduce_request =
  iq_node_id :: string
  iq_admin_url :: string
  iq_register_peer :: bool

record neighbor_info =
  nb_node_id :: string
  nb_admin_url :: string

record introduce_response =
  ir_node_id :: string
  ir_neighbors :: "neighbor_info list"

record send_request =
  sq_to_id :: string
  sq_text :: string
  sq_from_client :: string
  sq_all_nodes :: "string list"

record hop_info =
  hi_node_id :: string
  hi_index :: string
  hi_is_src :: bool
  hi_is_dst :: bool

record send_response =
  sr_delivered :: bool
  sr_path :: "hop_info list"
  sr_error :: "string option"

record relay_request =
  rr_to_id :: string
  rr_text :: string
  rr_from_client :: string
  rr_path :: "string list"
  rr_all_nodes :: "string list"
  rr_return_node_url :: "string option"
  rr_correlation_id :: "u64 option"

record relay_response =
  rs_delivered :: bool
  rs_path :: "string list"
  rs_error :: "string option"
  rs_response :: "string option"

subsection \<open>Node identifiers as text\<close>

definition id_hex :: "'a hex_libs_scheme \<Rightarrow> node_id \<Rightarrow> string" where
  "id_hex L n = hex_encode L (bytes_of (as_bytes n))"

subsection \<open>Read-only endpoints\<close>

type_synonym url_order = "(node_id, string) hash_map \<Rightarrow> (node_id \<times> string) list"

definition handle_info :: "'a hex_libs_scheme \<Rightarrow> admin_state \<Rightarrow> api_info" where
  "handle_info L g =
     \<lparr>ai_node_id = id_hex L (n_id (rn_node g)), ai_healthy = (\<not> in_recovery (n_table (rn_node g))),
      ai_slots = length (pt_slots (n_table (rn_node g)))\<rparr>"

definition handle_peers :: "'a hex_libs_scheme \<Rightarrow> url_order \<Rightarrow> admin_state \<Rightarrow> api_peer_slot list" where
  "handle_peers L order g =
     (let ids = map (\<lambda>(k, _). id_hex L k) (order (rn_peer_urls g))
      in map (\<lambda>s.
           let pid_hex = id_hex L (s_peer_id s);
               idx_str = (case position (\<lambda>x. x = pid_hex) ids of None \<Rightarrow> ''?'' | Some i \<Rightarrow> nat_to_string i)
           in \<lparr>ap_kind = (case s_kind s of Greedy \<Rightarrow> ''G'' | LongJump \<Rightarrow> ''L'' | Diversity \<Rightarrow> ''D''),
               ap_peer_id = take 8 pid_hex, ap_peer_idx = idx_str, ap_loss = s_ewma_loss s,
               ap_referrer = hex_encode L (take 4 (bytes_of (as_bytes (s_referrer_id s))))\<rparr>)
         (pt_slots (n_table (rn_node g))))"

definition handle_inbox :: "admin_state \<Rightarrow> inbox_entry list" where
  "handle_inbox g = as_inbox g"

subsection \<open>Introductions\<close>

text \<open>A peer is added to the table as a greedy candidate that refers itself, in a fresh tick.\<close>

definition admit_peer :: "node \<Rightarrow> node_id \<Rightarrow> node" where
  "admit_peer n nid = n\<lparr>n_table := snd (try_insert (reset_tick (n_table n)) (SlotEntry_new Greedy nid nid))\<rparr>"

definition register_peer :: "'r relay_node_scheme \<Rightarrow> node_id \<Rightarrow> string \<Rightarrow> 'r relay_node_scheme" where
  "register_peer g nid url =
     g\<lparr>rn_peer_urls := hm_insert nid url (rn_peer_urls g), rn_node := admit_peer (rn_node g) nid\<rparr>"

definition handle_introduce ::
  "'a hex_libs_scheme \<Rightarrow> 'r relay_node_scheme \<Rightarrow> introduce_request \<Rightarrow> introduce_response \<times> 'r relay_node_scheme" where
  "handle_introduce L g req =
     (let self_id = id_hex L (n_id (rn_node g));
          g = (if iq_register_peer req
               then case hex_decode L (iq_node_id req) of
                      Inl _ \<Rightarrow> g
                    | Inr bytes \<Rightarrow>
                        (case array32 bytes of
                           None \<Rightarrow> g
                         | Some raw \<Rightarrow> register_peer g (from_bytes raw) (iq_admin_url req))
               else g);
          neighbors =
            List.map_filter
              (\<lambda>s. map_option (\<lambda>url. \<lparr>nb_node_id = id_hex L (s_peer_id s), nb_admin_url = url\<rparr>)
                 (hm_get (rn_peer_urls g) (s_peer_id s)))
              (take 3 (pt_slots (n_table (rn_node g))))
      in (\<lparr>ir_node_id = self_id, ir_neighbors = neighbors\<rparr>, g))"

subsection \<open>Relaying\<close>

datatype decision = RelayForward node_id "string option" | RelayLocalMinimum "(string \<times> string) list"

definition failed :: "string list \<Rightarrow> string \<Rightarrow> relay_response" where
  "failed path e = \<lparr>rs_delivered = False, rs_path = path, rs_error = Some e, rs_response = None\<rparr>"

definition delivered_to :: "admin_state \<Rightarrow> relay_request \<Rightarrow> relay_response \<times> admin_state" where
  "delivered_to g req =
     (\<lparr>rs_delivered = True, rs_path = rr_path req, rs_error = None, rs_response = None\<rparr>,
      g\<lparr>as_inbox := as_inbox g @ [\<lparr>ib_from = rr_from_client req, ib_text = rr_text req\<rparr>]\<rparr>)"

text \<open>The part of \<^verbatim>\<open>do_relay\<close> under the lock: an answer at once, or where to send the request.\<close>

definition relay_decide ::
  "'a hex_libs_scheme \<Rightarrow> url_order \<Rightarrow> admin_state \<Rightarrow> relay_request \<Rightarrow> (relay_response \<times> admin_state) + decision" where
  "relay_decide L order g req =
     (case hex_decode L (rr_to_id req) of
        Inl e \<Rightarrow> Inl (failed (rr_path req) e, g)
      | Inr to_bytes \<Rightarrow>
          (case array32 to_bytes of
             None \<Rightarrow> Inl (failed (rr_path req) ''bad to_id length'', g)
           | Some to_arr \<Rightarrow>
               let to_id = from_bytes to_arr; self_id = n_id (rn_node g)
               in if self_id = to_id then Inl (delivered_to g req)
                  else case next_hop self_id to_id (n_table (rn_node g)) of
                      Forward nid \<Rightarrow> Inr (RelayForward nid (hm_get (rn_peer_urls g) nid))
                    | Deliver \<Rightarrow> Inl (delivered_to g req)
                    | LocalMinimum \<Rightarrow>
                        Inr (RelayLocalMinimum
                          (List.map_filter
                             (\<lambda>(nid, url).
                                let hex = id_hex L nid
                                in if hex \<notin> set (rr_path req) then Some (hex, url) else None)
                             (order (rn_peer_urls g))))))"

type_synonym network = "(string, admin_state) hash_map"

text \<open>An HTTP request to a relay endpoint of a network of any kind of node.\<close>

type_synonym 'n post = "'n \<Rightarrow> string \<Rightarrow> relay_request \<Rightarrow> ((relay_response, string) result \<times> 'n) option"

definition relay_endpoint :: "string \<Rightarrow> string" where
  "relay_endpoint url = url @ ''/api/relay''"

text \<open>The three bytes of an em dash in UTF-8.\<close>

definition em_dash :: string where
  "em_dash = map char_of [0xE2, 0x80, 0x94 :: nat]"

text \<open>The fan-out over the unvisited peers.\<close>

fun fan_out ::
  "'n post \<Rightarrow> relay_request \<Rightarrow> (string \<times> string) list \<Rightarrow> relay_response \<Rightarrow> 'n \<Rightarrow>
   (relay_response \<times> 'n) option" where
  "fan_out post req [] last_resp net = Some (last_resp, net)"
| "fan_out post req ((peer_hex, peer_url) # alternatives) last_resp net =
     (case post net (relay_endpoint peer_url) (req\<lparr>rr_path := rr_path req @ [peer_hex]\<rparr>) of
        None \<Rightarrow> None
      | Some (Inr r, net) \<Rightarrow>
          if rs_delivered r then Some (r, net) else fan_out post req alternatives r net
      | Some (Inl _, net) \<Rightarrow> fan_out post req alternatives last_resp net)"

definition relay_dispatch ::
  "'a hex_libs_scheme \<Rightarrow> 'n post \<Rightarrow> relay_request \<Rightarrow> decision \<Rightarrow> 'n \<Rightarrow> (relay_response \<times> 'n) option" where
  "relay_dispatch L post req d net =
     (case d of
        RelayForward next_id (Some next_url) \<Rightarrow>
          let next_id_hex = id_hex L next_id
          in if next_id_hex \<in> set (rr_path req)
             then Some (failed (rr_path req) ''routing loop'', net)
             else
               let new_path = rr_path req @ [next_id_hex]
               in (case post net (relay_endpoint next_url) (req\<lparr>rr_path := new_path\<rparr>) of
                     None \<Rightarrow> None
                   | Some (Inr resp, net) \<Rightarrow> Some (resp, net)
                   | Some (Inl e, net) \<Rightarrow> Some (failed new_path e, net))
      | RelayForward _ None \<Rightarrow> Some (failed (rr_path req) ''no URL for next hop'', net)
      | RelayLocalMinimum alternatives \<Rightarrow>
          if alternatives = []
          then Some (failed (rr_path req) (''local minimum '' @ em_dash @ '' dead end''), net)
          else fan_out post req alternatives
                 (failed (rr_path req) (''local minimum '' @ em_dash @ '' all alternatives failed'')) net)"

text \<open>A relay request to an endpoint, answered with at most \<open>fuel\<close> nested requests.\<close>

primrec relay_at :: "'a hex_libs_scheme \<Rightarrow> url_order \<Rightarrow> nat \<Rightarrow> network post" where
  "relay_at L order 0 = (\<lambda>net ep req. None)"
| "relay_at L order (Suc fuel) = (\<lambda>net ep req.
     (case hm_get net ep of
        None \<Rightarrow> Some (Err (http_error L ep), net)
      | Some g \<Rightarrow>
          (case relay_decide L order g req of
             Inl (resp, g) \<Rightarrow> Some (Ok resp, hm_insert ep g net)
           | Inr d \<Rightarrow>
               map_option (\<lambda>(resp, net). (Ok resp, net))
                 (relay_dispatch L (relay_at L order fuel) req d net))))"

text \<open>The identifiers a node may add to a path, and fuel for all of them.\<close>

definition node_ids :: "'r relay_node_scheme \<Rightarrow> node_id list" where
  "node_ids g = all_peers (n_table (rn_node g)) @ map fst (rn_peer_urls g)"

definition known_ids :: "'a hex_libs_scheme \<Rightarrow> network \<Rightarrow> string list" where
  "known_ids L net = concat (map (\<lambda>(_, g). map (id_hex L) (node_ids g)) net)"

definition relay_fuel :: "'a hex_libs_scheme \<Rightarrow> network \<Rightarrow> nat" where
  "relay_fuel L net = Suc (length (known_ids L net))"

text \<open>\<open>do_relay\<close> is \<^verbatim>\<open>do_relay\<close> on the node's own state.\<close>

definition handle_send ::
  "'a hex_libs_scheme \<Rightarrow> (relay_request \<Rightarrow> (relay_response \<times> 'n) option) \<Rightarrow> 'r relay_node_scheme \<Rightarrow> send_request \<Rightarrow>
   (send_response \<times> 'n) option" where
  "handle_send L do_relay g req =
     (let self_id_hex = id_hex L (n_id (rn_node g));
          relay_req = \<lparr>rr_to_id = sq_to_id req, rr_text = sq_text req, rr_from_client = sq_from_client req,
                       rr_path = [self_id_hex], rr_all_nodes = sq_all_nodes req,
                       rr_return_node_url = None, rr_correlation_id = None\<rparr>
      in map_option (\<lambda>(resp, net).
           (\<lparr>sr_delivered = rs_delivered resp,
             sr_path = map (\<lambda>(i, id).
               let node_idx = (case position (\<lambda>n. n = id) (sq_all_nodes req) of
                                 None \<Rightarrow> nat_to_string i | Some idx \<Rightarrow> nat_to_string idx)
               in \<lparr>hi_node_id = take 8 id, hi_index = node_idx, hi_is_src = (i = 0),
                   hi_is_dst = (rs_delivered resp \<and> i + 1 = length (rs_path resp))\<rparr>)
               (List.enumerate 0 (rs_path resp)),
             sr_error = rs_error resp\<rparr>, net)) (do_relay relay_req))"

subsection \<open>Relays end\<close>

lemma hm_insert_same: "hm_get m k = Some v \<Longrightarrow> hm_insert k v m = m"
  by (induction m) (auto simp: hm_insert_def hm_get_def split: if_splits)

lemma known_idsI:
  assumes "hm_get net ep = Some g" "nid \<in> set (node_ids g)"
  shows "id_hex L nid \<in> set (known_ids L net)"
  using map_of_SomeD [OF assms(1) [unfolded hm_get_def]] assms(2) by (auto simp: known_ids_def)

text \<open>The ways a relay can change the network: not at all, or by one entry in the destination's inbox.\<close>

definition delivered_in :: "'a hex_libs_scheme \<Rightarrow> relay_request \<Rightarrow> network \<Rightarrow> network \<Rightarrow> bool" where
  "delivered_in L req net net' \<longleftrightarrow>
     (\<exists>ep g. hm_get net ep = Some g \<and> hex_decode L (rr_to_id req) = Ok (bytes_of (node_bytes (n_id (rn_node g)))) \<and>
        net' = hm_insert ep (g\<lparr>as_inbox := as_inbox g @ [\<lparr>ib_from = rr_from_client req, ib_text = rr_text req\<rparr>]\<rparr>) net)"

definition relay_outcome ::
  "'a hex_libs_scheme \<Rightarrow> relay_request \<Rightarrow> network \<Rightarrow> relay_response \<Rightarrow> network \<Rightarrow> bool" where
  "relay_outcome L req net resp net' \<longleftrightarrow>
     (\<exists>ext. rs_path resp = rr_path req @ ext \<and> distinct ext \<and> set ext \<inter> set (rr_path req) = {} \<and>
        set ext \<subseteq> set (known_ids L net)) \<and>
     (if rs_delivered resp then delivered_in L req net net' else net' = net)"

definition post_outcome :: "'a hex_libs_scheme \<Rightarrow> relay_request \<Rightarrow> network \<Rightarrow>
    ((relay_response, string) result \<times> network) option \<Rightarrow> bool" where
  "post_outcome L req net r \<longleftrightarrow>
     (case r of None \<Rightarrow> False | Some (Inl _, net') \<Rightarrow> net' = net | Some (Inr resp, net') \<Rightarrow> relay_outcome L req net resp net')"

lemma relay_outcome_failed: "relay_outcome L req net (failed (rr_path req) e) net"
  by (simp add: relay_outcome_def failed_def)

lemma relay_outcome_undelivered: "relay_outcome L req net resp net' \<Longrightarrow> \<not> rs_delivered resp \<Longrightarrow> net' = net"
  by (simp add: relay_outcome_def)

text \<open>An answer to the request with one more hop on its path is an answer to the request.\<close>

lemma relay_outcome_hop:
  assumes "relay_outcome L (req\<lparr>rr_path := rr_path req @ [h]\<rparr>) net resp net'" "h \<notin> set (rr_path req)"
    "h \<in> set (known_ids L net)"
  shows "relay_outcome L req net resp net'"
proof -
  obtain ext where "rs_path resp = (rr_path req @ [h]) @ ext" "distinct ext"
      "set ext \<inter> set (rr_path req @ [h]) = {}" "set ext \<subseteq> set (known_ids L net)"
    using assms(1) by (auto simp: relay_outcome_def)
  then have "rs_path resp = rr_path req @ (h # ext) \<and> distinct (h # ext) \<and>
      set (h # ext) \<inter> set (rr_path req) = {} \<and> set (h # ext) \<subseteq> set (known_ids L net)"
    using assms(2,3) by auto
  moreover have "if rs_delivered resp then delivered_in L req net net' else net' = net"
    using assms(1) by (auto simp: relay_outcome_def delivered_in_def)
  ultimately show ?thesis unfolding relay_outcome_def by blast
qed

text \<open>
  The fan-out over any kind of network: if every request is answered, and an undelivered one leaves
  the network alone, then the loop is answered, by the last resort or by one of the answers.
\<close>

definition answers :: "(relay_response \<Rightarrow> 'n \<Rightarrow> bool) \<Rightarrow> 'n \<Rightarrow> ((relay_response, string) result \<times> 'n) option \<Rightarrow> bool" where
  "answers Q net r \<longleftrightarrow>
     (case r of None \<Rightarrow> False | Some (Inl _, net') \<Rightarrow> net' = net
      | Some (Inr resp, net') \<Rightarrow> Q resp net' \<and> (\<not> rs_delivered resp \<longrightarrow> net' = net))"

lemma fan_out_answered:
  assumes "\<And>h url. (h, url) \<in> set alts \<Longrightarrow>
      answers Q net (post net (relay_endpoint url) (req\<lparr>rr_path := rr_path req @ [h]\<rparr>))"
    "Q last_resp net"
  shows "\<exists>resp net'. fan_out post req alts last_resp net = Some (resp, net') \<and> Q resp net' \<and>
    (\<not> rs_delivered resp \<longrightarrow> net' = net)"
  using assms
proof (induction alts arbitrary: last_resp)
  case (Cons alt alts)
  obtain h url where alt: "alt = (h, url)" by fastforce
  let ?r = "post net (relay_endpoint url) (req\<lparr>rr_path := rr_path req @ [h]\<rparr>)"
  have h: "answers Q net ?r" using Cons.prems(1) alt by auto
  have rest: "\<exists>resp net'. fan_out post req alts l net = Some (resp, net') \<and> Q resp net' \<and> (\<not> rs_delivered resp \<longrightarrow> net' = net)"
    if "Q l net" for l
    using Cons.prems(1) that by (intro Cons.IH) auto
  obtain r net1 where r: "?r = Some (r, net1)" using h by (auto simp: answers_def split: option.splits)
  show ?case
  proof (cases r)
    case (Inl e)
    then show ?thesis using h r rest [OF Cons.prems(2)] by (simp add: alt answers_def)
  next
    case (Inr resp)
    then have "Q resp net1" "\<not> rs_delivered resp \<longrightarrow> net1 = net" using h r by (simp_all add: answers_def)
    then show ?thesis using rest [of resp] Inr r by (cases "rs_delivered resp") (simp_all add: alt)
  qed
qed simp

lemma fan_out_outcome:
  assumes "\<And>h url. (h, url) \<in> set alts \<Longrightarrow> h \<notin> set (rr_path req) \<and> h \<in> set (known_ids L net) \<and>
      post_outcome L (req\<lparr>rr_path := rr_path req @ [h]\<rparr>) net
        (post net (relay_endpoint url) (req\<lparr>rr_path := rr_path req @ [h]\<rparr>))"
    "relay_outcome L req net last_resp net"
  shows "\<exists>resp net'. fan_out post req alts last_resp net = Some (resp, net') \<and> relay_outcome L req net resp net'"
proof -
  have "answers (relay_outcome L req net) net (post net (relay_endpoint url) (req\<lparr>rr_path := rr_path req @ [h]\<rparr>))"
    if alt: "(h, url) \<in> set alts" for h url
  proof -
    note h = assms(1) [OF alt]
    have keep: "relay_outcome L req net resp net'"
      if "relay_outcome L (req\<lparr>rr_path := rr_path req @ [h]\<rparr>) net resp net'" for resp net'
      using relay_outcome_hop [OF that] h by blast
    show ?thesis
      using h keep relay_outcome_undelivered
      by (auto simp: answers_def post_outcome_def split: option.splits sum.splits)
  qed
  then have "\<exists>resp net'. fan_out post req alts last_resp net = Some (resp, net') \<and> relay_outcome L req net resp net' \<and>
      (\<not> rs_delivered resp \<longrightarrow> net' = net)"
    by (rule fan_out_answered) (simp_all add: assms(2))
  then show ?thesis by blast
qed

lemma relay_decide_forward:
  assumes "relay_decide L order g req = Inr (RelayForward nid u)"
  shows "nid \<in> set (node_ids g)"
  using assms next_hop_peer
  by (auto simp: relay_decide_def node_ids_def Let_def split: sum.splits option.splits next_hop_result.splits if_splits)

lemma relay_decide_alternatives:
  assumes "relay_decide L order g req = Inr (RelayLocalMinimum alts)" "is_order order" "(h, url) \<in> set alts"
  shows "h \<notin> set (rr_path req) \<and> (\<exists>nid \<in> set (node_ids g). h = id_hex L nid)"
proof -
  have "(h, url) \<in> set (List.map_filter (\<lambda>(nid, url). let hex = id_hex L nid
      in if hex \<notin> set (rr_path req) then Some (hex, url) else None) (order (rn_peer_urls g)))"
    using assms(1,3) by (auto simp: relay_decide_def Let_def split: sum.splits option.splits next_hop_result.splits if_splits)
  then show ?thesis using is_orderD(1) [OF assms(2), of "rn_peer_urls g"]
    by (force simp: map_filter_set node_ids_def Let_def split: if_splits)
qed

lemma next_hop_Deliver: "next_hop a b t = Deliver \<longleftrightarrow> a = b"
  by (auto simp: next_hop_def Let_def split: option.splits)

lemma relay_decide_answer:
  assumes "relay_decide L order g req = Inl (resp, g')" "hm_get net ep = Some g"
  shows "relay_outcome L req net resp (hm_insert ep g' net)"
proof -
  have "(resp = failed (rr_path req) (case hex_decode L (rr_to_id req) of Inl e \<Rightarrow> e | Inr _ \<Rightarrow> ''bad to_id length'') \<and> g' = g) \<or>
      ((resp, g') = delivered_to g req \<and> hex_decode L (rr_to_id req) = Ok (bytes_of (node_bytes (n_id (rn_node g)))))"
    using assms(1)
    by (auto simp: relay_decide_def array32_def from_bytes_def Array32_inverse Let_def next_hop_Deliver
        split: sum.splits option.splits next_hop_result.splits if_splits)
  then show ?thesis
  proof
    assume "resp = failed (rr_path req) (case hex_decode L (rr_to_id req) of Inl e \<Rightarrow> e | Inr _ \<Rightarrow> ''bad to_id length'') \<and> g' = g"
    then show ?thesis using assms(2) by (simp add: relay_outcome_failed hm_insert_same)
  next
    assume d: "(resp, g') = delivered_to g req \<and> hex_decode L (rr_to_id req) = Ok (bytes_of (node_bytes (n_id (rn_node g))))"
    then have "delivered_in L req net (hm_insert ep g' net)"
      unfolding delivered_in_def using assms(2) by (intro exI [of _ ep] exI [of _ g]) (simp add: delivered_to_def)
    then show ?thesis using d by (simp add: relay_outcome_def delivered_to_def)
  qed
qed

lemma hop_fuel:
  assumes "card (K - set path) < Suc f" "h \<in> K" "h \<notin> set path" "finite K"
  shows "card (K - set (path @ [h])) < f"
proof -
  have "K - set (path @ [h]) \<subset> K - set path" using assms(2,3) by auto
  then show ?thesis using psubset_card_mono [of "K - set path"] assms(1,4) by fastforce
qed

lemma relay_at_outcome:
  assumes "is_order order" "card (set (known_ids L net) - set (rr_path req)) < fuel"
  shows "post_outcome L req net (relay_at L order fuel net ep req)"
  using assms(2)
proof (induction fuel arbitrary: ep req)
  case (Suc f)
  have sub: "post_outcome L (req\<lparr>rr_path := rr_path req @ [h]\<rparr>) net
      (relay_at L order f net ep' (req\<lparr>rr_path := rr_path req @ [h]\<rparr>))"
    if "h \<in> set (known_ids L net)" "h \<notin> set (rr_path req)" for h ep'
    using Suc.IH [of "req\<lparr>rr_path := rr_path req @ [h]\<rparr>" ep'] hop_fuel [OF Suc.prems that] by simp
  show ?case
  proof (cases "hm_get net ep")
    case None
    then show ?thesis by (simp add: post_outcome_def)
  next
    case (Some g)
    show ?thesis
    proof (cases "relay_decide L order g req")
      case (Inl a)
      then show ?thesis using relay_decide_answer [OF _ Some] Some by (cases a) (simp add: post_outcome_def)
    next
      case (Inr d)
      have "\<exists>resp net'. relay_dispatch L (relay_at L order f) req d net = Some (resp, net') \<and> relay_outcome L req net resp net'"
      proof (cases d)
        case (RelayForward nid u)
        let ?h = "id_hex L nid"
        have known: "?h \<in> set (known_ids L net)"
          using known_idsI [OF Some relay_decide_forward] Inr RelayForward by simp
        have hop: "relay_outcome L req net (failed (rr_path req @ [?h]) e) net" if "?h \<notin> set (rr_path req)" for e
          using known that by (auto simp: relay_outcome_def failed_def)
        show ?thesis
        proof (cases "u = None \<or> ?h \<in> set (rr_path req)")
          case True
          then show ?thesis using relay_outcome_failed
            by (cases u) (auto simp: relay_dispatch_def RelayForward)
        next
          case False
          then obtain url where u: "u = Some url" "?h \<notin> set (rr_path req)" by auto
          from sub [OF known u(2), of "relay_endpoint url"] show ?thesis
            using relay_outcome_hop [OF _ u(2) known] hop [OF u(2)]
            by (auto simp: relay_dispatch_def RelayForward u post_outcome_def split: option.splits sum.splits)
        qed
      next
        case (RelayLocalMinimum alts)
        have alt: "h \<notin> set (rr_path req) \<and> h \<in> set (known_ids L net) \<and>
            post_outcome L (req\<lparr>rr_path := rr_path req @ [h]\<rparr>) net
              (relay_at L order f net (relay_endpoint url) (req\<lparr>rr_path := rr_path req @ [h]\<rparr>))"
          if "(h, url) \<in> set alts" for h url
          using relay_decide_alternatives [OF _ assms(1) that, of L g req] Inr RelayLocalMinimum known_idsI [OF Some] sub
          by auto
        have "\<exists>resp net'. fan_out (relay_at L order f) req alts (failed (rr_path req) e) net = Some (resp, net') \<and>
            relay_outcome L req net resp net'" for e
          by (rule fan_out_outcome, erule alt, rule relay_outcome_failed)
        then show ?thesis by (simp add: relay_dispatch_def RelayLocalMinimum relay_outcome_failed)
      qed
      then show ?thesis using Some Inr by (auto simp: post_outcome_def)
    qed
  qed
qed simp

text \<open>More fuel does not change an answer.\<close>

definition post_extends :: "'n post \<Rightarrow> 'n post \<Rightarrow> bool" where
  "post_extends p p' \<longleftrightarrow> (\<forall>net ep req r. p net ep req = Some r \<longrightarrow> p' net ep req = Some r)"

lemma fan_out_extends:
  "post_extends p p' \<Longrightarrow> fan_out p req alts l net = Some r \<Longrightarrow> fan_out p' req alts l net = Some r"
proof (induction alts arbitrary: l net)
  case (Cons alt alts)
  obtain h url where "alt = (h, url)" by fastforce
  then show ?case using Cons unfolding post_extends_def
    by (fastforce split: option.splits prod.splits sum.splits if_splits)
qed simp

lemma relay_dispatch_extends:
  "post_extends p p' \<Longrightarrow> relay_dispatch L p req d net = Some r \<Longrightarrow> relay_dispatch L p' req d net = Some r"
  using fan_out_extends [of p p' req] unfolding relay_dispatch_def post_extends_def Let_def
  by (auto split: decision.splits option.splits prod.splits sum.splits if_splits)

lemma relay_at_extends: "post_extends (relay_at L order f) (relay_at L order (Suc f))"
proof (induction f)
  case (Suc f)
  show ?case
    unfolding post_extends_def
  proof (intro allI impI)
    fix net ep req r
    assume "relay_at L order (Suc f) net ep req = Some r"
    then show "relay_at L order (Suc (Suc f)) net ep req = Some r"
      using relay_dispatch_extends [OF Suc, of L req _ net]
      by (auto split: option.splits sum.splits prod.splits)
  qed
qed (simp add: post_extends_def)

lemma relay_at_fuel:
  assumes "relay_at L order f net ep req = Some r" "f \<le> k"
  shows "relay_at L order k net ep req = Some r"
  using assms(2)
proof (induction rule: dec_induct)
  case (step k)
  then show ?case using relay_at_extends unfolding post_extends_def by blast
qed (rule assms(1))

lemma relay_fuel_enough: "card (set (known_ids L net) - set path) < relay_fuel L net"
proof -
  have "card (set (known_ids L net) - set path) \<le> card (set (known_ids L net))" by (intro card_mono) auto
  then show ?thesis using card_length [of "known_ids L net"] by (simp add: relay_fuel_def)
qed

subsection \<open>Neighbours are reached\<close>

lemma hex_decode_id:
  "hex_ok L \<Longrightarrow> hex_decode L (id_hex L n) = Ok (bytes_of (node_bytes n))"
  by (simp add: hex_ok_def id_hex_def as_bytes_def)

lemma relay_decide_own:
  assumes "hex_ok L" "rr_to_id req = id_hex L (n_id (rn_node g))"
  shows "relay_decide L order g req = Inl (delivered_to g req)"
  by (simp add: relay_decide_def assms hex_decode_id from_bytes_def Let_def)

lemma relay_at_own:
  assumes "hex_ok L" "rr_to_id req = id_hex L (n_id (rn_node g))" "hm_get net ep = Some g"
  shows "relay_at L order (Suc f) net ep req = Some (Ok (fst (delivered_to g req)), hm_insert ep (snd (delivered_to g req)) net)"
  by (simp add: assms(3) relay_decide_own [OF assms(1,2)] case_prod_beta')

lemma fan_out_delivers:
  assumes post: "\<And>h url. (h, url) \<in> set alts \<Longrightarrow>
      post_outcome L (req\<lparr>rr_path := rr_path req @ [h]\<rparr>) net (post net (relay_endpoint url) (req\<lparr>rr_path := rr_path req @ [h]\<rparr>))"
    and good: "(h, url) \<in> set alts"
      "post net (relay_endpoint url) (req\<lparr>rr_path := rr_path req @ [h]\<rparr>) = Some (Ok resp, net')" "rs_delivered resp"
  shows "\<exists>resp net'. fan_out post req alts l net = Some (resp, net') \<and> rs_delivered resp"
  using post good(1)
proof (induction alts arbitrary: l)
  case (Cons alt alts)
  obtain k u where alt: "alt = (k, u)" by fastforce
  let ?r = "post net (relay_endpoint u) (req\<lparr>rr_path := rr_path req @ [k]\<rparr>)"
  have out: "post_outcome L (req\<lparr>rr_path := rr_path req @ [k]\<rparr>) net ?r" using Cons.prems(1) alt by auto
  show ?case
  proof (cases "\<exists>resp net'. ?r = Some (Ok resp, net') \<and> rs_delivered resp")
    case True
    then show ?thesis by (auto simp: alt)
  next
    case False
    then have "(h, url) \<in> set alts" using Cons.prems(2) alt good(2,3) by auto
    then have rest: "\<exists>resp net'. fan_out post req alts l net = Some (resp, net') \<and> rs_delivered resp" for l
      using Cons.prems(1) by (intro Cons.IH) auto
    obtain r net1 where r: "?r = Some (r, net1)" using out by (auto simp: post_outcome_def split: option.splits)
    then have "net1 = net" using out False by (auto simp: post_outcome_def relay_outcome_def split: sum.splits)
    then show ?thesis using rest r False by (cases r) (auto simp: alt)
  qed
qed simp

subsection \<open>Properties\<close>

text \<open>
  Every relay ends.  Whatever the peer tables and URL maps of the nodes, loops and wrong URLs
  included, a relay request is answered after at most as many nested requests as there are
  identifiers in the tables and URL maps of the network, and any larger bound gives the same
  answer and the same network.
\<close>

theorem relay_terminates:
  assumes "is_order order" "relay_fuel L net \<le> fuel"
  shows "relay_at L order fuel net ep req = relay_at L order (relay_fuel L net) net ep req \<and>
    relay_at L order fuel net ep req \<noteq> None"
proof -
  have "post_outcome L req net (relay_at L order (relay_fuel L net) net ep req)"
    by (rule relay_at_outcome [OF assms(1) relay_fuel_enough])
  then obtain r where "relay_at L order (relay_fuel L net) net ep req = Some r"
    by (auto simp: post_outcome_def split: option.splits)
  with relay_at_fuel [OF this assms(2)] show ?thesis by simp
qed

text \<open>
  C2: a relay delivers at most once and only to the addressee.  If the answer says delivered, the
  network has changed by exactly one inbox entry with the request's sender and text, at a node
  whose identifier is the one the request names; in every other case the network has not changed at
  all.  The path in the answer extends the request's by identifiers that are all new and all
  different.
\<close>

theorem relay_delivers_once:
  assumes "is_order order" "relay_at L order (relay_fuel L net) net ep req = Some (Ok resp, net')"
  shows "(rs_delivered resp \<longrightarrow> delivered_in L req net net') \<and> (\<not> rs_delivered resp \<longrightarrow> net' = net) \<and>
    (\<exists>ext. rs_path resp = rr_path req @ ext \<and> distinct ext \<and> set ext \<inter> set (rr_path req) = {})"
  using relay_at_outcome [OF assms(1) relay_fuel_enough, where net = net and L = L and req = req and ep = ep] assms(2)
  by (auto simp: post_outcome_def relay_outcome_def split: if_splits)

text \<open>
  C3: a neighbour is reached.  If the node that is asked knows the destination's URL, the destination
  listens there and is not on the path yet, and the node's next hop is the destination or there
  is no closer peer, then the message is delivered.
\<close>

theorem relay_reaches_neighbour:
  assumes "hex_ok L" "is_order order" "hm_ok (rn_peer_urls g)"
    "hm_get net ep = Some g" "rr_to_id req = id_hex L to" "id_hex L to \<notin> set (rr_path req)"
    "hm_get (rn_peer_urls g) to = Some url" "hm_get net (relay_endpoint url) = Some g'" "n_id (rn_node g') = to"
    "next_hop (n_id (rn_node g)) to (n_table (rn_node g)) \<in> {Forward to, LocalMinimum}"
  shows "\<exists>resp net'. relay_at L order (relay_fuel L net) net ep req = Some (Ok resp, net') \<and> rs_delivered resp"
proof -
  let ?f = "length (known_ids L net)"
  let ?req = "req\<lparr>rr_path := rr_path req @ [id_hex L to]\<rparr>"
  have in_ids: "to \<in> set (node_ids g)"
    using assms(3,7) by (force simp: node_ids_def hm_get_in)
  have known: "id_hex L to \<in> set (known_ids L net)" by (rule known_idsI [OF assms(4) in_ids])
  then obtain f where f: "?f = Suc f" by (cases ?f) auto
  have own: "relay_at L order ?f net (relay_endpoint url) ?req =
      Some (Ok (fst (delivered_to g' ?req)), hm_insert (relay_endpoint url) (snd (delivered_to g' ?req)) net)"
    unfolding f by (rule relay_at_own [OF assms(1) _ assms(8)]) (simp add: assms(5,9))
  have del: "rs_delivered (fst (delivered_to g' ?req))" by (simp add: delivered_to_def)
  have ne: "n_id (rn_node g) \<noteq> to" using assms(10) next_hop_Deliver [of to to] by auto
  show ?thesis
  proof (cases "next_hop (n_id (rn_node g)) to (n_table (rn_node g)) = Forward to")
    case True
    then have "relay_decide L order g req = Inr (RelayForward to (Some url))"
      using ne assms(7) by (simp add: relay_decide_def assms(5) hex_decode_id [OF assms(1)] from_bytes_def Let_def)
    then show ?thesis
      using own del assms(4,6) by (simp add: relay_fuel_def relay_dispatch_def Let_def)
  next
    case False
    then have lm: "next_hop (n_id (rn_node g)) to (n_table (rn_node g)) = LocalMinimum" using assms(10) by auto
    obtain alts where alts: "relay_decide L order g req = Inr (RelayLocalMinimum alts)"
        "alts = List.map_filter (\<lambda>(nid, url). let hex = id_hex L nid
           in if hex \<notin> set (rr_path req) then Some (hex, url) else None) (order (rn_peer_urls g))"
      using lm ne by (simp add: relay_decide_def assms(5) hex_decode_id [OF assms(1)] from_bytes_def Let_def)
    have "(to, url) \<in> set (order (rn_peer_urls g))"
      using assms(3,7) is_orderD(1) [OF assms(2), of "rn_peer_urls g"] by (simp add: hm_get_in)
    then have mem: "(id_hex L to, url) \<in> set alts"
      unfolding alts(2) map_filter_set using assms(6) by (intro bexI [of _ "(to, url)"]) (simp_all add: Let_def)
    have sub: "post_outcome L (req\<lparr>rr_path := rr_path req @ [h]\<rparr>) net
        (relay_at L order ?f net (relay_endpoint u) (req\<lparr>rr_path := rr_path req @ [h]\<rparr>))"
      if "(h, u) \<in> set alts" for h u
    proof (rule relay_at_outcome [OF assms(2)])
      have "h \<in> set (known_ids L net)" "h \<notin> set (rr_path req)"
        using relay_decide_alternatives [OF alts(1) assms(2) that] known_idsI [OF assms(4)] by auto
      from hop_fuel [OF _ this] relay_fuel_enough [of L net "rr_path req"]
      show "card (set (known_ids L net) - set (rr_path (req\<lparr>rr_path := rr_path req @ [h]\<rparr>))) < ?f"
        by (simp add: relay_fuel_def)
    qed
    have "\<exists>resp net'. fan_out (relay_at L order ?f) req alts l net = Some (resp, net') \<and> rs_delivered resp" for l
      by (rule fan_out_delivers, erule sub, rule mem, rule own, rule del)
    then show ?thesis
      using alts(1) mem assms(4) by (auto simp: relay_fuel_def relay_dispatch_def)
  qed
qed

text \<open>
  An introduction without registration changes nothing.  With registration, whoever sends it, the
  URL of the identifier it names is replaced by the one it gives, whatever URL was known before,
  every other URL is kept, and the identifier is tried as a greedy peer in a fresh tick.  The answer
  lists at most three peers of the table, each with its known URL.
\<close>

theorem introduce_effect:
  assumes "hex_ok L" "iq_node_id req = id_hex L nid" "handle_introduce L g req = (resp, g')"
  shows "(\<not> iq_register_peer req \<longrightarrow> g' = g) \<and>
    (iq_register_peer req \<longrightarrow>
       (\<forall>k. hm_get (rn_peer_urls g') k = (if k = nid then Some (iq_admin_url req) else hm_get (rn_peer_urls g) k)) \<and>
       n_table (rn_node g') = snd (try_insert (reset_tick (n_table (rn_node g))) (SlotEntry_new Greedy nid nid))) \<and>
    length (ir_neighbors resp) \<le> 3 \<and>
    (\<forall>nb \<in> set (ir_neighbors resp). \<exists>p \<in> set (all_peers (n_table (rn_node g'))).
       nb_node_id nb = id_hex L p \<and> hm_get (rn_peer_urls g') p = Some (nb_admin_url nb))"
proof -
  have "g' = (if iq_register_peer req then register_peer g nid (iq_admin_url req) else g)"
    using assms(3)
    by (auto simp: handle_introduce_def assms(2) hex_decode_id [OF assms(1)] from_bytes_def Let_def)
  moreover have resp: "ir_neighbors resp = List.map_filter
      (\<lambda>s. map_option (\<lambda>url. \<lparr>nb_node_id = id_hex L (s_peer_id s), nb_admin_url = url\<rparr>)
         (hm_get (rn_peer_urls g') (s_peer_id s)))
      (take 3 (pt_slots (n_table (rn_node g'))))"
    using assms(3) by (auto simp: handle_introduce_def Let_def)
  moreover have "length (List.map_filter f xs) \<le> length xs" for f :: "slot_entry \<Rightarrow> neighbor_info option" and xs
    by (induction xs) (auto simp: List.map_filter_simps split: option.split)
  from this [of _ "take 3 (pt_slots (n_table (rn_node g')))"] have "length (ir_neighbors resp) \<le> 3"
    unfolding resp by (rule order_trans) simp
  moreover have "\<exists>p \<in> set (all_peers (n_table (rn_node g'))). nb_node_id nb = id_hex L p \<and>
      hm_get (rn_peer_urls g') p = Some (nb_admin_url nb)" if "nb \<in> set (ir_neighbors resp)" for nb
    using that unfolding resp map_filter_set by (auto simp: all_peers_def dest!: in_set_takeD)
  ultimately show ?thesis by (auto simp: register_peer_def admit_peer_def)
qed

subsection \<open>Witnesses\<close>

text \<open>A two-node network: the node 8 knows the node 4 as peer and by its URL.\<close>

definition demo_hex :: hex_libs where
  "demo_hex = libs.extend (demo_libs\<lparr>hex_encode := map (\<lambda>b. char_of (unat b))\<rparr>)
     \<lparr>hex_decode = (\<lambda>s. Ok (map (\<lambda>c. word_of_nat (of_char c)) s)), http_error = (\<lambda>_. ''refused'')\<rparr>"

lemma demo_hex_ok: "hex_ok demo_hex"
proof -
  have "word_of_nat (of_char (char_of (unat b) :: char)) = b" for b :: u8
    using unsigned_less [of b, where 'a = nat] by (simp add: of_char_of)
  then show ?thesis by (simp add: hex_ok_def demo_hex_def libs.defs comp_def)
qed

definition demo_admin_a :: admin_state where
  "demo_admin_a = \<lparr>rn_node = demo_peer_node, rn_peer_urls = [(idn 4, ''http://b'')], rn_self_url = ''http://a'', as_inbox = []\<rparr>"

definition demo_admin_b :: admin_state where
  "demo_admin_b = \<lparr>rn_node = demo_node 4, rn_peer_urls = [], rn_self_url = ''http://b'', as_inbox = []\<rparr>"

definition demo_net :: network where
  "demo_net = [(''http://a/api/relay'', demo_admin_a), (''http://b/api/relay'', demo_admin_b)]"

definition demo_relay_request :: relay_request where
  "demo_relay_request = \<lparr>rr_to_id = id_hex demo_hex (idn 4), rr_text = ''hi'', rr_from_client = ''me'', rr_path = [],
     rr_all_nodes = [], rr_return_node_url = None, rr_correlation_id = None\<rparr>"

lemma demo_net_get:
  "hm_get demo_net ''http://a/api/relay'' = Some demo_admin_a"
  "hm_get demo_net (relay_endpoint ''http://b'') = Some demo_admin_b"
  "hm_ok (rn_peer_urls demo_admin_a)" "hm_get (rn_peer_urls demo_admin_a) (idn 4) = Some ''http://b''"
  "n_id (rn_node demo_admin_b) = idn 4" "n_id (rn_node demo_admin_a) = idn 8"
  "next_hop (idn 8) (idn 4) (n_table (rn_node demo_admin_a)) = Forward (idn 4)"
  by (simp_all add: demo_net_def hm_get_def relay_endpoint_def demo_admin_a_def demo_admin_b_def hm_ok_def
      next_hop_def PeerTable_new_def Let_def)

lemma demo_relay_run:
  "relay_at demo_hex (\<lambda>m. m) (relay_fuel demo_hex demo_net) demo_net ''http://a/api/relay'' demo_relay_request =
     Some (Ok \<lparr>rs_delivered = True, rs_path = [id_hex demo_hex (idn 4)], rs_error = None, rs_response = None\<rparr>,
       hm_insert (relay_endpoint ''http://b'') (demo_admin_b\<lparr>as_inbox := [\<lparr>ib_from = ''me'', ib_text = ''hi''\<rparr>]\<rparr>) demo_net)"
proof -
  have "known_ids demo_hex demo_net = [id_hex demo_hex (idn 4), id_hex demo_hex (idn 4)]"
    by (simp add: known_ids_def demo_net_def node_ids_def demo_admin_a_def demo_admin_b_def all_peers_def
        PeerTable_new_def SlotEntry_new_def)
  then have fuel: "relay_fuel demo_hex demo_net = Suc (Suc (Suc 0))" by (simp add: relay_fuel_def)
  have a: "relay_decide demo_hex (\<lambda>m. m) demo_admin_a demo_relay_request = Inr (RelayForward (idn 4) (Some ''http://b''))"
    by (simp add: relay_decide_def demo_relay_request_def hex_decode_id [OF demo_hex_ok] from_bytes_def demo_net_get
        fill32_inject Let_def)
  have b: "relay_at demo_hex (\<lambda>m. m) (Suc (Suc 0)) demo_net (relay_endpoint ''http://b'')
      (demo_relay_request\<lparr>rr_path := [id_hex demo_hex (idn 4)]\<rparr>) =
    Some (Ok (fst (delivered_to demo_admin_b (demo_relay_request\<lparr>rr_path := [id_hex demo_hex (idn 4)]\<rparr>))),
      hm_insert (relay_endpoint ''http://b'')
        (snd (delivered_to demo_admin_b (demo_relay_request\<lparr>rr_path := [id_hex demo_hex (idn 4)]\<rparr>))) demo_net)"
    by (rule relay_at_own [OF demo_hex_ok _ demo_net_get(2)]) (simp add: demo_relay_request_def demo_net_get)
  have p: "rr_path demo_relay_request = []" by (simp add: demo_relay_request_def)
  show ?thesis
    unfolding fuel relay_at.simps(2) [of _ _ "Suc (Suc 0)"]
    using b by (simp add: demo_net_get a relay_dispatch_def p Let_def del: relay_at.simps)
      (simp add: delivered_to_def demo_relay_request_def demo_admin_b_def)
qed

theorem relay_terminates_witness:
  "relay_at demo_hex (\<lambda>m. m) (relay_fuel demo_hex demo_net + 5) demo_net ''http://a/api/relay'' demo_relay_request \<noteq> None"
  by (rule relay_terminates [THEN conjunct2]) simp_all

theorem relay_delivers_once_witness:
  "\<exists>net'. delivered_in demo_hex demo_relay_request demo_net net'"
  using relay_delivers_once [OF is_order_id(1) demo_relay_run] by auto

theorem relay_reaches_neighbour_witness:
  "\<exists>resp net'. relay_at demo_hex (\<lambda>m. m) (relay_fuel demo_hex demo_net) demo_net ''http://a/api/relay'' demo_relay_request =
     Some (Ok resp, net') \<and> rs_delivered resp"
  by (rule relay_reaches_neighbour [OF demo_hex_ok is_order_id(1) demo_net_get(3,1) _ _ demo_net_get(4,2,5)])
    (simp_all add: demo_relay_request_def demo_net_get)

theorem introduce_effect_witness:
  "let req = \<lparr>iq_node_id = id_hex demo_hex (idn 4), iq_admin_url = ''http://evil'', iq_register_peer = True\<rparr>;
       (resp, g') = handle_introduce demo_hex demo_admin_a req
   in hm_get (rn_peer_urls demo_admin_a) (idn 4) = Some ''http://b'' \<and>
      hm_get (rn_peer_urls g') (idn 4) = Some ''http://evil'' \<and> length (ir_neighbors resp) \<le> 3"
proof -
  let ?req = "\<lparr>iq_node_id = id_hex demo_hex (idn 4), iq_admin_url = ''http://evil'', iq_register_peer = True\<rparr>"
  have "handle_introduce demo_hex demo_admin_a ?req =
      (fst (handle_introduce demo_hex demo_admin_a ?req), snd (handle_introduce demo_hex demo_admin_a ?req))" by simp
  from introduce_effect [OF demo_hex_ok _ this, of "idn 4"] show ?thesis
    by (simp add: demo_net_get case_prod_beta' Let_def)
qed

end
