(* ===== verification/Bootstrap.thy ===== *)
theory Bootstrap
  imports Relay
begin

section \<open>Bootstrapping\<close>

text \<open>
  How a running node and an application server learn their first peers: the introductions of
  \<^verbatim>\<open>zona-p2p-node/src/main.rs\<close> and of \<^verbatim>\<open>NodeServer::bootstrap\<close> in \<^verbatim>\<open>zona-p2p-server/src/server.rs\<close>.
  The answers of the network are an argument: what the \<open>k\<close>-th request returns when it goes to
  a URL.  Waiting times are not modelled.
\<close>

type_synonym introducer = "nat \<Rightarrow> string \<Rightarrow> (introduce_response, string) result"

definition parse_node_id :: "'a hex_libs_scheme \<Rightarrow> string \<Rightarrow> node_id option" where
  "parse_node_id L s =
     (case hex_decode L s of
        Inl _ \<Rightarrow> None
      | Inr bytes \<Rightarrow> (case array32 bytes of None \<Rightarrow> None | Some arr \<Rightarrow> Some (from_bytes arr)))"

definition register_hex :: "'a hex_libs_scheme \<Rightarrow> 'r relay_node_scheme \<Rightarrow> string \<Rightarrow> string \<Rightarrow> 'r relay_node_scheme" where
  "register_hex L g hex url = (case parse_node_id L hex of None \<Rightarrow> g | Some nid \<Rightarrow> register_peer g nid url)"

text \<open>The peer that answered, then every neighbour it named.\<close>

definition register_answer ::
  "'a hex_libs_scheme \<Rightarrow> string \<Rightarrow> introduce_response \<Rightarrow> 'r relay_node_scheme \<Rightarrow> 'r relay_node_scheme" where
  "register_answer L target intro g =
     foldl (\<lambda>g nb. register_hex L g (nb_node_id nb) (nb_admin_url nb))
       (register_hex L g (ir_node_id intro) target) (ir_neighbors intro)"

subsection \<open>The node's main function\<close>

definition node_do_introduce ::
  "'a hex_libs_scheme \<Rightarrow> introducer \<Rightarrow> nat \<Rightarrow> 'r relay_node_scheme \<Rightarrow> string \<Rightarrow> neighbor_info list \<times> 'r relay_node_scheme" where
  "node_do_introduce L net k g target =
     (case net k target of
        Inl _ \<Rightarrow> ([], g)
      | Inr intro \<Rightarrow> (ir_neighbors intro, register_answer L target intro g))"

text \<open>
  The attempts at one bootstrap peer, \<open>left\<close> of them: whether the peer counts as done, the neighbours,
  the number of requests so far and the new state.
\<close>

fun node_attempts ::
  "'a hex_libs_scheme \<Rightarrow> introducer \<Rightarrow> nat \<Rightarrow> nat \<Rightarrow> 'r relay_node_scheme \<Rightarrow> string \<Rightarrow>
   bool \<times> neighbor_info list \<times> nat \<times> 'r relay_node_scheme" where
  "node_attempts L net 0 k g peer_url = (False, [], k, g)"
| "node_attempts L net (Suc left) k g peer_url =
     (let (neighbors, g) = node_do_introduce L net k g peer_url
      in if neighbors \<noteq> [] \<or> left = 0 then (True, neighbors, Suc k, g)
         else node_attempts L net left (Suc k) g peer_url)"

fun node_round1 ::
  "'a hex_libs_scheme \<Rightarrow> introducer \<Rightarrow> nat \<Rightarrow> 'r relay_node_scheme \<Rightarrow> string list \<Rightarrow> neighbor_info list \<Rightarrow>
   neighbor_info list \<times> nat \<times> 'r relay_node_scheme" where
  "node_round1 L net k g [] second_hop = (second_hop, k, g)"
| "node_round1 L net k g (peer_url # peers) second_hop =
     (let (ok, neighbors, k, g) = node_attempts L net 8 k g peer_url
      in node_round1 L net k g peers (second_hop @ neighbors))"

fun node_round2 ::
  "'a hex_libs_scheme \<Rightarrow> introducer \<Rightarrow> string list \<Rightarrow> nat \<Rightarrow> 'r relay_node_scheme \<Rightarrow> neighbor_info list \<Rightarrow>
   nat \<times> 'r relay_node_scheme" where
  "node_round2 L net already_done k g [] = (k, g)"
| "node_round2 L net already_done k g (nb # nbs) =
     (if nb_admin_url nb \<in> set already_done then node_round2 L net already_done k g nbs
      else node_round2 L net already_done (Suc k) (snd (node_do_introduce L net k g (nb_admin_url nb))) nbs)"

definition node_bootstrap ::
  "'a hex_libs_scheme \<Rightarrow> introducer \<Rightarrow> 'r relay_node_scheme \<Rightarrow> string list \<Rightarrow> nat \<times> 'r relay_node_scheme" where
  "node_bootstrap L net g bootstrap_peers =
     (let (second_hop, k, g) = node_round1 L net 0 g bootstrap_peers []
      in node_round2 L net bootstrap_peers k g second_hop)"

definition node_main_state :: "node_keypair \<Rightarrow> string \<Rightarrow> admin_state" where
  "node_main_state keypair self_url =
     (let config = (NodeConfig_new (SocketAddrV4 0 0))\<lparr>nc_max_greedy := 5\<rparr>;
          node = Node_new keypair config
      in \<lparr>rn_node = node, rn_peer_urls = [], rn_self_url = self_url, as_inbox = []\<rparr>)"

subsection \<open>The application server\<close>

definition srv_do_introduce ::
  "'a hex_libs_scheme \<Rightarrow> introducer \<Rightarrow> nat \<Rightarrow> 'r relay_node_scheme \<Rightarrow> string \<Rightarrow>
   (neighbor_info list, string) result \<times> 'r relay_node_scheme" where
  "srv_do_introduce L net k g target =
     (case net k target of
        Inl e \<Rightarrow> (Err e, g)
      | Inr intro \<Rightarrow> (Ok (ir_neighbors intro), register_answer L target intro g))"

fun srv_attempts ::
  "'a hex_libs_scheme \<Rightarrow> introducer \<Rightarrow> nat \<Rightarrow> nat \<Rightarrow> 'r relay_node_scheme \<Rightarrow> string \<Rightarrow>
   neighbor_info list \<times> nat \<times> 'r relay_node_scheme" where
  "srv_attempts L net 0 k g seed_url = ([], k, g)"
| "srv_attempts L net (Suc left) k g seed_url =
     (case srv_do_introduce L net k g seed_url of
        (Inr nb, g) \<Rightarrow> (nb, Suc k, g)
      | (Inl _, g) \<Rightarrow> srv_attempts L net left (Suc k) g seed_url)"

fun srv_round1 ::
  "'a hex_libs_scheme \<Rightarrow> introducer \<Rightarrow> nat \<Rightarrow> 'r relay_node_scheme \<Rightarrow> string list \<Rightarrow> neighbor_info list \<Rightarrow>
   neighbor_info list \<times> nat \<times> 'r relay_node_scheme" where
  "srv_round1 L net k g [] second_hop = (second_hop, k, g)"
| "srv_round1 L net k g (seed_url # seeds) second_hop =
     (case srv_do_introduce L net k g seed_url of
        (Inr nb, g) \<Rightarrow> srv_round1 L net (Suc k) g seeds (second_hop @ nb)
      | (Inl _, g) \<Rightarrow>
          let (nb, k, g) = srv_attempts L net 7 (Suc k) g seed_url
          in srv_round1 L net k g seeds (second_hop @ nb))"

fun srv_round2 ::
  "'a hex_libs_scheme \<Rightarrow> introducer \<Rightarrow> string list \<Rightarrow> nat \<Rightarrow> 'r relay_node_scheme \<Rightarrow> neighbor_info list \<Rightarrow>
   nat \<times> 'r relay_node_scheme" where
  "srv_round2 L net seeds k g [] = (k, g)"
| "srv_round2 L net seeds k g (nb # nbs) =
     (if nb_admin_url nb \<in> set seeds then srv_round2 L net seeds k g nbs
      else srv_round2 L net seeds (Suc k) (snd (srv_do_introduce L net k g (nb_admin_url nb))) nbs)"

definition srv_bootstrap ::
  "'a hex_libs_scheme \<Rightarrow> introducer \<Rightarrow> 'r relay_node_scheme \<Rightarrow> string list \<Rightarrow> nat \<times> 'r relay_node_scheme" where
  "srv_bootstrap L net g seeds =
     (let (second_hop, k, g) = srv_round1 L net 0 g seeds []
      in srv_round2 L net seeds k g second_hop)"

subsection \<open>What bootstrapping does to a node\<close>

text \<open>Registrations are the only thing that happens: each is an insertion in a fresh tick.\<close>

definition only_registers :: "'r relay_node_scheme \<Rightarrow> 'r relay_node_scheme \<Rightarrow> bool" where
  "only_registers g g' \<longleftrightarrow>
     relay_node.more g' = relay_node.more g \<and> rn_self_url g' = rn_self_url g \<and>
     rn_node g' = (rn_node g)\<lparr>n_table := n_table (rn_node g')\<rparr> \<and>
     table_step\<^sup>*\<^sup>* (n_table (rn_node g)) (n_table (rn_node g')) \<and>
     (hm_ok (rn_peer_urls g) \<longrightarrow> hm_ok (rn_peer_urls g')) \<and> hm_keys (rn_peer_urls g) \<subseteq> hm_keys (rn_peer_urls g')"

lemma only_registers_refl [simp]: "only_registers g g"
  by (simp add: only_registers_def)

lemma only_registers_trans:
  assumes "only_registers a b" "only_registers b c" shows "only_registers a c"
proof -
  have b: "rn_node b = (rn_node a)\<lparr>n_table := n_table (rn_node b)\<rparr>"
    and c: "rn_node c = (rn_node b)\<lparr>n_table := n_table (rn_node c)\<rparr>"
    using assms by (auto simp: only_registers_def)
  have "rn_node c = ((rn_node a)\<lparr>n_table := n_table (rn_node b)\<rparr>)\<lparr>n_table := n_table (rn_node c)\<rparr>"
    using b c by metis
  then have "rn_node c = (rn_node a)\<lparr>n_table := n_table (rn_node c)\<rparr>" by simp
  moreover have "table_step\<^sup>*\<^sup>* (n_table (rn_node a)) (n_table (rn_node c))"
    using assms rtranclp_trans [of table_step] unfolding only_registers_def by blast
  ultimately show ?thesis using assms unfolding only_registers_def by (metis subset_trans)
qed

lemma only_registers_peer: "only_registers g (register_peer g nid url)"
proof -
  have "table_step\<^sup>*\<^sup>* (n_table (rn_node g))
      (snd (try_insert (reset_tick (n_table (rn_node g))) (SlotEntry_new Greedy nid nid)))"
    by (meson step_insert step_reset r_into_rtranclp rtranclp.rtrancl_into_rtrancl)
  then show ?thesis by (auto simp: only_registers_def register_peer_def admit_peer_def)
qed

lemma only_registers_hex: "only_registers g (register_hex L g hex url)"
  by (simp add: register_hex_def only_registers_peer split: option.split)

lemma only_registers_answer: "only_registers g (register_answer L target intro g)"
proof -
  have "only_registers g h \<Longrightarrow> only_registers g (foldl (\<lambda>g nb. register_hex L g (nb_node_id nb) (nb_admin_url nb)) h nbs)"
    for h nbs
  proof (induction nbs arbitrary: h)
    case (Cons nb nbs)
    show ?case by (simp, rule Cons.IH, rule only_registers_trans [OF Cons.prems only_registers_hex])
  qed simp
  then show ?thesis unfolding register_answer_def using only_registers_hex by blast
qed

lemma only_registers_introduce [simp]:
  "only_registers g (snd (node_do_introduce L net k g target))"
  "only_registers g (snd (srv_do_introduce L net k g target))"
  by (simp_all add: node_do_introduce_def srv_do_introduce_def only_registers_answer split: sum.split)

text \<open>The two ends of a step of a bootstrap loop, as rules for the loops.\<close>

lemmas registers_then =
  only_registers_trans [OF only_registers_introduce(1)] only_registers_trans [OF only_registers_introduce(2)]

lemma node_attempts_registers: "only_registers g (snd (snd (snd (node_attempts L net left k g url))))"
  by (induction left arbitrary: k g) (auto simp: case_prod_beta' Let_def intro: registers_then)

lemma srv_do_introduce_registers: "srv_do_introduce L net k g url = (r, h) \<Longrightarrow> only_registers g h"
  using only_registers_introduce(2) [of g L net k url] by simp

lemma srv_attempts_registers: "only_registers g (snd (snd (srv_attempts L net left k g url)))"
proof (induction left arbitrary: k g)
  case (Suc left)
  then show ?case
    by (auto split: prod.split sum.split intro: only_registers_trans srv_do_introduce_registers)
qed simp

lemma node_round1_registers: "only_registers g (snd (snd (node_round1 L net k g urls nbs)))"
proof (induction urls arbitrary: k g nbs)
  case (Cons url urls)
  show ?case
    by (simp add: case_prod_beta' Let_def del: node_attempts.simps)
      (rule only_registers_trans [OF node_attempts_registers Cons.IH])
qed simp

lemma node_round2_registers: "only_registers g (snd (node_round2 L net urls k g nbs))"
  by (induction nbs arbitrary: k g) (auto intro: registers_then)

lemma srv_round1_registers: "only_registers g (snd (snd (srv_round1 L net k g urls nbs)))"
proof (induction urls arbitrary: k g nbs)
  case (Cons url urls)
  obtain r h where h: "srv_do_introduce L net k g url = (r, h)" by fastforce
  have step: "only_registers g x" if "only_registers h x" for x
    using only_registers_trans [OF srv_do_introduce_registers [OF h] that] .
  have retry: "only_registers h (snd (snd (srv_round1 L net k' (snd (snd (srv_attempts L net 7 (Suc k) h url))) urls ns)))" for k' ns
    by (rule only_registers_trans [OF srv_attempts_registers Cons.IH])
  show ?case
    using Cons.IH h step retry by (cases r) (simp_all add: case_prod_beta' Let_def del: srv_attempts.simps)
qed simp

lemma srv_round2_registers: "only_registers g (snd (srv_round2 L net urls k g nbs))"
  by (induction nbs arbitrary: k g) (auto intro: registers_then)

lemma bootstrap_registers:
  "only_registers g (snd (node_bootstrap L net g urls))" "only_registers g (snd (srv_bootstrap L net g urls))"
  unfolding node_bootstrap_def srv_bootstrap_def Let_def case_prod_beta'
  by (rule only_registers_trans [OF node_round1_registers node_round2_registers],
      rule only_registers_trans [OF srv_round1_registers srv_round2_registers])

text \<open>How many requests are made.\<close>

lemma node_attempts_count: "fst (snd (snd (node_attempts L net left k g url))) \<le> k + left"
proof (induction left arbitrary: k g)
  case (Suc left)
  then show ?case using Suc.IH [of "Suc k"] by (simp add: case_prod_beta' Let_def)
qed simp

lemma node_round1_count:
  fixes g :: "'r relay_node_scheme"
  shows "fst (snd (node_round1 L net k g urls nbs)) \<le> k + 8 * length urls"
proof (induction urls arbitrary: k g nbs)
  case (Cons url urls)
  let ?a = "node_attempts L net 8 k g url"
  have "fst (snd (node_round1 L net (fst (snd (snd ?a))) h urls ns)) \<le> k + 8 + 8 * length urls"
    for ns and h :: "'r relay_node_scheme"
    using Cons.IH [of "fst (snd (snd ?a))" h ns] node_attempts_count [of L net 8 k g url] by simp
  then show ?case by (simp add: case_prod_beta' Let_def add.assoc del: node_attempts.simps)
qed simp

lemma srv_attempts_count: "fst (snd (srv_attempts L net left k g url)) \<le> k + left"
proof (induction left arbitrary: k g)
  case (Suc left)
  show ?case using le_trans [OF Suc.IH] by (auto split: prod.split sum.split)
qed simp

lemma srv_round1_count:
  fixes g :: "'r relay_node_scheme"
  shows "fst (snd (srv_round1 L net k g urls nbs)) \<le> k + 8 * length urls"
proof (induction urls arbitrary: k g nbs)
  case (Cons url urls)
  have "fst (snd (srv_round1 L net k' h urls ns)) \<le> k + 8 + 8 * length urls" if "k' \<le> 8 + k"
    for k' ns and h :: "'r relay_node_scheme"
    using Cons.IH [of k' h ns] that by simp
  then show ?case
    using srv_attempts_count [of L net 7 "Suc k" "snd (srv_do_introduce L net k g url)" url]
    by (auto simp: case_prod_beta' Let_def add.assoc split: prod.split sum.split simp del: srv_attempts.simps)
qed simp

subsection \<open>Properties\<close>

lemma node_reachable_table_steps:
  "table_step\<^sup>*\<^sup>* (n_table n) t \<Longrightarrow> node_reachable L kp cfg n \<Longrightarrow> node_reachable L kp cfg (n\<lparr>n_table := t\<rparr>)"
proof (induction rule: rtranclp_induct)
  case (step t u)
  from node_reach_step [OF step.IH [OF step.prems] node_step_table, of u] step.hyps(2) show ?case by simp
qed simp

lemma only_registers_reachable:
  "only_registers g g' \<Longrightarrow> node_reachable L kp cfg (rn_node g) \<Longrightarrow> node_reachable L kp cfg (rn_node g')"
  unfolding only_registers_def by (metis node_reachable_table_steps)



text \<open>The node's main function never gives up on a bootstrap peer: its last attempt always counts as done.\<close>

lemma node_attempts_done: "fst (node_attempts L net (Suc left) k g url)"
  by (induction left arbitrary: k g) (simp_all add: case_prod_beta' Let_def)

text \<open>The server's registration is the node's.\<close>

definition http_introduce ::
  "'a hex_libs_scheme \<Rightarrow> 'r relay_node_scheme \<Rightarrow> introduce_request \<Rightarrow> introduce_response \<times> 'r relay_node_scheme" where
  "http_introduce L g req =
     (let self_id = id_hex L (n_id (rn_node g));
          g = (if iq_register_peer req then register_hex L g (iq_node_id req) (iq_admin_url req) else g);
          neighbors =
            List.map_filter
              (\<lambda>s. map_option (\<lambda>url. \<lparr>nb_node_id = id_hex L (s_peer_id s), nb_admin_url = url\<rparr>)
                 (hm_get (rn_peer_urls g) (s_peer_id s)))
              (take 3 (pt_slots (n_table (rn_node g))))
      in (\<lparr>ir_node_id = self_id, ir_neighbors = neighbors\<rparr>, g))"

text \<open>
  The two implementations of the introduction endpoint, the node's and the application server's,
  are the same function of the state and the request.
\<close>

theorem introduce_implementations_agree: "http_introduce L g req = handle_introduce L g req"
proof -
  have "register_hex L g (iq_node_id req) (iq_admin_url req) =
      (case hex_decode L (iq_node_id req) of
         Inl _ \<Rightarrow> g
       | Inr bytes \<Rightarrow> (case array32 bytes of None \<Rightarrow> g | Some raw \<Rightarrow> register_peer g (from_bytes raw) (iq_admin_url req)))"
    by (simp add: register_hex_def parse_node_id_def split: sum.split option.split)
  then show ?thesis unfolding http_introduce_def handle_introduce_def by simp
qed

end
