(* ===== verification/Utf8.thy ===== *)
theory Utf8
  imports Zona_Prelude "HOL-Library.Char_ord" "HOL-Library.Sublist"
begin

section \<open>Rust strings\<close>

text \<open>
  A Rust \<^verbatim>\<open>String\<close> is a sequence of UTF-8 bytes; here it is a HOL string whose characters are those
  bytes.  \<open>from_utf8_lossy\<close> is \<^verbatim>\<open>String::from_utf8_lossy\<close> of the standard library, which replaces every
  maximal invalid sequence by the three bytes of U+FFFD.  It leaves exactly the valid byte
  strings unchanged.
\<close>

definition string_bytes :: "string \<Rightarrow> bytes" where
  "string_bytes s = map (\<lambda>c. word_of_nat (of_char c)) s"

definition bytes_string :: "bytes \<Rightarrow> string" where
  "bytes_string bs = map (\<lambda>b. char_of (unat b)) bs"

lemma char_byte [simp]: "word_of_nat (of_char (char_of (unat b) :: char)) = (b :: u8)"
  using unsigned_less [of b, where 'a = nat] by (simp add: of_char_of)

lemma string_bytes_inverse [simp]: "string_bytes (bytes_string bs) = bs"
  unfolding string_bytes_def bytes_string_def map_map comp_def char_byte by simp

lemma bytes_string_inverse [simp]: "bytes_string (string_bytes s) = s"
proof -
  have "char_of (unat (word_of_nat (of_char c) :: u8)) = c" for c :: char
  proof -
    have "(of_char c :: nat) < 2 ^ LENGTH(8)" by simp
    then have "unat (word_of_nat (of_char c) :: u8) = of_char c" by (simp add: unsigned_of_nat take_bit_nat_eq_self)
    then show ?thesis by simp
  qed
  then show ?thesis unfolding bytes_string_def string_bytes_def map_map comp_def by simp
qed

definition byte_in :: "u8 \<Rightarrow> u8 \<Rightarrow> u8 \<Rightarrow> bool" where
  "byte_in lo hi b \<longleftrightarrow> lo \<le> b \<and> b \<le> hi"

text \<open>The range of the second byte that a leading byte of three or four allows.\<close>

definition second3 :: "u8 \<Rightarrow> u8 \<Rightarrow> bool" where
  "second3 b0 b1 \<longleftrightarrow>
     (if b0 = 0xE0 then byte_in 0xA0 0xBF b1 else if b0 = 0xED then byte_in 0x80 0x9F b1 else byte_in 0x80 0xBF b1)"

definition second4 :: "u8 \<Rightarrow> u8 \<Rightarrow> bool" where
  "second4 b0 b1 \<longleftrightarrow>
     (if b0 = 0xF0 then byte_in 0x90 0xBF b1 else if b0 = 0xF4 then byte_in 0x80 0x8F b1 else byte_in 0x80 0xBF b1)"

definition next_is :: "(u8 \<Rightarrow> bool) \<Rightarrow> bytes \<Rightarrow> bool" where
  "next_is p bs = (case bs of [] \<Rightarrow> False | b # _ \<Rightarrow> p b)"

text \<open>
  Whether a character starts here, and how many bytes it, or the invalid sequence, has besides the
  first.
\<close>

definition utf8_step :: "u8 \<Rightarrow> bytes \<Rightarrow> bool \<times> nat" where
  "utf8_step b0 bs =
     (if b0 < 0x80 then (True, 0)
      else if byte_in 0xC2 0xDF b0 then
        if next_is (byte_in 0x80 0xBF) bs then (True, 1) else (False, 0)
      else if byte_in 0xE0 0xEF b0 then
        if \<not> next_is (second3 b0) bs then (False, 0)
        else if next_is (byte_in 0x80 0xBF) (drop 1 bs) then (True, 2) else (False, 1)
      else if byte_in 0xF0 0xF4 b0 then
        if \<not> next_is (second4 b0) bs then (False, 0)
        else if \<not> next_is (byte_in 0x80 0xBF) (drop 1 bs) then (False, 1)
        else if next_is (byte_in 0x80 0xBF) (drop 2 bs) then (True, 3) else (False, 2)
      else (False, 0))"

definition replacement :: bytes where
  "replacement = [0xEF, 0xBF, 0xBD]"

function utf8_lossy :: "bytes \<Rightarrow> bytes" where
  "utf8_lossy [] = []"
| "utf8_lossy (b # bs) =
     (let (ok, n) = utf8_step b bs
      in (if ok then b # take n bs else replacement) @ utf8_lossy (drop n bs))"
  by pat_completeness auto
termination
  by (relation "measure length") auto

function valid_utf8 :: "bytes \<Rightarrow> bool" where
  "valid_utf8 [] = True"
| "valid_utf8 (b # bs) = (let (ok, n) = utf8_step b bs in ok \<and> valid_utf8 (drop n bs))"
  by pat_completeness auto
termination
  by (relation "measure length") auto

definition from_utf8_lossy :: "bytes \<Rightarrow> string" where
  "from_utf8_lossy bs = bytes_string (utf8_lossy bs)"

declare utf8_lossy.simps(2) [simp del] valid_utf8.simps(2) [simp del]

lemma next_is_append: "next_is p bs \<Longrightarrow> next_is p (bs @ xs)"
  by (cases bs) (simp_all add: next_is_def)

lemma next_is_length: "next_is p (drop k bs) \<Longrightarrow> k < length bs"
  by (rule ccontr) (simp add: next_is_def)

lemma next_is_take: "k < n \<Longrightarrow> next_is p (drop k (take n bs @ xs)) \<longleftrightarrow> next_is p (drop k bs)" if "k < length bs"
  using that by (simp add: next_is_def drop_take nth_append Cons_nth_drop_Suc [symmetric] split: list.split)
    (auto simp: take_Cons' split: if_splits)

text \<open>A character is recognised by its own bytes, whatever follows.\<close>

lemma utf8_step_local:
  assumes "utf8_step b bs = (True, n)"
  shows "n \<le> length bs" "utf8_step b (take n bs @ xs) = (True, n)"
proof -
  have "n \<in> {0, 1, 2, 3}" using assms by (auto simp: utf8_step_def split: if_splits)
  moreover have "0 < n \<Longrightarrow> 0 < length bs" "1 < n \<Longrightarrow> 1 < length bs" "2 < n \<Longrightarrow> 2 < length bs"
    using assms next_is_length [of _ 0 bs] next_is_length [of _ 1 bs] next_is_length [of _ 2 bs]
    by (auto simp: utf8_step_def split: if_splits)
  ultimately show "n \<le> length bs" "utf8_step b (take n bs @ xs) = (True, n)"
    using assms next_is_take [of 0 bs n] next_is_take [of 1 bs n] next_is_take [of 2 bs n]
    by (auto simp: utf8_step_def Suc_le_eq split: if_splits)
qed

lemma replacement_step: "utf8_step 0xEF (0xBF # 0xBD # xs) = (True, 2)"
  by (simp add: utf8_step_def byte_in_def second3_def next_is_def)

lemma valid_character:
  assumes "utf8_step b bs = (True, n)" "valid_utf8 rest"
  shows "valid_utf8 ((b # take n bs) @ rest)"
  using utf8_step_local(1) [OF assms(1)] utf8_step_local(2) [OF assms(1), of rest] assms(2) by (simp add: valid_utf8.simps(2))

lemma valid_replacement: "valid_utf8 rest \<Longrightarrow> valid_utf8 (replacement @ rest)"
  using replacement_step [of rest] by (simp add: replacement_def valid_utf8.simps(2))

lemma utf8_lossy_valid: "valid_utf8 (utf8_lossy bs)"
proof (induction bs rule: utf8_lossy.induct)
  case (2 b bs)
  obtain ok n where s: "utf8_step b bs = (ok, n)" by fastforce
  have "valid_utf8 (utf8_lossy (drop n bs))" using "2.IH" s by simp
  then show ?case
    using s valid_character [of b bs n] valid_replacement by (cases ok) (simp_all add: utf8_lossy.simps(2))
qed simp

lemma utf8_lossy_fixed: "utf8_lossy bs = bs \<longleftrightarrow> valid_utf8 bs"
proof (induction bs rule: utf8_lossy.induct)
  case (2 b bs)
  obtain ok n where s: "utf8_step b bs = (ok, n)" by fastforce
  have IH: "utf8_lossy (drop n bs) = drop n bs \<longleftrightarrow> valid_utf8 (drop n bs)" using "2.IH" s by simp
  show ?case
  proof (cases ok)
    case True
    have "take n bs @ utf8_lossy (drop n bs) = bs \<longleftrightarrow> utf8_lossy (drop n bs) = drop n bs"
      by (metis append_take_drop_id same_append_eq)
    then show ?thesis using True s IH by (simp add: utf8_lossy.simps(2) valid_utf8.simps(2))
  next
    case False
    have "b # bs \<noteq> replacement @ utf8_lossy (drop n bs)"
    proof
      assume "b # bs = replacement @ utf8_lossy (drop n bs)"
      then have "utf8_step b bs = (True, 2)"
        using replacement_step [of "utf8_lossy (drop n bs)"] by (simp add: replacement_def)
      then show False using s False by simp
    qed
    then show ?thesis using False s by (auto simp: utf8_lossy.simps(2) valid_utf8.simps(2) dest: sym)
  qed
qed simp

lemma string_bytes_lossy [simp]: "string_bytes (from_utf8_lossy bs) = utf8_lossy bs"
  by (simp add: from_utf8_lossy_def)

lemma ascii_valid: "list_all (\<lambda>b. b < 0x80) bs \<Longrightarrow> valid_utf8 bs"
  by (induction bs) (simp_all add: valid_utf8.simps(2) utf8_step_def)

end
