(* ===== verification/App_Server.thy ===== *)
theory App_Server
  imports Bootstrap Utf8
begin

section \<open>Application servers and blocking calls\<close>

text \<open>
  The \<^verbatim>\<open>zona-p2p-server\<close> crate: a node that hands application packets to registered handlers
  (\<^verbatim>\<open>server.rs\<close>, \<^verbatim>\<open>handler.rs\<close>, \<^verbatim>\<open>packet.rs\<close>) and the blocking call of its clients (\<^verbatim>\<open>http_api.rs\<close>).
  Plain nodes and servers relay for each other, so the network here maps an endpoint to either.
  Text is a sequence of UTF-8 bytes.  A pending call is a correlation identifier and the
  number of its channel; \<open>ss_sent\<close> lists what was sent on which channel.  Requests are nested, as
  in the theory Relay; what other clients do while a call waits is the matter of \<open>Concurrent_Calls\<close>.  \<^verbatim>\<open>base64\<close> is a
  parameter with the hypothesis \<open>b64_ok\<close>.
\<close>

record app_libs = hex_libs +
  b64_encode :: "bytes \<Rightarrow> string"
  b64_decode :: "string \<Rightarrow> (bytes, string) result"

definition b64_ok :: "'a app_libs_scheme \<Rightarrow> bool" where
  "b64_ok L \<longleftrightarrow> (\<forall>bs. b64_decode L (b64_encode L bs) = Ok bs)"

subsection \<open>Packets and handlers\<close>

record app_packet =
  pk_from :: node_id
  pk_payload :: bytes

record packet_handler =
  h_matches :: "bytes \<Rightarrow> bool"
  h_handle :: "app_packet \<Rightarrow> bytes option"

definition starts_with :: "bytes \<Rightarrow> bytes \<Rightarrow> bool" where
  "starts_with payload pre \<longleftrightarrow> take (length pre) payload = pre"

definition PrefixHandler_new :: "bytes \<Rightarrow> (app_packet \<Rightarrow> bytes option) \<Rightarrow> packet_handler" where
  "PrefixHandler_new pre func = \<lparr>h_matches = (\<lambda>payload. starts_with payload pre), h_handle = func\<rparr>"

definition CatchAllHandler_new :: "(app_packet \<Rightarrow> bytes option) \<Rightarrow> packet_handler" where
  "CatchAllHandler_new func = \<lparr>h_matches = (\<lambda>_. True), h_handle = func\<rparr>"

subsection \<open>State\<close>

text \<open>The counter \<^verbatim>\<open>NEXT_CID\<close> is a static variable of the process; a process runs one server.\<close>

record server_state = relay_node +
  ss_pending :: "(u64, nat) hash_map"
  ss_handlers :: "packet_handler list"
  ss_next_cid :: u64
  ss_channels :: nat
  ss_sent :: "(nat \<times> bytes) list"

definition NodeServer_new :: "string \<Rightarrow> node_keypair \<Rightarrow> server_state" where
  "NodeServer_new self_url keypair =
     (let config = (NodeConfig_new (SocketAddrV4 0 0))\<lparr>nc_max_greedy := 5\<rparr>;
          node = Node_new keypair config
      in \<lparr>rn_node = node, rn_peer_urls = [], rn_self_url = self_url, ss_pending = [], ss_handlers = [],
          ss_next_cid = 1, ss_channels = 0, ss_sent = []\<rparr>)"

definition server_register :: "packet_handler \<Rightarrow> server_state \<Rightarrow> server_state" where
  "server_register handler g = g\<lparr>ss_handlers := ss_handlers g @ [handler]\<rparr>"

definition next_cid :: "server_state \<Rightarrow> u64 \<times> server_state" where
  "next_cid g = (ss_next_cid g, g\<lparr>ss_next_cid := ss_next_cid g + 1\<rparr>)"

definition find_handler :: "server_state \<Rightarrow> bytes \<Rightarrow> packet_handler option" where
  "find_handler g payload = List.find (\<lambda>h. h_matches h payload) (ss_handlers g)"

text \<open>The network: an endpoint belongs to a plain node or to a server.\<close>

datatype participant = PlainNode admin_state | AppServer server_state

type_synonym mixed = "(string, participant) hash_map"

subsection \<open>Relaying\<close>

datatype srv_decision =
  SrvDeliver | SrvForward string string | SrvLocalMinimum "(string \<times> string) list" | SrvNoRoute string

definition srv_decide ::
  "'a hex_libs_scheme \<Rightarrow> url_order \<Rightarrow> 'r relay_node_scheme \<Rightarrow> node_id \<Rightarrow> string list \<Rightarrow> srv_decision" where
  "srv_decide L order g to_id path =
     (let self_id = n_id (rn_node g)
      in if self_id = to_id then SrvDeliver
         else case next_hop self_id to_id (n_table (rn_node g)) of
           Forward nid \<Rightarrow>
             (case hm_get (rn_peer_urls g) nid of
                Some url \<Rightarrow> SrvForward url (id_hex L nid)
              | None \<Rightarrow> SrvNoRoute (''no URL for next hop '' @ id_hex L nid))
         | Deliver \<Rightarrow> SrvDeliver
         | LocalMinimum \<Rightarrow>
             SrvLocalMinimum
               (List.map_filter
                  (\<lambda>(nid, url).
                     let hex = id_hex L nid in if hex \<notin> set path then Some (hex, url) else None)
                  (order (rn_peer_urls g))))"

definition srv_delivered :: "relay_request \<Rightarrow> string option \<Rightarrow> relay_response" where
  "srv_delivered req response =
     \<lparr>rs_delivered = True, rs_path = rr_path req, rs_error = None, rs_response = response\<rparr>"

text \<open>The request that carries an answer back.\<close>

definition response_relay :: "relay_request \<Rightarrow> string \<Rightarrow> bytes \<Rightarrow> relay_request" where
  "response_relay req self_id_hex bytes =
     \<lparr>rr_to_id = rr_from_client req, rr_text = from_utf8_lossy bytes, rr_from_client = self_id_hex,
      rr_path = [self_id_hex], rr_all_nodes = [], rr_return_node_url = None,
      rr_correlation_id = rr_correlation_id req\<rparr>"

definition resolve_pending :: "u64 \<Rightarrow> nat \<Rightarrow> string \<Rightarrow> server_state \<Rightarrow> server_state" where
  "resolve_pending cid tx text g =
     g\<lparr>ss_pending := hm_remove cid (ss_pending g), ss_sent := ss_sent g @ [(tx, string_bytes text)]\<rparr>"

text \<open>The pending call that a delivered request resolves.\<close>

definition pending_call :: "server_state \<Rightarrow> relay_request \<Rightarrow> (u64 \<times> nat) option" where
  "pending_call g req =
     (case rr_correlation_id req of
        None \<Rightarrow> None | Some cid \<Rightarrow> map_option (\<lambda>tx. (cid, tx)) (hm_get (ss_pending g) cid))"

definition srv_deliver ::
  "'a hex_libs_scheme \<Rightarrow> mixed post \<Rightarrow> string \<Rightarrow> server_state \<Rightarrow> relay_request \<Rightarrow> mixed \<Rightarrow>
   (relay_response \<times> mixed) option" where
  "srv_deliver L post ep g req net =
     (case pending_call g req of
        Some (cid, tx) \<Rightarrow>
          Some (srv_delivered req None, hm_insert ep (AppServer (resolve_pending cid tx (rr_text req) g)) net)
      | None \<Rightarrow>
          (let payload = string_bytes (rr_text req)
           in case find_handler g payload of
             None \<Rightarrow> Some (srv_delivered req None, net)
           | Some h \<Rightarrow>
               let sender = (case parse_node_id L (rr_from_client req) of None \<Rightarrow> node_id_ZERO | Some nid \<Rightarrow> nid);
                   resp_bytes = h_handle h \<lparr>pk_from = sender, pk_payload = payload\<rparr>
               in (case (resp_bytes, rr_return_node_url req) of
                     (Some bytes, Some return_url) \<Rightarrow>
                       map_option (\<lambda>(_, net). (srv_delivered req None, net))
                         (post net (relay_endpoint return_url)
                            (response_relay req (id_hex L (n_id (rn_node g))) bytes))
                   | (Some bytes, None) \<Rightarrow> Some (srv_delivered req (Some (from_utf8_lossy bytes)), net)
                   | (None, _) \<Rightarrow> Some (srv_delivered req None, net))))"

definition forward_relay ::
  "'n post \<Rightarrow> string \<Rightarrow> relay_request \<Rightarrow> string \<Rightarrow> 'n \<Rightarrow> (relay_response \<times> 'n) option" where
  "forward_relay post next_url req next_id_hex net =
     (let new_path = rr_path req @ [next_id_hex]
      in case post net (relay_endpoint next_url) (req\<lparr>rr_path := new_path\<rparr>) of
           None \<Rightarrow> None
         | Some (Inr resp, net) \<Rightarrow> Some (resp, net)
         | Some (Inl e, net) \<Rightarrow> Some (failed new_path e, net))"

text \<open>The loop of the server's fan-out is the node's.\<close>

definition srv_fan_out ::
  "'n post \<Rightarrow> (string \<times> string) list \<Rightarrow> relay_request \<Rightarrow> 'n \<Rightarrow> (relay_response \<times> 'n) option" where
  "srv_fan_out post alts req net =
     fan_out post req alts (failed (rr_path req) (''local minimum '' @ em_dash @ '' all alternatives failed'')) net"

definition srv_do_relay ::
  "'a hex_libs_scheme \<Rightarrow> url_order \<Rightarrow> mixed post \<Rightarrow> string \<Rightarrow> server_state \<Rightarrow> relay_request \<Rightarrow> mixed \<Rightarrow>
   (relay_response \<times> mixed) option" where
  "srv_do_relay L order post ep g req net =
     (case parse_node_id L (rr_to_id req) of
        None \<Rightarrow> Some (failed (rr_path req) (''bad to_id: '' @ rr_to_id req), net)
      | Some to_id \<Rightarrow>
          (case srv_decide L order g to_id (rr_path req) of
             SrvDeliver \<Rightarrow> srv_deliver L post ep g req net
           | SrvForward next_url next_id_hex \<Rightarrow>
               if next_id_hex \<in> set (rr_path req) then Some (failed (rr_path req) ''routing loop'', net)
               else forward_relay post next_url req next_id_hex net
           | SrvLocalMinimum alts \<Rightarrow>
               if alts = [] then Some (failed (rr_path req) (''local minimum '' @ em_dash @ '' dead end''), net)
               else srv_fan_out post alts req net
           | SrvNoRoute err \<Rightarrow> Some (failed (rr_path req) err, net)))"

text \<open>A relay request to an endpoint, answered with at most \<open>fuel\<close> nested requests.\<close>

primrec mixed_at :: "'a hex_libs_scheme \<Rightarrow> url_order \<Rightarrow> nat \<Rightarrow> mixed post" where
  "mixed_at L order 0 = (\<lambda>net ep req. None)"
| "mixed_at L order (Suc fuel) = (\<lambda>net ep req.
     (case hm_get net ep of
        None \<Rightarrow> Some (Err (http_error L ep), net)
      | Some (PlainNode g) \<Rightarrow>
          (case relay_decide L order g req of
             Inl (resp, g) \<Rightarrow> Some (Ok resp, hm_insert ep (PlainNode g) net)
           | Inr d \<Rightarrow>
               map_option (\<lambda>(resp, net). (Ok resp, net)) (relay_dispatch L (mixed_at L order fuel) req d net))
      | Some (AppServer g) \<Rightarrow>
          map_option (\<lambda>(resp, net). (Ok resp, net)) (srv_do_relay L order (mixed_at L order fuel) ep g req net)))"

text \<open>The identifiers the participants may add to a path, and fuel for the way there and back.\<close>

fun base_of :: "participant \<Rightarrow> relay_node" where
  "base_of (PlainNode g) = relay_node.truncate g"
| "base_of (AppServer g) = relay_node.truncate g"

definition roster :: "mixed \<Rightarrow> (string \<times> relay_node) list" where
  "roster net = map (\<lambda>(ep, p). (ep, base_of p)) net"

definition roster_ids :: "'a hex_libs_scheme \<Rightarrow> (string \<times> relay_node) list \<Rightarrow> string list" where
  "roster_ids L r = concat (map (\<lambda>(_, g). map (id_hex L) (node_ids g)) r)"

definition mixed_fuel :: "'a hex_libs_scheme \<Rightarrow> mixed \<Rightarrow> nat" where
  "mixed_fuel L net = 2 * length (roster_ids L (roster net)) + 2"

subsection \<open>The blocking call\<close>

definition update_server :: "string \<Rightarrow> (server_state \<Rightarrow> server_state) \<Rightarrow> mixed \<Rightarrow> mixed" where
  "update_server ep f net =
     (case hm_get net ep of Some (AppServer g) \<Rightarrow> hm_insert ep (AppServer (f g)) net | _ \<Rightarrow> net)"

definition remove_pending :: "u64 \<Rightarrow> server_state \<Rightarrow> server_state" where
  "remove_pending cid g = g\<lparr>ss_pending := hm_remove cid (ss_pending g)\<rparr>"

text \<open>A new channel and correlation identifier, entered in the pending calls.\<close>

definition open_call :: "server_state \<Rightarrow> u64 \<times> nat \<times> server_state" where
  "open_call g =
     (let tx = ss_channels g; (cid, g) = next_cid (g\<lparr>ss_channels := ss_channels g + 1\<rparr>)
      in (cid, tx, g\<lparr>ss_pending := hm_insert cid tx (ss_pending g)\<rparr>))"

definition first_hop_url :: "url_order \<Rightarrow> 'r relay_node_scheme \<Rightarrow> node_id \<Rightarrow> string option" where
  "first_hop_url order g to_id =
     (let any_peer = (case order (rn_peer_urls g) of [] \<Rightarrow> None | (_, url) # _ \<Rightarrow> Some url)
      in case next_hop (n_id (rn_node g)) to_id (n_table (rn_node g)) of
           Forward nid \<Rightarrow> hm_get (rn_peer_urls g) nid
         | Deliver \<Rightarrow> any_peer
         | LocalMinimum \<Rightarrow> any_peer)"

text \<open>The request that carries a call.\<close>

definition call_relay :: "'a hex_libs_scheme \<Rightarrow> server_state \<Rightarrow> node_id \<Rightarrow> bytes \<Rightarrow> u64 \<Rightarrow> relay_request" where
  "call_relay L g to_id payload cid =
     (let self_hex = id_hex L (n_id (rn_node g))
      in \<lparr>rr_to_id = id_hex L to_id, rr_text = from_utf8_lossy payload, rr_from_client = self_hex,
          rr_path = [self_hex], rr_all_nodes = [], rr_return_node_url = Some (rn_self_url g),
          rr_correlation_id = Some cid\<rparr>)"

text \<open>
  What the receiver gets once the relay has returned: the first message of its channel; an error
  if the sender was dropped; otherwise nothing comes any more and the time runs out.
\<close>

definition await_response ::
  "string \<Rightarrow> u64 \<Rightarrow> nat \<Rightarrow> mixed \<Rightarrow> (bytes, string) result \<times> mixed" where
  "await_response ep cid tx net =
     (case hm_get net ep of
        Some (AppServer g) \<Rightarrow>
          (case map_of (ss_sent g) tx of
             Some resp \<Rightarrow> (Ok resp, net)
           | None \<Rightarrow>
               if tx \<notin> snd ` set (ss_pending g) then (Err ''response channel closed'', net)
               else (Err ''timeout waiting for response'', update_server ep (remove_pending cid) net))
      | _ \<Rightarrow> (Err ''response channel closed'', net))"

definition send_and_wait ::
  "'a hex_libs_scheme \<Rightarrow> url_order \<Rightarrow> mixed \<Rightarrow> string \<Rightarrow> server_state \<Rightarrow> node_id \<Rightarrow> bytes \<Rightarrow>
   ((bytes, string) result \<times> mixed) option" where
  "send_and_wait L order net ep g to_id payload =
     (let (cid, tx, g) = open_call g; net = hm_insert ep (AppServer g) net;
          give_up = update_server ep (remove_pending cid)
      in if n_id (rn_node g) = to_id then
           Some (case find_handler g payload of
                   Some h \<Rightarrow>
                     (case h_handle h \<lparr>pk_from = to_id, pk_payload = payload\<rparr> of
                        Some resp \<Rightarrow> Ok resp | None \<Rightarrow> Err ''handler returned no response'')
                 | None \<Rightarrow> Err ''no handler matched'', give_up net)
         else case first_hop_url order g to_id of
           None \<Rightarrow> Some (Err (''no route to '' @ id_hex L to_id), give_up net)
         | Some first_url \<Rightarrow>
             (case mixed_at L order (mixed_fuel L net) net (relay_endpoint first_url) (call_relay L g to_id payload cid) of
                None \<Rightarrow> None
              | Some (Inl e, net) \<Rightarrow> Some (Err (''relay send failed: '' @ e), give_up net)
              | Some (Inr _, net) \<Rightarrow> Some (await_response ep cid tx net)))"

subsection \<open>The client endpoint\<close>

text \<open>
  The wait for the answer: the serde default is 30 seconds.  Its length never changes a result here: the
  relay has returned when \<^const>\<open>send_and_wait\<close> starts to wait, and tokio's timeout polls
  the channel before the timer, so a message that is there is taken even when the limit is 0, and one
  that is not there never comes.
\<close>

definition default_timeout_ms :: u64 where
  "default_timeout_ms = 30000"

record packet_req =
  pq_to_id :: string
  pq_payload :: string
  pq_timeout_ms :: u64

datatype packet_reply = PacketOk string | PacketErr string

definition to_id_length_error :: string where
  "to_id_length_error = ''to_id must be 64 hex chars (32 bytes)''"

definition handle_packet ::
  "'a app_libs_scheme \<Rightarrow> url_order \<Rightarrow> mixed \<Rightarrow> string \<Rightarrow> server_state \<Rightarrow> packet_req \<Rightarrow>
   (nat \<times> packet_reply \<times> mixed) option" where
  "handle_packet L order net ep g req =
     (case hex_decode L (pq_to_id req) of
        Inl e \<Rightarrow> Some (400, PacketErr (''bad to_id: '' @ e), net)
      | Inr to_bytes \<Rightarrow>
          (case array32 to_bytes of
             None \<Rightarrow> Some (400, PacketErr to_id_length_error, net)
           | Some to_arr \<Rightarrow>
               (case b64_decode L (pq_payload req) of
                  Inl e \<Rightarrow> Some (400, PacketErr (''bad payload base64: '' @ e), net)
                | Inr payload \<Rightarrow>
                    (case send_and_wait L order net ep g (from_bytes to_arr) payload of
                       None \<Rightarrow> None
                     | Some (Inr resp, net) \<Rightarrow> Some (200, PacketOk (b64_encode L resp), net)
                     | Some (Inl e, net) \<Rightarrow>
                         if sublist ''timeout'' e then Some (408, PacketErr ''timeout'', net)
                         else Some (500, PacketErr e, net)))))"

subsection \<open>Relays change inboxes and pending calls only\<close>

lemma relay_node_truncate_simps [simp]:
  "rn_node (relay_node.truncate g) = rn_node g" "rn_peer_urls (relay_node.truncate g) = rn_peer_urls g"
  "rn_self_url (relay_node.truncate g) = rn_self_url g" "node_ids (relay_node.truncate g) = node_ids g"
  by (simp_all add: relay_node.truncate_def node_ids_def)

lemma roster_insert: "hm_get net ep = Some p \<Longrightarrow> base_of p' = base_of p \<Longrightarrow> roster (hm_insert ep p' net) = roster net"
  by (induction net) (auto simp: roster_def hm_insert_def hm_get_def split: if_splits)

text \<open>The steps of the network: an entry in the inbox of a plain node, or a resolved call of a server.\<close>

inductive mixed_step :: "mixed \<Rightarrow> mixed \<Rightarrow> bool" where
  step_inbox: "hm_get net ep = Some (PlainNode g) \<Longrightarrow>
    mixed_step net (hm_insert ep (PlainNode (g\<lparr>as_inbox := as_inbox g @ [entry]\<rparr>)) net)"
| step_resolve: "hm_get net ep = Some (AppServer g) \<Longrightarrow> hm_get (ss_pending g) cid = Some tx \<Longrightarrow>
    mixed_step net (hm_insert ep (AppServer (resolve_pending cid tx text g)) net)"

inductive_cases mixed_stepE: "mixed_step net net'"

lemma mixed_step_roster: "mixed_step net net' \<Longrightarrow> roster net' = roster net"
  by (induction rule: mixed_step.induct)
    (auto intro!: roster_insert simp: resolve_pending_def relay_node.truncate_def)

lemma mixed_steps_roster: "mixed_step\<^sup>*\<^sup>* net net' \<Longrightarrow> roster net' = roster net"
  by (induction rule: rtranclp_induct) (simp_all add: mixed_step_roster)

text \<open>The way an answer extends the request's path, in a network of known identifiers.\<close>

definition path_extends :: "string list \<Rightarrow> string set \<Rightarrow> string list \<Rightarrow> bool" where
  "path_extends path K path' \<longleftrightarrow>
     (\<exists>ext. path' = path @ ext \<and> distinct ext \<and> set ext \<inter> set path = {} \<and> set ext \<subseteq> K)"

lemma path_extends_refl [simp]: "path_extends path K path"
  by (simp add: path_extends_def)

lemma path_extends_hop:
  assumes "path_extends (path @ [h]) K path'" "h \<notin> set path" "h \<in> K"
  shows "path_extends path K path'"
proof -
  obtain ext where "path' = (path @ [h]) @ ext" "distinct ext" "set ext \<inter> set (path @ [h]) = {}" "set ext \<subseteq> K"
    using assms(1) unfolding path_extends_def by blast
  then have "path' = path @ (h # ext) \<and> distinct (h # ext) \<and> set (h # ext) \<inter> set path = {} \<and> set (h # ext) \<subseteq> K"
    using assms(2,3) by auto
  then show ?thesis unfolding path_extends_def by blast
qed

lemma path_extends_one: "h \<notin> set path \<Longrightarrow> h \<in> K \<Longrightarrow> path_extends path K (path @ [h])"
  by (rule path_extends_hop) simp_all

definition mixed_ids :: "'a hex_libs_scheme \<Rightarrow> mixed \<Rightarrow> string set" where
  "mixed_ids L net = set (roster_ids L (roster net))"

definition mixed_outcome ::
  "'a hex_libs_scheme \<Rightarrow> relay_request \<Rightarrow> mixed \<Rightarrow> relay_response \<Rightarrow> mixed \<Rightarrow> bool" where
  "mixed_outcome L req net resp net' \<longleftrightarrow>
     path_extends (rr_path req) (mixed_ids L net) (rs_path resp) \<and> mixed_step\<^sup>*\<^sup>* net net'"

lemma mixed_outcome_same [simp]: "mixed_outcome L req net (failed (rr_path req) e) net"
  "mixed_outcome L req net (srv_delivered req r) net' \<longleftrightarrow> mixed_step\<^sup>*\<^sup>* net net'"
  by (simp_all add: mixed_outcome_def failed_def srv_delivered_def)

lemma mixed_outcome_hop:
  assumes "mixed_outcome L (req\<lparr>rr_path := rr_path req @ [h]\<rparr>) net resp net'" "h \<notin> set (rr_path req)" "h \<in> mixed_ids L net"
  shows "mixed_outcome L req net resp net'"
  using path_extends_hop [of "rr_path req" h] assms by (simp add: mixed_outcome_def)

lemma mixed_idsI:
  assumes "hm_get net ep = Some p" "nid \<in> set (node_ids (base_of p))" shows "id_hex L nid \<in> mixed_ids L net"
  using map_of_SomeD [OF assms(1) [unfolded hm_get_def]] assms(2)
  by (force simp: mixed_ids_def roster_ids_def roster_def)

subsection \<open>Every relay is answered\<close>

definition settled :: "(relay_response \<Rightarrow> 'n \<Rightarrow> bool) \<Rightarrow> 'n \<Rightarrow> (relay_response \<times> 'n) option \<Rightarrow> bool" where
  "settled Q net r \<longleftrightarrow>
     (\<exists>resp net'. r = Some (resp, net') \<and> Q resp net' \<and> (\<not> rs_delivered resp \<longrightarrow> net' = net))"

lemma settled_Some [simp]:
  "settled Q net (Some (resp, net')) \<longleftrightarrow> Q resp net' \<and> (\<not> rs_delivered resp \<longrightarrow> net' = net)"
  by (simp add: settled_def)

lemma settled_answers: "settled Q net r \<Longrightarrow> answers Q net (map_option (\<lambda>(resp, net). (Ok resp, net)) r)"
  by (auto simp: settled_def answers_def)

lemma answers_mono: "answers Q net r \<Longrightarrow> (\<And>resp net'. Q resp net' \<Longrightarrow> Q' resp net') \<Longrightarrow> answers Q' net r"
  by (auto simp: answers_def split: option.splits sum.splits)

lemma answers_cases:
  assumes "answers Q net r"
  obtains e where "r = Some (Err e, net)"
  | resp net' where "r = Some (Ok resp, net')" "Q resp net'" "\<not> rs_delivered resp \<longrightarrow> net' = net"
proof (cases r)
  case None
  then show ?thesis using assms by (simp add: answers_def)
next
  case (Some p)
  then obtain a net' where "r = Some (a, net')" by (cases p) auto
  then show ?thesis using assms that by (cases a) (auto simp: answers_def)
qed

text \<open>The requests one hop further that a participant may send on.\<close>

definition hop_answers :: "'a hex_libs_scheme \<Rightarrow> mixed post \<Rightarrow> relay_request \<Rightarrow> mixed \<Rightarrow> bool" where
  "hop_answers L post req net \<longleftrightarrow>
     (\<forall>h ep. h \<in> mixed_ids L net \<longrightarrow> h \<notin> set (rr_path req) \<longrightarrow>
        answers (mixed_outcome L req net) net (post net ep (req\<lparr>rr_path := rr_path req @ [h]\<rparr>)))"

lemma hop_answersD:
  "hop_answers L post req net \<Longrightarrow> h \<in> mixed_ids L net \<Longrightarrow> h \<notin> set (rr_path req) \<Longrightarrow>
    answers (mixed_outcome L req net) net (post net ep (req\<lparr>rr_path := rr_path req @ [h]\<rparr>))"
  by (simp add: hop_answers_def)

lemma mixed_outcome_failed_hop:
  "h \<in> mixed_ids L net \<Longrightarrow> h \<notin> set (rr_path req) \<Longrightarrow> mixed_outcome L req net (failed (rr_path req @ [h]) e) net"
  by (simp add: mixed_outcome_def failed_def path_extends_one)

lemma failed_undelivered [simp]: "\<not> rs_delivered (failed path e)"
  by (simp add: failed_def)

lemma fan_out_settled:
  assumes "hop_answers L post req net" "\<And>h url. (h, url) \<in> set alts \<Longrightarrow> h \<in> mixed_ids L net \<and> h \<notin> set (rr_path req)"
    "mixed_outcome L req net l net"
  shows "settled (mixed_outcome L req net) net (fan_out post req alts l net)"
  unfolding settled_def
  by (rule fan_out_answered) (use assms in \<open>auto intro: hop_answersD\<close>)

lemma forward_settled:
  assumes "hop_answers L post req net" "h \<in> mixed_ids L net" "h \<notin> set (rr_path req)"
  shows "settled (mixed_outcome L req net) net (forward_relay post url req h net)"
  using hop_answersD [OF assms, of "relay_endpoint url"] mixed_outcome_failed_hop [OF assms(2,3)]
  by (elim answers_cases) (simp_all add: forward_relay_def Let_def)

lemma relay_dispatch_forward:
  "relay_dispatch L post req (RelayForward nid (Some url)) net =
    (if id_hex L nid \<in> set (rr_path req) then Some (failed (rr_path req) ''routing loop'', net)
     else forward_relay post url req (id_hex L nid) net)"
  by (simp add: relay_dispatch_def forward_relay_def Let_def)

text \<open>What a node answers without asking another.\<close>

lemma relay_decide_cases:
  assumes "relay_decide L order g req = Inl (resp, g')"
  shows "(\<exists>e. resp = failed (rr_path req) e \<and> g' = g) \<or> (resp = fst (delivered_to g req) \<and> g' = snd (delivered_to g req))"
proof -
  have "(\<exists>e. (resp, g') = (failed (rr_path req) e, g)) \<or> (resp, g') = delivered_to g req"
    using assms by (auto simp: relay_decide_def Let_def split: sum.splits option.splits next_hop_result.splits if_splits)
  then show ?thesis by (metis fst_conv snd_conv)
qed

lemma relay_dispatch_settled:
  assumes "is_order order" "hop_answers L post req net" "hm_get net ep = Some (PlainNode g)"
    "relay_decide L order g req = Inr d"
  shows "settled (mixed_outcome L req net) net (relay_dispatch L post req d net)"
proof (cases d)
  case (RelayForward nid u)
  have "id_hex L nid \<in> mixed_ids L net"
    using relay_decide_forward assms(3,4) RelayForward by (intro mixed_idsI) auto
  then show ?thesis
    using forward_settled [OF assms(2)] RelayForward
    by (cases u) (simp_all add: relay_dispatch_forward, simp add: relay_dispatch_def)
next
  case (RelayLocalMinimum alts)
  have "h \<in> mixed_ids L net \<and> h \<notin> set (rr_path req)" if "(h, url) \<in> set alts" for h url
    using relay_decide_alternatives [of L order g req, OF _ assms(1) that] assms(4) RelayLocalMinimum
      mixed_idsI [OF assms(3)] by auto
  then show ?thesis
    using fan_out_settled [OF assms(2)] RelayLocalMinimum by (simp add: relay_dispatch_def)
qed

lemma srv_decide_forward:
  assumes "srv_decide L order g to_id path = SrvForward url h" shows "\<exists>nid \<in> set (node_ids g). h = id_hex L nid"
proof -
  obtain nid where "next_hop (n_id (rn_node g)) to_id (n_table (rn_node g)) = Forward nid" "h = id_hex L nid"
    using assms by (auto simp: srv_decide_def Let_def split: next_hop_result.splits option.splits if_splits)
  then show ?thesis using next_hop_peer by (auto simp: node_ids_def)
qed

lemma srv_decide_alternatives:
  assumes "srv_decide L order g to_id path = SrvLocalMinimum alts" "is_order order" "(h, url) \<in> set alts"
  shows "h \<notin> set path \<and> (\<exists>nid \<in> set (node_ids g). h = id_hex L nid)"
proof -
  have "(h, url) \<in> set (List.map_filter (\<lambda>(nid, url). let hex = id_hex L nid
      in if hex \<notin> set path then Some (hex, url) else None) (order (rn_peer_urls g)))"
    using assms(1,3) by (auto simp: srv_decide_def Let_def split: next_hop_result.splits option.splits if_splits)
  then show ?thesis using is_orderD(1) [OF assms(2), of "rn_peer_urls g"]
    by (force simp: map_filter_set node_ids_def Let_def split: if_splits)
qed

text \<open>The request that carries the answer back is answered, and only steps of the network happen on the way.\<close>

definition return_answers :: "'a hex_libs_scheme \<Rightarrow> mixed post \<Rightarrow> server_state \<Rightarrow> relay_request \<Rightarrow> mixed \<Rightarrow> bool" where
  "return_answers L post g req net \<longleftrightarrow>
     (\<forall>url bytes. rr_return_node_url req = Some url \<longrightarrow>
        (let resp_req = response_relay req (id_hex L (n_id (rn_node g))) bytes
         in answers (mixed_outcome L resp_req net) net (post net (relay_endpoint url) resp_req)))"

lemma srv_deliver_settled:
  assumes "hm_get net ep = Some (AppServer g)"
    "return_answers L post g req net"
  shows "settled (mixed_outcome L req net) net (srv_deliver L post ep g req net)"
proof (cases "pending_call g req")
  case (Some call)
  obtain cid tx where call: "call = (cid, tx)" by fastforce
  then have "mixed_step net (hm_insert ep (AppServer (resolve_pending cid tx (rr_text req) g)) net)"
    using Some assms(1) by (intro step_resolve) (auto simp: pending_call_def split: option.splits)
  then show ?thesis using Some call by (simp add: srv_deliver_def r_into_rtranclp srv_delivered_def mixed_outcome_def)
next
  case None
  show ?thesis
  proof (cases "find_handler g (string_bytes (rr_text req))")
    case none: None
    then show ?thesis using None by (simp add: srv_deliver_def)
  next
    case (Some h)
    let ?answer = "h_handle h \<lparr>pk_from = (case parse_node_id L (rr_from_client req) of None \<Rightarrow> node_id_ZERO | Some nid \<Rightarrow> nid),
      pk_payload = string_bytes (rr_text req)\<rparr>"
    have eq: "srv_deliver L post ep g req net = (case (?answer, rr_return_node_url req) of
         (Some bytes, Some url) \<Rightarrow> map_option (\<lambda>(_, net). (srv_delivered req None, net))
            (post net (relay_endpoint url) (response_relay req (id_hex L (n_id (rn_node g))) bytes))
       | (Some bytes, None) \<Rightarrow> Some (srv_delivered req (Some (from_utf8_lossy bytes)), net)
       | (None, _) \<Rightarrow> Some (srv_delivered req None, net))"
      by (simp add: srv_deliver_def None Some Let_def)
    show ?thesis
    proof (cases "\<exists>bytes url. ?answer = Some bytes \<and> rr_return_node_url req = Some url")
      case True
      then obtain bytes url where ans: "?answer = Some bytes" and url: "rr_return_node_url req = Some url" by blast
      from assms(2) url obtain r net' where
        "post net (relay_endpoint url) (response_relay req (id_hex L (n_id (rn_node g))) bytes) = Some (r, net')"
        "mixed_step\<^sup>*\<^sup>* net net'"
        unfolding return_answers_def Let_def mixed_outcome_def by (auto elim!: answers_cases dest!: spec [of _ bytes])
      then show ?thesis unfolding eq ans url by (simp add: srv_delivered_def mixed_outcome_def)
    next
      case False
      then show ?thesis unfolding eq by (cases ?answer; cases "rr_return_node_url req") simp_all
    qed
  qed
qed

definition relay_cost :: "'a hex_libs_scheme \<Rightarrow> mixed \<Rightarrow> relay_request \<Rightarrow> nat" where
  "relay_cost L net req =
     card (mixed_ids L net - set (rr_path req)) +
     (case rr_return_node_url req of None \<Rightarrow> 0 | Some _ \<Rightarrow> Suc (card (mixed_ids L net)))"

lemma finite_mixed_ids [simp]: "finite (mixed_ids L net)"
  by (simp add: mixed_ids_def)

lemma relay_cost_hop:
  "h \<in> mixed_ids L net \<Longrightarrow> h \<notin> set (rr_path req) \<Longrightarrow> relay_cost L net req < Suc f \<Longrightarrow>
    relay_cost L net (req\<lparr>rr_path := rr_path req @ [h]\<rparr>) < f"
proof -
  assume h: "h \<in> mixed_ids L net" "h \<notin> set (rr_path req)" and cost: "relay_cost L net req < Suc f"
  have "mixed_ids L net - set (rr_path req @ [h]) \<subset> mixed_ids L net - set (rr_path req)" using h by auto
  from psubset_card_mono [OF _ this] cost show ?thesis by (simp add: relay_cost_def)
qed

lemma relay_cost_response:
  assumes "rr_return_node_url req = Some url" "relay_cost L net req < Suc f"
  shows "relay_cost L net (response_relay req self bytes) < f"
proof -
  have "card (mixed_ids L net - {self}) \<le> card (mixed_ids L net)" by (intro card_mono) auto
  then show ?thesis using assms by (simp add: relay_cost_def response_relay_def)
qed

lemma srv_do_relay_settled:
  assumes "is_order order" "hop_answers L post req net" "hm_get net ep = Some (AppServer g)"
    "return_answers L post g req net"
  shows "settled (mixed_outcome L req net) net (srv_do_relay L order post ep g req net)"
proof (cases "parse_node_id L (rr_to_id req)")
  case None
  then show ?thesis by (simp add: srv_do_relay_def)
next
  case (Some to_id)
  show ?thesis
  proof (cases "srv_decide L order g to_id (rr_path req)")
    case SrvDeliver
    then show ?thesis using srv_deliver_settled [OF assms(3,4)] Some by (simp add: srv_do_relay_def)
  next
    case (SrvForward url h)
    have "h \<in> mixed_ids L net"
      using srv_decide_forward [OF SrvForward] mixed_idsI [OF assms(3)] by auto
    then show ?thesis using forward_settled [OF assms(2)] Some SrvForward by (simp add: srv_do_relay_def)
  next
    case (SrvLocalMinimum alts)
    have "h \<in> mixed_ids L net \<and> h \<notin> set (rr_path req)" if "(h, url) \<in> set alts" for h url
      using srv_decide_alternatives [OF SrvLocalMinimum assms(1) that] mixed_idsI [OF assms(3)] by auto
    then show ?thesis
      using fan_out_settled [OF assms(2)] Some SrvLocalMinimum by (simp add: srv_do_relay_def srv_fan_out_def)
  next
    case (SrvNoRoute e)
    then show ?thesis using Some by (simp add: srv_do_relay_def)
  qed
qed

lemma mixed_at_answers:
  "is_order order \<Longrightarrow> relay_cost L net req < fuel \<Longrightarrow>
    answers (mixed_outcome L req net) net (mixed_at L order fuel net ep req)"
proof (induction fuel arbitrary: ep req)
  case (Suc f)
  have hop: "hop_answers L (mixed_at L order f) req net"
    unfolding hop_answers_def
  proof (intro allI impI)
    fix h ep' assume h: "h \<in> mixed_ids L net" "h \<notin> set (rr_path req)"
    from Suc.IH [OF Suc.prems(1) relay_cost_hop [OF h Suc.prems(2)], of ep']
    show "answers (mixed_outcome L req net) net (mixed_at L order f net ep' (req\<lparr>rr_path := rr_path req @ [h]\<rparr>))"
      by (rule answers_mono) (rule mixed_outcome_hop [OF _ h(2,1)])
  qed
  show ?case
  proof (cases "hm_get net ep")
    case None
    then show ?thesis by (simp add: answers_def)
  next
    case (Some p)
    show ?thesis
    proof (cases p)
      case (PlainNode g)
      show ?thesis
      proof (cases "relay_decide L order g req")
        case (Inl a)
        obtain resp g' where a: "a = (resp, g')" by fastforce
        have "mixed_step net (hm_insert ep (PlainNode (snd (delivered_to g req))) net)"
          using step_inbox [of net ep g] Some PlainNode by (simp add: delivered_to_def)
        then show ?thesis
          using relay_decide_cases [OF Inl [unfolded a]] Some PlainNode Inl a
          by (auto simp: answers_def hm_insert_same mixed_outcome_def failed_def delivered_to_def)
      next
        case (Inr d)
        then show ?thesis
          using settled_answers [OF relay_dispatch_settled [OF Suc.prems(1) hop _ Inr]] Some PlainNode by simp
      qed
    next
      case (AppServer g)
      have "return_answers L (mixed_at L order f) g req net"
        using Suc.IH [OF Suc.prems(1) relay_cost_response [OF _ Suc.prems(2)]] by (simp add: return_answers_def Let_def)
      from settled_answers [OF srv_do_relay_settled [OF Suc.prems(1) hop _ this]] show ?thesis
        using Some AppServer by simp
    qed
  qed
qed simp

lemma relay_cost_fuel: "relay_cost L net req < mixed_fuel L net"
proof -
  have "card (mixed_ids L net - set (rr_path req)) \<le> card (mixed_ids L net)" by (intro card_mono) auto
  moreover have "card (mixed_ids L net) \<le> length (roster_ids L (roster net))" by (simp add: mixed_ids_def card_length)
  ultimately show ?thesis by (simp add: relay_cost_def mixed_fuel_def split: option.split)
qed

lemmas mixed_answers = mixed_at_answers [OF _ relay_cost_fuel]

subsection \<open>More fuel does not change an answer\<close>

lemma forward_relay_extends:
  "post_extends p p' \<Longrightarrow> forward_relay p url req h net = Some r \<Longrightarrow> forward_relay p' url req h net = Some r"
  unfolding forward_relay_def post_extends_def Let_def by (auto split: option.splits prod.splits sum.splits)

lemma srv_deliver_extends:
  "post_extends p p' \<Longrightarrow> srv_deliver L p ep g req net = Some r \<Longrightarrow> srv_deliver L p' ep g req net = Some r"
  unfolding srv_deliver_def post_extends_def Let_def by (auto split: option.splits)

lemma srv_do_relay_extends:
  "post_extends p p' \<Longrightarrow> srv_do_relay L order p ep g req net = Some r \<Longrightarrow> srv_do_relay L order p' ep g req net = Some r"
  unfolding srv_do_relay_def srv_fan_out_def
  using forward_relay_extends [of p p'] srv_deliver_extends [of p p'] fan_out_extends [of p p']
  by (cases r) (auto split: option.splits srv_decision.splits if_splits)

lemma mixed_at_extends: "post_extends (mixed_at L order f) (mixed_at L order (Suc f))"
proof (induction f)
  case (Suc f)
  show ?case
    unfolding post_extends_def
  proof (intro allI impI)
    fix net ep req r
    assume "mixed_at L order (Suc f) net ep req = Some r"
    then show "mixed_at L order (Suc (Suc f)) net ep req = Some r"
      using relay_dispatch_extends [OF Suc, of L req _ net] srv_do_relay_extends [OF Suc, of L order ep _ req net]
      by (auto split: option.splits participant.splits sum.splits prod.splits)
  qed
qed (simp add: post_extends_def)

lemma mixed_at_more:
  assumes "mixed_at L order f net ep req = Some r" "f \<le> k" shows "mixed_at L order k net ep req = Some r"
  using assms(2)
proof (induction rule: dec_induct)
  case (step k)
  then show ?case using mixed_at_extends unfolding post_extends_def by blast
qed (rule assms(1))

lemma answers_Some: "answers Q net r \<Longrightarrow> \<exists>x. r = Some x"
  by (auto simp: answers_def split: option.splits)

lemma mixed_at_fuel:
  assumes "is_order order" "relay_cost L net req < f"
  shows "mixed_at L order f net ep req = mixed_at L order (mixed_fuel L net) net ep req"
proof -
  obtain x y where x: "mixed_at L order f net ep req = Some x"
    and y: "mixed_at L order (mixed_fuel L net) net ep req = Some y"
    using answers_Some [OF mixed_at_answers [OF assms]] answers_Some [OF mixed_answers [OF assms(1)]] by blast
  show ?thesis
  proof (cases "f \<le> mixed_fuel L net")
    case True
    show ?thesis using mixed_at_more [OF x True] x by simp
  next
    case False
    then show ?thesis using mixed_at_more [OF y, of f] y by simp
  qed
qed

subsection \<open>Requests travel along next hops\<close>

text \<open>The participants a request passes on its way, in a network given by its roster.\<close>

inductive route ::
  "'a hex_libs_scheme \<Rightarrow> (string \<times> relay_node) list \<Rightarrow> node_id \<Rightarrow> string \<Rightarrow> string list \<Rightarrow> string \<Rightarrow> string list \<Rightarrow> bool"
  for L r to_id where
  route_here: "route L r to_id ep path ep path"
| route_hop: "map_of r ep = Some g \<Longrightarrow> n_id (rn_node g) \<noteq> to_id \<Longrightarrow>
    next_hop (n_id (rn_node g)) to_id (n_table (rn_node g)) = Forward nid \<Longrightarrow>
    hm_get (rn_peer_urls g) nid = Some url \<Longrightarrow> id_hex L nid \<notin> set path \<Longrightarrow>
    route L r to_id (relay_endpoint url) (path @ [id_hex L nid]) ep' path' \<Longrightarrow>
    route L r to_id ep path ep' path'"

lemma roster_get: "map_of (roster net) ep = map_option base_of (hm_get net ep)"
  by (induction net) (auto simp: roster_def hm_get_def)

lemma parse_node_id_hex: "hex_ok L \<Longrightarrow> parse_node_id L (id_hex L n) = Some n"
  by (simp add: parse_node_id_def hex_decode_id from_bytes_def)

lemma srv_do_relay_to:
  assumes "hex_ok L" "rr_to_id req = id_hex L to_id"
  shows "n_id (rn_node g) = to_id \<Longrightarrow> srv_do_relay L order post ep g req net = srv_deliver L post ep g req net"
    "n_id (rn_node g) \<noteq> to_id \<Longrightarrow> next_hop (n_id (rn_node g)) to_id (n_table (rn_node g)) = Forward nid \<Longrightarrow>
      hm_get (rn_peer_urls g) nid = Some url \<Longrightarrow> id_hex L nid \<notin> set (rr_path req) \<Longrightarrow>
      srv_do_relay L order post ep g req net = forward_relay post url req (id_hex L nid) net"
  by (simp_all add: srv_do_relay_def assms(2) parse_node_id_hex [OF assms(1)] srv_decide_def)

lemma relay_decide_to:
  assumes "hex_ok L" "rr_to_id req = id_hex L to_id" "n_id (rn_node g) \<noteq> to_id"
    "next_hop (n_id (rn_node g)) to_id (n_table (rn_node g)) = Forward nid" "hm_get (rn_peer_urls g) nid = Some url"
  shows "relay_decide L order g req = Inr (RelayForward nid (Some url))"
  using assms(3-5) by (simp add: relay_decide_def assms(2) hex_decode_id [OF assms(1)] from_bytes_def Let_def)

text \<open>One hop of a request whose next hop answers.\<close>

lemma mixed_at_hop:
  assumes "hex_ok L" "rr_to_id req = id_hex L to_id" "hm_get net ep = Some p" "n_id (rn_node (base_of p)) \<noteq> to_id"
    "next_hop (n_id (rn_node (base_of p))) to_id (n_table (rn_node (base_of p))) = Forward nid"
    "hm_get (rn_peer_urls (base_of p)) nid = Some url" "id_hex L nid \<notin> set (rr_path req)"
    "mixed_at L order f net (relay_endpoint url) (req\<lparr>rr_path := rr_path req @ [id_hex L nid]\<rparr>) = Some (Ok resp, net')"
  shows "mixed_at L order (Suc f) net ep req = Some (Ok resp, net')"
proof (cases p)
  case (PlainNode g)
  then show ?thesis
    using relay_decide_to [OF assms(1,2), of g nid url order] assms(3-8)
    by (simp add: relay_dispatch_forward forward_relay_def Let_def)
next
  case (AppServer g)
  then show ?thesis
    using srv_do_relay_to(2) [OF assms(1,2), of g nid url order] assms(3-8) by (simp add: forward_relay_def Let_def)
qed

lemma mixed_at_route:
  assumes "route L (roster net) to_id ep path ep' path'" "hex_ok L" "is_order order"
    "mixed_at L order (mixed_fuel L net) net ep' (req\<lparr>rr_path := path'\<rparr>) = Some (Ok resp, net')"
    "rr_to_id req = id_hex L to_id"
  shows "mixed_at L order (mixed_fuel L net) net ep (req\<lparr>rr_path := path\<rparr>) = Some (Ok resp, net')"
  using assms
proof (induction rule: route.induct)
  case (route_hop ep g nid url path ep' path')
  obtain p where p: "hm_get net ep = Some p" "g = base_of p" using route_hop.hyps(1) by (auto simp: roster_get)
  obtain f where f: "mixed_fuel L net = Suc f" unfolding mixed_fuel_def by simp
  have "nid \<in> set (node_ids g)"
    using next_hop_peer [OF route_hop.hyps(3)] by (simp add: node_ids_def)
  then have known: "id_hex L nid \<in> mixed_ids L net" using mixed_idsI p by simp
  have cost: "relay_cost L net (req\<lparr>rr_path := path @ [id_hex L nid]\<rparr>) < f"
    using relay_cost_hop [OF known, of "req\<lparr>rr_path := path\<rparr>" f] relay_cost_fuel [of L net "req\<lparr>rr_path := path\<rparr>"]
      route_hop.hyps(5) f by simp
  have "mixed_at L order f net (relay_endpoint url) (req\<lparr>rr_path := path @ [id_hex L nid]\<rparr>) = Some (Ok resp, net')"
    unfolding mixed_at_fuel [OF route_hop.prems(2) cost] by (rule route_hop.IH [OF route_hop.prems])
  then show ?case
    unfolding f
    by (intro mixed_at_hop [OF route_hop.prems(1) _ p(1)])
      (use route_hop.hyps route_hop.prems p in simp_all)
qed simp

subsection \<open>Pending calls\<close>

text \<open>Every pending call has a channel of its own, nothing was sent on it yet, and new channels are new.\<close>

definition server_ok :: "server_state \<Rightarrow> bool" where
  "server_ok g \<longleftrightarrow>
     hm_ok (ss_pending g) \<and>
     (\<forall>c t. hm_get (ss_pending g) c = Some t \<longrightarrow> t < ss_channels g \<and> t \<notin> fst ` set (ss_sent g)) \<and>
     (\<forall>c c' t. hm_get (ss_pending g) c = Some t \<longrightarrow> hm_get (ss_pending g) c' = Some t \<longrightarrow> c = c') \<and>
     (\<forall>t \<in> fst ` set (ss_sent g). t < ss_channels g)"

lemma server_ok_new: "server_ok (NodeServer_new self_url keypair)"
  by (simp add: server_ok_def NodeServer_new_def Let_def)

lemma map_of_new: "t \<notin> fst ` set xs \<Longrightarrow> ([t \<mapsto> x] ++ map_of xs) t = Some x"
  by (induction xs) (auto simp: map_add_def)

text \<open>What may happen to a server while it waits: some of its pending calls are resolved.\<close>

definition only_resolves :: "server_state \<Rightarrow> server_state \<Rightarrow> bool" where
  "only_resolves g g' \<longleftrightarrow>
     (\<forall>c t. hm_get (ss_pending g') c = Some t \<longrightarrow> hm_get (ss_pending g) c = Some t) \<and>
     (server_ok g \<longrightarrow> server_ok g') \<and>
     g' = g\<lparr>ss_pending := ss_pending g', ss_sent := ss_sent g'\<rparr>"

lemma only_resolves_refl [simp]: "only_resolves g g"
  by (simp add: only_resolves_def)

lemma only_resolves_trans:
  assumes "only_resolves a b" "only_resolves b c" shows "only_resolves a c"
proof -
  have "b = a\<lparr>ss_pending := ss_pending b, ss_sent := ss_sent b\<rparr>" "c = b\<lparr>ss_pending := ss_pending c, ss_sent := ss_sent c\<rparr>"
    using assms by (auto simp: only_resolves_def)
  then have "c = a\<lparr>ss_pending := ss_pending b, ss_sent := ss_sent b\<rparr>\<lparr>ss_pending := ss_pending c, ss_sent := ss_sent c\<rparr>"
    by metis
  then have "c = a\<lparr>ss_pending := ss_pending c, ss_sent := ss_sent c\<rparr>" by simp
  then show ?thesis using assms unfolding only_resolves_def by blast
qed

lemma server_ok_remove: "server_ok g \<Longrightarrow> server_ok (remove_pending cid g)"
  by (auto simp: server_ok_def remove_pending_def split: if_splits)

lemma only_resolves_remove: "only_resolves g (remove_pending cid g)"
  by (auto simp: only_resolves_def server_ok_remove) (simp_all add: remove_pending_def split: if_splits)

lemma only_resolves_resolve:
  assumes "hm_get (ss_pending g) cid = Some tx" shows "only_resolves g (resolve_pending cid tx text g)"
proof -
  have "server_ok (resolve_pending cid tx text g)" if ok: "server_ok g"
    unfolding server_ok_def resolve_pending_def
    using ok assms unfolding server_ok_def by (auto split: if_splits)
  then show ?thesis by (simp add: only_resolves_def resolve_pending_def split: if_splits)
qed

lemma mixed_steps_server:
  assumes "mixed_step\<^sup>*\<^sup>* net net'" "hm_get net ep = Some (AppServer g)"
  shows "\<exists>g'. hm_get net' ep = Some (AppServer g') \<and> only_resolves g g'"
  using assms(1)
proof (induction rule: rtranclp_induct)
  case base
  show ?case using assms(2) by simp
next
  case (step m m')
  then obtain g1 where "hm_get m ep = Some (AppServer g1)" "only_resolves g g1" by blast
  with step.hyps(2) show ?case
    by (cases rule: mixed_step.cases) (auto intro: only_resolves_trans only_resolves_resolve)
qed

lemma open_call_simps:
  assumes "open_call g = (cid, tx, g1)"
  shows "cid = ss_next_cid g" "tx = ss_channels g"
    "g1 = g\<lparr>ss_channels := ss_channels g + 1, ss_next_cid := ss_next_cid g + 1, ss_pending := hm_insert cid tx (ss_pending g)\<rparr>"
  using assms by (auto simp: open_call_def next_cid_def Let_def)

lemma server_ok_open:
  assumes "open_call g = (cid, tx, g1)" "server_ok g" shows "server_ok g1"
  using assms(2) open_call_simps [OF assms(1)]
  by (fastforce simp: server_ok_def less_Suc_eq split: if_splits)

text \<open>How a call ends: its identifier is no longer pending.\<close>

definition call_closed :: "u64 \<Rightarrow> server_state \<Rightarrow> string \<Rightarrow> mixed \<Rightarrow> bool" where
  "call_closed cid g1 ep net' \<longleftrightarrow>
     (\<exists>g'. hm_get net' ep = Some (AppServer g') \<and> only_resolves g1 g' \<and> hm_get (ss_pending g') cid = None)"

lemma call_closed_give_up:
  assumes "hm_get net ep = Some (AppServer g)" "only_resolves g1 g"
  shows "call_closed cid g1 ep (update_server ep (remove_pending cid) net)"
  using only_resolves_trans [OF assms(2) only_resolves_remove] assms(1)
  by (simp add: call_closed_def update_server_def) (simp add: remove_pending_def)

lemma call_closed_await:
  assumes "hm_get net ep = Some (AppServer g)" "only_resolves g1 g" "server_ok g1" "hm_get (ss_pending g1) cid = Some tx"
  shows "call_closed cid g1 ep (snd (await_response ep cid tx net))"
proof -
  have ok: "server_ok g" using assms(2,3) by (simp add: only_resolves_def)
  have same: "t = tx" if "hm_get (ss_pending g) cid = Some t" for t
    using that assms(2,4) by (auto simp: only_resolves_def)
  show ?thesis
  proof (cases "map_of (ss_sent g) tx")
    case (Some resp)
    then have "tx \<in> fst ` set (ss_sent g)" by (force dest: map_of_SomeD)
    then have "hm_get (ss_pending g) cid \<noteq> Some tx" using ok by (auto simp: server_ok_def)
    then have "hm_get (ss_pending g) cid = None" using same by (cases "hm_get (ss_pending g) cid") auto
    then show ?thesis using assms(1,2) Some by (auto simp: call_closed_def await_response_def)
  next
    case None
    show ?thesis
    proof (cases "tx \<in> snd ` set (ss_pending g)")
      case True
      then show ?thesis using None assms(1) call_closed_give_up [OF assms(1,2)] by (simp add: await_response_def)
    next
      case False
      have "hm_get (ss_pending g) cid = None"
      proof (cases "hm_get (ss_pending g) cid")
        case (Some t)
        then have "(cid, tx) \<in> set (ss_pending g)" using same ok by (simp add: server_ok_def hm_get_in)
        then show ?thesis using False by force
      qed
      then show ?thesis using None False assms(1,2) by (auto simp: call_closed_def await_response_def)
    qed
  qed
qed

lemma send_and_wait_closed:
  assumes "is_order order" "hm_get net ep = Some (AppServer g)" "server_ok g" "open_call g = (cid, tx, g1)"
    "send_and_wait L order net ep g to_id payload = Some (r, net')"
  shows "call_closed cid g1 ep net'"
proof -
  let ?net = "hm_insert ep (AppServer g1) net"
  have here: "hm_get ?net ep = Some (AppServer g1)" by simp
  have give_up: "call_closed cid g1 ep (update_server ep (remove_pending cid) ?net)"
    by (rule call_closed_give_up [OF here only_resolves_refl])
  show ?thesis
  proof (cases "n_id (rn_node g1) = to_id")
    case True
    then show ?thesis using assms(5) give_up by (simp add: send_and_wait_def assms(4))
  next
    case remote: False
    show ?thesis
    proof (cases "first_hop_url order g1 to_id")
      case None
      then show ?thesis using assms(5) give_up remote by (simp add: send_and_wait_def assms(4))
    next
      case (Some url)
      let ?req = "call_relay L g1 to_id payload cid"
      have "answers (mixed_outcome L ?req ?net) ?net (mixed_at L order (mixed_fuel L ?net) ?net (relay_endpoint url) ?req)"
        by (rule mixed_answers [OF assms(1)])
      then show ?thesis
      proof (cases rule: answers_cases)
        case (1 e)
        then show ?thesis using assms(5) give_up remote Some by (simp add: send_and_wait_def assms(4))
      next
        case (2 resp net2)
        then obtain g2 where g2: "hm_get net2 ep = Some (AppServer g2)" "only_resolves g1 g2"
          using mixed_steps_server [OF _ here] unfolding mixed_outcome_def by blast
        have "net' = snd (await_response ep cid tx net2)"
          using assms(5) 2(1) remote Some by (simp add: send_and_wait_def assms(4))
        then show ?thesis
          using call_closed_await [OF g2 server_ok_open [OF assms(4,3)]] open_call_simps [OF assms(4)] by simp
      qed
    qed
  qed
qed

lemma send_and_wait_total:
  assumes "is_order order" shows "\<exists>x. send_and_wait L order net ep g to_id payload = Some x"
proof -
  obtain cid tx g1 where call: "open_call g = (cid, tx, g1)" by (cases "open_call g") auto
  let ?net = "hm_insert ep (AppServer g1) net"
  show ?thesis
  proof (cases "n_id (rn_node g1) = to_id \<or> first_hop_url order g1 to_id = None")
    case True
    then show ?thesis by (auto simp: send_and_wait_def call Let_def)
  next
    case False
    then obtain url where "first_hop_url order g1 to_id = Some url" by auto
    moreover obtain r net2 where "mixed_at L order (mixed_fuel L ?net) ?net (relay_endpoint url)
        (call_relay L g1 to_id payload cid) = Some (r, net2)"
      using answers_Some [OF mixed_answers [OF assms]] by fastforce
    ultimately show ?thesis using False by (cases r) (simp_all add: send_and_wait_def call)
  qed
qed

subsection \<open>Answered calls\<close>

text \<open>The packet as the handler of the called server sees it, and the request as it arrives there.\<close>

lemma srv_do_relay_call:
  assumes "hex_ok L" "n_id (rn_node b) = to_id" "rr_to_id req = id_hex L to_id" "rr_correlation_id req = Some cid"
    "hm_get (ss_pending b) cid = None" "find_handler b (string_bytes (rr_text req)) = Some h"
    "rr_from_client req = id_hex L caller" "rr_return_node_url req = Some url"
    "h_handle h \<lparr>pk_from = caller, pk_payload = string_bytes (rr_text req)\<rparr> = Some answer"
    "post net (relay_endpoint url) (response_relay req (id_hex L to_id) answer) = Some (r, net')"
  shows "srv_do_relay L order post ep b req net = Some (srv_delivered req None, net')"
  using srv_do_relay_to(1) [OF assms(1,3,2)] assms(2,4-10)
  by (simp add: srv_deliver_def pending_call_def parse_node_id_hex [OF assms(1)] Let_def)

lemma srv_do_relay_response:
  assumes "hex_ok L" "rr_to_id req = id_hex L (n_id (rn_node a))" "rr_correlation_id req = Some cid"
    "hm_get (ss_pending a) cid = Some tx"
  shows "srv_do_relay L order post ep a req net =
    Some (srv_delivered req None, hm_insert ep (AppServer (resolve_pending cid tx (rr_text req) a)) net)"
  using srv_do_relay_to(1) [OF assms(1,2) refl] assms(3,4)
  by (simp add: srv_deliver_def pending_call_def)

text \<open>A call whose route leads to a server with a willing handler.\<close>

definition answerable ::
  "'a hex_libs_scheme \<Rightarrow> url_order \<Rightarrow> mixed \<Rightarrow> string \<Rightarrow> server_state \<Rightarrow> string \<Rightarrow> server_state \<Rightarrow> bytes \<Rightarrow> bytes \<Rightarrow> bool" where
  "answerable L order net ep_a a ep_b b payload answer \<longleftrightarrow>
     hm_get net ep_a = Some (AppServer a) \<and> ep_a = relay_endpoint (rn_self_url a) \<and> server_ok a \<and>
     hm_get net ep_b = Some (AppServer b) \<and> n_id (rn_node b) \<noteq> n_id (rn_node a) \<and>
     hm_get (ss_pending b) (ss_next_cid a) = None \<and>
     (\<exists>url path. first_hop_url order a (n_id (rn_node b)) = Some url \<and>
        route L (roster net) (n_id (rn_node b)) (relay_endpoint url) [id_hex L (n_id (rn_node a))] ep_b path) \<and>
     (\<exists>h. find_handler b (utf8_lossy payload) = Some h \<and>
        h_handle h \<lparr>pk_from = n_id (rn_node a), pk_payload = utf8_lossy payload\<rparr> = Some answer)"

lemma send_and_wait_answered:
  assumes "hex_ok L" "is_order order" "answerable L order net ep_a a ep_b b payload answer"
  shows "\<exists>net'. send_and_wait L order net ep_a a (n_id (rn_node b)) payload = Some (Ok (utf8_lossy answer), net') \<and>
    (\<forall>ep. ep \<noteq> ep_a \<longrightarrow> hm_get net' ep = hm_get net ep)"
proof -
  obtain url path h where a: "hm_get net ep_a = Some (AppServer a)" "ep_a = relay_endpoint (rn_self_url a)" "server_ok a"
    and b: "hm_get net ep_b = Some (AppServer b)" "n_id (rn_node b) \<noteq> n_id (rn_node a)"
      "hm_get (ss_pending b) (ss_next_cid a) = None"
    and url: "first_hop_url order a (n_id (rn_node b)) = Some url"
      "route L (roster net) (n_id (rn_node b)) (relay_endpoint url) [id_hex L (n_id (rn_node a))] ep_b path"
    and h: "find_handler b (utf8_lossy payload) = Some h"
      "h_handle h \<lparr>pk_from = n_id (rn_node a), pk_payload = utf8_lossy payload\<rparr> = Some answer"
    using assms(3) unfolding answerable_def by blast
  obtain cid tx a1 where call: "open_call a = (cid, tx, a1)" by (cases "open_call a") auto
  note a1 = open_call_simps [OF call]
  have base: "rn_node a1 = rn_node a" "rn_peer_urls a1 = rn_peer_urls a" "rn_self_url a1 = rn_self_url a"
    using a1 by simp_all
  let ?net = "hm_insert ep_a (AppServer a1) net"
  have roster: "roster ?net = roster net"
    using a1 by (intro roster_insert [OF a(1)]) (simp add: relay_node.truncate_def)
  let ?req = "call_relay L a1 (n_id (rn_node b)) payload cid"
  let ?req' = "?req\<lparr>rr_path := path\<rparr>"
  let ?resp_req = "response_relay ?req' (id_hex L (n_id (rn_node b))) answer"
  let ?a2 = "resolve_pending cid tx (rr_text ?resp_req) a1"
  obtain f where f: "mixed_fuel L ?net = Suc (Suc f)" unfolding mixed_fuel_def by simp
  have ne: "ep_b \<noteq> ep_a" using a(1) b by auto
  have returned: "mixed_at L order (Suc f) ?net ep_a ?resp_req = Some (Ok (srv_delivered ?resp_req None), hm_insert ep_a (AppServer ?a2) ?net)"
    using srv_do_relay_response [OF assms(1), of ?resp_req a1 cid tx order "mixed_at L order f" ep_a ?net] a1(3)
    by (simp add: response_relay_def call_relay_def Let_def)
  have "srv_do_relay L order (mixed_at L order (Suc f)) ep_b b ?req' ?net =
      Some (srv_delivered ?req' None, hm_insert ep_a (AppServer ?a2) ?net)"
    by (rule srv_do_relay_call [OF assms(1) refl, where cid = cid and h = h and caller = "n_id (rn_node a)" and
        url = "rn_self_url a" and answer = answer])
      (use b(3) h returned a(2) a1(1) base in \<open>simp_all add: call_relay_def Let_def\<close>)
  then have "mixed_at L order (mixed_fuel L ?net) ?net ep_b ?req' =
      Some (Ok (srv_delivered ?req' None), hm_insert ep_a (AppServer ?a2) ?net)"
    unfolding f using b(1) ne by simp
  from mixed_at_route [OF url(2) [folded roster] assms(1,2) this]
  have "mixed_at L order (mixed_fuel L ?net) ?net (relay_endpoint url) ?req =
      Some (Ok (srv_delivered ?req' None), hm_insert ep_a (AppServer ?a2) ?net)"
    by (simp add: call_relay_def base Let_def)
  moreover have "first_hop_url order a1 (n_id (rn_node b)) = Some url"
    using url(1) unfolding first_hop_url_def base .
  moreover have "tx \<notin> fst ` set (ss_sent a)" using a(3) a1(2) by (auto simp: server_ok_def)
  then have "await_response ep_a cid tx (hm_insert ep_a (AppServer ?a2) ?net) =
      (Ok (utf8_lossy answer), hm_insert ep_a (AppServer ?a2) ?net)"
    using a1(3) by (simp add: await_response_def resolve_pending_def response_relay_def map_of_new)
  ultimately have "send_and_wait L order net ep_a a (n_id (rn_node b)) payload =
      Some (Ok (utf8_lossy answer), hm_insert ep_a (AppServer ?a2) ?net)"
    using b(2) base by (simp add: send_and_wait_def call)
  then show ?thesis by simp
qed

subsection \<open>Properties\<close>

text \<open>
  C8: every relay through plain nodes and servers ends, also when a server answers with a request of
  its own, after at most \<open>mixed_fuel\<close> nested requests.  It adds entries to inboxes and resolves
  pending calls and does nothing else: no table and no URL map changes.  A request that fails or
  is not delivered changes nothing at all.  The path in the answer extends the request's by new
  and distinct identifiers.
\<close>

theorem mixed_relay_safe:
  assumes "is_order order" "mixed_fuel L net \<le> fuel"
  shows "\<exists>r net'. mixed_at L order fuel net ep req = Some (r, net') \<and>
    mixed_at L order (mixed_fuel L net) net ep req = Some (r, net') \<and>
    mixed_step\<^sup>*\<^sup>* net net' \<and> roster net' = roster net \<and>
    (case r of Inl _ \<Rightarrow> net' = net
     | Inr resp \<Rightarrow> (\<not> rs_delivered resp \<longrightarrow> net' = net) \<and>
         path_extends (rr_path req) (mixed_ids L net) (rs_path resp))"
proof -
  obtain r net' where r: "mixed_at L order (mixed_fuel L net) net ep req = Some (r, net')"
    using answers_Some [OF mixed_answers [OF assms(1)]] by fastforce
  have "mixed_at L order fuel net ep req = Some (r, net')" by (rule mixed_at_more [OF r assms(2)])
  moreover have "answers (mixed_outcome L req net) net (Some (r, net'))"
    using mixed_answers [OF assms(1), where L = L and net = net and req = req and ep = ep] r by simp
  ultimately show ?thesis
    using r by (cases r) (auto simp: answers_def mixed_outcome_def mixed_steps_roster)
qed

text \<open>
  C5: a blocking call is answered.  If the caller knows a first hop and next hops lead from there to a
  server, however many plain nodes and servers lie between, and if that server has a handler
  for the payload and no pending call under the same number, then the handler gets the payload
  with the caller as sender, the client gets the handler's answer with status 200, and nobody
  but the caller has changed.  Both directions pass through a lossy conversion to text; payload
  and answer arrive unchanged exactly if they are valid UTF-8.
\<close>

theorem call_answered:
  assumes "hex_ok L" "b64_ok L" "is_order order" "answerable L order net ep_a a ep_b b payload answer"
    "req = \<lparr>pq_to_id = id_hex L (n_id (rn_node b)), pq_payload = b64_encode L payload, pq_timeout_ms = timeout_ms\<rparr>"
  shows "\<exists>net'. handle_packet L order net ep_a a req = Some (200, PacketOk (b64_encode L (utf8_lossy answer)), net') \<and>
    (\<forall>ep. ep \<noteq> ep_a \<longrightarrow> hm_get net' ep = hm_get net ep) \<and>
    (utf8_lossy answer = answer \<longleftrightarrow> valid_utf8 answer) \<and> (utf8_lossy payload = payload \<longleftrightarrow> valid_utf8 payload)"
  using send_and_wait_answered [OF assms(1,3,4)] assms(2)
  by (auto simp: handle_packet_def assms(5) hex_decode_id [OF assms(1)] b64_ok_def from_bytes_def utf8_lossy_fixed)

text \<open>
  C6: every call returns, and none is left pending.  However a call ends, its number is not pending
  afterwards, every other call that is pending then was pending before, each with a channel of
  its own on which nothing was sent yet, and nothing else of the caller has changed.
\<close>

theorem call_leaves_no_pending:
  assumes "is_order order" "hm_get net ep = Some (AppServer g)" "server_ok g"
  shows "\<exists>r net' g'. send_and_wait L order net ep g to_id payload = Some (r, net') \<and>
    hm_get net' ep = Some (AppServer g') \<and> server_ok g' \<and>
    (\<forall>c t. hm_get (ss_pending g') c = Some t \<longrightarrow> c \<noteq> ss_next_cid g \<and> hm_get (ss_pending g) c = Some t) \<and>
    relay_node.truncate g' = relay_node.truncate g \<and> ss_handlers g' = ss_handlers g"
proof -
  obtain cid tx g1 where call: "open_call g = (cid, tx, g1)" by (cases "open_call g") auto
  obtain r net' where r: "send_and_wait L order net ep g to_id payload = Some (r, net')"
    using send_and_wait_total [OF assms(1)] by fastforce
  from send_and_wait_closed [OF assms call r] obtain g' where
    g': "hm_get net' ep = Some (AppServer g')" "only_resolves g1 g'" "hm_get (ss_pending g') cid = None"
    unfolding call_closed_def by blast
  obtain p s where "g' = g1\<lparr>ss_pending := p, ss_sent := s\<rparr>" using g'(2) unfolding only_resolves_def by blast
  then have same: "relay_node.truncate g' = relay_node.truncate g1 \<and> ss_handlers g' = ss_handlers g1"
    by (simp add: relay_node.truncate_def)
  have "c \<noteq> cid \<and> hm_get (ss_pending g) c = Some t" if "hm_get (ss_pending g') c = Some t" for c t
  proof -
    have "c \<noteq> cid" using that g'(3) by auto
    moreover have "hm_get (ss_pending g1) c = Some t" using that g'(2) by (simp add: only_resolves_def)
    ultimately show ?thesis using open_call_simps(3) [OF call] by simp
  qed
  moreover have "server_ok g'" using g'(2) server_ok_open [OF call assms(3)] by (simp add: only_resolves_def)
  moreover have "relay_node.truncate g1 = relay_node.truncate g \<and> ss_handlers g1 = ss_handlers g"
    using open_call_simps(3) [OF call] by (simp add: relay_node.truncate_def)
  ultimately show ?thesis using r g'(1) same open_call_simps(1) [OF call] by auto
qed

text \<open>
  The client endpoint always replies, with 200 and a payload or with 400, 408 or 500 and an error
  text.  It replies 400 exactly if the identifier is not hexadecimal, has not 32 bytes, or the
  payload is not base64, and then nothing has changed.
\<close>

theorem handle_packet_replies:
  assumes "is_order order"
  shows "\<exists>status reply net'. handle_packet L order net ep g req = Some (status, reply, net') \<and>
    (if status = 200 then \<exists>p. reply = PacketOk p else status \<in> {400, 408, 500} \<and> (\<exists>e. reply = PacketErr e)) \<and>
    (status = 400 \<longleftrightarrow> parse_node_id L (pq_to_id req) = None \<or> \<not> is_ok (b64_decode L (pq_payload req))) \<and>
    (status = 400 \<longrightarrow> net' = net)"
proof (cases "parse_node_id L (pq_to_id req)")
  case None
  then show ?thesis
    by (auto simp: handle_packet_def parse_node_id_def split: sum.splits option.splits)
next
  case (Some to_id)
  then obtain bytes arr where arr: "hex_decode L (pq_to_id req) = Ok bytes" "array32 bytes = Some arr" "to_id = from_bytes arr"
    by (auto simp: parse_node_id_def split: sum.splits option.splits)
  show ?thesis
  proof (cases "b64_decode L (pq_payload req)")
    case (Inl e)
    then show ?thesis using arr Some by (simp add: handle_packet_def)
  next
    case (Inr payload)
    obtain r net' where "send_and_wait L order net ep g to_id payload = Some (r, net')"
      using send_and_wait_total [OF assms] by fastforce
    then show ?thesis using arr Some Inr by (cases r) (simp_all add: handle_packet_def)
  qed
qed

text \<open>
  Calls of different servers collide.  Correlation identifiers count up from one in every process,
  and a server looks for a pending call of its own before it looks for a handler.  So when a
  server waits for a call and a request from another server arrives whose call has the same
  number, no handler sees the request, its sender is told that it was delivered, and the waiting
  call returns the payload of the request as its answer.
\<close>

theorem colliding_call_misdelivered:
  assumes "hex_ok L" "hm_get net ep_b = Some (AppServer b1)" "open_call b = (cid, tx, b1)" "server_ok b"
    "ss_next_cid a = cid" "req = (call_relay L a (n_id (rn_node b)) payload (ss_next_cid a))\<lparr>rr_path := path\<rparr>"
  shows "\<exists>net'. mixed_at L order (Suc f) net ep_b req = Some (Ok (srv_delivered req None), net') \<and>
    fst (await_response ep_b cid tx net') = Ok (utf8_lossy payload)"
proof -
  note b1 = open_call_simps [OF assms(3)]
  have "tx \<notin> fst ` set (ss_sent b)" using assms(4) b1(2) by (auto simp: server_ok_def)
  then have sent: "map_of (ss_sent b1 @ [(tx, x)]) tx = Some x" for x
    using b1(3) by (simp add: map_of_new)
  have "srv_do_relay L order (mixed_at L order f) ep_b b1 req net =
      Some (srv_delivered req None, hm_insert ep_b (AppServer (resolve_pending cid tx (rr_text req) b1)) net)"
    by (rule srv_do_relay_response [OF assms(1)]) (use b1 assms(5,6) in \<open>simp_all add: call_relay_def Let_def\<close>)
  then show ?thesis
    using assms(2,6) sent by (simp add: await_response_def resolve_pending_def call_relay_def Let_def)
qed

subsection \<open>Witnesses\<close>

text \<open>The server 8 knows the server 4, which echoes every packet.\<close>

definition demo_app :: app_libs where
  "demo_app = hex_libs.extend demo_hex \<lparr>b64_encode = bytes_string, b64_decode = (\<lambda>s. Ok (string_bytes s))\<rparr>"

definition demo_srv_a :: server_state where
  "demo_srv_a = (NodeServer_new ''http://a'' (keypair_from_seed demo_hex (fill32 8)))
     \<lparr>rn_node := demo_peer_node, rn_peer_urls := [(idn 4, ''http://b'')]\<rparr>"

definition demo_srv_b :: server_state where
  "demo_srv_b = server_register (CatchAllHandler_new (\<lambda>p. Some (pk_payload p)))
     ((NodeServer_new ''http://b'' (keypair_from_seed demo_hex (fill32 4)))\<lparr>rn_node := demo_node 4\<rparr>)"

definition demo_mixed :: mixed where
  "demo_mixed = [(''http://a/api/relay'', AppServer demo_srv_a), (''http://b/api/relay'', AppServer demo_srv_b)]"

lemma demo_app_ok: "hex_ok demo_app" "b64_ok demo_app"
  using demo_hex_ok
  by (simp_all add: hex_ok_def b64_ok_def demo_app_def demo_hex_def libs.defs hex_libs.defs)

lemma demo_mixed_get:
  "hm_get demo_mixed ''http://a/api/relay'' = Some (AppServer demo_srv_a)"
  "hm_get demo_mixed (relay_endpoint ''http://b'') = Some (AppServer demo_srv_b)"
  "n_id (rn_node demo_srv_a) = idn 8" "n_id (rn_node demo_srv_b) = idn 4" "rn_self_url demo_srv_a = ''http://a''"
  "ss_pending demo_srv_b = []" "ss_next_cid demo_srv_a = 1"
  "find_handler demo_srv_b payload = Some (CatchAllHandler_new (\<lambda>p. Some (pk_payload p)))"
  "first_hop_url order demo_srv_a (idn 4) = Some ''http://b''"
  using demo_net_get(6,7)
  by (simp_all add: demo_mixed_def hm_get_def relay_endpoint_def demo_srv_a_def demo_srv_b_def demo_admin_a_def
      find_handler_def CatchAllHandler_new_def server_register_def NodeServer_new_def first_hop_url_def Let_def)

lemma demo_srv_ok: "server_ok demo_srv_a" "server_ok demo_srv_b"
  by (simp_all add: server_ok_def demo_srv_a_def demo_srv_b_def server_register_def NodeServer_new_def Let_def)

lemma demo_answerable:
  "answerable demo_app order demo_mixed ''http://a/api/relay'' demo_srv_a (relay_endpoint ''http://b'') demo_srv_b
     payload (utf8_lossy payload)"
  unfolding answerable_def
  by (intro conjI exI [of _ "CatchAllHandler_new (\<lambda>p. Some (pk_payload p))"] exI [of _ "''http://b''"]
      exI [of _ "[id_hex demo_app (n_id (rn_node demo_srv_a))]"])
    (simp_all add: demo_mixed_get demo_srv_ok relay_endpoint_def route_here CatchAllHandler_new_def fill32_inject
      demo_mixed_get(2) [unfolded relay_endpoint_def, simplified])

theorem mixed_relay_safe_witness:
  "\<exists>r net'. mixed_at demo_app rev (mixed_fuel demo_app demo_mixed + 3) demo_mixed ''http://a/api/relay'' demo_relay_request =
     Some (r, net') \<and> roster net' = roster demo_mixed"
  using mixed_relay_safe [OF is_order_id(2), of demo_app demo_mixed "mixed_fuel demo_app demo_mixed + 3"] by fastforce

theorem call_answered_witness:
  "\<exists>net'. handle_packet demo_app rev demo_mixed ''http://a/api/relay'' demo_srv_a
     \<lparr>pq_to_id = id_hex demo_app (n_id (rn_node demo_srv_b)), pq_payload = b64_encode demo_app [104, 105], pq_timeout_ms = default_timeout_ms\<rparr> =
     Some (200, PacketOk (b64_encode demo_app (utf8_lossy (utf8_lossy [104, 105]))), net')"
  using call_answered [OF demo_app_ok is_order_id(2) demo_answerable refl, of "[104, 105]"] by blast

theorem call_leaves_no_pending_witness:
  "\<exists>r net' g'. send_and_wait demo_app rev demo_mixed ''http://a/api/relay'' demo_srv_a (idn 7) [1] = Some (r, net') \<and>
     hm_get net' ''http://a/api/relay'' = Some (AppServer g') \<and> server_ok g'"
  using call_leaves_no_pending [OF is_order_id(2) demo_mixed_get(1) demo_srv_ok(1), of demo_app "idn 7" "[1]"] by blast

theorem handle_packet_replies_witness:
  "\<exists>status reply net'. handle_packet demo_app rev demo_mixed ''http://a/api/relay'' demo_srv_a
     \<lparr>pq_to_id = ''zz'', pq_payload = ''a'', pq_timeout_ms = default_timeout_ms\<rparr> = Some (status, reply, net') \<and> status \<in> {200, 400, 408, 500}"
  using handle_packet_replies [OF is_order_id(2), of demo_app demo_mixed "''http://a/api/relay''" demo_srv_a
      "\<lparr>pq_to_id = ''zz'', pq_payload = ''a'', pq_timeout_ms = default_timeout_ms\<rparr>"] by (fastforce split: if_splits)

theorem colliding_call_misdelivered_witness:
  "\<exists>net'. fst (await_response (relay_endpoint ''http://b'') 1 0 net') = Ok (utf8_lossy [7])"
proof -
  obtain b1 where b1: "open_call demo_srv_b = (1, 0, b1)"
    by (simp add: open_call_def next_cid_def demo_srv_b_def server_register_def NodeServer_new_def Let_def)
  have "hm_get (hm_insert (relay_endpoint ''http://b'') (AppServer b1) demo_mixed) (relay_endpoint ''http://b'') =
      Some (AppServer b1)" by simp
  from colliding_call_misdelivered [OF demo_app_ok(1) this b1 demo_srv_ok(2) demo_mixed_get(7) refl, where order = rev and f = 0 and payload = "[7]" and path = "[]"]
  show ?thesis by blast
qed

end
