(* ===== verification/F64.thy ===== *)
theory F64
  imports Float_Grid
begin

section \<open>Double-precision arithmetic\<close>

text \<open>
  A finite \<^verbatim>\<open>f64\<close> is a rational number; the operations round to 53 significant bits with smallest
  spacing \<open>2 ^ -1074\<close>.  The spacing is searched from the largest binade downwards, so it is right
  for every magnitude below \<open>2 ^ 1024\<close>.  Overflow and NaN do not occur in the code that uses this:
  its numbers come from 64-bit counts and from JSON, which has neither.
\<close>

type_synonym f64 = rat

definition f64_ulp :: "rat \<Rightarrow> rat" where
  "f64_ulp x = ulp_down 52 2045 (2 ^ 971) \<bar>x\<bar>"

definition f64_round :: "rat \<Rightarrow> f64" where
  "f64_round x = of_int (rne (x / f64_ulp x)) * f64_ulp x"

definition f64_add :: "f64 \<Rightarrow> f64 \<Rightarrow> f64" where
  "f64_add a b = f64_round (a + b)"

definition f64_sub :: "f64 \<Rightarrow> f64 \<Rightarrow> f64" where
  "f64_sub a b = f64_round (a - b)"

definition f64_mul :: "f64 \<Rightarrow> f64 \<Rightarrow> f64" where
  "f64_mul a b = f64_round (a * b)"

definition f64_div :: "f64 \<Rightarrow> f64 \<Rightarrow> f64" where
  "f64_div a b = f64_round (a / b)"

text \<open>Conversions: \<^verbatim>\<open>as f64\<close>, the method \<^verbatim>\<open>round\<close> (half away from zero) and the saturating \<^verbatim>\<open>as u64\<close>.\<close>

definition f64_of_nat :: "nat \<Rightarrow> f64" where
  "f64_of_nat n = f64_round (of_nat n)"

definition round_half_away :: "f64 \<Rightarrow> f64" where
  "round_half_away x = (if 0 \<le> x then of_int \<lfloor>x + 1 / 2\<rfloor> else - of_int \<lfloor>- x + 1 / 2\<rfloor>)"

definition f64_to_u64 :: "f64 \<Rightarrow> nat" where
  "f64_to_u64 x = min (nat \<lfloor>x\<rfloor>) (2 ^ 64 - 1)"

subsection \<open>The grid\<close>

lemma ulp_down_power:
  assumes "0 < q" shows "\<exists>j \<le> k. ulp_down p k q x = q / 2 ^ j"
  using assms
proof (induction k arbitrary: q)
  case (Suc k)
  from Suc.IH [of "q / 2"] Suc.prems obtain j where j: "j \<le> k" "ulp_down p k (q / 2) x = q / 2 / 2 ^ j" by auto
  then have "Suc j \<le> Suc k \<and> ulp_down p k (q / 2) x = q / 2 ^ Suc j" by simp
  then show ?case by (cases "2 ^ p * q \<le> x") (auto intro: exI [of _ 0])
qed (auto intro: exI [of _ 0])

lemma f64_ulp_pos: "0 < f64_ulp x"
  using ulp_down_power [of "2 ^ 971" 2045 52 "\<bar>x\<bar>"] by (auto simp: f64_ulp_def)

lemma f64_ulp_cases:
  assumes "0 \<le> x" "x < 2 ^ 1024"
  shows "x < 2 ^ 53 * f64_ulp x" "f64_ulp x = 1 / 2 ^ 1074 \<or> 2 ^ 52 * f64_ulp x \<le> x" "1 / 2 ^ 1074 \<le> f64_ulp x"
proof -
  have top: "(2 :: rat) ^ Suc 52 * 2 ^ 971 = 2 ^ 1024" and least: "(2 :: rat) ^ 971 / 2 ^ 2045 = 1 / 2 ^ 1074"
    by (simp_all add: power_add [symmetric] divide_eq_eq)
  have "\<bar>x\<bar> < 2 ^ Suc 52 * 2 ^ 971" using assms unfolding top by simp
  from ulp_down_cases [OF _ this, of 2045] ulp_down_ge [of "2 ^ 971" 2045 52 "\<bar>x\<bar>"] assms
  show "x < 2 ^ 53 * f64_ulp x" "f64_ulp x = 1 / 2 ^ 1074 \<or> 2 ^ 52 * f64_ulp x \<le> x" "1 / 2 ^ 1074 \<le> f64_ulp x"
    unfolding f64_ulp_def least by simp_all
qed

lemma f64_ulp_antimono: "0 \<le> x \<Longrightarrow> x \<le> y \<Longrightarrow> \<exists>m. f64_ulp y = 2 ^ m * f64_ulp x"
  using ulp_down_antimono [of "2 ^ 971" "\<bar>x\<bar>" "\<bar>y\<bar>" 52 2045] by (simp add: f64_ulp_def)

interpretation f64: binary_grid 52 f64_ulp "1 / 2 ^ 1074" "2 ^ 1024"
  by unfold_locales (use f64_ulp_cases f64_ulp_antimono f64_ulp_pos in auto)

lemma f64_rounded: "f64.rounded = f64_round"
  by (rule ext) (simp add: f64.rounded_def f64_round_def)

lemmas f64_round_mono = f64.rounded_mono [unfolded f64_rounded]
lemmas f64_round_0 [simp] = f64.rounded_0 [unfolded f64_rounded]

lemma f64_round_nonneg: "0 \<le> x \<Longrightarrow> 0 \<le> f64_round x"
  using rne_ge_int [of 0 "x / f64_ulp x"] f64_ulp_pos [of x] by (simp add: f64_round_def)

lemma f64_round_nonpos: "x \<le> 0 \<Longrightarrow> f64_round x \<le> 0"
  using rne_le_int [of "x / f64_ulp x" 0] f64_ulp_pos [of x]
  by (simp add: f64_round_def mult_nonpos_nonneg divide_nonpos_pos)

text \<open>Integers below \<open>2 ^ 53\<close> are doubles.\<close>

lemma f64_round_nat:
  assumes "n < 2 ^ 53" shows "f64_round (of_nat n) = of_nat n"
proof (cases "n = 0")
  case False
  let ?x = "of_nat n :: rat"
  have x: "0 \<le> ?x" "?x < 2 ^ 53" "1 \<le> ?x"
    using assms False by (simp_all add: of_nat_less_iff [of n "2 ^ 53", symmetric, where 'a = rat] Suc_le_eq)
  have big: "(2 :: rat) ^ 53 < 2 ^ 1024" by (rule power_strict_increasing) simp_all
  then have top: "?x < 2 ^ 1024" using x(2) by linarith
  obtain j where j: "f64_ulp ?x = 2 ^ 971 / 2 ^ j" using ulp_down_power [of "2 ^ 971" 2045 52 "\<bar>?x\<bar>"] by (auto simp: f64_ulp_def)
  have "f64_ulp ?x < 2"
    using f64_ulp_cases(2) [OF x(1) top] x(2) by (auto simp: divide_less_eq)
  then have "(2 :: rat) ^ 971 < 2 ^ Suc j" unfolding j by (simp add: divide_less_eq)
  then have "971 \<le> j" using power_less_imp_less_exp [of "2 :: rat" 971 "Suc j"] by simp
  then have "(2 :: rat) ^ j = 2 ^ 971 * 2 ^ (j - 971)" by (metis le_add_diff_inverse power_add)
  then have "?x = of_int (int n * 2 ^ (j - 971)) * f64_ulp ?x" unfolding j by (simp add: field_simps)
  from f64.rounded_grid [OF x(1) top this] show ?thesis by (simp add: f64_rounded)
qed simp

lemma f64_round_le_nat:
  assumes "0 \<le> x" "x \<le> of_nat n" "n < 2 ^ 53" shows "f64_round x \<le> of_nat n"
proof -
  have "of_nat n < (2 :: rat) ^ 53" using assms(3) by (metis of_nat_less_iff of_nat_numeral of_nat_power)
  moreover have "(2 :: rat) ^ 53 < 2 ^ 1024" by (rule power_strict_increasing) simp_all
  ultimately have "of_nat n < (2 :: rat) ^ 1024" by linarith
  from f64_round_mono [OF assms(1,2) this] show ?thesis by (simp add: f64_round_nat [OF assms(3)])
qed

lemma f64_of_nat_nonneg [simp]: "0 \<le> f64_of_nat n"
  by (simp add: f64_of_nat_def f64_round_nonneg)

lemma round_half_away_nonneg: "0 \<le> x \<Longrightarrow> 0 \<le> round_half_away x"
  by (simp add: round_half_away_def)

lemma round_half_away_le: "0 \<le> x \<Longrightarrow> x \<le> of_nat n \<Longrightarrow> round_half_away x \<le> of_nat n"
proof -
  assume x: "0 \<le> x" "x \<le> of_nat n"
  then have "x + 1 / 2 < of_int (int n + 1)" by simp
  then have "\<lfloor>x + 1 / 2\<rfloor> < int n + 1" by (simp only: floor_less_iff)
  then have "\<lfloor>x + 1 / 2\<rfloor> \<le> int n" by simp
  then have "(of_int \<lfloor>x + 1 / 2\<rfloor> :: rat) \<le> of_int (int n)" by (simp only: of_int_le_iff)
  then show ?thesis using x(1) by (simp add: round_half_away_def)
qed

end
