(* ===== verification/Rust_Text.thy ===== *)
theory Rust_Text
  imports Utf8
begin

section \<open>String methods\<close>

text \<open>
  The methods of \<^verbatim>\<open>str\<close> the training service uses, on UTF-8 bytes: \<^verbatim>\<open>trim\<close> removes the characters
  with the Unicode property \<^verbatim>\<open>White_Space\<close>, each given by its encoding; \<^verbatim>\<open>split_once\<close>,
  \<^verbatim>\<open>strip_prefix\<close>, the ASCII case conversions and \<^verbatim>\<open>parse::<usize>\<close>.  On valid UTF-8 an encoding
  is found at the end of a string exactly if the last character is the one encoded.
\<close>

definition bytes_to_string :: "nat list \<Rightarrow> string" where
  "bytes_to_string ns = map char_of ns"

definition white_space :: "string list" where
  "white_space =
     map (\<lambda>n. bytes_to_string [n]) ([9 ..< 14] @ [32]) @
     map bytes_to_string [[0xC2, 0x85], [0xC2, 0xA0], [0xE1, 0x9A, 0x80]] @
     map (\<lambda>n. bytes_to_string [0xE2, 0x80, n]) ([0x80 ..< 0x8B] @ [0xA8, 0xA9, 0xAF]) @
     map bytes_to_string [[0xE2, 0x81, 0x9F], [0xE3, 0x80, 0x80]]"

text \<open>Removing members of a list of words from the front as long as there is one.\<close>

function strip_words :: "string list \<Rightarrow> string \<Rightarrow> string" where
  "strip_words ws s =
     (case List.find (\<lambda>w. w \<noteq> [] \<and> take (length w) s = w) ws of
        None \<Rightarrow> s
      | Some w \<Rightarrow> strip_words ws (drop (length w) s))"
  by pat_completeness auto
termination
proof (relation "measure (length \<circ> snd)")
  fix ws s w
  assume "List.find (\<lambda>w. w \<noteq> [] \<and> take (length w) s = w) ws = Some w"
  then have "w \<noteq> []" "take (length w) s = w" by (auto dest: find_Some_in)
  then show "((ws, drop (length w) s), ws, s) \<in> measure (length \<circ> snd)" by (cases s) auto
qed simp

declare strip_words.simps [simp del]

definition trim_start :: "string \<Rightarrow> string" where
  "trim_start s = strip_words white_space s"

definition trim_end :: "string \<Rightarrow> string" where
  "trim_end s = rev (strip_words (map rev white_space) (rev s))"

definition trim :: "string \<Rightarrow> string" where
  "trim s = trim_end (trim_start s)"

definition ascii_map :: "(nat \<Rightarrow> nat) \<Rightarrow> string \<Rightarrow> string" where
  "ascii_map f s = map (\<lambda>c. char_of (f (of_char c))) s"

definition to_ascii_uppercase :: "string \<Rightarrow> string" where
  "to_ascii_uppercase = ascii_map (\<lambda>n. if 97 \<le> n \<and> n \<le> 122 then n - 32 else n)"

definition to_ascii_lowercase :: "string \<Rightarrow> string" where
  "to_ascii_lowercase = ascii_map (\<lambda>n. if 65 \<le> n \<and> n \<le> 90 then n + 32 else n)"

text \<open>The part before the first occurrence of a character.\<close>

definition before_char :: "char \<Rightarrow> string \<Rightarrow> string" where
  "before_char c s = takeWhile (\<lambda>d. d \<noteq> c) s"

definition strip_prefix_char :: "char \<Rightarrow> string \<Rightarrow> string" where
  "strip_prefix_char c s = (case s of [] \<Rightarrow> [] | d # ds \<Rightarrow> if d = c then ds else s)"

definition usize_max :: nat where
  "usize_max = 2 ^ 64 - 1"

definition is_digit :: "char \<Rightarrow> bool" where
  "is_digit c \<longleftrightarrow> 48 \<le> (of_char c :: nat) \<and> (of_char c :: nat) \<le> 57"

definition parse_usize :: "string \<Rightarrow> nat option" where
  "parse_usize s =
     (let ds = strip_prefix_char (CHR ''+'') s; n = foldl (\<lambda>n c. 10 * n + (of_char c - 48)) 0 ds
      in if ds \<noteq> [] \<and> list_all is_digit ds \<and> n \<le> usize_max then Some n else None)"

definition saturating_mul_usize :: "nat \<Rightarrow> nat \<Rightarrow> nat" where
  "saturating_mul_usize a b = min (a * b) usize_max"

subsection \<open>Trimming\<close>

lemma strip_words_done: "List.find (\<lambda>w. w \<noteq> [] \<and> take (length w) (strip_words ws s) = w) ws = None"
  by (induction ws s rule: strip_words.induct) (subst strip_words.simps, auto split: option.split)

lemma strip_words_idem [simp]: "strip_words ws (strip_words ws s) = strip_words ws s"
  by (subst (1) strip_words.simps) (simp add: strip_words_done)

lemma strip_words_suffix: "\<exists>ys. s = ys @ strip_words ws s"
proof (induction ws s rule: strip_words.induct)
  case (1 ws s)
  show ?case
  proof (cases "List.find (\<lambda>w. w \<noteq> [] \<and> take (length w) s = w) ws")
    case None
    then show ?thesis by (subst strip_words.simps) simp
  next
    case (Some w)
    from 1 [OF Some] obtain ys where "drop (length w) s = ys @ strip_words ws (drop (length w) s)" by blast
    then have "s = (take (length w) s @ ys) @ strip_words ws (drop (length w) s)"
      by (metis append.assoc append_take_drop_id)
    moreover have "strip_words ws s = strip_words ws (drop (length w) s)" using Some by (subst strip_words.simps) simp
    ultimately show ?thesis by metis
  qed
qed

lemma trim_end_prefix: "\<exists>ys. s = trim_end s @ ys"
proof -
  obtain ys where "rev s = ys @ strip_words (map rev white_space) (rev s)" using strip_words_suffix by blast
  then have "s = trim_end s @ rev ys" unfolding trim_end_def by (metis rev_append rev_rev_ident)
  then show ?thesis ..
qed

text \<open>A string without a white-space character at either end.\<close>

definition no_word :: "string list \<Rightarrow> string \<Rightarrow> bool" where
  "no_word ws s \<longleftrightarrow> (\<forall>w \<in> set ws. w \<noteq> [] \<longrightarrow> take (length w) s \<noteq> w)"

lemma find_None_no_word: "List.find (\<lambda>w. w \<noteq> [] \<and> take (length w) s = w) ws = None \<longleftrightarrow> no_word ws s"
  by (auto simp: no_word_def find_None_iff)

lemma strip_words_fixed: "strip_words ws s = s \<longleftrightarrow> no_word ws s"
proof
  assume "strip_words ws s = s"
  then show "no_word ws s" using strip_words_done [of ws s] by (simp add: find_None_no_word)
next
  assume "no_word ws s"
  then show "strip_words ws s = s" unfolding find_None_no_word [symmetric] by (subst strip_words.simps) simp
qed

lemma no_word_append: "no_word ws (xs @ ys) \<Longrightarrow> no_word ws xs"
  by (force simp: no_word_def)

lemma trim_start_fixed: "trim_start s = s \<longleftrightarrow> no_word white_space s"
  by (simp add: trim_start_def strip_words_fixed)

lemma trim_end_fixed: "trim_end s = s \<longleftrightarrow> no_word (map rev white_space) (rev s)"
  unfolding trim_end_def strip_words_fixed [symmetric] by (metis rev_rev_ident)

lemma trim_end_idem [simp]: "trim_end (trim_end s) = trim_end s"
  by (simp add: trim_end_def)

lemma trim_idem [simp]: "trim (trim s) = trim s"
proof -
  have "no_word white_space (trim_start s)" by (simp add: trim_start_fixed [symmetric]) (simp add: trim_start_def)
  then have "no_word white_space (trim s)"
    unfolding trim_def using trim_end_prefix [of "trim_start s"] no_word_append by metis
  then have "trim_start (trim s) = trim s" by (simp add: trim_start_fixed)
  then show ?thesis by (simp add: trim_def)
qed

lemma trim_end_trim [simp]: "trim_end (trim s) = trim s"
  by (simp add: trim_def)

lemma trim_infix: "\<exists>xs ys. s = xs @ trim s @ ys"
  using strip_words_suffix [of s white_space] trim_end_prefix [of "trim_start s"]
  unfolding trim_def trim_start_def by metis

lemma set_trim: "set (trim s) \<subseteq> set s"
  using trim_infix [of s] by (metis Un_iff set_append subsetI)

text \<open>No white-space character contains an ASCII byte above the space.\<close>

lemma white_space_ascii: "w \<in> set white_space \<Longrightarrow> c \<in> set w \<Longrightarrow> (of_char c :: nat) \<le> 32 \<or> 127 < (of_char c :: nat)"
proof -
  have "list_all (list_all (\<lambda>c. (of_char c :: nat) \<le> 32 \<or> 127 < (of_char c :: nat))) white_space" by code_simp
  then show "w \<in> set white_space \<Longrightarrow> c \<in> set w \<Longrightarrow> (of_char c :: nat) \<le> 32 \<or> 127 < (of_char c :: nat)"
    by (auto simp: list_all_iff)
qed

lemma trim_after_ascii:
  assumes "trim_end s = s" "32 < (of_char c :: nat)" "(of_char c :: nat) \<le> 127"
  shows "trim (c # s) = c # s"
proof -
  have absent: "c \<notin> set w" if "w \<in> set white_space" for w
    using white_space_ascii [OF that, of c] assms(2,3) by auto
  have "no_word white_space (c # s)"
    unfolding no_word_def
  proof (intro ballI impI)
    fix w assume w: "w \<in> set white_space" "w \<noteq> []"
    show "take (length w) (c # s) \<noteq> w"
    proof
      assume "take (length w) (c # s) = w"
      then have "c \<in> set w" using w(2) by (cases w) auto
      then show False using absent [OF w(1)] by simp
    qed
  qed
  moreover have "no_word (map rev white_space) (rev (c # s))"
    unfolding no_word_def
  proof (intro ballI impI)
    fix w assume w: "w \<in> set (map rev white_space)" "w \<noteq> []"
    have old: "take (length w) (rev s) \<noteq> w" using assms(1) w unfolding trim_end_fixed no_word_def by blast
    have c: "c \<notin> set w" using w(1) absent by auto
    show "take (length w) (rev (c # s)) \<noteq> w"
    proof
      assume eq: "take (length w) (rev (c # s)) = w"
      show False
      proof (cases "length w \<le> length s")
        case True
        then show False using eq old by simp
      next
        case False
        then have "c \<in> set (take (length w) (rev (c # s)))" by simp
        then show False unfolding eq using c by simp
      qed
    qed
  qed
  ultimately have "trim_start (c # s) = c # s" "trim_end (c # s) = c # s"
    unfolding trim_start_fixed trim_end_fixed by blast+
  then show ?thesis by (simp add: trim_def)
qed

subsection \<open>Decimal numbers\<close>

definition decimal_value :: "string \<Rightarrow> nat" where
  "decimal_value ds = foldl (\<lambda>n c. 10 * n + (of_char c - 48)) 0 ds"

lemma nat_to_string_digits:
  "nat_to_string n \<noteq> [] \<and> list_all is_digit (nat_to_string n) \<and> decimal_value (nat_to_string n) = n"
proof (induction n rule: nat_to_string.induct)
  case (1 n)
  have d: "is_digit (char_of (48 + n mod 10))" "(of_char (char_of (48 + n mod 10 :: nat) :: char) :: nat) - 48 = n mod 10"
    using mod_less_divisor [of 10 n] by (simp_all add: is_digit_def of_char_of)
  show ?case
  proof (cases "n < 10")
    case True
    then have "nat_to_string n = [char_of (48 + n mod 10)]" by (simp add: nat_to_string.simps [of n])
    then show ?thesis using d True by (simp add: decimal_value_def)
  next
    case False
    then have "nat_to_string n = nat_to_string (n div 10) @ [char_of (48 + n mod 10)]" by (simp add: nat_to_string.simps [of n])
    then show ?thesis using 1 False d by (simp add: decimal_value_def)
  qed
qed

lemma parse_nat_to_string: "n \<le> usize_max \<Longrightarrow> parse_usize (nat_to_string n) = Some n"
proof -
  assume "n \<le> usize_max"
  moreover have "strip_prefix_char (CHR ''+'') (nat_to_string n) = nat_to_string n"
    using nat_to_string_digits [of n] by (cases "nat_to_string n") (auto simp: strip_prefix_char_def is_digit_def)
  ultimately show ?thesis
    using nat_to_string_digits [of n] by (simp add: parse_usize_def decimal_value_def Let_def)
qed

subsection \<open>A sample encoding\<close>

text \<open>An encoding of pairs of strings as text, for the instances of parameters: a byte becomes two letters.\<close>

definition demo_enc :: "string \<Rightarrow> string" where
  "demo_enc s = concat (map (\<lambda>c. [char_of (65 + of_char c div 16 :: nat), char_of (65 + of_char c mod 16 :: nat)]) s)"

definition demo_dec :: "char \<Rightarrow> char \<Rightarrow> char" where
  "demo_dec c d = char_of ((of_char c - 65) * 16 + (of_char d - 65) :: nat)"

fun demo_parse :: "string \<Rightarrow> string \<Rightarrow> string \<Rightarrow> (string \<times> string) list" where
  "demo_parse k acc (c # d # cs) =
     (if c = CHR ''='' then demo_parse acc [] (d # cs)
      else if c = CHR ''&'' then (k, acc) # demo_parse [] [] (d # cs)
      else demo_parse k (acc @ [demo_dec c d]) cs)"
| "demo_parse k acc [c] = (if c = CHR ''&'' then [(k, acc)] else [])"
| "demo_parse k acc [] = []"

definition demo_serialize :: "(string \<times> string) list \<Rightarrow> string" where
  "demo_serialize ps = concat (map (\<lambda>(k, v). demo_enc k @ ''='' @ demo_enc v @ ''&'') ps)"

lemma demo_letter: "n < 16 \<Longrightarrow> (of_char (char_of (65 + n :: nat) :: char) :: nat) = 65 + n"
  by (simp add: of_char_of)

lemma demo_parse_enc:
  "xs \<noteq> [] \<Longrightarrow> demo_parse k acc (demo_enc s @ xs) = demo_parse k (acc @ s) xs"
proof (induction s arbitrary: acc)
  case (Cons c s)
  let ?n = "of_char c :: nat"
  have n: "?n div 16 < 16" "?n mod 16 < 16" using nat_of_char_less_256 [of c] by (simp_all add: less_mult_imp_div_less)
  have "char_of (65 + ?n div 16) \<noteq> CHR ''=''" "char_of (65 + ?n div 16) \<noteq> CHR ''&''"
    by (rule notI, drule arg_cong [of _ _ "of_char :: char \<Rightarrow> nat"], use demo_letter [OF n(1)] in simp)+
  moreover have "demo_dec (char_of (65 + ?n div 16)) (char_of (65 + ?n mod 16)) = c"
  proof -
    have "(65 + ?n div 16) mod 256 = 65 + ?n div 16" using n(1) by simp
    then show ?thesis by (simp add: demo_dec_def)
  qed
  ultimately show ?case using Cons by (simp add: demo_enc_def)
qed (simp add: demo_enc_def)

lemma demo_parse_serialize: "demo_parse [] [] (demo_serialize ps) = ps"
proof (induction ps)
  case (Cons p ps)
  obtain k v where p: "p = (k, v)" by fastforce
  let ?rest = "demo_serialize ps"
  have "demo_serialize (p # ps) = demo_enc k @ (''='' @ demo_enc v @ ''&'' @ ?rest)"
    by (simp add: demo_serialize_def p)
  also have "demo_parse [] [] \<dots> = demo_parse [] k (''='' @ demo_enc v @ ''&'' @ ?rest)"
    by (subst demo_parse_enc) simp_all
  also have "\<dots> = demo_parse k [] (demo_enc v @ ''&'' @ ?rest)"
    by (cases "demo_enc v @ ''&'' @ ?rest") simp_all
  also have "\<dots> = demo_parse k v (''&'' @ ?rest)"
    by (subst demo_parse_enc) simp_all
  also have "\<dots> = (k, v) # demo_parse [] [] ?rest"
    by (cases ?rest) simp_all
  finally show ?case using Cons.IH p by simp
qed (simp add: demo_serialize_def)

text \<open>Its text is ASCII.\<close>

lemma demo_serialize_ascii: "list_all (\<lambda>b. b < 0x80) (string_bytes (demo_serialize ps))"
proof -
  have nat: "word_of_nat n < (0x80 :: u8)" if "n < 0x80" for n
    using that by (simp add: word_less_nat_alt unsigned_of_nat take_bit_nat_eq_self)
  have letters: "(of_char c :: nat) < 0x80" if "c \<in> set (demo_enc s)" for c s
  proof -
    from that obtain x :: char where "c = char_of (65 + of_char x div 16 :: nat) \<or> c = char_of (65 + of_char x mod 16 :: nat)"
      by (auto simp: demo_enc_def)
    moreover have "(of_char x :: nat) div 16 < 16" "(of_char x :: nat) mod 16 < 16"
      using nat_of_char_less_256 [of x] by (simp_all add: less_mult_imp_div_less)
    ultimately obtain n :: nat where "c = char_of (65 + n)" "n < 16" by blast
    then show ?thesis using demo_letter [of n] by simp
  qed
  have "(of_char c :: nat) < 0x80" if "c \<in> set (demo_serialize ps)" for c
    using that letters by (auto simp: demo_serialize_def)
  then show ?thesis by (auto simp: string_bytes_def list_all_iff nat)
qed

end
