(* ===== verification/Train_Store.thy ===== *)
theory Train_Store
  imports F64 Rust_Text Hash_Map "HOL-Library.Product_Lexorder"
begin

section \<open>The training store\<close>

text \<open>
  The crate \<^verbatim>\<open>zona\<close>: \<^verbatim>\<open>store.rs\<close> collects samples of observed requests by route, decides when the
  training is complete and keeps the store in a file; \<^verbatim>\<open>teach.rs\<close> records a sample,
  \<^verbatim>\<open>query_canonical.rs\<close> brings query strings into a canonical form, \<^verbatim>\<open>training_status.rs\<close> and
  \<^verbatim>\<open>train_store_dump.rs\<close> report.  A store and the disk are passed along; the lock is not
  modelled, as every method holds it from beginning to end.  \<^verbatim>\<open>usize\<close> counts are natural numbers, an
  \<^verbatim>\<open>i64\<close> time stamp is an integer and an \<^verbatim>\<open>f64\<close> a rational number.  The crates \<^verbatim>\<open>url\<close> and
  \<^verbatim>\<open>serde_json\<close> are parameters.
\<close>

record sample =
  sm_duration_ms :: u64
  sm_status_code :: u16
  sm_unix_ms :: int
  sm_query :: "string option"
  sm_request_length :: "u64 option"
  sm_response_length :: "u64 option"
  sm_response_ttfb_ms :: "u64 option"
  sm_request_entropy_bits :: "f64 option"
  sm_request_ones_ratio :: "f64 option"
  sm_request_byte_histogram16 :: "f64 list option"
  sm_response_entropy_bits :: "f64 option"
  sm_response_ones_ratio :: "f64 option"
  sm_response_byte_histogram16 :: "f64 list option"

datatype training_done_mode = Total | AllRoutes

record persisted_train_store =
  ps_v :: u8
  ps_training_complete :: bool
  ps_completed_at_unix_ms :: "int option"
  ps_host_session_id :: "string option"
  ps_routes :: "(string, sample list) hash_map"

definition PersistedTrainStore_default :: persisted_train_store where
  "PersistedTrainStore_default =
     \<lparr>ps_v = 1, ps_training_complete = False, ps_completed_at_unix_ms = None, ps_host_session_id = None,
      ps_routes = []\<rparr>"

record train_store =
  ts_inner :: persisted_train_store
  ts_min_samples :: nat
  ts_data_path :: "string option"
  ts_done_mode :: training_done_mode
  ts_total_threshold :: nat
  ts_min_ready_routes :: nat

record train_libs =
  form_parse :: "string \<Rightarrow> (string \<times> string) list"
  form_serialize :: "(string \<times> string) list \<Rightarrow> string"
  json_encode :: "persisted_train_store \<Rightarrow> (string, string) result"
  json_decode :: "string \<Rightarrow> (persisted_train_store, string) result"

subsection \<open>Routes\<close>

definition path_without_query_fragment :: "string \<Rightarrow> string" where
  "path_without_query_fragment path = before_char (CHR ''?'') path"

definition normalize_route_path :: "string \<Rightarrow> string" where
  "normalize_route_path path =
     (let path = trim (path_without_query_fragment path)
      in case path of
           [] \<Rightarrow> ''/''
         | c # _ \<Rightarrow> if c = CHR ''/'' then path else CHR ''/'' # path)"

definition route_key :: "string \<Rightarrow> string \<Rightarrow> string" where
  "route_key method path =
     (let m = to_ascii_uppercase (trim method); p = normalize_route_path path in m @ CHR ''|'' # p)"

definition canonical_query :: "'a train_libs_scheme \<Rightarrow> string option \<Rightarrow> string option" where
  "canonical_query L raw =
     (case raw of
        None \<Rightarrow> None
      | Some s \<Rightarrow>
          let s = trim (strip_prefix_char (CHR ''?'') (trim s))
          in if s = [] then None
             else
               let pairs = form_parse L s
               in if pairs = [] then None
                  else Some (form_serialize L (sort pairs)))"

subsection \<open>Counting\<close>

definition route_lengths :: "persisted_train_store \<Rightarrow> nat list" where
  "route_lengths st = map (\<lambda>(_, v). length v) (ps_routes st)"

definition check_training_done :: "persisted_train_store \<Rightarrow> training_done_mode \<Rightarrow> nat \<Rightarrow> nat \<Rightarrow> nat \<Rightarrow> bool" where
  "check_training_done st mode min_samples total_threshold min_ready_routes =
     (case mode of
        Total \<Rightarrow> let n = sum_list (route_lengths st) in total_threshold \<le> n
      | AllRoutes \<Rightarrow>
          let ready = count_if (\<lambda>n. min_samples \<le> n) (route_lengths st) in min_ready_routes \<le> ready)"

definition get_training_complete :: "train_store \<Rightarrow> bool" where
  [simp]: "get_training_complete ts = ps_training_complete (ts_inner ts)"

definition get_completed_at_unix_ms :: "train_store \<Rightarrow> int option" where
  [simp]: "get_completed_at_unix_ms ts = ps_completed_at_unix_ms (ts_inner ts)"

definition total_sample_count :: "train_store \<Rightarrow> nat" where
  "total_sample_count ts = sum_list (route_lengths (ts_inner ts))"

definition route_count :: "train_store \<Rightarrow> nat" where
  "route_count ts = length (ps_routes (ts_inner ts))"

definition min_route_sample_count :: "train_store \<Rightarrow> nat option" where
  "min_route_sample_count ts = min_by_key (\<lambda>n. n) (route_lengths (ts_inner ts))"

definition get_done_mode :: "train_store \<Rightarrow> training_done_mode" where
  [simp]: "get_done_mode ts = ts_done_mode ts"

definition get_total_threshold :: "train_store \<Rightarrow> nat" where
  [simp]: "get_total_threshold ts = ts_total_threshold ts"

definition data_directory_display :: "train_store \<Rightarrow> string option" where
  [simp]: "data_directory_display ts = ts_data_path ts"

definition routes_meeting_min_samples :: "train_store \<Rightarrow> nat" where
  "routes_meeting_min_samples ts = count_if (\<lambda>n. ts_min_samples ts \<le> n) (route_lengths (ts_inner ts))"

definition samples_for :: "train_store \<Rightarrow> string \<Rightarrow> sample list option" where
  "samples_for ts key = hm_get (ps_routes (ts_inner ts)) key"

definition counts_for :: "train_store \<Rightarrow> string \<Rightarrow> nat" where
  "counts_for ts key = (case hm_get (ps_routes (ts_inner ts)) key of None \<Rightarrow> 0 | Some v \<Rightarrow> length v)"

type_synonym route_order = "(string, sample list) hash_map \<Rightarrow> (string \<times> sample list) list"

definition all_samples_pooled :: "route_order \<Rightarrow> train_store \<Rightarrow> sample list" where
  "all_samples_pooled order ts = sort_key sm_unix_ms (concat (map snd (order (ps_routes (ts_inner ts)))))"

definition routes_with_samples :: "route_order \<Rightarrow> train_store \<Rightarrow> (string \<times> sample list) list" where
  "routes_with_samples order ts = sort_key fst (order (ps_routes (ts_inner ts)))"

definition persisted_snapshot :: "train_store \<Rightarrow> persisted_train_store" where
  "persisted_snapshot ts = ts_inner ts"

subsection \<open>Construction\<close>

definition with_options ::
  "nat \<Rightarrow> string option \<Rightarrow> training_done_mode \<Rightarrow> nat \<Rightarrow> nat \<Rightarrow> persisted_train_store \<Rightarrow> train_store" where
  "with_options min_samples data_path done_mode total_threshold min_ready_routes initial =
     \<lparr>ts_inner = initial, ts_min_samples = min_samples, ts_data_path = data_path, ts_done_mode = done_mode,
      ts_total_threshold = total_threshold, ts_min_ready_routes = min_ready_routes\<rparr>"

definition TrainStore_new :: "nat \<Rightarrow> train_store" where
  "TrainStore_new min_samples =
     with_options (max min_samples 1) None Total usize_max 1 PersistedTrainStore_default"

definition TrainStore_new_for_testing :: "nat \<Rightarrow> nat \<Rightarrow> train_store" where
  "TrainStore_new_for_testing min_samples total_threshold =
     with_options (max min_samples 1) None Total (max total_threshold 1) 1 PersistedTrainStore_default"

definition TrainStore_new_for_ready_routes_test :: "nat \<Rightarrow> nat \<Rightarrow> train_store" where
  "TrainStore_new_for_ready_routes_test min_samples min_ready_routes =
     with_options (max min_samples 1) None AllRoutes usize_max (max min_ready_routes 1) PersistedTrainStore_default"

subsection \<open>The file\<close>

text \<open>
  The disk maps paths to contents.  Whether the operating system refuses an operation, with which
  error, and what a failed write leaves in the file is an argument of each access.
\<close>

type_synonym disk = "(string, string) hash_map"

record disk_faults =
  df_read :: "string option"
  df_mkdir :: "string option"
  df_write :: "(string \<times> string option) option"
  df_rename :: "string option"

definition no_faults :: disk_faults where
  "no_faults = \<lparr>df_read = None, df_mkdir = None, df_write = None, df_rename = None\<rparr>"

definition path_join :: "string \<Rightarrow> string \<Rightarrow> string" where
  "path_join dir file = (if dir = [] \<or> last dir = CHR ''/'' then dir @ file else dir @ CHR ''/'' # file)"

definition store_file_path :: "string \<Rightarrow> string" where
  "store_file_path data_dir = path_join data_dir ''train_store.json''"

definition tmp_file_path :: "string \<Rightarrow> string" where
  "tmp_file_path data_dir = path_join data_dir ''train_store.json.tmp''"

definition load_from_disk ::
  "'a train_libs_scheme \<Rightarrow> disk_faults \<Rightarrow> string \<Rightarrow> disk \<Rightarrow> (persisted_train_store, string) result" where
  "load_from_disk L faults data_dir disk =
     (case hm_get disk (store_file_path data_dir) of
        None \<Rightarrow> Ok PersistedTrainStore_default
      | Some text \<Rightarrow>
          (case df_read faults of
             Some e \<Rightarrow> Err e
           | None \<Rightarrow>
               (case json_decode L text of Inr s \<Rightarrow> Ok s | Inl _ \<Rightarrow> Ok PersistedTrainStore_default)))"

definition save_to_disk ::
  "'a train_libs_scheme \<Rightarrow> disk_faults \<Rightarrow> string \<Rightarrow> persisted_train_store \<Rightarrow> disk \<Rightarrow> (unit, string) result \<times> disk" where
  "save_to_disk L faults data_dir st disk =
     (case df_mkdir faults of
        Some e \<Rightarrow> (Err e, disk)
      | None \<Rightarrow>
          let path = store_file_path data_dir; tmp = tmp_file_path data_dir
          in case json_encode L st of
               Inl e \<Rightarrow> (Err e, disk)
             | Inr json \<Rightarrow>
                 (case df_write faults of
                    Some (e, None) \<Rightarrow> (Err e, disk)
                  | Some (e, Some partial) \<Rightarrow> (Err e, hm_insert tmp partial disk)
                  | None \<Rightarrow>
                      let disk = hm_insert tmp json disk
                      in case df_rename faults of
                           Some e \<Rightarrow> (Err e, disk)
                         | None \<Rightarrow> (Ok (), hm_insert path json (hm_remove tmp disk))))"

subsection \<open>Recording\<close>

definition push_route :: "string \<Rightarrow> sample \<Rightarrow> (string, sample list) hash_map \<Rightarrow> (string, sample list) hash_map" where
  "push_route key sm routes = (let (v, routes) = hm_or_insert key [] routes in hm_insert key (v @ [sm]) routes)"

text \<open>The part of \<^verbatim>\<open>record\<close> that changes the store in memory.\<close>

definition record_sample :: "train_store \<Rightarrow> int \<Rightarrow> string \<Rightarrow> sample \<Rightarrow> train_store" where
  "record_sample ts now key sm =
     (let g = ts_inner ts; was_complete = ps_training_complete g;
          g = g\<lparr>ps_routes := push_route key sm (ps_routes g)\<rparr>;
          g = (if \<not> was_complete \<and>
                  check_training_done g (ts_done_mode ts) (ts_min_samples ts) (ts_total_threshold ts) (ts_min_ready_routes ts)
               then g\<lparr>ps_training_complete := True, ps_completed_at_unix_ms := Some now\<rparr> else g)
      in ts\<lparr>ts_inner := g\<rparr>)"

definition store_record ::
  "'a train_libs_scheme \<Rightarrow> disk_faults \<Rightarrow> int \<Rightarrow> string \<Rightarrow> sample \<Rightarrow> train_store \<times> disk \<Rightarrow> train_store \<times> disk" where
  "store_record L faults now key sm = (\<lambda>(ts, disk).
     (let ts = record_sample ts now key sm
      in case ts_data_path ts of
           None \<Rightarrow> (ts, disk)
         | Some p \<Rightarrow> (ts, snd (save_to_disk L faults p (ts_inner ts) disk))))"

subsection \<open>Starting from the environment\<close>

type_synonym environment = "string \<Rightarrow> string option"

definition should_reset_store_for_host_session :: "string option \<Rightarrow> string \<Rightarrow> bool" where
  "should_reset_store_for_host_session persisted_id env_session =
     (if env_session = [] then False else persisted_id \<noteq> Some env_session)"

definition resolve_data_dir :: "environment \<Rightarrow> string option" where
  "resolve_data_dir env =
     (case env ''ZONA_DATA_DIR'' of
        Some p \<Rightarrow> let t = trim p in if t \<noteq> [] then Some t else None
      | None \<Rightarrow> None)"

text \<open>A positive number from the environment, or else a default.\<close>

definition env_usize :: "environment \<Rightarrow> string \<Rightarrow> nat \<Rightarrow> nat" where
  "env_usize env name default_value =
     (case Option.bind (env name) parse_usize of
        Some n \<Rightarrow> if 0 < n then n else default_value
      | None \<Rightarrow> default_value)"

definition env_string :: "environment \<Rightarrow> string \<Rightarrow> string" where
  "env_string env name = (case env name of None \<Rightarrow> [] | Some s \<Rightarrow> s)"

definition env_done_mode :: "environment \<Rightarrow> training_done_mode" where
  "env_done_mode env =
     (let mode = to_ascii_lowercase (trim (env_string env ''ZONA_TRAINING_DONE_MODE''))
      in if mode = ''total'' then Total else AllRoutes)"

text \<open>The file is read with the first faults; the two times it may be written have faults of their own.\<close>

definition TrainStore_from_env ::
  "'a train_libs_scheme \<Rightarrow> environment \<Rightarrow> int \<Rightarrow> disk_faults \<Rightarrow> disk_faults \<Rightarrow> disk_faults \<Rightarrow> disk \<Rightarrow> train_store \<times> disk" where
  "TrainStore_from_env L env now faults_load faults_reset faults_done disk =
     (let min_samples = env_usize env ''ZONA_TEACH_MIN_SAMPLES'' 10;
          data_path = resolve_data_dir env;
          done_mode = env_done_mode env;
          default_total = max (saturating_mul_usize min_samples 20) 200;
          total_threshold = env_usize env ''ZONA_TRAINING_COMPLETE_TOTAL'' default_total;
          min_ready_routes = env_usize env ''ZONA_TRAINING_MIN_READY_ROUTES'' 3;
          host_session = env_string env ''ZONA_HOST_SESSION'';
          (persisted, disk) =
            (case data_path of
               None \<Rightarrow> (PersistedTrainStore_default, disk)
             | Some p \<Rightarrow>
                 let persisted = (case load_from_disk L faults_load p disk of
                       Inr s \<Rightarrow> s | Inl _ \<Rightarrow> PersistedTrainStore_default);
                     (persisted, disk) =
                       (if should_reset_store_for_host_session (ps_host_session_id persisted) host_session
                        then
                          let fresh = PersistedTrainStore_default;
                              fresh = (if host_session \<noteq> [] then fresh\<lparr>ps_host_session_id := Some host_session\<rparr> else fresh)
                          in (fresh, snd (save_to_disk L faults_reset p fresh disk))
                        else (persisted, disk))
                 in if \<not> ps_training_complete persisted \<and>
                       check_training_done persisted done_mode min_samples total_threshold min_ready_routes
                    then
                      let persisted = persisted
                            \<lparr>ps_training_complete := True,
                             ps_completed_at_unix_ms :=
                               (case ps_completed_at_unix_ms persisted of None \<Rightarrow> Some now | Some t \<Rightarrow> Some t)\<rparr>
                      in (persisted, snd (save_to_disk L faults_done p persisted disk))
                    else (persisted, disk))
      in (with_options min_samples data_path done_mode total_threshold min_ready_routes persisted, disk))"

subsection \<open>The endpoints\<close>

record teach_payload =
  tp_method :: string
  tp_path :: string
  tp_query :: "string option"
  tp_unix_ms :: int
  tp_duration_ms :: "u64 option"
  tp_status_code :: "u16 option"
  tp_request_length :: "u64 option"
  tp_response_length :: "u64 option"
  tp_response_ttfb_ms :: "u64 option"
  tp_request_entropy_bits :: "f64 option"
  tp_request_ones_ratio :: "f64 option"
  tp_request_byte_histogram16 :: "f64 list option"
  tp_response_entropy_bits :: "f64 option"
  tp_response_ones_ratio :: "f64 option"
  tp_response_byte_histogram16 :: "f64 list option"

definition sample_of :: "'a train_libs_scheme \<Rightarrow> teach_payload \<Rightarrow> sample" where
  "sample_of L body =
     \<lparr>sm_duration_ms = (case tp_duration_ms body of None \<Rightarrow> 0 | Some d \<Rightarrow> d),
      sm_status_code = (case tp_status_code body of None \<Rightarrow> 0 | Some c \<Rightarrow> c),
      sm_unix_ms = tp_unix_ms body, sm_query = canonical_query L (tp_query body),
      sm_request_length = tp_request_length body, sm_response_length = tp_response_length body,
      sm_response_ttfb_ms = tp_response_ttfb_ms body,
      sm_request_entropy_bits = tp_request_entropy_bits body,
      sm_request_ones_ratio = tp_request_ones_ratio body,
      sm_request_byte_histogram16 = tp_request_byte_histogram16 body,
      sm_response_entropy_bits = tp_response_entropy_bits body,
      sm_response_ones_ratio = tp_response_ones_ratio body,
      sm_response_byte_histogram16 = tp_response_byte_histogram16 body\<rparr>"

definition teach ::
  "'a train_libs_scheme \<Rightarrow> disk_faults \<Rightarrow> int \<Rightarrow> teach_payload \<Rightarrow> train_store \<times> disk \<Rightarrow> nat \<times> train_store \<times> disk" where
  "teach L faults now body s =
     (let key = route_key (tp_method body) (tp_path body)
      in (204, store_record L faults now key (sample_of L body) s))"

record training_status_response =
  tr_training_complete :: bool
  tr_done_mode :: string
  tr_total_samples :: nat
  tr_route_count :: nat
  tr_min_samples_per_route :: nat
  tr_min_ready_routes :: nat
  tr_routes_meeting_min_samples :: nat
  tr_total_threshold :: nat
  tr_min_route_sample_count :: "nat option"
  tr_completed_at_unix_ms :: "int option"
  tr_data_directory :: "string option"

definition mode_str :: "training_done_mode \<Rightarrow> string" where
  "mode_str m = (case m of Total \<Rightarrow> ''total'' | AllRoutes \<Rightarrow> ''allRoutes'')"

definition training_status :: "train_store \<Rightarrow> training_status_response" where
  "training_status ts =
     \<lparr>tr_training_complete = get_training_complete ts, tr_done_mode = mode_str (get_done_mode ts),
      tr_total_samples = total_sample_count ts, tr_route_count = route_count ts,
      tr_min_samples_per_route = ts_min_samples ts, tr_min_ready_routes = ts_min_ready_routes ts,
      tr_routes_meeting_min_samples = routes_meeting_min_samples ts,
      tr_total_threshold = get_total_threshold ts, tr_min_route_sample_count = min_route_sample_count ts,
      tr_completed_at_unix_ms = get_completed_at_unix_ms ts, tr_data_directory = data_directory_display ts\<rparr>"

subsection \<open>A store of samples\<close>

text \<open>The contract of a log by key: what is put under a key is appended to what was there.\<close>

locale sample_log =
  fixes put :: "'k \<Rightarrow> 'x \<Rightarrow> 's \<Rightarrow> 's" and look :: "'s \<Rightarrow> 'k \<Rightarrow> 'x list" and ok :: "'s \<Rightarrow> bool"
  assumes look_put: "ok s \<Longrightarrow> look (put k x s) k' = (if k' = k then look s k' @ [x] else look s k')"
    and ok_put: "ok s \<Longrightarrow> ok (put k x s)"
begin

definition put_all :: "('k \<times> 'x) list \<Rightarrow> 's \<Rightarrow> 's" where
  "put_all es s = foldl (\<lambda>s (k, x). put k x s) s es"

lemma put_all_simps [simp]: "put_all [] s = s" "put_all (es @ [(k, x)]) s = put k x (put_all es s)"
  by (simp_all add: put_all_def)

lemma ok_put_all: "ok s \<Longrightarrow> ok (put_all es s)"
  by (induction es rule: rev_induct) (auto simp: ok_put)

lemma look_put_all: "ok s \<Longrightarrow> look (put_all es s) k = look s k @ map snd (filter (\<lambda>e. fst e = k) es)"
  by (induction es rule: rev_induct) (auto simp: look_put ok_put_all)

end

definition samples_at :: "(string, sample list) hash_map \<Rightarrow> string \<Rightarrow> sample list" where
  "samples_at routes key = (case hm_get routes key of None \<Rightarrow> [] | Some v \<Rightarrow> v)"

lemma push_route_get: "hm_get (push_route key sm m) k =
    (if k = key then Some (samples_at m key @ [sm]) else hm_get m k)"
  by (simp add: push_route_def hm_or_insert_def samples_at_def Let_def split: option.split)

lemma push_route_ok [simp]: "hm_ok m \<Longrightarrow> hm_ok (push_route key sm m)"
  by (simp add: push_route_def hm_or_insert_def Let_def split: option.split)

interpretation sl: sample_log push_route samples_at hm_ok
  by unfold_locales (simp_all add: samples_at_def push_route_get)

text \<open>How a push changes the lengths: one of them grows by one, or a new one appears at the end.\<close>

lemma map_update_same: "hm_get m k = Some v \<Longrightarrow> hm_ok m \<Longrightarrow>
    \<exists>xs ys. m = xs @ (k, v) # ys \<and> hm_insert k v' m = xs @ (k, v') # ys"
proof (induction m)
  case (Cons e m)
  obtain a b where e: "e = (a, b)" by fastforce
  show ?case
  proof (cases "a = k")
    case True
    then have "e # m = [] @ (k, v) # m \<and> hm_insert k v' (e # m) = [] @ (k, v') # m"
      using Cons.prems e by (simp add: hm_get_def hm_insert_def)
    then show ?thesis by blast
  next
    case False
    have "hm_get m k = Some v" "hm_ok m" using Cons.prems e False by (auto simp: hm_get_def hm_ok_def)
    from Cons.IH [OF this] obtain xs ys where "m = xs @ (k, v) # ys" "hm_insert k v' m = xs @ (k, v') # ys" by blast
    then show ?thesis using e False by (intro exI [of _ "e # xs"] exI [of _ ys]) (simp add: hm_insert_def)
  qed
qed (simp add: hm_get_def)

lemma insert_new: "hm_get m k = None \<Longrightarrow> hm_insert k v m = m @ [(k, v)]"
  by (induction m) (auto simp: hm_get_def hm_insert_def split: if_splits)

lemma push_route_lengths:
  assumes "hm_ok m"
  shows "map (\<lambda>(_, v). length v) (push_route k s m) = map (\<lambda>(_, v). length v) m @ [1] \<or>
    (\<exists>xs n ys. map (\<lambda>(_, v). length v) m = xs @ n # ys \<and>
       map (\<lambda>(_, v). length v) (push_route k s m) = xs @ Suc n # ys)"
proof (cases "hm_get m k")
  case None
  have "push_route k s m = hm_insert k [s] (m @ [(k, [])])"
    using None by (simp add: push_route_def hm_or_insert_def insert_new)
  moreover have "hm_insert k [s] (m @ [(k, [])]) = m @ [(k, [s])]"
    using None by (induction m) (auto simp: hm_get_def hm_insert_def split: if_splits)
  ultimately show ?thesis by simp
next
  case (Some v)
  from map_update_same [OF Some assms, of "v @ [s]"] obtain xs ys where
    "m = xs @ (k, v) # ys" "hm_insert k (v @ [s]) m = xs @ (k, v @ [s]) # ys" by blast
  then have "map (\<lambda>(_, v). length v) m = map (\<lambda>(_, v). length v) xs @ length v # map (\<lambda>(_, v). length v) ys \<and>
      map (\<lambda>(_, v). length v) (push_route k s m) =
        map (\<lambda>(_, v). length v) xs @ Suc (length v) # map (\<lambda>(_, v). length v) ys"
    using Some by (simp add: push_route_def hm_or_insert_def)
  then show ?thesis by blast
qed

lemma push_route_total:
  assumes "hm_ok m"
  shows "sum_list (map (\<lambda>(_, v). length v) (push_route k s m)) = Suc (sum_list (map (\<lambda>(_, v). length v) m))"
  using push_route_lengths [OF assms, of k s] by auto

lemma push_route_ready:
  assumes "hm_ok m"
  shows "count_if (\<lambda>n. c \<le> n) (map (\<lambda>(_, v). length v) m) \<le>
    count_if (\<lambda>n. c \<le> n) (map (\<lambda>(_, v). length v) (push_route k s m))"
  using push_route_lengths [OF assms, of k s]
proof (elim disjE exE conjE)
  fix xs n ys
  assume old: "map (\<lambda>(_, v). length v) m = xs @ n # ys"
    and new: "map (\<lambda>(_, v). length v) (push_route k s m) = xs @ Suc n # ys"
  show ?thesis unfolding old new by (simp add: count_if_def)
next
  assume new: "map (\<lambda>(_, v). length v) (push_route k s m) = map (\<lambda>(_, v). length v) m @ [1]"
  show ?thesis unfolding new by (simp add: count_if_def)
qed

subsection \<open>The completion of the training\<close>

text \<open>The decision for a store with the thresholds of this one.\<close>

definition done_now :: "train_store \<Rightarrow> bool" where
  "done_now ts \<longleftrightarrow> check_training_done (ts_inner ts) (ts_done_mode ts) (ts_min_samples ts) (ts_total_threshold ts)
     (ts_min_ready_routes ts)"

definition train_ok :: "train_store \<Rightarrow> bool" where
  "train_ok ts \<longleftrightarrow> hm_ok (ps_routes (ts_inner ts)) \<and> (done_now ts \<longrightarrow> ps_training_complete (ts_inner ts))"

lemma record_sample_routes:
  "ps_routes (ts_inner (record_sample ts now key sm)) = push_route key sm (ps_routes (ts_inner ts))"
  "ts_min_samples (record_sample ts now key sm) = ts_min_samples ts"
  "ts_data_path (record_sample ts now key sm) = ts_data_path ts"
  "ts_done_mode (record_sample ts now key sm) = ts_done_mode ts"
  "ts_total_threshold (record_sample ts now key sm) = ts_total_threshold ts"
  "ts_min_ready_routes (record_sample ts now key sm) = ts_min_ready_routes ts"
  "ps_host_session_id (ts_inner (record_sample ts now key sm)) = ps_host_session_id (ts_inner ts)"
  by (simp_all add: record_sample_def Let_def)

lemma check_training_done_routes:
  "ps_routes g = ps_routes g' \<Longrightarrow> check_training_done g mode a b c = check_training_done g' mode a b c"
  by (cases mode) (simp_all add: check_training_done_def route_lengths_def)

lemma record_sample_done:
  "done_now (record_sample ts now key sm) \<longleftrightarrow>
    check_training_done (ts_inner ts\<lparr>ps_routes := push_route key sm (ps_routes (ts_inner ts))\<rparr>) (ts_done_mode ts)
      (ts_min_samples ts) (ts_total_threshold ts) (ts_min_ready_routes ts)"
  unfolding done_now_def record_sample_routes by (rule check_training_done_routes) (simp add: record_sample_routes)

lemma record_sample_complete:
  "ps_training_complete (ts_inner (record_sample ts now key sm)) \<longleftrightarrow>
    ps_training_complete (ts_inner ts) \<or> done_now (record_sample ts now key sm)"
  unfolding record_sample_done by (simp add: record_sample_def Let_def)

lemma record_sample_completed_at:
  "ps_completed_at_unix_ms (ts_inner (record_sample ts now key sm)) =
    (if \<not> ps_training_complete (ts_inner ts) \<and> done_now (record_sample ts now key sm) then Some now
     else ps_completed_at_unix_ms (ts_inner ts))"
  unfolding record_sample_done by (simp add: record_sample_def Let_def)

lemma record_sample_ok: "train_ok ts \<Longrightarrow> train_ok (record_sample ts now key sm)"
  by (simp add: train_ok_def record_sample_routes record_sample_complete)

lemma done_now_mono: "train_ok ts \<Longrightarrow> done_now ts \<Longrightarrow> done_now (record_sample ts now key sm)"
  using push_route_total [of "ps_routes (ts_inner ts)" key sm] push_route_ready [of "ps_routes (ts_inner ts)" _ key sm]
  by (fastforce simp: done_now_def check_training_done_def route_lengths_def record_sample_routes train_ok_def Let_def
      split: training_done_mode.splits intro: order_trans)

subsection \<open>Properties\<close>

definition run_records :: "train_store \<Rightarrow> (int \<times> string \<times> sample) list \<Rightarrow> train_store" where
  "run_records ts es = foldl (\<lambda>ts (now, key, sm). record_sample ts now key sm) ts es"

lemma run_records_simps [simp]:
  "run_records ts [] = ts"
  "run_records ts (es @ [(now, key, sm)]) = record_sample (run_records ts es) now key sm"
  by (simp_all add: run_records_def)

lemma run_records_append: "run_records ts (es @ fs) = run_records (run_records ts es) fs"
  by (simp add: run_records_def)

lemma run_records_ok: "train_ok ts \<Longrightarrow> train_ok (run_records ts es)"
  by (induction es rule: rev_induct) (auto simp: record_sample_ok)

lemma run_records_routes: "ps_routes (ts_inner (run_records ts es)) = sl.put_all (map snd es) (ps_routes (ts_inner ts))"
  by (induction es rule: rev_induct) (auto simp: record_sample_routes)

lemma total_sample_count_record:
  "train_ok ts \<Longrightarrow> total_sample_count (record_sample ts now key sm) = Suc (total_sample_count ts)"
  using push_route_total [of "ps_routes (ts_inner ts)" key sm]
  by (simp add: total_sample_count_def route_lengths_def record_sample_routes train_ok_def)

text \<open>
  The store is the log of what was taught.  After any sequence of records the samples of a route
  are those it had and then those recorded under its key, in order; the total has grown by the
  number of records; the training is complete exactly if it was before or the thresholds are met
  now.
\<close>

theorem training_log:
  assumes "train_ok ts" "ts' = run_records ts es"
  shows "(\<forall>key. samples_at (ps_routes (ts_inner ts')) key =
      samples_at (ps_routes (ts_inner ts)) key @ map (\<lambda>(_, _, sm). sm) (filter (\<lambda>(_, k, _). k = key) es)) \<and>
    total_sample_count ts' = total_sample_count ts + length es \<and>
    (ps_training_complete (ts_inner ts') \<longleftrightarrow> ps_training_complete (ts_inner ts) \<or> done_now ts') \<and> train_ok ts'"
proof -
  have "samples_at (ps_routes (ts_inner ts')) key =
      samples_at (ps_routes (ts_inner ts)) key @ map (\<lambda>(_, _, sm). sm) (filter (\<lambda>(_, k, _). k = key) es)" for key
    using assms(1) sl.look_put_all [of "ps_routes (ts_inner ts)" "map snd es" key]
    by (simp add: assms(2) run_records_routes train_ok_def filter_map comp_def case_prod_beta')
  moreover have "total_sample_count ts' = total_sample_count ts + length es"
    unfolding assms(2)
    by (induction es rule: rev_induct) (auto simp: total_sample_count_record run_records_ok [OF assms(1)])
  moreover have "ps_training_complete (ts_inner ts') \<longleftrightarrow> ps_training_complete (ts_inner ts) \<or> done_now ts'"
    unfolding assms(2)
  proof (induction es rule: rev_induct)
    case Nil
    then show ?case using assms(1) by (auto simp: train_ok_def)
  next
    case (snoc e es)
    obtain now key sm where e: "e = (now, key, sm)" by (cases e)
    show ?case
      using snoc done_now_mono [OF run_records_ok [OF assms(1)], of es now key sm]
      by (auto simp: e record_sample_complete)
  qed
  ultimately show ?thesis using run_records_ok [OF assms(1)] assms(2) by blast
qed

text \<open>
  The training completes once.  The record with which the thresholds are met first sets the flag
  and the time; no later record changes either.
\<close>

theorem training_completes_once:
  assumes "train_ok ts" "\<not> ps_training_complete (ts_inner (run_records ts es))"
    "ts' = run_records ts (es @ [(now, key, sm)])" "ps_training_complete (ts_inner ts')"
  shows "done_now ts' \<and> \<not> done_now (run_records ts es) \<and>
    (\<forall>fs. ps_training_complete (ts_inner (run_records ts' fs)) \<and> done_now (run_records ts' fs) \<and>
       ps_completed_at_unix_ms (ts_inner (run_records ts' fs)) = Some now)"
proof -
  have first: "done_now ts'" "ps_completed_at_unix_ms (ts_inner ts') = Some now"
    using assms(2-4) by (simp_all add: record_sample_complete record_sample_completed_at)
  have ok: "train_ok ts'" unfolding assms(3) by (rule run_records_ok [OF assms(1)])
  have "ps_training_complete (ts_inner (run_records ts' fs)) \<and> done_now (run_records ts' fs) \<and>
      ps_completed_at_unix_ms (ts_inner (run_records ts' fs)) = Some now" for fs
  proof (induction fs rule: rev_induct)
    case Nil
    then show ?case using first assms(4) by simp
  next
    case (snoc e fs)
    obtain now' key' sm' where e: "e = (now', key', sm')" by (cases e)
    show ?case
      using snoc done_now_mono [OF run_records_ok [OF ok], of fs now' key' sm']
      by (simp add: e record_sample_complete record_sample_completed_at)
  qed
  moreover have "\<not> done_now (run_records ts es)"
    using run_records_ok [OF assms(1), of es] assms(2) by (auto simp: train_ok_def)
  ultimately show ?thesis using first by blast
qed

lemma store_paths_distinct: "store_file_path dir \<noteq> tmp_file_path dir"
  by (auto simp: store_file_path_def tmp_file_path_def path_join_def)

text \<open>
  C29: saving is atomic.  Whichever operation the system refuses, and whatever a failed write leaves
  behind, the store file has its old contents if saving reports an error and the complete
  new JSON otherwise; no file besides it and the temporary file is touched.
\<close>

theorem save_atomic:
  assumes "save_to_disk L faults dir st disk = (r, disk')"
  shows "(case r of Inl _ \<Rightarrow> hm_get disk' (store_file_path dir) = hm_get disk (store_file_path dir)
     | Inr _ \<Rightarrow> \<exists>json. json_encode L st = Ok json \<and> hm_get disk' (store_file_path dir) = Some json) \<and>
    (\<forall>path. path \<notin> {store_file_path dir, tmp_file_path dir} \<longrightarrow> hm_get disk' path = hm_get disk path)"
  using assms store_paths_distinct [of dir]
  by (auto simp: save_to_disk_def Let_def split: option.splits sum.splits)

lemma before_char_absent: "c \<notin> set s \<Longrightarrow> before_char c s = s"
  by (auto simp: before_char_def takeWhile_eq_all_conv)

lemma before_char_no [simp]: "c \<notin> set (before_char c s)"
  by (auto simp: before_char_def dest: set_takeWhileD)

lemma normalize_no_query: "CHR ''?'' \<notin> set (normalize_route_path path)"
proof -
  let ?p = "trim (path_without_query_fragment path)"
  have "CHR ''?'' \<notin> set ?p" using set_trim [of "path_without_query_fragment path"] by (auto simp: path_without_query_fragment_def)
  then show ?thesis by (auto simp: normalize_route_path_def Let_def split: list.split)
qed

lemma trim_end_Nil [simp]: "trim_end [] = []"
  by (auto simp: trim_end_fixed no_word_def)

lemma normalize_slash: "\<exists>p. normalize_route_path path = CHR ''/'' # p \<and> trim (CHR ''/'' # p) = CHR ''/'' # p"
proof (cases "trim (path_without_query_fragment path)")
  case Nil
  then show ?thesis using trim_after_ascii [of "[]" "CHR ''/''"] by (simp add: normalize_route_path_def Let_def)
next
  case (Cons c p)
  then have "trim (c # p) = c # p" "trim_end (c # p) = c # p"
    using trim_idem [of "path_without_query_fragment path"] trim_end_trim [of "path_without_query_fragment path"] by simp_all
  then show ?thesis
    using Cons trim_after_ascii [of "c # p" "CHR ''/''"]
    by (cases "c = CHR ''/''") (auto simp: normalize_route_path_def Let_def)
qed

lemma normalize_idem: "normalize_route_path (normalize_route_path path) = normalize_route_path path"
proof -
  obtain p where p: "normalize_route_path path = CHR ''/'' # p" "trim (CHR ''/'' # p) = CHR ''/'' # p"
    using normalize_slash by blast
  then have "trim (path_without_query_fragment (normalize_route_path path)) = normalize_route_path path"
    using normalize_no_query [of path] by (simp add: path_without_query_fragment_def before_char_absent)
  then show ?thesis unfolding p(1) by (simp add: normalize_route_path_def)
qed

text \<open>
  The key of a route depends on its method up to surrounding white space and on its path up to
  surrounding white space, a missing leading slash and everything from the first question mark on:
  replacing method and path by their normal forms gives the same key, and so does another query.
\<close>

theorem route_key_normal:
  "route_key method (normalize_route_path path) = route_key method path \<and>
   (\<forall>query. CHR ''?'' \<notin> set path \<longrightarrow> route_key method (path @ CHR ''?'' # query) = route_key method path) \<and>
   route_key (trim method) path = route_key method path"
proof -
  have "route_key method (path @ CHR ''?'' # query) = route_key method path" if "CHR ''?'' \<notin> set path" for query
  proof -
    have "path_without_query_fragment (path @ CHR ''?'' # query) = path_without_query_fragment path"
      using that by (simp add: path_without_query_fragment_def before_char_def takeWhile_append1 takeWhile_eq_all_conv
          takeWhile_tail)
    then show ?thesis by (simp add: route_key_def normalize_route_path_def)
  qed
  then show ?thesis by (simp add: route_key_def normalize_idem)
qed

text \<open>
  What is relied on of the \<^verbatim>\<open>url\<close> crate: the keys and values that \<^verbatim>\<open>parse\<close> yields are text (it
  decodes them lossily to valid UTF-8), there are none in an empty query, and pairs of text are read
  as they were written, in printable ASCII without a question mark.
\<close>

definition text_pairs :: "(string \<times> string) list \<Rightarrow> bool" where
  "text_pairs ps \<longleftrightarrow> (\<forall>(k, v) \<in> set ps. valid_utf8 (string_bytes k) \<and> valid_utf8 (string_bytes v))"

definition form_ok :: "'a train_libs_scheme \<Rightarrow> bool" where
  "form_ok L \<longleftrightarrow> form_parse L [] = [] \<and> (\<forall>s. text_pairs (form_parse L s)) \<and>
     (\<forall>ps. text_pairs ps \<longrightarrow> form_parse L (form_serialize L ps) = ps \<and>
       list_all (\<lambda>c. 32 < (of_char c :: nat) \<and> (of_char c :: nat) < 127 \<and> c \<noteq> CHR ''?'') (form_serialize L ps))"

text \<open>The pairs of a query as the host sends it.\<close>

definition query_pairs :: "'a train_libs_scheme \<Rightarrow> string option \<Rightarrow> (string \<times> string) list" where
  "query_pairs L raw =
     (case raw of
        None \<Rightarrow> []
      | Some s \<Rightarrow>
          let s = trim (strip_prefix_char (CHR ''?'') (trim s)) in if s = [] then [] else form_parse L s)"

lemma canonical_query_pairs:
  "canonical_query L raw = (if query_pairs L raw = [] then None else Some (form_serialize L (sort (query_pairs L raw))))"
  by (simp add: canonical_query_def query_pairs_def Let_def split: option.split)

lemma trim_printable:
  assumes "list_all (\<lambda>c. 32 < (of_char c :: nat) \<and> (of_char c :: nat) < 127 \<and> c \<noteq> CHR ''?'') s"
  shows "trim s = s"
proof -
  have absent: "c \<notin> set s" if "w \<in> set white_space" "c \<in> set w" for w c
  proof
    assume "c \<in> set s"
    then have "32 < (of_char c :: nat)" "(of_char c :: nat) < 127" using assms unfolding list_all_iff by blast+
    then show False using white_space_ascii [OF that] by linarith
  qed
  have no: "take (length w) t \<noteq> w" if "w \<noteq> []" "\<And>c. c \<in> set w \<Longrightarrow> c \<notin> set t" for w t :: string
  proof
    assume "take (length w) t = w"
    then have "hd w \<in> set t" using that(1) by (metis hd_in_set in_set_takeD)
    then show False using that by auto
  qed
  have "no_word white_space s"
    unfolding no_word_def
  proof (intro ballI impI)
    fix w assume "w \<in> set white_space" "w \<noteq> []"
    then show "take (length w) s \<noteq> w" using no [of w s] absent [of w] by blast
  qed
  moreover have "no_word (map rev white_space) (rev s)"
    unfolding no_word_def
  proof (intro ballI impI)
    fix w assume w: "w \<in> set (map rev white_space)" "w \<noteq> []"
    then obtain v where v: "v \<in> set white_space" "w = rev v" by auto
    have "c \<notin> set (rev s)" if "c \<in> set w" for c using absent [OF v(1), of c] that v(2) by simp
    then show "take (length w) (rev s) \<noteq> w" by (rule no [OF w(2)])
  qed
  ultimately have "trim_start s = s" "trim_end s = s" unfolding trim_start_fixed trim_end_fixed by blast+
  then show ?thesis by (simp add: trim_def)
qed

lemma query_pairs_serialize:
  assumes "form_ok L" "text_pairs ps" shows "query_pairs L (Some (form_serialize L ps)) = ps"
proof -
  let ?s = "form_serialize L ps"
  have s: "list_all (\<lambda>c. 32 < (of_char c :: nat) \<and> (of_char c :: nat) < 127 \<and> c \<noteq> CHR ''?'') ?s" "form_parse L ?s = ps"
    using assms by (simp_all add: form_ok_def)
  have "strip_prefix_char (CHR ''?'') ?s = ?s"
    using s(1) by (cases ?s) (auto simp: strip_prefix_char_def)
  moreover have "ps = []" if "?s = []" using s(2) assms(1) unfolding that by (simp add: form_ok_def)
  ultimately show ?thesis using s trim_printable [OF s(1)] by (auto simp: query_pairs_def Let_def)
qed

lemma query_pairs_text: "form_ok L \<Longrightarrow> text_pairs (query_pairs L q)"
  by (auto simp: query_pairs_def form_ok_def Let_def text_pairs_def split: option.split)

lemma text_pairs_sort [simp]: "text_pairs (sort ps) \<longleftrightarrow> text_pairs ps"
  by (simp add: text_pairs_def)

text \<open>
  C30: the canonical form of a query is the same for two queries exactly if they have the same
  key-value pairs (decoded, as text), each as often, in whatever order and encoding; and it is its own canonical form.
  This rests on \<open>form_ok\<close>.
\<close>

theorem canonical_query_normal:
  assumes "form_ok L"
  shows "(canonical_query L q = canonical_query L q' \<longleftrightarrow> mset (query_pairs L q) = mset (query_pairs L q')) \<and>
    canonical_query L (canonical_query L q) = canonical_query L q"
proof -
  note pairs = query_pairs_text [OF assms]
  have inj: "form_serialize L ps = form_serialize L ps' \<longleftrightarrow> ps = ps'" if "text_pairs ps" "text_pairs ps'" for ps ps'
    using assms that unfolding form_ok_def by metis
  have "sort ps = sort ps' \<longleftrightarrow> mset ps = mset ps'" for ps ps' :: "(string \<times> string) list"
    by (metis mset_sort properties_for_sort sorted_sort)
  moreover have "sort ps = [] \<longleftrightarrow> ps = []" for ps :: "(string \<times> string) list"
    by (metis mset_sort mset_zero_iff)
  moreover have "query_pairs L None = []" by (simp add: query_pairs_def)
  moreover have twice: "sort (sort ps) = sort ps" for ps :: "(string \<times> string) list" by (simp add: sorted_sort_id)
  ultimately show ?thesis
    using query_pairs_serialize [OF assms, of "sort (query_pairs L q)"]
      inj [of "sort (query_pairs L q)" "sort (query_pairs L q')"] pairs
    by (auto simp: canonical_query_pairs twice split: if_splits)
qed

subsection \<open>Restarting\<close>

text \<open>The store with the settings of an environment.\<close>

definition env_store :: "environment \<Rightarrow> persisted_train_store \<Rightarrow> train_store" where
  "env_store env persisted =
     (let min_samples = env_usize env ''ZONA_TEACH_MIN_SAMPLES'' 10
      in with_options min_samples (resolve_data_dir env) (env_done_mode env)
           (env_usize env ''ZONA_TRAINING_COMPLETE_TOTAL'' (max (saturating_mul_usize min_samples 20) 200))
           (env_usize env ''ZONA_TRAINING_MIN_READY_ROUTES'' 3) persisted)"

lemma env_store_sel [simp]:
  "ts_inner (env_store env p) = p" "ts_data_path (env_store env p) = resolve_data_dir env"
  by (simp_all add: env_store_def with_options_def Let_def)

lemma env_usize_pos: "0 < d \<Longrightarrow> 0 < env_usize env name d"
  by (simp add: env_usize_def split: option.split)

lemma done_now_empty: "ps_routes p = [] \<Longrightarrow> \<not> done_now (env_store env p)"
  using env_usize_pos [of 3 env "''ZONA_TRAINING_MIN_READY_ROUTES''"]
    env_usize_pos [of "max (saturating_mul_usize m 20) 200" env "''ZONA_TRAINING_COMPLETE_TOTAL''" for m]
  by (auto simp: done_now_def check_training_done_def route_lengths_def env_store_def with_options_def Let_def
      split: training_done_mode.split)

text \<open>The store in memory after the file was read and the session compared.\<close>

definition loaded ::
  "'a train_libs_scheme \<Rightarrow> environment \<Rightarrow> disk_faults \<Rightarrow> string \<Rightarrow> disk \<Rightarrow> persisted_train_store" where
  "loaded L env faults dir disk =
     (case load_from_disk L faults dir disk of Inr s \<Rightarrow> s | Inl _ \<Rightarrow> PersistedTrainStore_default)"

definition session_store :: "environment \<Rightarrow> persisted_train_store \<Rightarrow> persisted_train_store" where
  "session_store env p =
     (let session = env_string env ''ZONA_HOST_SESSION''
      in if should_reset_store_for_host_session (ps_host_session_id p) session
         then PersistedTrainStore_default\<lparr>ps_host_session_id := Some session\<rparr> else p)"

lemma from_env_no_path:
  "resolve_data_dir env = None \<Longrightarrow>
    TrainStore_from_env L env now f1 f2 f3 disk = (env_store env PersistedTrainStore_default, disk)"
  by (simp add: TrainStore_from_env_def env_store_def Let_def)

lemma from_env_path:
  assumes "resolve_data_dir env = Some dir" "q = session_store env (loaded L env f1 dir disk)"
  shows "fst (TrainStore_from_env L env now f1 f2 f3 disk) =
    env_store env (if \<not> ps_training_complete q \<and> done_now (env_store env q)
      then q\<lparr>ps_training_complete := True,
             ps_completed_at_unix_ms := (case ps_completed_at_unix_ms q of None \<Rightarrow> Some now | Some t \<Rightarrow> Some t)\<rparr>
      else q)"
    "loaded L env f1 dir disk = q \<Longrightarrow> \<not> (\<not> ps_training_complete q \<and> done_now (env_store env q)) \<Longrightarrow>
      \<not> should_reset_store_for_host_session (ps_host_session_id q) (env_string env ''ZONA_HOST_SESSION'') \<Longrightarrow>
      TrainStore_from_env L env now f1 f2 f3 disk = (env_store env q, disk)"
proof -
  have session: "s \<noteq> []" if "should_reset_store_for_host_session x s" for x s
    using that by (auto simp: should_reset_store_for_host_session_def)
  show "fst (TrainStore_from_env L env now f1 f2 f3 disk) =
    env_store env (if \<not> ps_training_complete q \<and> done_now (env_store env q)
      then q\<lparr>ps_training_complete := True,
             ps_completed_at_unix_ms := (case ps_completed_at_unix_ms q of None \<Rightarrow> Some now | Some t \<Rightarrow> Some t)\<rparr>
      else q)"
    unfolding assms(2) session_store_def loaded_def TrainStore_from_env_def env_store_def done_now_def with_options_def
    using session by (simp add: assms(1) Let_def)
  show "TrainStore_from_env L env now f1 f2 f3 disk = (env_store env q, disk)"
    if "loaded L env f1 dir disk = q" "\<not> (\<not> ps_training_complete q \<and> done_now (env_store env q))"
      "\<not> should_reset_store_for_host_session (ps_host_session_id q) (env_string env ''ZONA_HOST_SESSION'')"
    using that unfolding loaded_def TrainStore_from_env_def env_store_def done_now_def with_options_def
    by (auto simp: assms(1) Let_def)
qed

text \<open>A file that exists but cannot be read is treated like an empty one, and the next record replaces it.\<close>

lemma read_error_empties:
  assumes "resolve_data_dir env = Some dir" "df_read f1 = Some e"
  shows "ps_routes (ts_inner (fst (TrainStore_from_env L env now f1 f2 f3 disk))) = []"
  unfolding from_env_path(1) [OF assms(1) refl]
  by (simp add: session_store_def loaded_def load_from_disk_def assms(2) PersistedTrainStore_default_def Let_def
      split: option.split)

lemma session_store_keeps:
  "\<not> should_reset_store_for_host_session (ps_host_session_id (session_store env p)) (env_string env ''ZONA_HOST_SESSION'')"
  by (auto simp: session_store_def should_reset_store_for_host_session_def Let_def)

definition maps_ok :: "'a train_libs_scheme \<Rightarrow> bool" where
  "maps_ok L \<longleftrightarrow> (\<forall>text st. json_decode L text = Ok st \<longrightarrow> hm_ok (ps_routes st))"

lemma loaded_ok: "maps_ok L \<Longrightarrow> hm_ok (ps_routes (session_store env (loaded L env f dir disk)))"
  by (auto simp: session_store_def loaded_def load_from_disk_def maps_ok_def PersistedTrainStore_default_def Let_def
      split: option.split sum.split)

lemma from_env_ok:
  assumes "maps_ok L" shows "train_ok (fst (TrainStore_from_env L env now f1 f2 f3 disk))"
proof (cases "resolve_data_dir env")
  case None
  then show ?thesis
    by (simp add: from_env_no_path train_ok_def done_now_empty PersistedTrainStore_default_def)
next
  case (Some dir)
  let ?q = "session_store env (loaded L env f1 dir disk)"
  have "done_now (env_store env (?q\<lparr>ps_training_complete := c, ps_completed_at_unix_ms := t\<rparr>)) = done_now (env_store env ?q)"
    for c t unfolding done_now_def by (simp add: env_store_def with_options_def Let_def) (rule check_training_done_routes, simp)
  then show ?thesis
    using loaded_ok [OF assms, of env f1 dir disk] by (simp add: from_env_path(1) [OF Some refl] train_ok_def)
qed

definition run_store ::
  "'a train_libs_scheme \<Rightarrow> train_store \<times> disk \<Rightarrow> (disk_faults \<times> int \<times> string \<times> sample) list \<Rightarrow> train_store \<times> disk" where
  "run_store L s es = foldl (\<lambda>s (f, now, key, sm). store_record L f now key sm s) s es"

lemma run_store_fst: "fst (run_store L s es) = run_records (fst s) (map snd es)"
proof (induction es rule: rev_induct)
  case (snoc e es)
  then show ?case
    by (cases e) (simp add: run_store_def store_record_def case_prod_beta' Let_def split: option.split)
qed (simp add: run_store_def)

lemma run_records_settings:
  "ts_data_path (run_records ts es) = ts_data_path ts"
  "ps_host_session_id (ts_inner (run_records ts es)) = ps_host_session_id (ts_inner ts)"
  "ts = env_store env p \<Longrightarrow> \<exists>q. run_records ts es = env_store env q"
proof -
  show "ts_data_path (run_records ts es) = ts_data_path ts"
    "ps_host_session_id (ts_inner (run_records ts es)) = ps_host_session_id (ts_inner ts)"
    by (induction es rule: rev_induct) (auto simp: record_sample_routes)
  have step: "\<exists>q. record_sample (env_store env p) now key sm = env_store env q" for p now key sm
    by (simp add: record_sample_def env_store_def with_options_def Let_def)
  show "\<exists>q. run_records ts es = env_store env q" if "ts = env_store env p"
  proof (induction es rule: rev_induct)
    case Nil
    then show ?case using that by auto
  next
    case (snoc e es)
    then show ?case using step by (cases e) auto
  qed
qed

text \<open>
  What \<^verbatim>\<open>serde_json\<close> gives back of a store it has written: the same routes with as many samples, equal
  in every field but the \<^verbatim>\<open>f64\<close> ones.  Those are there if they were, but their values may differ
  in the last place, since the crate is used without its feature \<^verbatim>\<open>float_roundtrip\<close>.  A map is read back as a
  map, in whatever order.
\<close>

definition same_but_floats :: "sample \<Rightarrow> sample \<Rightarrow> bool" where
  "same_but_floats a b \<longleftrightarrow>
     sm_duration_ms b = sm_duration_ms a \<and> sm_status_code b = sm_status_code a \<and> sm_unix_ms b = sm_unix_ms a \<and>
     sm_query b = sm_query a \<and> sm_request_length b = sm_request_length a \<and>
     sm_response_length b = sm_response_length a \<and> sm_response_ttfb_ms b = sm_response_ttfb_ms a \<and>
     rel_option (\<lambda>_ _. True) (sm_request_entropy_bits a) (sm_request_entropy_bits b) \<and>
     rel_option (\<lambda>_ _. True) (sm_request_ones_ratio a) (sm_request_ones_ratio b) \<and>
     rel_option (list_all2 (\<lambda>_ _. True)) (sm_request_byte_histogram16 a) (sm_request_byte_histogram16 b) \<and>
     rel_option (\<lambda>_ _. True) (sm_response_entropy_bits a) (sm_response_entropy_bits b) \<and>
     rel_option (\<lambda>_ _. True) (sm_response_ones_ratio a) (sm_response_ones_ratio b) \<and>
     rel_option (list_all2 (\<lambda>_ _. True)) (sm_response_byte_histogram16 a) (sm_response_byte_histogram16 b)"

definition read_back_as :: "persisted_train_store \<Rightarrow> persisted_train_store \<Rightarrow> bool" where
  "read_back_as st q \<longleftrightarrow>
     ps_v q = ps_v st \<and> ps_training_complete q = ps_training_complete st \<and>
     ps_completed_at_unix_ms q = ps_completed_at_unix_ms st \<and> ps_host_session_id q = ps_host_session_id st \<and>
     (\<forall>k. rel_option (list_all2 same_but_floats) (hm_get (ps_routes st) k) (hm_get (ps_routes q) k))"

lemma read_back_as_refl: "read_back_as st st"
proof -
  have "same_but_floats x x" for x
    by (simp add: same_but_floats_def option.rel_refl list.rel_refl)
  then show ?thesis by (simp add: read_back_as_def option.rel_refl list.rel_refl)
qed

lemma read_back_lengths:
  assumes "read_back_as st q" "hm_ok (ps_routes st)" "hm_ok (ps_routes q)"
  shows "mset (route_lengths q) = mset (route_lengths st)"
proof -
  have lengths: "mset (route_lengths p) = image_mset (\<lambda>k. length (the (hm_get (ps_routes p) k))) (mset_set {k. hm_get (ps_routes p) k \<noteq> None})"
    if ok: "hm_ok (ps_routes p)" for p
  proof -
    have "route_lengths p = map (\<lambda>k. length (the (hm_get (ps_routes p) k))) (map fst (ps_routes p))"
      using ok by (auto simp: route_lengths_def hm_get_def hm_ok_def)
    moreover have "mset (map fst (ps_routes p)) = mset_set {k. hm_get (ps_routes p) k \<noteq> None}"
      using ok mset_set_set [of "map fst (ps_routes p)"] by (simp add: hm_ok_def hm_get_def map_of_eq_None_iff)
    ultimately show ?thesis by (simp only: mset_map)
  qed
  have rel: "rel_option (list_all2 same_but_floats) (hm_get (ps_routes st) k) (hm_get (ps_routes q) k)" for k
    using assms(1) by (simp add: read_back_as_def)
  have "hm_get (ps_routes q) k = None \<longleftrightarrow> hm_get (ps_routes st) k = None" for k
    using rel [of k] by (cases "hm_get (ps_routes st) k"; cases "hm_get (ps_routes q) k") simp_all
  moreover have "length (the (hm_get (ps_routes q) k)) = length (the (hm_get (ps_routes st) k))" for k
    using rel [of k]
    by (cases "hm_get (ps_routes st) k"; cases "hm_get (ps_routes q) k") (auto dest: list_all2_lengthD)
  ultimately show ?thesis unfolding lengths [OF assms(2)] lengths [OF assms(3)] by simp
qed

lemma count_if_mset: "mset xs = mset ys \<Longrightarrow> count_if p xs = count_if p ys"
  by (metis count_if_def mset_filter size_mset)

lemma min_by_key_mset: "mset xs = mset ys \<Longrightarrow> min_by_key (\<lambda>n. n) xs = min_by_key (\<lambda>n. n) (ys :: nat list)"
proof (cases "min_by_key (\<lambda>n. n) xs"; cases "min_by_key (\<lambda>n. n) ys")
  fix a b
  assume "mset xs = mset ys" "min_by_key (\<lambda>n. n) xs = Some a" "min_by_key (\<lambda>n. n) ys = Some b"
  then show ?thesis
    using min_by_key_in [of "\<lambda>n. n" xs a] min_by_key_in [of "\<lambda>n. n" ys b] min_by_key_le [of "\<lambda>n. n" xs a b]
      min_by_key_le [of "\<lambda>n. n" ys b a] mset_eq_setD [of xs ys] by simp
qed auto

lemma sum_list_mset: "mset xs = mset ys \<Longrightarrow> sum_list xs = sum_list (ys :: nat list)"
  by (metis sum_mset_sum_list)

lemma check_training_done_mset:
  assumes "mset (route_lengths q) = mset (route_lengths st)"
  shows "check_training_done q mode m t r = check_training_done st mode m t r"
  unfolding check_training_done_def sum_list_mset [OF assms] count_if_mset [OF assms] ..

text \<open>The settings and all that the status reports of a store survive.\<close>

lemma read_back_status:
  assumes "read_back_as (ts_inner ts) q" "hm_ok (ps_routes (ts_inner ts))" "hm_ok (ps_routes q)"
  shows "training_status (ts\<lparr>ts_inner := q\<rparr>) = training_status ts"
proof -
  note lengths = read_back_lengths [OF assms]
  have "length (ps_routes q) = length (ps_routes (ts_inner ts))"
    using mset_eq_length [OF lengths] by (simp add: route_lengths_def)
  moreover have "sum_list (route_lengths q) = sum_list (route_lengths (ts_inner ts))"
    by (rule sum_list_mset [OF lengths])
  ultimately show ?thesis
    using assms(1) count_if_mset [OF lengths] min_by_key_mset [OF lengths]
    by (simp add: training_status_def total_sample_count_def route_count_def routes_meeting_min_samples_def
        min_route_sample_count_def read_back_as_def)
qed

lemma save_then_load:
  assumes "json_encode L st = Ok json" "json_decode L json = Ok q" "df_read f = None"
  shows "loaded L env f dir (snd (save_to_disk L no_faults dir st disk)) = q"
  using assms by (simp add: loaded_def load_from_disk_def save_to_disk_def no_faults_def Let_def)

text \<open>
  A restart loses nothing but the last places of floating-point numbers.  Take a store started from an environment with a data directory, any
  records in it, with whatever disk errors, and a last record that is saved without error.  Then
  starting again from the same
  environment gives the store as its JSON is read back and leaves the disk alone.
\<close>

theorem restart_restores:
  assumes "maps_ok L" "resolve_data_dir env = Some dir"
    "run_store L (TrainStore_from_env L env now f1 f2 f3 disk) (es @ [(no_faults, t, key, sm)]) = (ts, disk')"
    "json_encode L (ts_inner ts) = Ok json" "json_decode L json = Ok q" "read_back_as (ts_inner ts) q" "df_read f = None"
  shows "TrainStore_from_env L env now' f f2' f3' disk' = (ts\<lparr>ts_inner := q\<rparr>, disk')"
proof -
  let ?s = "TrainStore_from_env L env now f1 f2 f3 disk"
  let ?q = "session_store env (loaded L env f1 dir disk)"
  have ts: "ts = run_records (fst ?s) (map snd es @ [(t, key, sm)])"
    using run_store_fst [of L ?s "es @ [(no_faults, t, key, sm)]"] assms(3) by simp
  have "\<exists>p. fst ?s = env_store env p \<and> ps_host_session_id p = ps_host_session_id ?q"
    unfolding from_env_path(1) [OF assms(2) refl] by (intro exI conjI, rule refl) simp
  then obtain p where p: "fst ?s = env_store env p" "ps_host_session_id p = ps_host_session_id ?q" by blast
  obtain st where st: "ts = env_store env st" using run_records_settings(3) [OF p(1)] ts by blast
  have id: "ps_host_session_id q = ps_host_session_id ?q"
  proof -
    have "ps_host_session_id (ts_inner ts) = ps_host_session_id (ts_inner (fst ?s))"
      unfolding ts by (rule run_records_settings(2))
    then show ?thesis using assms(6) unfolding p(1) by (simp add: p(2) read_back_as_def)
  qed
  have ok: "train_ok ts" unfolding ts by (rule run_records_ok [OF from_env_ok [OF assms(1)]])
  have "disk' = snd (save_to_disk L no_faults dir (ts_inner ts) (snd (run_store L ?s es)))"
    using assms(2,3) run_records_settings(1) [of "fst ?s" "map snd es"] p(1) run_store_fst [of L ?s es]
    by (auto simp: run_store_def store_record_def case_prod_beta' Let_def record_sample_routes split: option.splits)
  then have load: "loaded L env f dir disk' = q"
    using save_then_load [OF assms(4,5,7)] by simp
  have keep: "\<not> should_reset_store_for_host_session (ps_host_session_id q) (env_string env ''ZONA_HOST_SESSION'')"
    using session_store_keeps [of env "loaded L env f1 dir disk"] id by simp
  then have same: "session_store env (loaded L env f dir disk') = q" by (simp add: load session_store_def)
  have "hm_ok (ps_routes q)" "hm_ok (ps_routes st)" "read_back_as st q"
    using ok assms(1,5,6) st by (auto simp: train_ok_def maps_ok_def)
  then have lengths: "mset (route_lengths q) = mset (route_lengths st)" by (intro read_back_lengths)
  have "done_now (env_store env q) = done_now (env_store env st)"
    unfolding done_now_def env_store_sel check_training_done_mset [OF lengths]
    by (simp add: env_store_def with_options_def Let_def)
  then have "\<not> (\<not> ps_training_complete q \<and> done_now (env_store env q))"
    using ok assms(6) st by (auto simp: train_ok_def read_back_as_def)
  from from_env_path(2) [OF assms(2) same [symmetric] load this keep] show ?thesis
    unfolding st by (simp add: env_store_def with_options_def Let_def)
qed

subsection \<open>Witnesses\<close>

lemma constructors_ok:
  "train_ok (TrainStore_new n)" "0 < m \<Longrightarrow> train_ok (TrainStore_new_for_testing n m)"
  "train_ok (TrainStore_new_for_ready_routes_test n m)"
  by (simp_all add: train_ok_def done_now_def check_training_done_def route_lengths_def TrainStore_new_def
      TrainStore_new_for_testing_def TrainStore_new_for_ready_routes_test_def with_options_def
      PersistedTrainStore_default_def usize_max_def)

definition demo_sample :: "u64 \<Rightarrow> sample" where
  "demo_sample ms =
     \<lparr>sm_duration_ms = ms, sm_status_code = 200, sm_unix_ms = 0, sm_query = None, sm_request_length = None,
      sm_response_length = None, sm_response_ttfb_ms = None, sm_request_entropy_bits = None, sm_request_ones_ratio = None,
      sm_request_byte_histogram16 = None, sm_response_entropy_bits = None, sm_response_ones_ratio = None,
      sm_response_byte_histogram16 = None\<rparr>"

text \<open>A JSON encoding of one store only.\<close>

definition demo_persisted :: persisted_train_store where
  "demo_persisted = PersistedTrainStore_default\<lparr>ps_routes := [(''GET|/'', [demo_sample 5])]\<rparr>"

definition demo_train_libs :: train_libs where
  "demo_train_libs =
     \<lparr>form_parse = (\<lambda>s. map (\<lambda>(k, v). (from_utf8_lossy (string_bytes k), from_utf8_lossy (string_bytes v)))
        (demo_parse [] [] s)), form_serialize = demo_serialize,
      json_encode = (\<lambda>_. Ok ''{}''), json_decode = (\<lambda>_. Ok demo_persisted)\<rparr>"

definition demo_environment :: environment where
  "demo_environment = [''ZONA_DATA_DIR'' \<mapsto> ''d'']"

theorem training_log_witness:
  "total_sample_count (run_records (TrainStore_new 3) [(1, ''GET|/'', demo_sample 5), (2, ''GET|/x'', demo_sample 6)]) = 2"
proof -
  have "total_sample_count (TrainStore_new 3) = 0"
    by (simp add: total_sample_count_def route_lengths_def TrainStore_new_def with_options_def PersistedTrainStore_default_def)
  then show ?thesis using training_log [OF constructors_ok(1) refl, of 3 "[(1, ''GET|/'', demo_sample 5), (2, ''GET|/x'', demo_sample 6)]"]
    by simp
qed

theorem training_completes_once_witness:
  "\<forall>fs. ps_completed_at_unix_ms (ts_inner (run_records
     (run_records (TrainStore_new_for_testing 1 1) ([] @ [(7, ''GET|/'', demo_sample 5)])) fs)) = Some 7"
proof -
  have a: "\<not> ps_training_complete (ts_inner (run_records (TrainStore_new_for_testing 1 1) []))"
    and b: "ps_training_complete (ts_inner (run_records (TrainStore_new_for_testing 1 1) ([] @ [(7, ''GET|/'', demo_sample 5)])))"
    by (simp add: TrainStore_new_for_testing_def with_options_def PersistedTrainStore_default_def)
      (simp add: run_records_def TrainStore_new_for_testing_def with_options_def PersistedTrainStore_default_def
        record_sample_def check_training_done_def route_lengths_def push_route_def hm_or_insert_def hm_insert_def Let_def)
  have "(0 :: nat) < 1" by simp
  from training_completes_once [OF constructors_ok(2) [OF this] a refl b] show ?thesis by blast
qed

theorem save_atomic_witness:
  "hm_get (snd (save_to_disk demo_train_libs (no_faults\<lparr>df_write := Some (''disk full'', Some ''{'')\<rparr>) ''d'' demo_persisted
     [(''d/train_store.json'', ''old'')])) (store_file_path ''d'') = Some ''old''"
  using save_atomic [of demo_train_libs "no_faults\<lparr>df_write := Some (''disk full'', Some ''{'')\<rparr>" "''d''" demo_persisted
      "[(''d/train_store.json'', ''old'')]" "Err ''disk full''"]
  by (simp add: save_to_disk_def no_faults_def demo_train_libs_def store_file_path_def path_join_def hm_get_def Let_def)



lemma demo_form_ok: "form_ok demo_train_libs"
proof -
  let ?P = "\<lambda>c. 32 < (of_char c :: nat) \<and> (of_char c :: nat) < 127 \<and> c \<noteq> CHR ''?''"
  have letter: "?P (char_of (65 + n :: nat))" if "n < 16" for n
    using demo_letter [OF that] that by (auto dest: arg_cong [of _ _ "of_char :: char \<Rightarrow> nat"])
  have "list_all ?P (demo_enc s)" for s
  proof (induction s)
    case (Cons c s)
    have "(of_char c :: nat) div 16 < 16" "(of_char c :: nat) mod 16 < 16"
      using nat_of_char_less_256 [of c] by (simp_all add: less_mult_imp_div_less)
    then show ?case using Cons letter by (simp add: demo_enc_def)
  qed (simp add: demo_enc_def)
  then have "list_all ?P (demo_serialize ps)" for ps
    by (induction ps) (auto simp: demo_serialize_def)
  moreover have "map (\<lambda>(k, v). (from_utf8_lossy (string_bytes k), from_utf8_lossy (string_bytes v))) ps = ps"
    if "text_pairs ps" for ps
    using that by (induction ps) (auto simp: text_pairs_def from_utf8_lossy_def utf8_lossy_fixed [THEN iffD2])
  ultimately show ?thesis
    by (auto simp: form_ok_def demo_train_libs_def demo_parse_serialize text_pairs_def utf8_lossy_valid)
qed

theorem canonical_query_normal_witness:
  "canonical_query demo_train_libs (canonical_query demo_train_libs (Some ''?EB=EC&'')) =
    canonical_query demo_train_libs (Some ''?EB=EC&'')"
  using canonical_query_normal [OF demo_form_ok, of "Some ''?EB=EC&''"] by blast

theorem restart_restores_witness:
  "\<exists>ts disk. TrainStore_from_env demo_train_libs demo_environment 9 no_faults no_faults no_faults disk = (ts, disk) \<and>
     total_sample_count ts = 1"
proof -
  let ?L = demo_train_libs
  have trim: "trim [] = []" "trim ''d'' = ''d''"
    using trim_printable [of "[]"] trim_printable [of "''d''"] by simp_all
  have dir: "resolve_data_dir demo_environment = Some ''d''"
    by (simp add: resolve_data_dir_def demo_environment_def trim Let_def)
  have maps: "maps_ok ?L" by (simp add: maps_ok_def demo_train_libs_def demo_persisted_def hm_ok_def)
  let ?s = "TrainStore_from_env ?L demo_environment 1 no_faults no_faults no_faults []"
  have q: "session_store demo_environment (loaded ?L demo_environment no_faults ''d'' []) = PersistedTrainStore_default"
    by (simp add: session_store_def loaded_def load_from_disk_def should_reset_store_for_host_session_def env_string_def
        demo_environment_def)
  have s: "fst ?s = env_store demo_environment PersistedTrainStore_default"
    unfolding from_env_path(1) [OF dir refl] q using done_now_empty [of PersistedTrainStore_default]
    by (simp add: PersistedTrainStore_default_def)
  obtain ts disk where run: "run_store ?L ?s ([] @ [(no_faults, 2, ''GET|/'', demo_sample 5)]) = (ts, disk)" by fastforce
  have mode: "env_done_mode demo_environment = AllRoutes"
    by (simp add: env_done_mode_def env_string_def demo_environment_def trim to_ascii_lowercase_def ascii_map_def Let_def)
  have settings: "env_usize demo_environment ''ZONA_TEACH_MIN_SAMPLES'' 10 = 10"
    "env_usize demo_environment ''ZONA_TRAINING_MIN_READY_ROUTES'' 3 = 3"
    by (simp_all add: env_usize_def demo_environment_def)
  have push: "push_route ''GET|/'' x [] = [(''GET|/'', [x])]" for x
    by (simp add: push_route_def hm_or_insert_def hm_insert_def)
  have "ts = record_sample (fst ?s) 2 ''GET|/'' (demo_sample 5)"
    using run_store_fst [of ?L ?s "[(no_faults, 2, ''GET|/'', demo_sample 5)]"] run by (simp add: run_records_def)
  then have "ts_inner ts = demo_persisted"
    unfolding s
    by (simp add: record_sample_def env_store_def with_options_def mode check_training_done_def route_lengths_def
        settings push PersistedTrainStore_default_def demo_persisted_def Let_def)
  then have "total_sample_count ts = 1" "json_encode ?L (ts_inner ts) = Ok ''{}''" "json_decode ?L ''{}'' = Ok (ts_inner ts)"
    by (simp_all add: total_sample_count_def route_lengths_def demo_persisted_def demo_train_libs_def)
  moreover have "df_read no_faults = None" by (simp add: no_faults_def)
  ultimately have "TrainStore_from_env ?L demo_environment 9 no_faults no_faults no_faults disk = (ts\<lparr>ts_inner := ts_inner ts\<rparr>, disk)"
    by (intro restart_restores [OF maps dir run _ _ read_back_as_refl])
  with \<open>total_sample_count ts = 1\<close> show ?thesis by (intro exI [of _ ts] exI [of _ disk]) simp
qed

end
