(* ===== verification/Mask_Profiles.thy ===== *)
theory Mask_Profiles
  imports Train_Store "HOL-Library.Monad_Syntax"
begin

section \<open>Mask profiles\<close>

text \<open>
  \<^verbatim>\<open>zona/src/mask_profiles.rs\<close>: for every route with enough samples, five profiles taken from the
  quantiles of the observed distribution.  An index out of bounds panics in the code; here it is
  \<open>None\<close>, so the theorems that a result is \<open>Some\<close> say that nothing panics.  \<^verbatim>\<open>f64::exp\<close> is platform code
  and a parameter, with the hypothesis \<open>exp_ok\<close>.  The response is the data before its JSON encoding.
\<close>

record mask_profiles_query =
  mq_method :: "string option"
  mq_path :: "string option"
  mq_query :: "string option"

record mask_characteristics =
  mc_target_latency_ms :: f64
  mc_latency_jitter_ms :: f64
  mc_observed_query_length_bytes :: "nat option"
  mc_observed_request_length_bytes :: "nat option"
  mc_observed_response_length_bytes :: "nat option"
  mc_observed_response_ttfb_ms :: "f64 option"
  mc_target_request_entropy_bits :: "f64 option"
  mc_target_response_entropy_bits :: "f64 option"
  mc_target_request_ones_ratio :: "f64 option"
  mc_target_response_ones_ratio :: "f64 option"
  mc_target_request_byte_histogram16 :: "f64 list option"
  mc_target_response_byte_histogram16 :: "f64 list option"

record mask_variant =
  mv_id :: u8
  mv_label :: string
  mv_characteristics :: mask_characteristics
  mv_masking_percent :: f64

record mask_route_entry =
  me_route_key :: string
  me_sample_count :: nat
  me_ready :: bool
  me_variants :: "mask_variant list"

record mask_profiles_response =
  mr_min_samples :: nat
  mr_routes :: "mask_route_entry list"

definition exp_ok :: "(f64 \<Rightarrow> f64) \<Rightarrow> bool" where
  "exp_ok fexp \<longleftrightarrow> (\<forall>x \<le> 0. 0 \<le> fexp x \<and> fexp x \<le> 1)"

definition trimmed_nonempty :: "string option \<Rightarrow> string option" where
  "trimmed_nonempty q = Option.bind q (\<lambda>s. let t = trim s in if t = [] then None else Some t)"

definition is_specific_route_key :: "mask_profiles_query \<Rightarrow> bool" where
  "is_specific_route_key q \<longleftrightarrow> trimmed_nonempty (mq_method q) \<noteq> None \<and> trimmed_nonempty (mq_path q) \<noteq> None"

definition LATENCY_PERCENTILES :: "f64 list" where
  "LATENCY_PERCENTILES = [12, 28, 50, 72, 88]"

definition LABELS :: "string list" where
  "LABELS =
     [
            bytes_to_string [208, 157, 208, 184, 208, 182, 208, 189, 208, 184, 208, 185, 32, 209, 133, 208,
        178, 208, 190, 209, 129, 209, 130, 32, 40, 208, 177, 209, 139, 209, 129, 209, 130, 209, 128, 208, 181,
        208, 181, 41],
            bytes_to_string [208, 157, 208, 184, 208, 182, 208, 181, 32, 208, 188, 208, 181, 208, 180, 208,
        184, 208, 176, 208, 189, 209, 139],
            bytes_to_string [208, 156, 208, 181, 208, 180, 208, 184, 208, 176, 208, 189, 208, 176, 32, 40,
        209, 143, 208, 180, 209, 128, 208, 190, 41],
            bytes_to_string [208, 146, 209, 139, 209, 136, 208, 181, 32, 208, 188, 208, 181, 208, 180, 208,
        184, 208, 176, 208, 189, 209, 139],
            bytes_to_string [208, 146, 208, 181, 209, 128, 209, 133, 208, 189, 208, 184, 208, 185, 32, 209,
        133, 208, 178, 208, 190, 209, 129, 209, 130, 32, 40, 208, 188, 208, 181, 208, 180, 208, 187, 208, 181,
        208, 189, 208, 189, 208, 181, 208, 181, 41]]"

subsection \<open>Quantiles\<close>

definition slice_get :: "'x list \<Rightarrow> nat \<Rightarrow> 'x option" where
  "slice_get xs i = (if i < length xs then Some (xs ! i) else None)"

definition percentile :: "f64 list \<Rightarrow> f64 \<Rightarrow> f64 option" where
  "percentile sorted_vals p =
     (if sorted_vals = [] then Some 0
      else if length sorted_vals = 1 then slice_get sorted_vals 0
      else
        let p = max 0 (min 100 p);
            idx = f64_div (f64_mul (f64_of_nat (length sorted_vals - 1)) p) 100;
            lo = nat \<lfloor>idx\<rfloor>; hi = nat \<lceil>idx\<rceil>
        in if lo = hi then slice_get sorted_vals lo
           else
             let w = f64_sub idx (f64_of_nat lo)
             in do {
                  a \<leftarrow> slice_get sorted_vals lo;
                  b \<leftarrow> slice_get sorted_vals hi;
                  Some (f64_add (f64_mul a (f64_sub 1 w)) (f64_mul b w))
                })"

definition round_tenth :: "f64 \<Rightarrow> f64" where
  "round_tenth x = f64_div (round_half_away (f64_mul x 10)) 10"

definition masking_percent_for_latency :: "(f64 \<Rightarrow> f64) \<Rightarrow> f64 \<Rightarrow> f64 list \<Rightarrow> f64 option" where
  "masking_percent_for_latency fexp target sorted_durations =
     (if sorted_durations = [] then Some 0
      else do {
        med \<leftarrow> percentile sorted_durations 50;
        p10 \<leftarrow> percentile sorted_durations 10;
        p90 \<leftarrow> percentile sorted_durations 90;
        let half_width = max (f64_mul (f64_sub p90 p10) (1 / 2)) 1;
            z = f64_div \<bar>f64_sub target med\<bar> half_width;
            score = f64_mul 100 (fexp (f64_mul (f64_mul (- 1 / 2) z) z))
        in Some (round_tenth score)
      })"

text \<open>The quantile of the values a field has in the samples, if any has it.\<close>

definition collect_percentile :: "sample list \<Rightarrow> f64 \<Rightarrow> (sample \<Rightarrow> f64 option) \<Rightarrow> f64 option option" where
  "collect_percentile samples p extract =
     (let v = List.map_filter extract samples
      in if v = [] then Some None else map_option Some (percentile (sort v) p))"

definition collect_query_length_percentile :: "sample list \<Rightarrow> f64 \<Rightarrow> nat option option" where
  "collect_query_length_percentile samples p =
     (let v = map (\<lambda>s. case sm_query s of None \<Rightarrow> 0 | Some q \<Rightarrow> length q) samples
      in if v = [] then Some None
         else map_option (\<lambda>x. Some (f64_to_u64 (max (round_half_away x) 0))) (percentile (sort (map f64_of_nat v)) p))"

definition collect_length_percentile :: "sample list \<Rightarrow> f64 \<Rightarrow> bool \<Rightarrow> nat option option" where
  "collect_length_percentile samples p request =
     (let v = List.map_filter (\<lambda>s. if request then sm_request_length s else sm_response_length s) samples
      in if v = [] then Some None
         else map_option (\<lambda>x. Some (f64_to_u64 (max (round_half_away x) 0)))
                (percentile (sort (map (\<lambda>n. f64_of_nat (unat n)) v)) p))"

definition collect_histogram_percentile :: "sample list \<Rightarrow> f64 \<Rightarrow> bool \<Rightarrow> f64 list option option" where
  "collect_histogram_percentile samples p request =
     (let rows = List.map_filter
            (\<lambda>s. Option.bind (if request then sm_request_byte_histogram16 s else sm_response_byte_histogram16 s)
               (\<lambda>h. if length h = 16 then Some h else None)) samples
      in if rows = [] then Some None
         else map_option Some
                (those (map (\<lambda>bin. do {
                   col \<leftarrow> those (map (\<lambda>h. slice_get h bin) rows);
                   percentile (sort col) p
                 }) [0 ..< 16])))"

subsection \<open>Variants\<close>

definition build_variant ::
  "(f64 \<Rightarrow> f64) \<Rightarrow> sample list \<Rightarrow> f64 list \<Rightarrow> f64 \<Rightarrow> nat \<Rightarrow> f64 \<Rightarrow> mask_variant option" where
  "build_variant fexp samples durations jitter_base i p =
     do {
       target \<leftarrow> percentile durations p;
       masking \<leftarrow> masking_percent_for_latency fexp target durations;
       label \<leftarrow> slice_get LABELS i;
       query_length \<leftarrow> collect_query_length_percentile samples p;
       request_length \<leftarrow> collect_length_percentile samples p True;
       response_length \<leftarrow> collect_length_percentile samples p False;
       ttfb \<leftarrow> collect_percentile samples p (\<lambda>s. map_option (\<lambda>x. f64_of_nat (unat x)) (sm_response_ttfb_ms s));
       request_entropy \<leftarrow> collect_percentile samples p sm_request_entropy_bits;
       response_entropy \<leftarrow> collect_percentile samples p sm_response_entropy_bits;
       request_ones \<leftarrow> collect_percentile samples p sm_request_ones_ratio;
       response_ones \<leftarrow> collect_percentile samples p sm_response_ones_ratio;
       request_histogram \<leftarrow> collect_histogram_percentile samples p True;
       response_histogram \<leftarrow> collect_histogram_percentile samples p False;
       Some \<lparr>mv_id = word_of_nat (i + 1), mv_label = label,
             mv_characteristics =
               \<lparr>mc_target_latency_ms = round_tenth target, mc_latency_jitter_ms = round_tenth jitter_base,
                mc_observed_query_length_bytes = query_length, mc_observed_request_length_bytes = request_length,
                mc_observed_response_length_bytes = response_length,
                mc_observed_response_ttfb_ms = map_option round_tenth ttfb,
                mc_target_request_entropy_bits = request_entropy, mc_target_response_entropy_bits = response_entropy,
                mc_target_request_ones_ratio = request_ones, mc_target_response_ones_ratio = response_ones,
                mc_target_request_byte_histogram16 = request_histogram,
                mc_target_response_byte_histogram16 = response_histogram\<rparr>,
             mv_masking_percent = masking\<rparr>
     }"

definition build_variants :: "(f64 \<Rightarrow> f64) \<Rightarrow> sample list \<Rightarrow> mask_variant list option" where
  "build_variants fexp samples =
     (let durations = sort (map (\<lambda>s. f64_of_nat (unat (sm_duration_ms s))) samples)
      in do {
           q1 \<leftarrow> percentile durations 25;
           q3 \<leftarrow> percentile durations 75;
           let jitter_base = max (f64_mul (f64_sub q3 q1) (1 / 4)) 1
           in those (map (\<lambda>(i, p). build_variant fexp samples durations jitter_base i p)
                (List.enumerate 0 LATENCY_PERCENTILES))
         })"

subsection \<open>The endpoint\<close>

definition entry_for_samples ::
  "(f64 \<Rightarrow> f64) \<Rightarrow> string \<Rightarrow> sample list \<Rightarrow> nat \<Rightarrow> mask_route_entry option" where
  "entry_for_samples fexp key samples min_samples =
     (let cnt = length samples; ready = min_samples \<le> cnt
      in map_option (\<lambda>variants. \<lparr>me_route_key = key, me_sample_count = cnt, me_ready = ready, me_variants = variants\<rparr>)
           (if ready then build_variants fexp samples else Some []))"

definition mask_profiles ::
  "(f64 \<Rightarrow> f64) \<Rightarrow> route_order \<Rightarrow> train_store \<Rightarrow> mask_profiles_query \<Rightarrow> mask_profiles_response option" where
  "mask_profiles fexp order ts q =
     (let min_samples = ts_min_samples ts;
          routes =
            (if is_specific_route_key q then
               let m = (case mq_method q of None \<Rightarrow> [] | Some s \<Rightarrow> trim s);
                   p = (case mq_path q of None \<Rightarrow> [] | Some s \<Rightarrow> trim s);
                   key = route_key m p;
                   samples = (case samples_for ts key of None \<Rightarrow> [] | Some v \<Rightarrow> v)
               in map_option (\<lambda>e. if me_ready e then [e] else []) (entry_for_samples fexp key samples min_samples)
             else
               map_option (filter me_ready)
                 (those (map (\<lambda>(key, samples). entry_for_samples fexp key samples min_samples)
                    (routes_with_samples order ts))))
      in map_option (\<lambda>routes. \<lparr>mr_min_samples = min_samples, mr_routes = routes\<rparr>) routes)"

subsection \<open>No quantile is out of bounds\<close>

lemma those_total:
  "(\<And>x. x \<in> set xs \<Longrightarrow> \<exists>v. f x = Some v \<and> P x v) \<Longrightarrow> \<exists>vs. those (map f xs) = Some vs \<and> list_all2 P xs vs"
proof (induction xs)
  case (Cons x xs)
  obtain v where v: "f x = Some v" "P x v" using Cons.prems [of x] by auto
  from Cons.IH [OF Cons.prems] obtain vs where "those (map f xs) = Some vs" "list_all2 P xs vs" by auto
  with v show ?case by (intro exI [of _ "v # vs"]) simp
qed simp

text \<open>The memory bound under which a length is a double and stays one when multiplied by a hundred.\<close>

definition sized :: "'x list \<Rightarrow> bool" where
  "sized xs \<longleftrightarrow> length xs \<le> 2 ^ 40"

lemma quantile_index:
  assumes "sized xs" "xs \<noteq> []" "0 \<le> p" "p \<le> 100"
  shows "0 \<le> f64_div (f64_mul (f64_of_nat (length xs - 1)) p) 100"
    "f64_div (f64_mul (f64_of_nat (length xs - 1)) p) 100 \<le> of_nat (length xs - 1)"
proof -
  let ?n = "length xs - 1"
  have n: "?n < 2 ^ 40" using assms(1,2) by (cases xs) (simp_all add: sized_def)
  then have small: "?n < 2 ^ 53" "?n * 100 < 2 ^ 53" by simp_all
  have len: "f64_of_nat ?n = of_nat ?n" unfolding f64_of_nat_def by (rule f64_round_nat [OF small(1)])
  have "of_nat ?n * p \<le> of_nat ?n * (100 :: rat)" by (rule mult_left_mono [OF assms(4)]) simp
  then have "f64_round (of_nat ?n * p) \<le> of_nat (?n * 100)"
    using assms(3) by (intro f64_round_le_nat [OF _ _ small(2)]) simp_all
  then have "f64_round (f64_round (of_nat ?n * p) / 100) \<le> of_nat ?n"
    using f64_round_nonneg [of "of_nat ?n * p"] assms(3)
    by (intro f64_round_le_nat [OF _ _ small(1)]) (simp_all add: divide_le_eq)
  then show "f64_div (f64_mul (f64_of_nat ?n) p) 100 \<le> of_nat ?n" unfolding f64_div_def f64_mul_def len .
  show "0 \<le> f64_div (f64_mul (f64_of_nat ?n) p) 100"
    unfolding f64_div_def f64_mul_def len using assms(3) by (intro f64_round_nonneg divide_nonneg_nonneg) simp_all
qed

lemma quantile_weight:
  assumes "sized xs" "xs \<noteq> []" "0 \<le> p" "p \<le> 100" "idx = f64_div (f64_mul (f64_of_nat (length xs - 1)) p) 100"
  shows "0 \<le> f64_sub idx (f64_of_nat (nat \<lfloor>idx\<rfloor>))" "f64_sub idx (f64_of_nat (nat \<lfloor>idx\<rfloor>)) \<le> 1"
    "nat \<lfloor>idx\<rfloor> < length xs" "nat \<lceil>idx\<rceil> < length xs"
proof -
  note idx = quantile_index [OF assms(1-4), folded assms(5)]
  have "\<lceil>idx\<rceil> \<le> int (length xs - 1)" using idx(2) by (simp add: ceiling_le_iff)
  then show hi: "nat \<lceil>idx\<rceil> < length xs" using assms(2) by (cases xs) auto
  have "\<lfloor>idx\<rfloor> \<le> \<lceil>idx\<rceil>" by linarith
  then show lo: "nat \<lfloor>idx\<rfloor> < length xs" using hi by linarith
  have "nat \<lfloor>idx\<rfloor> < 2 ^ 53" using lo assms(1) by (simp add: sized_def)
  then have "f64_of_nat (nat \<lfloor>idx\<rfloor>) = of_nat (nat \<lfloor>idx\<rfloor>)" by (simp add: f64_of_nat_def f64_round_nat)
  also have "of_nat (nat \<lfloor>idx\<rfloor>) = (of_int \<lfloor>idx\<rfloor> :: rat)" using idx(1) by simp
  finally have w: "f64_sub idx (f64_of_nat (nat \<lfloor>idx\<rfloor>)) = f64_round (idx - of_int \<lfloor>idx\<rfloor>)" by (simp add: f64_sub_def)
  have frac: "0 \<le> idx - of_int \<lfloor>idx\<rfloor>" "idx - of_int \<lfloor>idx\<rfloor> \<le> of_nat 1"
    by (simp_all add: frac_lt_1 le_less frac_def [symmetric])
  show "0 \<le> f64_sub idx (f64_of_nat (nat \<lfloor>idx\<rfloor>))" "f64_sub idx (f64_of_nat (nat \<lfloor>idx\<rfloor>)) \<le> 1"
    unfolding w using f64_round_nonneg [OF frac(1)] f64_round_le_nat [OF frac] by simp_all
qed

lemma interpolate_nonneg:
  assumes "0 \<le> a" "0 \<le> b" "0 \<le> w" "w \<le> 1"
  shows "0 \<le> f64_add (f64_mul a (f64_sub 1 w)) (f64_mul b w)"
  unfolding f64_add_def f64_mul_def f64_sub_def
  using assms by (intro f64_round_nonneg add_nonneg_nonneg mult_nonneg_nonneg) simp_all

lemma f64_mul_le:
  assumes "0 \<le> a" "a \<le> of_nat n" "0 \<le> w" "w \<le> 1" "n < 2 ^ 53"
  shows "0 \<le> f64_mul a w" "f64_mul a w \<le> of_nat n"
proof -
  have r: "0 \<le> a * w" "a * w \<le> of_nat n" using assms mult_mono [of a "of_nat n" w 1] by simp_all
  show "0 \<le> f64_mul a w" "f64_mul a w \<le> of_nat n"
    unfolding f64_mul_def using f64_round_nonneg [OF r(1)] f64_round_le_nat [OF r assms(5)] by simp_all
qed

lemma interpolate_le:
  assumes "0 \<le> a \<and> a \<le> of_nat n" "0 \<le> b \<and> b \<le> of_nat n" "0 \<le> w" "w \<le> 1" "2 * n < 2 ^ 53"
  shows "f64_add (f64_mul a (f64_sub 1 w)) (f64_mul b w) \<le> of_nat (2 * n)"
proof -
  have u: "0 \<le> f64_sub 1 w" "f64_sub 1 w \<le> 1"
    unfolding f64_sub_def using assms f64_round_nonneg [of "1 - w"] f64_round_le_nat [of "1 - w" 1] by simp_all
  have n: "n < 2 ^ 53" using assms(5) by simp
  show ?thesis
    unfolding f64_add_def using f64_mul_le [OF _ _ u n, of a] f64_mul_le [OF _ _ assms(3,4) n, of b] assms(1,2)
    by (intro f64_round_le_nat [OF _ _ assms(5)]) simp_all
qed

lemma percentile_total:
  assumes "sized xs" "0 \<le> p" "p \<le> 100"
  shows "\<exists>v. percentile xs p = Some v \<and> (list_all (\<lambda>x. 0 \<le> x) xs \<longrightarrow> 0 \<le> v)"
proof (cases "length xs \<le> 1")
  case True
  then show ?thesis by (cases xs) (simp_all add: percentile_def slice_get_def)
next
  case False
  then have ne: "xs \<noteq> []" "length xs \<noteq> 1" by auto
  let ?idx = "f64_div (f64_mul (f64_of_nat (length xs - 1)) p) 100"
  let ?w = "f64_sub ?idx (f64_of_nat (nat \<lfloor>?idx\<rfloor>))"
  note q = quantile_weight [OF assms(1) ne(1) assms(2,3) refl]
  have p: "max 0 (min 100 p) = p" using assms by simp
  have mem: "0 \<le> xs ! i" if "list_all (\<lambda>x. 0 \<le> x) xs" "i < length xs" for i
    using that by (simp add: list_all_length)
  note interpolate_nonneg [OF _ _ q(1,2)]
  then show ?thesis
    using ne q(3,4) mem by (auto simp: percentile_def p slice_get_def Let_def)
qed

lemma sized_sort [simp]: "sized (sort xs) = sized xs"
  by (simp add: sized_def)

lemma sized_map [simp]: "sized (map f xs) = sized xs"
  by (simp add: sized_def)

lemma sized_map_filter: "sized xs \<Longrightarrow> sized (List.map_filter f xs)"
  using length_map_filter_le [of f xs] by (simp add: sized_def)

lemma round_tenth_bounds:
  assumes "0 \<le> x" "x \<le> 100" shows "0 \<le> round_tenth x" "round_tenth x \<le> 100"
proof -
  have "x * 10 \<le> of_nat 1000" using assms(2) by simp
  from f64_round_le_nat [OF _ this] f64_round_nonneg [of "x * 10"] assms(1)
  have a: "0 \<le> f64_mul x 10" "f64_mul x 10 \<le> of_nat 1000" by (simp_all add: f64_mul_def)
  then have b: "0 \<le> round_half_away (f64_mul x 10)" "round_half_away (f64_mul x 10) \<le> of_nat 1000"
    using round_half_away_nonneg round_half_away_le by blast+
  then have "0 \<le> round_half_away (f64_mul x 10) / 10" "round_half_away (f64_mul x 10) / 10 \<le> of_nat 100"
    by (simp_all add: divide_le_eq)
  from f64_round_nonneg [OF this(1)] f64_round_le_nat [OF this]
  show "0 \<le> round_tenth x" "round_tenth x \<le> 100" by (simp_all add: round_tenth_def f64_div_def)
qed

lemma round_tenth_nonneg: "0 \<le> x \<Longrightarrow> 0 \<le> round_tenth x"
  unfolding round_tenth_def f64_div_def f64_mul_def
  by (intro f64_round_nonneg divide_nonneg_nonneg round_half_away_nonneg mult_nonneg_nonneg) simp_all

lemma masking_percent_total:
  assumes "exp_ok fexp" "sized durations"
  shows "\<exists>m. masking_percent_for_latency fexp target durations = Some m \<and> 0 \<le> m \<and> m \<le> 100"
proof (cases "durations = []")
  case True
  then show ?thesis by (simp add: masking_percent_for_latency_def)
next
  case False
  obtain med p10 p90 where p: "percentile durations 50 = Some med" "percentile durations 10 = Some p10"
      "percentile durations 90 = Some p90"
    using percentile_total [OF assms(2), of 50] percentile_total [OF assms(2), of 10] percentile_total [OF assms(2), of 90]
    by auto
  define z where "z = f64_div \<bar>f64_sub target med\<bar> (max (f64_mul (f64_sub p90 p10) (1 / 2)) 1)"
  have z: "0 \<le> z" unfolding z_def f64_div_def by (intro f64_round_nonneg divide_nonneg_nonneg) simp_all
  have "f64_mul (f64_mul (- 1 / 2) z) z \<le> 0"
    unfolding f64_mul_def using z by (intro f64_round_nonpos mult_nonpos_nonneg f64_round_nonpos) simp_all
  then have e: "0 \<le> fexp (f64_mul (f64_mul (- 1 / 2) z) z)" "fexp (f64_mul (f64_mul (- 1 / 2) z) z) \<le> 1"
    using assms(1) by (simp_all add: exp_ok_def)
  then have "0 \<le> f64_mul 100 (fexp (f64_mul (f64_mul (- 1 / 2) z) z))"
    "f64_mul 100 (fexp (f64_mul (f64_mul (- 1 / 2) z) z)) \<le> of_nat 100"
    unfolding f64_mul_def [of 100] by (intro f64_round_nonneg f64_round_le_nat; simp)+
  then show ?thesis
    using round_tenth_bounds False p by (simp add: masking_percent_for_latency_def z_def [symmetric] Let_def)
qed

subsection \<open>Every variant is there\<close>

lemma collect_percentile_total:
  assumes "sized samples" "0 \<le> p" "p \<le> 100"
  shows "\<exists>r. collect_percentile samples p extract = Some r \<and> (r \<noteq> None \<longleftrightarrow> (\<exists>s \<in> set samples. extract s \<noteq> None))"
proof -
  have "List.map_filter extract samples = [] \<longleftrightarrow> \<not> (\<exists>s \<in> set samples. extract s \<noteq> None)"
    by (induction samples) (auto simp: List.map_filter_simps split: option.splits)
  then show ?thesis
    using percentile_total [of "sort (List.map_filter extract samples)", OF _ assms(2,3)] sized_map_filter [OF assms(1)]
    by (auto simp: collect_percentile_def Let_def)
qed

lemma collect_lengths_total:
  assumes "sized samples" "0 \<le> p" "p \<le> 100"
  shows "\<exists>r. collect_query_length_percentile samples p = Some r \<and> (r \<noteq> None \<longleftrightarrow> samples \<noteq> [])"
    "\<exists>r. collect_length_percentile samples p request = Some r \<and>
      (r \<noteq> None \<longleftrightarrow> (\<exists>s \<in> set samples. (if request then sm_request_length s else sm_response_length s) \<noteq> None))"
proof -
  let ?f = "\<lambda>s. if request then sm_request_length s else sm_response_length s"
  have "List.map_filter ?f samples = [] \<longleftrightarrow> \<not> (\<exists>s \<in> set samples. ?f s \<noteq> None)"
    by (induction samples) (auto simp: List.map_filter_simps split: option.splits)
  then show "\<exists>r. collect_length_percentile samples p request = Some r \<and> (r \<noteq> None \<longleftrightarrow> (\<exists>s \<in> set samples. ?f s \<noteq> None))"
    using percentile_total [of "sort (map (\<lambda>n. f64_of_nat (unat n)) (List.map_filter ?f samples))", OF _ assms(2,3)]
      sized_map_filter [OF assms(1)]
    by (auto simp: collect_length_percentile_def Let_def)
  show "\<exists>r. collect_query_length_percentile samples p = Some r \<and> (r \<noteq> None \<longleftrightarrow> samples \<noteq> [])"
    using percentile_total [of "sort (map f64_of_nat (map (\<lambda>s. case sm_query s of None \<Rightarrow> 0 | Some q \<Rightarrow> length q) samples))",
        OF _ assms(2,3)] assms(1)
    by (auto simp: collect_query_length_percentile_def Let_def)
qed

lemma collect_histogram_total:
  assumes "sized samples" "0 \<le> p" "p \<le> 100"
  shows "\<exists>r. collect_histogram_percentile samples p request = Some r \<and> (\<forall>h. r = Some h \<longrightarrow> length h = 16)"
proof -
  define rows where "rows = List.map_filter
    (\<lambda>s. Option.bind (if request then sm_request_byte_histogram16 s else sm_response_byte_histogram16 s)
       (\<lambda>h. if length h = 16 then Some h else None)) samples"
  have rows: "length h = 16" if "h \<in> set rows" for h
    using that unfolding rows_def map_filter_set by (auto split: bind_splits if_splits option.splits)
  have "sized rows" unfolding rows_def by (rule sized_map_filter [OF assms(1)])
  let ?col = "\<lambda>bin. those (map (\<lambda>h. slice_get h bin) rows) \<bind> (\<lambda>col. percentile (sort col) p)"
  have "\<exists>v. ?col bin = Some v \<and> True" if bin: "bin \<in> set [0 ..< 16]" for bin
  proof -
    have "\<exists>v. slice_get h bin = Some v \<and> True" if "h \<in> set rows" for h
      using rows [OF that] bin by (simp add: slice_get_def)
    from those_total [of rows "\<lambda>h. slice_get h bin" "\<lambda>_ _. True", OF this] obtain vs where
      "those (map (\<lambda>h. slice_get h bin) rows) = Some vs" "list_all2 (\<lambda>_ _. True) rows vs" by blast
    moreover from this(2) have "sized (sort vs)" using \<open>sized rows\<close> by (simp add: sized_def list_all2_lengthD)
    ultimately show ?thesis using percentile_total [of "sort vs", OF _ assms(2,3)] by auto
  qed
  from those_total [of "[0 ..< 16]" ?col "\<lambda>_ _. True", OF this] obtain vs where
    "those (map ?col [0 ..< 16]) = Some vs" "list_all2 (\<lambda>_ _. True) [0 ..< 16 :: nat] vs" by blast
  moreover from this(2) have "length vs = 16" by (auto dest: list_all2_lengthD)
  ultimately show ?thesis
    by (cases "rows = []") (simp_all add: collect_histogram_percentile_def rows_def [symmetric] Let_def)
qed

text \<open>What a variant promises.\<close>

definition variant_ok :: "sample list \<Rightarrow> nat \<times> f64 \<Rightarrow> mask_variant \<Rightarrow> bool" where
  "variant_ok samples = (\<lambda>(i, p) v.
     mv_id v = word_of_nat (i + 1) \<and> mv_label v = LABELS ! i \<and> 0 \<le> mv_masking_percent v \<and> mv_masking_percent v \<le> 100 \<and>
     0 \<le> mc_target_latency_ms (mv_characteristics v) \<and> 0 \<le> mc_latency_jitter_ms (mv_characteristics v) \<and>
     (mc_observed_request_length_bytes (mv_characteristics v) \<noteq> None \<longleftrightarrow> (\<exists>s \<in> set samples. sm_request_length s \<noteq> None)) \<and>
     (mc_observed_response_length_bytes (mv_characteristics v) \<noteq> None \<longleftrightarrow> (\<exists>s \<in> set samples. sm_response_length s \<noteq> None)) \<and>
     (mc_observed_response_ttfb_ms (mv_characteristics v) \<noteq> None \<longleftrightarrow> (\<exists>s \<in> set samples. sm_response_ttfb_ms s \<noteq> None)) \<and>
     (mc_target_request_entropy_bits (mv_characteristics v) \<noteq> None \<longleftrightarrow> (\<exists>s \<in> set samples. sm_request_entropy_bits s \<noteq> None)) \<and>
     (mc_target_response_entropy_bits (mv_characteristics v) \<noteq> None \<longleftrightarrow> (\<exists>s \<in> set samples. sm_response_entropy_bits s \<noteq> None)))"

lemma build_variant_total:
  assumes "exp_ok fexp" "sized samples" "sized durations" "list_all (\<lambda>x. 0 \<le> x) durations" "0 \<le> jitter" "i < 5" "0 \<le> p" "p \<le> 100"
  shows "\<exists>v. build_variant fexp samples durations jitter i p = Some v \<and> variant_ok samples (i, p) v"
proof -
  obtain target where target: "percentile durations p = Some target" "0 \<le> target"
    using percentile_total [OF assms(3,7,8)] assms(4) by auto
  obtain m where m: "masking_percent_for_latency fexp target durations = Some m" "0 \<le> m" "m \<le> 100"
    using masking_percent_total [OF assms(1,3)] by blast
  have label: "slice_get LABELS i = Some (LABELS ! i)" using assms(6) by (simp add: slice_get_def LABELS_def)
  note c = collect_percentile_total [OF assms(2,7,8)]
  obtain ql rql rsl where l: "collect_query_length_percentile samples p = Some ql"
      "collect_length_percentile samples p True = Some rql" "collect_length_percentile samples p False = Some rsl"
      "rql \<noteq> None \<longleftrightarrow> (\<exists>s \<in> set samples. sm_request_length s \<noteq> None)"
      "rsl \<noteq> None \<longleftrightarrow> (\<exists>s \<in> set samples. sm_response_length s \<noteq> None)"
    using collect_lengths_total(1) [OF assms(2,7,8)] collect_lengths_total(2) [OF assms(2,7,8), of True]
      collect_lengths_total(2) [OF assms(2,7,8), of False] unfolding if_True if_False by blast
  obtain ttfb where t: "collect_percentile samples p (\<lambda>s. map_option (\<lambda>x. f64_of_nat (unat x)) (sm_response_ttfb_ms s)) = Some ttfb"
      "ttfb \<noteq> None \<longleftrightarrow> (\<exists>s \<in> set samples. sm_response_ttfb_ms s \<noteq> None)"
    using c [of "\<lambda>s. map_option (\<lambda>x. f64_of_nat (unat x)) (sm_response_ttfb_ms s)"] by auto
  obtain e1 e2 where e: "collect_percentile samples p sm_request_entropy_bits = Some e1"
      "collect_percentile samples p sm_response_entropy_bits = Some e2"
      "e1 \<noteq> None \<longleftrightarrow> (\<exists>s \<in> set samples. sm_request_entropy_bits s \<noteq> None)"
      "e2 \<noteq> None \<longleftrightarrow> (\<exists>s \<in> set samples. sm_response_entropy_bits s \<noteq> None)"
    using c [of sm_request_entropy_bits] c [of sm_response_entropy_bits] by auto
  obtain o1 o2 where o: "collect_percentile samples p sm_request_ones_ratio = Some o1"
      "collect_percentile samples p sm_response_ones_ratio = Some o2"
    using c [of sm_request_ones_ratio] c [of sm_response_ones_ratio] by auto
  obtain h1 h2 where h: "collect_histogram_percentile samples p True = Some h1" "collect_histogram_percentile samples p False = Some h2"
    using collect_histogram_total [OF assms(2,7,8)] by blast
  show ?thesis
    by (simp add: build_variant_def target(1) m(1) label l(1-3) t(1) e(1,2) o h)
      (simp add: variant_ok_def m(2,3) l(4,5) [unfolded not_None_eq] t(2) [unfolded not_None_eq]
        e(3,4) [unfolded not_None_eq] round_tenth_nonneg target(2) assms(5))
qed

lemma durations_nonneg: "list_all (\<lambda>x. 0 \<le> x) (sort (map (\<lambda>s. f64_of_nat (f s)) samples))"
  by (simp add: list_all_iff)

lemma build_variants_complete:
  assumes "exp_ok fexp" "sized samples"
  shows "\<exists>vs. build_variants fexp samples = Some vs \<and>
    list_all2 (variant_ok samples) (List.enumerate 0 LATENCY_PERCENTILES) vs \<and> length vs = 5"
proof -
  let ?d = "sort (map (\<lambda>s. f64_of_nat (unat (sm_duration_ms s))) samples)"
  have d: "sized ?d" using assms(2) by simp
  obtain q1 q3 where q: "percentile ?d 25 = Some q1" "percentile ?d 75 = Some q3"
    using percentile_total [OF d, of 25] percentile_total [OF d, of 75] by auto
  let ?f = "\<lambda>(i, p). build_variant fexp samples ?d (max (f64_mul (f64_sub q3 q1) (1 / 4)) 1) i p"
  have "\<exists>v. ?f e = Some v \<and> variant_ok samples e v" if "e \<in> set (List.enumerate 0 LATENCY_PERCENTILES)" for e
    using that build_variant_total [OF assms d durations_nonneg, of "max (f64_mul (f64_sub q3 q1) (1 / 4)) 1"]
    by (cases e) (auto simp: LATENCY_PERCENTILES_def)
  from those_total [where f = ?f and P = "variant_ok samples" and xs = "List.enumerate 0 LATENCY_PERCENTILES", OF this]
  obtain vs where "those (map ?f (List.enumerate 0 LATENCY_PERCENTILES)) = Some vs"
    "list_all2 (variant_ok samples) (List.enumerate 0 LATENCY_PERCENTILES) vs" by blast
  then show ?thesis
    by (auto simp: build_variants_def q Let_def LATENCY_PERCENTILES_def dest: list_all2_lengthD)
qed

subsection \<open>What the endpoint promises\<close>

text \<open>An entry of the response, for the samples the store holds under its key.\<close>

definition entry_ok :: "train_store \<Rightarrow> mask_route_entry \<Rightarrow> bool" where
  "entry_ok ts e \<longleftrightarrow>
     me_sample_count e = counts_for ts (me_route_key e) \<and> me_ready e = (ts_min_samples ts \<le> me_sample_count e) \<and>
     (me_ready e \<longrightarrow> list_all2 (variant_ok (samples_at (ps_routes (ts_inner ts)) (me_route_key e)))
        (List.enumerate 0 LATENCY_PERCENTILES) (me_variants e))"

definition store_sized :: "train_store \<Rightarrow> bool" where
  "store_sized ts \<longleftrightarrow> list_all (\<lambda>(_, v). sized v) (ps_routes (ts_inner ts))"

lemma counts_for_at: "counts_for ts k = length (samples_at (ps_routes (ts_inner ts)) k)"
  by (simp add: counts_for_def samples_at_def split: option.split)

lemma store_sized_at: "store_sized ts \<Longrightarrow> sized (samples_at (ps_routes (ts_inner ts)) k)"
  by (auto simp: store_sized_def samples_at_def hm_get_def sized_def list_all_iff dest: map_of_SomeD split: option.split)

lemma entry_for_samples_total:
  assumes "exp_ok fexp" "store_sized ts" "samples = samples_at (ps_routes (ts_inner ts)) k"
  shows "\<exists>e. entry_for_samples fexp k samples (ts_min_samples ts) = Some e \<and> me_route_key e = k \<and> entry_ok ts e"
proof -
  have "sized samples" using store_sized_at [OF assms(2)] assms(3) by simp
  with build_variants_complete [OF assms(1)] obtain vs where "build_variants fexp samples = Some vs"
    "list_all2 (variant_ok samples) (List.enumerate 0 LATENCY_PERCENTILES) vs" by blast
  then show ?thesis
    by (auto simp: entry_for_samples_def entry_ok_def counts_for_at assms(3) Let_def)
qed

lemma ready_keys:
  "list_all2 (\<lambda>(k, _) e. me_route_key e = k \<and> entry_ok ts e) rs es \<Longrightarrow>
     map me_route_key (filter me_ready es) = filter (\<lambda>k. ts_min_samples ts \<le> counts_for ts k) (map fst rs) \<and>
     list_all (\<lambda>e. me_ready e \<and> entry_ok ts e) (filter me_ready es)"
  by (induction rule: list_all2_induct) (auto simp: entry_ok_def)

lemma sorted_routes:
  assumes "is_order order" shows "map fst (routes_with_samples order ts) = sort (map fst (ps_routes (ts_inner ts)))"
proof (rule properties_for_sort [symmetric])
  have "mset (order (ps_routes (ts_inner ts))) = mset (ps_routes (ts_inner ts))" using assms by (simp add: is_order_def)
  then show "mset (map fst (routes_with_samples order ts)) = mset (map fst (ps_routes (ts_inner ts)))"
    by (simp add: routes_with_samples_def)
qed (simp add: routes_with_samples_def)

lemma routes_with_samples_at:
  assumes "is_order order" "hm_ok (ps_routes (ts_inner ts))" "(k, v) \<in> set (routes_with_samples order ts)"
  shows "v = samples_at (ps_routes (ts_inner ts)) k"
proof -
  have "(k, v) \<in> set (ps_routes (ts_inner ts))"
    using assms(3) is_orderD(1) [OF assms(1), of "ps_routes (ts_inner ts)"] by (simp add: routes_with_samples_def)
  then show ?thesis using assms(2) by (simp add: samples_at_def hm_get_in [symmetric])
qed

text \<open>
  Asked for the mask profiles of one route or of all, the service answers without a panic: no
  quantile of up to \<open>2^40\<close> samples is out of bounds.  The answer lists exactly the routes that have the
  required number of samples, in the order of their keys, each with its count and five variants with the
  identifiers 1 to 5 and their labels, a masking percentage between 0 and 100, latencies that are not
  negative, and an observed length, first-byte time or entropy exactly when some sample of the route has one.
\<close>
theorem mask_profiles_spec:
  assumes "exp_ok fexp" "is_order order" "hm_ok (ps_routes (ts_inner ts))" "store_sized ts"
    and "keys = (if is_specific_route_key q
       then [route_key (case mq_method q of None \<Rightarrow> [] | Some m \<Rightarrow> trim m) (case mq_path q of None \<Rightarrow> [] | Some p \<Rightarrow> trim p)]
       else sort (map fst (ps_routes (ts_inner ts))))"
  shows "\<exists>resp. mask_profiles fexp order ts q = Some resp \<and> mr_min_samples resp = ts_min_samples ts \<and>
    map me_route_key (mr_routes resp) = filter (\<lambda>k. ts_min_samples ts \<le> counts_for ts k) keys \<and>
    list_all (\<lambda>e. me_ready e \<and> entry_ok ts e) (mr_routes resp)"
proof (cases "is_specific_route_key q")
  case True
  define key where "key = route_key (case mq_method q of None \<Rightarrow> [] | Some m \<Rightarrow> trim m) (case mq_path q of None \<Rightarrow> [] | Some p \<Rightarrow> trim p)"
  have at: "(case samples_for ts key of None \<Rightarrow> [] | Some v \<Rightarrow> v) = samples_at (ps_routes (ts_inner ts)) key"
    by (simp add: samples_for_def samples_at_def)
  from entry_for_samples_total [OF assms(1,4) refl, of key] obtain e where e:
    "entry_for_samples fexp key (samples_at (ps_routes (ts_inner ts)) key) (ts_min_samples ts) = Some e"
    "me_route_key e = key" "entry_ok ts e" by blast
  then have "me_ready e = (ts_min_samples ts \<le> counts_for ts key)" by (simp add: entry_ok_def)
  then show ?thesis
    using e True at assms(5) by (simp add: mask_profiles_def key_def [symmetric] Let_def)
next
  case False
  let ?f = "\<lambda>(key, samples). entry_for_samples fexp key samples (ts_min_samples ts)"
  let ?P = "\<lambda>(k, _) e. me_route_key e = k \<and> entry_ok ts e"
  have "\<exists>e. ?f r = Some e \<and> ?P r e" if "r \<in> set (routes_with_samples order ts)" for r
  proof (cases r)
    case (Pair k v)
    with that have "v = samples_at (ps_routes (ts_inner ts)) k" using routes_with_samples_at [OF assms(2,3)] by blast
    from entry_for_samples_total [OF assms(1,4) this] Pair show ?thesis by simp
  qed
  from those_total [where f = ?f and P = ?P and xs = "routes_with_samples order ts", OF this] obtain es where
    "those (map ?f (routes_with_samples order ts)) = Some es" "list_all2 ?P (routes_with_samples order ts) es" by blast
  then show ?thesis
    using False ready_keys [of ts "routes_with_samples order ts" es] assms(5) sorted_routes [OF assms(2), of ts]
    by (simp add: mask_profiles_def Let_def)
qed

text \<open>One route with two samples where two are enough, and one with a single sample.\<close>

definition demo_taught :: train_store where
  "demo_taught = with_options 2 None Total 2 1
     (PersistedTrainStore_default\<lparr>ps_routes := [(''POST|/b'', [demo_sample 5, demo_sample 9]), (''GET|/a'', [demo_sample 1])]\<rparr>)"

theorem mask_profiles_spec_witness:
  "\<exists>resp. mask_profiles (\<lambda>_. 1) (\<lambda>m. m) demo_taught \<lparr>mq_method = None, mq_path = None, mq_query = None\<rparr> = Some resp \<and>
     mr_min_samples resp = 2 \<and> map me_route_key (mr_routes resp) = [''POST|/b''] \<and>
     list_all (\<lambda>e. me_ready e \<and> entry_ok demo_taught e) (mr_routes resp)"
proof -
  let ?q = "\<lparr>mq_method = None, mq_path = None, mq_query = None\<rparr>"
  have exp: "exp_ok (\<lambda>_. 1)" by (simp add: exp_ok_def)
  have ok: "hm_ok (ps_routes (ts_inner demo_taught))" "store_sized demo_taught"
    by (simp_all add: demo_taught_def with_options_def hm_ok_def store_sized_def sized_def)
  have "filter (\<lambda>k. ts_min_samples demo_taught \<le> counts_for demo_taught k)
      (if is_specific_route_key ?q
       then [route_key (case mq_method ?q of None \<Rightarrow> [] | Some m \<Rightarrow> trim m) (case mq_path ?q of None \<Rightarrow> [] | Some p \<Rightarrow> trim p)]
       else sort (map fst (ps_routes (ts_inner demo_taught)))) = [''POST|/b'']"
    by (simp add: is_specific_route_key_def trimmed_nonempty_def demo_taught_def with_options_def counts_for_def hm_get_def)
  then show ?thesis
    using mask_profiles_spec [OF exp is_order_id(1) ok refl, of ?q] by (simp add: demo_taught_def with_options_def)
qed

end
