(* ===== verification/Signature_Synth.thy ===== *)
theory Signature_Synth
  imports Mask_Profiles Utf8
begin

unbundle bit_operations_syntax

section \<open>Synthesised signatures\<close>

text \<open>
  \<^verbatim>\<open>zona/src/signature_synth.rs\<close>: for every variant of a route the service makes up a query, a request
  body and a response whose lengths, byte histogram and share of one bits follow the profile.  The
  thread's random generator is the \<^verbatim>\<open>rand\<close> crate's: a parameter with its state, of which \<open>rng_ok\<close> says
  that it stays in the range asked for.  A panic is \<open>None\<close>: \<^verbatim>\<open>Vec::with_capacity\<close> panics above
  \<^verbatim>\<open>isize::MAX\<close> bytes.  Running out of memory below that is not modelled.
\<close>

record 'r thread_rng =
  rng_unit :: "'r \<Rightarrow> f64 \<times> 'r"
  rng_byte :: "u8 \<Rightarrow> u8 \<Rightarrow> 'r \<Rightarrow> u8 \<times> 'r"
  rng_index :: "nat \<Rightarrow> 'r \<Rightarrow> nat \<times> 'r"
  rng_bit :: "'r \<Rightarrow> nat \<times> 'r"

definition rng_ok :: "'r thread_rng \<Rightarrow> bool" where
  "rng_ok R \<longleftrightarrow>
     (\<forall>g. 0 \<le> fst (rng_unit R g) \<and> fst (rng_unit R g) < 1 \<and> fst (rng_bit R g) < 8 \<and>
       (\<forall>lo hi. lo \<le> hi \<longrightarrow> lo \<le> fst (rng_byte R lo hi g) \<and> fst (rng_byte R lo hi g) \<le> hi) \<and>
       (\<forall>n. 0 < n \<longrightarrow> fst (rng_index R n g) < n))"

definition RESPONSE_END_MARKER :: bytes where
  "RESPONSE_END_MARKER = string_bytes ''Hello World!#''"

definition QUERY_ALPHABET :: bytes where
  "QUERY_ALPHABET = string_bytes ''abcdefghijklmnopqrstuvwxyzABCDEFGHIJKLMNOPQRSTUVWXYZ0123456789=&%._-''"

record signature_variant_dto =
  sv_variant_id :: u8
  sv_label :: string
  sv_request_query_signature :: string
  sv_request_body_signature :: string
  sv_request_signature :: string
  sv_response_signature :: string
  sv_request_query_length_bytes :: nat
  sv_request_body_length_bytes :: nat
  sv_request_length_bytes :: nat
  sv_response_length_bytes :: nat

record signature_route_entry =
  se_route_key :: string
  se_sample_count :: nat
  se_ready :: bool
  se_variants :: "signature_variant_dto list"

record signature_samples_response =
  ss_min_samples :: nat
  ss_routes :: "signature_route_entry list"

subsection \<open>The share of one bits\<close>

definition count_ones :: "u8 \<Rightarrow> nat" where
  "count_ones b = count_if (bit b) [0 ..< 8]"

definition count_one_bits :: "bytes \<Rightarrow> nat" where
  "count_one_bits data = sum_list (map count_ones data)"

text \<open>The loop, with the number of rounds the guard still allows; \<open>diff\<close> is the distance still to go.\<close>

fun adjust_loop :: "'r thread_rng \<Rightarrow> nat \<Rightarrow> int \<Rightarrow> bytes \<Rightarrow> 'r \<Rightarrow> bytes \<times> 'r" where
  "adjust_loop R 0 diff buf g = (buf, g)"
| "adjust_loop R (Suc k) diff buf g =
     (if diff = 0 then (buf, g)
      else
        let (i, g) = rng_index R (length buf) g;
            (b, g) = rng_bit R g;
            mask = push_bit b 1;
            is_one = buf ! i AND mask \<noteq> 0
        in if 0 < diff \<and> \<not> is_one then adjust_loop R k (diff - 1) (buf[i := buf ! i OR mask]) g
           else if diff < 0 \<and> is_one then adjust_loop R k (diff + 1) (buf[i := buf ! i AND NOT mask]) g
           else adjust_loop R k diff buf g)"

definition wanted_ones :: "f64 \<Rightarrow> nat \<Rightarrow> int" where
  "wanted_ones target_ratio total_bits = \<lfloor>round_half_away (f64_mul target_ratio (f64_of_nat total_bits))\<rfloor>"

definition adjust_ones_ratio :: "'r thread_rng \<Rightarrow> bytes \<Rightarrow> f64 \<Rightarrow> 'r \<Rightarrow> bytes \<times> 'r" where
  "adjust_ones_ratio R buf target_ratio g =
     (let total_bits = length buf * 8
      in if total_bits = 0 then (buf, g)
         else
           let want = wanted_ones target_ratio total_bits;
               have_ones = int (count_one_bits buf)
           in adjust_loop R (total_bits * 4) (want - have_ones) buf g)"

subsection \<open>Bytes after a histogram\<close>

definition uniform_histogram :: "f64 list" where
  "uniform_histogram = replicate 16 (1 / 16)"

definition normalized_histogram :: "f64 list option \<Rightarrow> f64 list" where
  "normalized_histogram hist_opt =
     (case hist_opt of
        Some h \<Rightarrow>
          if length h = 16 then
            let s = fold (\<lambda>x acc. f64_add acc x) h 0
            in if f64_round (1 / 10 ^ 12) < s then map (\<lambda>x. f64_div x s) h else uniform_histogram
          else uniform_histogram
      | None \<Rightarrow> uniform_histogram)"

fun pick_bin :: "f64 \<Rightarrow> f64 \<Rightarrow> nat \<Rightarrow> f64 list \<Rightarrow> nat" where
  "pick_bin r acc i [] = 15"
| "pick_bin r acc i (h # hist) =
     (let acc = f64_add acc h in if r < acc \<or> i = 15 then i else pick_bin r acc (Suc i) hist)"

definition saturating_add8 :: "u8 \<Rightarrow> u8 \<Rightarrow> u8" where
  "saturating_add8 a b = (if unat a + unat b < 256 then a + b else 255)"

definition draw_byte :: "'r thread_rng \<Rightarrow> f64 list \<Rightarrow> 'r \<Rightarrow> u8 \<times> 'r" where
  "draw_byte R hist g =
     (let (r, g) = rng_unit R g;
          bin = pick_bin r 0 0 hist;
          lo = word_of_nat (bin * 16)
      in rng_byte R lo (saturating_add8 lo 15) g)"

fun draw_bytes :: "'r thread_rng \<Rightarrow> f64 list \<Rightarrow> nat \<Rightarrow> 'r \<Rightarrow> bytes \<times> 'r" where
  "draw_bytes R hist 0 g = ([], g)"
| "draw_bytes R hist (Suc n) g =
     (let (b, g) = draw_byte R hist g; (bs, g) = draw_bytes R hist n g in (b # bs, g))"

definition isize_max :: nat where
  "isize_max = 2 ^ 63 - 1"

definition synth_stream :: "'r thread_rng \<Rightarrow> nat \<Rightarrow> mask_characteristics \<Rightarrow> bool \<Rightarrow> 'r \<Rightarrow> (bytes \<times> 'r) option" where
  "synth_stream R n c use_response_stats g =
     (if n = 0 then Some ([], g)
      else
        let (ones_ratio, hist_opt) =
              (if use_response_stats then (mc_target_response_ones_ratio c, mc_target_response_byte_histogram16 c)
               else (mc_target_request_ones_ratio c, mc_target_request_byte_histogram16 c))
        in if isize_max < n then None
           else
             let (out, g) = draw_bytes R (normalized_histogram hist_opt) n g
             in Some (case ones_ratio of
                        Some ratio \<Rightarrow> if 0 \<le> ratio \<and> ratio \<le> 1 then adjust_ones_ratio R out ratio g else (out, g)
                      | None \<Rightarrow> (out, g)))"

subsection \<open>Texts\<close>

definition query_char :: "u8 \<Rightarrow> u8" where
  "query_char b = QUERY_ALPHABET ! (unat b mod length QUERY_ALPHABET)"

definition synth_query_text :: "'r thread_rng \<Rightarrow> nat \<Rightarrow> mask_characteristics \<Rightarrow> 'r \<Rightarrow> (string \<times> 'r) option" where
  "synth_query_text R n c g =
     (if n = 0 then Some ([], g)
      else map_option (\<lambda>(raw, g). (bytes_string (map query_char raw), g)) (synth_stream R n c False g))"

definition synth_body_text :: "'r thread_rng \<Rightarrow> nat \<Rightarrow> mask_characteristics \<Rightarrow> 'r \<Rightarrow> (string \<times> 'r) option" where
  "synth_body_text R n c g = map_option (\<lambda>(raw, g). (from_utf8_lossy raw, g)) (synth_stream R n c False g)"

definition synth_response :: "'r thread_rng \<Rightarrow> nat \<Rightarrow> mask_characteristics \<Rightarrow> 'r \<Rightarrow> (bytes \<times> 'r) option" where
  "synth_response R n c g =
     (if n = 0 then Some ([], g)
      else
        let tail_len = length RESPONSE_END_MARKER
        in if n < tail_len then synth_stream R n c True g
           else map_option (\<lambda>(out, g). (out @ RESPONSE_END_MARKER, g)) (synth_stream R (n - tail_len) c True g))"

definition synth_response_text :: "'r thread_rng \<Rightarrow> nat \<Rightarrow> mask_characteristics \<Rightarrow> 'r \<Rightarrow> (string \<times> 'r) option" where
  "synth_response_text R n c g = map_option (\<lambda>(raw, g). (from_utf8_lossy raw, g)) (synth_response R n c g)"

definition build_request_example :: "string \<Rightarrow> string \<Rightarrow> string" where
  "build_request_example query body =
     (if query = [] \<and> body = [] then []
      else if query \<noteq> [] \<and> body = [] then CHR ''?'' # query
      else if query = [] \<and> body \<noteq> [] then body
      else CHR ''?'' # query @ char_of (10 :: nat) # body)"

subsection \<open>The endpoint\<close>

definition saturating_add64 :: "nat \<Rightarrow> nat \<Rightarrow> nat" where
  "saturating_add64 a b = min (a + b) (2 ^ 64 - 1)"

definition variant_to_dto :: "'r thread_rng \<Rightarrow> mask_variant \<Rightarrow> 'r \<Rightarrow> (signature_variant_dto \<times> 'r) option" where
  "variant_to_dto R v g =
     (let c = mv_characteristics v;
          query_len = (case mc_observed_query_length_bytes c of None \<Rightarrow> 0 | Some n \<Rightarrow> n);
          body_len = (case mc_observed_request_length_bytes c of None \<Rightarrow> 0 | Some n \<Rightarrow> n);
          res_len = (case mc_observed_response_length_bytes c of None \<Rightarrow> 0 | Some n \<Rightarrow> n)
      in do {
           (query, g) \<leftarrow> synth_query_text R query_len c g;
           (body, g) \<leftarrow> synth_body_text R body_len c g;
           let request = build_request_example query body;
           (response, g) \<leftarrow> synth_response_text R res_len c g;
           Some (\<lparr>sv_variant_id = mv_id v, sv_label = mv_label v, sv_request_query_signature = query,
                  sv_request_body_signature = body, sv_request_signature = request, sv_response_signature = response,
                  sv_request_query_length_bytes = query_len, sv_request_body_length_bytes = body_len,
                  sv_request_length_bytes = saturating_add64 query_len body_len, sv_response_length_bytes = res_len\<rparr>, g)
         })"

text \<open>The generator runs through a list of computations.\<close>

fun thread_map :: "('x \<Rightarrow> 'r \<Rightarrow> ('y \<times> 'r) option) \<Rightarrow> 'x list \<Rightarrow> 'r \<Rightarrow> ('y list \<times> 'r) option" where
  "thread_map f [] g = Some ([], g)"
| "thread_map f (x # xs) g = do { (y, g) \<leftarrow> f x g; (ys, g) \<leftarrow> thread_map f xs g; Some (y # ys, g) }"

definition entry_for_route ::
  "(f64 \<Rightarrow> f64) \<Rightarrow> 'r thread_rng \<Rightarrow> nat \<Rightarrow> string \<times> sample list \<Rightarrow> 'r \<Rightarrow> (signature_route_entry option \<times> 'r) option" where
  "entry_for_route fexp R min_samples = (\<lambda>(key, samples) g.
     let sample_count = length samples
     in if sample_count < min_samples then Some (None, g)
        else do {
          vs \<leftarrow> build_variants fexp samples;
          (variants, g) \<leftarrow> thread_map (variant_to_dto R) vs g;
          Some (Some \<lparr>se_route_key = key, se_sample_count = sample_count, se_ready = True, se_variants = variants\<rparr>, g)
        })"

definition signature_samples ::
  "(f64 \<Rightarrow> f64) \<Rightarrow> 'r thread_rng \<Rightarrow> route_order \<Rightarrow> train_store \<Rightarrow> mask_profiles_query \<Rightarrow> 'r \<Rightarrow>
     (signature_samples_response \<times> 'r) option" where
  "signature_samples fexp R order ts q g =
     (let min_samples = ts_min_samples ts;
          routes =
            (if is_specific_route_key q then
               let m = (case mq_method q of None \<Rightarrow> [] | Some s \<Rightarrow> trim s);
                   p = (case mq_path q of None \<Rightarrow> [] | Some s \<Rightarrow> trim s);
                   key = route_key m p;
                   samples = (case samples_for ts key of None \<Rightarrow> [] | Some v \<Rightarrow> v)
               in [(key, samples)]
             else routes_with_samples order ts)
      in map_option (\<lambda>(entries, g). (\<lparr>ss_min_samples = min_samples, ss_routes = List.map_filter (\<lambda>e. e) entries\<rparr>, g))
           (thread_map (entry_for_route fexp R min_samples) routes g))"

subsection \<open>The adjustment approaches the wanted share\<close>

text \<open>The places of the one bits, and the places the generator draws.\<close>

definition ones :: "bytes \<Rightarrow> (nat \<times> nat) set" where
  "ones buf = {(i, b). i < length buf \<and> b < 8 \<and> bit (buf ! i) b}"

fun positions :: "'r thread_rng \<Rightarrow> nat \<Rightarrow> nat \<Rightarrow> 'r \<Rightarrow> (nat \<times> nat) list" where
  "positions R n 0 g = []"
| "positions R n (Suc k) g =
     (let (i, g) = rng_index R n g; (b, g) = rng_bit R g in (i, b) # positions R n k g)"

lemma ones_subset: "ones buf \<subseteq> {..< length buf} \<times> {..< 8}"
  by (auto simp: ones_def)

lemma finite_ones [simp]: "finite (ones buf)"
  by (rule finite_subset [OF ones_subset]) simp

lemma card_ones_le: "card (ones buf) \<le> length buf * 8"
  using card_mono [OF _ ones_subset, of buf] by simp

lemma count_one_bits_card: "count_one_bits buf = card (ones buf)"
proof -
  have byte: "count_ones x = card {b. b < 8 \<and> bit x b}" for x :: u8
  proof -
    have "set (filter (bit x) [0 ..< 8]) = {b. b < 8 \<and> bit x b}" by auto
    then show ?thesis
      using distinct_card [of "filter (bit x) [0 ..< 8]"] by (simp add: count_ones_def count_if_def del: set_filter)
  qed
  have "ones buf = (SIGMA i : {..< length buf}. {b. b < 8 \<and> bit (buf ! i) b})" by (auto simp: ones_def)
  then have "card (ones buf) = (\<Sum>i < length buf. count_ones (buf ! i))" by (simp add: byte)
  then show ?thesis by (simp add: count_one_bits_def sum_list_sum_nth atLeast0LessThan)
qed

lemma ones_set:
  assumes "i < length buf" "b < 8"
  shows "ones (buf[i := buf ! i OR push_bit b 1]) = insert (i, b) (ones buf)"
    "ones (buf[i := buf ! i AND NOT (push_bit b 1)]) = ones buf - {(i, b)}"
    "buf ! i AND push_bit b 1 \<noteq> 0 \<longleftrightarrow> (i, b) \<in> ones buf"
proof -
  have at: "bit (push_bit b 1 :: u8) j \<longleftrightarrow> j = b" if "j < 8" for j
    using that by (auto simp: bit_simps)
  show "ones (buf[i := buf ! i OR push_bit b 1]) = insert (i, b) (ones buf)"
    "ones (buf[i := buf ! i AND NOT (push_bit b 1)]) = ones buf - {(i, b)}"
    using assms at by (auto simp: ones_def nth_list_update bit_or_iff bit_and_iff bit_not_iff split: if_splits)
  show "buf ! i AND push_bit b 1 \<noteq> 0 \<longleftrightarrow> (i, b) \<in> ones buf"
    using assms bit_iff_and_push_bit_not_eq_0 [of "buf ! i" b] by (simp add: ones_def)
qed

lemma adjust_loop_up:
  assumes "rng_ok R" "buf \<noteq> []" "0 \<le> diff" "adjust_loop R k diff buf g = (buf', g')"
  shows "length buf' = length buf \<and> ones buf \<subseteq> ones buf' \<and> int (card (ones buf')) \<le> int (card (ones buf)) + diff \<and>
    (int (card (ones buf')) = int (card (ones buf)) + diff \<or> set (positions R (length buf) k g) \<subseteq> ones buf')"
  using assms(2-)
proof (induction k arbitrary: diff buf g)
  case (Suc k)
  obtain i b g1 g2 where d: "rng_index R (length buf) g = (i, g1)" "rng_bit R g1 = (b, g2)" by fastforce
  then have ib: "i < length buf" "b < 8"
    using assms(1) Suc.prems(1) by (metis rng_ok_def fst_conv length_greater_0_conv, metis rng_ok_def fst_conv)
  note set = ones_set [OF ib]
  show ?case
  proof (cases "diff = 0")
    case False
    then have pos: "0 < diff" using Suc.prems(2) by simp
    show ?thesis
    proof (cases "(i, b) \<in> ones buf")
      case True
      then show ?thesis using Suc.IH [of buf diff g2] Suc.prems pos d set(3) by (auto simp: Let_def)
    next
      case False
      let ?buf = "buf[i := buf ! i OR push_bit b 1]"
      have step: "adjust_loop R k (diff - 1) ?buf g2 = (buf', g')"
        using Suc.prems(3) pos d set(3) False by (simp add: Let_def)
      have "card (ones ?buf) = Suc (card (ones buf))" unfolding set(1) using False by simp
      then show ?thesis
        using Suc.IH [OF _ _ step] Suc.prems(1) pos d set(1) by (auto simp: Let_def)
    qed
  qed (use Suc.prems in auto)
qed auto

lemma adjust_loop_down:
  assumes "rng_ok R" "buf \<noteq> []" "diff \<le> 0" "adjust_loop R k diff buf g = (buf', g')"
  shows "length buf' = length buf \<and> ones buf' \<subseteq> ones buf \<and> int (card (ones buf)) + diff \<le> int (card (ones buf')) \<and>
    (int (card (ones buf')) = int (card (ones buf)) + diff \<or> set (positions R (length buf) k g) \<inter> ones buf' = {})"
  using assms(2-)
proof (induction k arbitrary: diff buf g)
  case (Suc k)
  obtain i b g1 g2 where d: "rng_index R (length buf) g = (i, g1)" "rng_bit R g1 = (b, g2)" by fastforce
  then have ib: "i < length buf" "b < 8"
    using assms(1) Suc.prems(1) by (metis rng_ok_def fst_conv length_greater_0_conv, metis rng_ok_def fst_conv)
  note set = ones_set [OF ib]
  show ?case
  proof (cases "diff = 0")
    case False
    then have neg: "diff < 0" using Suc.prems(2) by simp
    show ?thesis
    proof (cases "(i, b) \<in> ones buf")
      case False
      then show ?thesis using Suc.IH [of buf diff g2] Suc.prems neg d set(3) by (auto simp: Let_def)
    next
      case True
      let ?buf = "buf[i := buf ! i AND NOT (push_bit b 1)]"
      have step: "adjust_loop R k (diff + 1) ?buf g2 = (buf', g')"
        using Suc.prems(3) neg d set(3) True by (simp add: Let_def)
      have "Suc (card (ones ?buf)) = card (ones buf)" unfolding set(2) by (rule card.remove [OF finite_ones True, symmetric])
      then show ?thesis
        using Suc.IH [OF _ _ step] Suc.prems(1) neg d set(2) by (auto simp: Let_def)
    qed
  qed (use Suc.prems in auto)
qed auto

lemma positions_subset:
  "rng_ok R \<Longrightarrow> 0 < n \<Longrightarrow> set (positions R n k g) \<subseteq> {..< n} \<times> {..< 8}"
proof (induction k arbitrary: g)
  case (Suc k)
  obtain i b g1 g2 where d: "rng_index R n g = (i, g1)" "rng_bit R g1 = (b, g2)" by fastforce
  then have "i < n" "b < 8" using Suc.prems by (metis rng_ok_def fst_conv, metis rng_ok_def fst_conv)
  then show ?case using Suc d by simp
qed simp

lemma wanted_ones_range:
  assumes "0 \<le> ratio" "ratio \<le> 1" "n < 2 ^ 53"
  shows "0 \<le> wanted_ones ratio n" "wanted_ones ratio n \<le> int n"
proof -
  have len: "f64_of_nat n = of_nat n" by (simp add: f64_of_nat_def f64_round_nat [OF assms(3)])
  have r: "0 \<le> ratio * of_nat n" "ratio * of_nat n \<le> of_nat n"
    using assms(1,2) mult_right_mono [of ratio 1 "of_nat n"] by simp_all
  have m: "0 \<le> f64_mul ratio (f64_of_nat n)" "f64_mul ratio (f64_of_nat n) \<le> of_nat n"
    unfolding f64_mul_def len using f64_round_nonneg [OF r(1)] f64_round_le_nat [OF r assms(3)] by simp_all
  from round_half_away_nonneg [OF m(1)] show "0 \<le> wanted_ones ratio n" by (simp add: wanted_ones_def)
  from round_half_away_le [OF m] show "wanted_ones ratio n \<le> int n"
    by (simp add: wanted_ones_def floor_le_iff)
qed

text \<open>
  C38: adjusting the share of one bits keeps the length and only moves towards the wanted number of ones:
  bits are only set when ones are missing and only cleared when there are too many, the
  number never passes the wanted one, and what is still missing at the end is at most the number of bit
  positions that the generator never drew within the guard of four times the number of bits.
\<close>
theorem adjust_ones_ratio_spec:
  assumes "rng_ok R" "0 \<le> ratio" "ratio \<le> 1" "sized buf" "adjust_ones_ratio R buf ratio g = (buf', g')"
    and "want = wanted_ones ratio (length buf * 8)"
  shows "length buf' = length buf \<and>
    (int (count_one_bits buf) \<le> want \<longrightarrow> ones buf \<subseteq> ones buf' \<and> int (count_one_bits buf') \<le> want) \<and>
    (want \<le> int (count_one_bits buf) \<longrightarrow> ones buf' \<subseteq> ones buf \<and> want \<le> int (count_one_bits buf')) \<and>
    \<bar>want - int (count_one_bits buf')\<bar> \<le>
      int (length buf * 8) - int (card (set (positions R (length buf) (length buf * 8 * 4) g)))"
proof (cases "buf = []")
  case True
  then show ?thesis using assms by (simp add: adjust_ones_ratio_def wanted_ones_def f64_of_nat_def f64_mul_def
      round_half_away_def count_one_bits_def ones_def)
next
  case False
  let ?P = "set (positions R (length buf) (length buf * 8 * 4) g)"
  have n: "length buf * 8 < 2 ^ 53" using assms(4) by (simp add: sized_def)
  note want = wanted_ones_range [OF assms(2,3) n, folded assms(6)]
  have loop: "adjust_loop R (length buf * 8 * 4) (want - int (count_one_bits buf)) buf g = (buf', g')"
    using assms(5,6) False by (simp add: adjust_ones_ratio_def Let_def)
  have P: "?P \<subseteq> {..< length buf} \<times> {..< 8}" using positions_subset [OF assms(1)] False by simp
  have cardP: "card ?P \<le> length buf * 8" using card_mono [OF _ P] by simp
  show ?thesis
  proof (cases "int (count_one_bits buf) \<le> want")
    case True
    note up = adjust_loop_up [OF assms(1) False _ loop, unfolded count_one_bits_card]
    have "card ?P \<le> card (ones buf')" if "?P \<subseteq> ones buf'" using that by (simp add: card_mono)
    moreover have "ones buf' = ones buf" if "card (ones buf') = card (ones buf)" "ones buf \<subseteq> ones buf'"
      using that card_subset_eq [of "ones buf'" "ones buf"] by simp
    moreover have "card (ones buf) \<le> card (ones buf')" if "ones buf \<subseteq> ones buf'" using that by (simp add: card_mono)
    ultimately show ?thesis using up True want cardP by (auto simp: count_one_bits_card)
  next
    case gt: False
    note down = adjust_loop_down [OF assms(1) False _ loop, unfolded count_one_bits_card]
    have "card ?P + card (ones buf') \<le> length buf * 8" if "?P \<inter> ones buf' = {}" "length buf' = length buf"
    proof -
      have "card (?P \<union> ones buf') \<le> card ({..< length buf} \<times> {..< 8 :: nat})"
        using P ones_subset [of buf'] that(2) by (intro card_mono) auto
      then show ?thesis using that by (simp add: card_Un_disjoint)
    qed
    then show ?thesis using down gt want cardP by (auto simp: count_one_bits_card)
  qed
qed

text \<open>A generator that counts, and draws every bit of the buffer in turn.\<close>

definition demo_thread_rng :: "nat thread_rng" where
  "demo_thread_rng =
     \<lparr>rng_unit = (\<lambda>g. (0, g)), rng_byte = (\<lambda>lo hi g. (lo, g)),
      rng_index = (\<lambda>n g. (if n = 0 then 0 else g div 8 mod n, g)), rng_bit = (\<lambda>g. (g mod 8, Suc g))\<rparr>"

lemma demo_thread_rng_ok: "rng_ok demo_thread_rng"
  by (simp add: rng_ok_def demo_thread_rng_def)

lemma demo_positions: "positions demo_thread_rng 1 k g = map (\<lambda>j. (0, j mod 8)) [g ..< g + k]"
proof (induction k arbitrary: g)
  case (Suc k)
  have "[g ..< g + Suc k] = g # [Suc g ..< Suc g + k]" by (simp add: upt_conv_Cons)
  then show ?case using Suc [of "Suc g"] by (simp add: demo_thread_rng_def)
qed simp

theorem adjust_ones_ratio_spec_witness:
  "\<exists>buf' g'. adjust_ones_ratio demo_thread_rng [0] (1 / 2) 0 = (buf', g') \<and> length buf' = 1 \<and> count_one_bits buf' = 4"
proof -
  obtain buf' g' where r: "adjust_ones_ratio demo_thread_rng [0] (1 / 2) 0 = (buf', g')" by fastforce
  have want: "wanted_ones (1 / 2) (length [0 :: u8] * 8) = 4"
    using f64_round_nat [of 4] f64_round_nat [of 8]
    by (simp add: wanted_ones_def f64_mul_def f64_of_nat_def round_half_away_def floor_eq_iff)
  have zero: "count_one_bits [0] = 0" by (simp add: count_one_bits_def count_ones_def count_if_def)
  have "{0} \<times> {..< 8} \<subseteq> set (positions demo_thread_rng 1 32 0)"
  proof
    fix x :: "nat \<times> nat" assume "x \<in> {0} \<times> {..< 8}"
    then have "x = (0, snd x mod 8)" "snd x \<in> set [0 ..< 0 + 32]" by auto
    then show "x \<in> set (positions demo_thread_rng 1 32 0)" unfolding demo_positions set_map by (rule image_eqI)
  qed
  then have "card ({0 :: nat} \<times> {..< 8 :: nat}) \<le> card (set (positions demo_thread_rng 1 32 0))"
    by (intro card_mono) simp_all
  then show ?thesis
    using adjust_ones_ratio_spec [OF demo_thread_rng_ok _ _ _ r want [symmetric]] zero r by (simp add: sized_def abs_le_iff)
qed

subsection \<open>Lengths\<close>

lemma adjust_loop_length: "length (fst (adjust_loop R k diff buf g)) = length buf"
proof (induction k arbitrary: diff buf g)
  case (Suc k)
  then show ?case by (simp add: Let_def case_prod_beta)
qed simp

lemma adjust_ones_ratio_length: "length (fst (adjust_ones_ratio R buf ratio g)) = length buf"
  by (simp add: adjust_ones_ratio_def adjust_loop_length Let_def)

lemma draw_bytes_length: "length (fst (draw_bytes R hist n g)) = n"
proof (induction n arbitrary: g)
  case (Suc n)
  obtain b g1 bs g2 where "draw_byte R hist g = (b, g1)" "draw_bytes R hist n g1 = (bs, g2)" by fastforce
  with Suc [of g1] show ?case by simp
qed simp

lemma synth_stream_total:
  assumes "n \<le> isize_max" shows "\<exists>out g'. synth_stream R n c resp g = Some (out, g') \<and> length out = n"
proof (cases "n = 0")
  case False
  obtain out g1 where d: "draw_bytes R (normalized_histogram (if resp then mc_target_response_byte_histogram16 c
      else mc_target_request_byte_histogram16 c)) n g = (out, g1)" by fastforce
  then have len: "length out = n" using draw_bytes_length by (metis fst_conv)
  then have "length (fst (adjust_ones_ratio R out ratio g1)) = n" for ratio by (simp add: adjust_ones_ratio_length)
  then have "\<exists>out' g'. adjust_ones_ratio R out ratio g1 = (out', g') \<and> length out' = n" for ratio
    by (metis prod.collapse)
  then show ?thesis using False assms d len by (auto simp: synth_stream_def split: option.splits)
qed (simp add: synth_stream_def)

lemma query_char_in: "query_char b \<in> set QUERY_ALPHABET"
  unfolding query_char_def by (rule nth_mem, rule mod_less_divisor) (simp add: QUERY_ALPHABET_def string_bytes_def)

lemma synth_query_text_total:
  assumes "n \<le> isize_max"
  shows "\<exists>s g'. synth_query_text R n c g = Some (s, g') \<and> length s = n \<and> set s \<subseteq> set (bytes_string QUERY_ALPHABET)"
proof -
  from synth_stream_total [OF assms, of R c False g] obtain out g' where o: "synth_stream R n c False g = Some (out, g')" "length out = n"
    by blast
  then show ?thesis
    using query_char_in by (cases "n = 0") (auto simp: synth_query_text_def bytes_string_def)
qed

subsection \<open>The marker survives the decoding\<close>

lemma next_is_ascii:
  assumes "\<And>b. p b \<Longrightarrow> 0x80 \<le> b" "list_all (\<lambda>b. b < 0x80) ys"
  shows "next_is p (drop k (xs @ ys)) = next_is p (drop k xs)"
proof (cases "k < length xs")
  case False
  have "\<not> next_is p (drop (k - length xs) ys)"
  proof
    assume "next_is p (drop (k - length xs) ys)"
    then obtain y zs where "drop (k - length xs) ys = y # zs" "p y" by (auto simp: next_is_def split: list.splits)
    then have "y \<in> set ys" "0x80 \<le> y" using assms(1) in_set_dropD [of y "k - length xs" ys] by auto
    then show False using assms(2) by (auto simp: list_all_iff not_less [symmetric])
  qed
  then show ?thesis using False by (simp add: next_is_def)
qed (auto simp: next_is_def split: list.splits)

lemma utf8_step_ascii:
  assumes "list_all (\<lambda>b. b < 0x80) ys"
  shows "utf8_step b (xs @ ys) = utf8_step b xs" "snd (utf8_step b xs) \<le> length xs"
proof -
  have p: "byte_in 0x80 0xBF x \<Longrightarrow> 0x80 \<le> x" "second3 b x \<Longrightarrow> 0x80 \<le> x" "second4 b x \<Longrightarrow> 0x80 \<le> x" for x
    by (auto simp: byte_in_def second3_def second4_def word_le_nat_alt split: if_splits)
  have na: "next_is (byte_in 0x80 0xBF) (drop k (xs @ ys)) = next_is (byte_in 0x80 0xBF) (drop k xs)" for k
    by (rule next_is_ascii [OF _ assms]) (rule p(1))
  have nb: "next_is (second3 b) (drop k (xs @ ys)) = next_is (second3 b) (drop k xs)" for k
    by (rule next_is_ascii [OF _ assms]) (rule p(2))
  have nc: "next_is (second4 b) (drop k (xs @ ys)) = next_is (second4 b) (drop k xs)" for k
    by (rule next_is_ascii [OF _ assms]) (rule p(3))
  show "utf8_step b (xs @ ys) = utf8_step b xs"
    unfolding utf8_step_def na [of 1] na [of 2] na [of 0, unfolded drop_0] nb [of 0, unfolded drop_0] nc [of 0, unfolded drop_0] ..
  show "snd (utf8_step b xs) \<le> length xs"
    using next_is_length [of _ 0 xs] next_is_length [of _ 1 xs] next_is_length [of _ 2 xs]
    by (auto simp: utf8_step_def Suc_le_eq numeral_2_eq_2 numeral_3_eq_3)
qed

lemma utf8_lossy_ascii:
  "list_all (\<lambda>b. b < 0x80) ys \<Longrightarrow> utf8_lossy (xs @ ys) = utf8_lossy xs @ ys"
proof (induction xs rule: utf8_lossy.induct)
  case 1
  then show ?case using utf8_lossy_fixed ascii_valid by simp
next
  case (2 b bs)
  obtain ok n where s: "utf8_step b bs = (ok, n)" by fastforce
  from utf8_step_ascii [OF "2.prems", of b bs] s have "utf8_step b (bs @ ys) = (ok, n)" "n \<le> length bs" by simp_all
  with s "2.IH" [OF s [symmetric] refl] "2.prems" show ?case by (simp add: utf8_lossy.simps(2))
qed

lemma marker_ascii: "list_all (\<lambda>b. b < 0x80) RESPONSE_END_MARKER"
  by (simp add: RESPONSE_END_MARKER_def string_bytes_def)

lemma synth_response_text_total:
  assumes "n \<le> isize_max"
  shows "\<exists>s g'. synth_response_text R n c g = Some (s, g') \<and> (13 \<le> n \<longrightarrow> suffix ''Hello World!#'' s)"
proof -
  have marker: "bytes_string RESPONSE_END_MARKER = ''Hello World!#''" "length RESPONSE_END_MARKER = 13"
    by (simp_all add: RESPONSE_END_MARKER_def) (simp add: string_bytes_def)
  show ?thesis
  proof (cases "13 \<le> n")
    case True
    have "n - 13 \<le> isize_max" using assms by simp
    from synth_stream_total [OF this, of R c True g] obtain out g' where
      "synth_stream R (n - 13) c True g = Some (out, g')" by blast
    then have "synth_response_text R n c g = Some (bytes_string (utf8_lossy out) @ ''Hello World!#'', g')"
      using True marker utf8_lossy_ascii [OF marker_ascii]
      by (simp add: synth_response_text_def synth_response_def from_utf8_lossy_def bytes_string_def Let_def)
    then show ?thesis by (auto simp: suffix_def)
  next
    case False
    from synth_stream_total [OF assms, of R c True g] False show ?thesis
      using marker(2) by (cases "n = 0") (auto simp: synth_response_text_def synth_response_def Let_def)
  qed
qed

subsection \<open>The observed lengths are those of real messages\<close>

text \<open>A sample whose query and bodies are below a terabyte.\<close>

definition sample_small :: "sample \<Rightarrow> bool" where
  "sample_small s \<longleftrightarrow>
     (\<forall>n \<in> set_option (sm_request_length s). unat n \<le> 2 ^ 40) \<and> (\<forall>n \<in> set_option (sm_response_length s). unat n \<le> 2 ^ 40) \<and>
     (\<forall>q \<in> set_option (sm_query s). length q \<le> 2 ^ 40)"

definition lengths_small :: "mask_characteristics \<Rightarrow> bool" where
  "lengths_small c \<longleftrightarrow>
     (\<forall>n \<in> set_option (mc_observed_query_length_bytes c). n \<le> isize_max) \<and>
     (\<forall>n \<in> set_option (mc_observed_request_length_bytes c). n \<le> isize_max) \<and>
     (\<forall>n \<in> set_option (mc_observed_response_length_bytes c). n \<le> isize_max)"

lemma percentile_bound:
  assumes "list_all (\<lambda>x. 0 \<le> x \<and> x \<le> of_nat n) xs" "2 * n < 2 ^ 53" "percentile xs p = Some v" "sized xs" "0 \<le> p" "p \<le> 100"
  shows "v \<le> of_nat (2 * n)"
proof (cases "length xs \<le> 1")
  case True
  then show ?thesis using assms(1,3) by (cases xs) (auto simp: percentile_def slice_get_def)
next
  case False
  then have ne: "xs \<noteq> []" "length xs \<noteq> 1" by auto
  have mem: "0 \<le> a \<and> a \<le> of_nat n" if "slice_get xs i = Some a" for i a
    using that assms(1) by (auto simp: slice_get_def list_all_length split: if_splits)
  let ?idx = "f64_div (f64_mul (f64_of_nat (length xs - 1)) p) 100"
  note interpolate_le [OF _ _ quantile_weight(1,2) [OF assms(4) ne(1) assms(5,6) refl] assms(2)]
  moreover have p: "max 0 (min 100 p) = p" using assms by simp
  ultimately show ?thesis
    using assms(3) ne mem
    by (auto simp: percentile_def p Let_def split: if_splits bind_splits dest!: mem)
qed

lemma f64_to_u64_bound: "0 \<le> v \<Longrightarrow> v \<le> of_nat n \<Longrightarrow> f64_to_u64 (max (round_half_away v) 0) \<le> n"
  using round_half_away_nonneg [of v] round_half_away_le [of v n]
  by (simp add: f64_to_u64_def max_def floor_le_iff nat_le_iff min_def)

lemma length_quantile_small:
  assumes "list_all (\<lambda>k. k \<le> 2 ^ 40) ns" "sized ns" "0 \<le> p" "p \<le> 100"
    and "percentile (sort (map f64_of_nat ns)) p = Some v"
  shows "f64_to_u64 (max (round_half_away v) 0) \<le> isize_max"
proof -
  have "f64_of_nat k \<le> of_nat (2 ^ 40)" if "k \<le> 2 ^ 40" for k
    unfolding f64_of_nat_def using that by (intro f64_round_le_nat) (simp_all only: of_nat_0_le_iff of_nat_le_iff, simp)
  then have l: "list_all (\<lambda>x. 0 \<le> x \<and> x \<le> of_nat (2 ^ 40)) (sort (map f64_of_nat ns))"
    using assms(1) by (auto simp: list_all_iff)
  have s: "sized (sort (map f64_of_nat ns))" using assms(2) by simp
  have "v \<le> of_nat (2 * 2 ^ 40)" by (rule percentile_bound [OF l _ assms(5) s assms(3,4)]) simp
  moreover have "0 \<le> v" using percentile_total [OF s assms(3,4)] l assms(5) by (auto simp: list_all_iff)
  ultimately have "f64_to_u64 (max (round_half_away v) 0) \<le> 2 * 2 ^ 40" by (rule f64_to_u64_bound [rotated])
  also have "\<dots> \<le> isize_max" by (simp add: isize_max_def)
  finally show ?thesis .
qed

lemma collect_length_small:
  assumes "list_all sample_small samples" "sized samples" "0 \<le> p" "p \<le> 100"
    and "collect_length_percentile samples p request = Some (Some n)"
  shows "n \<le> isize_max"
proof -
  define ns where "ns = map unat (List.map_filter (\<lambda>s. if request then sm_request_length s else sm_response_length s) samples)"
  have "list_all (\<lambda>k. k \<le> 2 ^ 40) ns"
    using assms(1) by (fastforce simp: ns_def list_all_iff map_filter_set sample_small_def split: if_splits)
  moreover have "sized ns" using sized_map_filter [OF assms(2)] by (simp add: ns_def)
  moreover obtain v where "percentile (sort (map f64_of_nat ns)) p = Some v" "n = f64_to_u64 (max (round_half_away v) 0)"
    using assms(5) by (auto simp: collect_length_percentile_def ns_def Let_def comp_def split: if_splits)
  ultimately show ?thesis using length_quantile_small [OF _ _ assms(3,4)] by blast
qed

lemma collect_query_small:
  assumes "list_all sample_small samples" "sized samples" "0 \<le> p" "p \<le> 100"
    and "collect_query_length_percentile samples p = Some (Some n)"
  shows "n \<le> isize_max"
proof -
  define ns where "ns = map (\<lambda>s. case sm_query s of None \<Rightarrow> 0 | Some q \<Rightarrow> length q) samples"
  have "list_all (\<lambda>k. k \<le> 2 ^ 40) ns"
    using assms(1) by (auto simp: ns_def list_all_iff sample_small_def split: option.split)
  moreover have "sized ns" using assms(2) by (simp add: ns_def)
  moreover obtain v where "percentile (sort (map f64_of_nat ns)) p = Some v" "n = f64_to_u64 (max (round_half_away v) 0)"
    using assms(5) by (auto simp: collect_query_length_percentile_def ns_def [symmetric] Let_def split: if_splits)
  ultimately show ?thesis using length_quantile_small [OF _ _ assms(3,4)] by blast
qed

lemma build_variant_small:
  assumes "list_all sample_small samples" "sized samples" "0 \<le> p" "p \<le> 100"
    and "build_variant fexp samples durations jitter i p = Some v"
  shows "lengths_small (mv_characteristics v)"
  using assms(5) collect_query_small [OF assms(1-4)] collect_length_small [OF assms(1-4)]
  by (auto simp: build_variant_def lengths_small_def split: bind_splits)

lemma those_list_all:
  "those (map f xs) = Some ys \<Longrightarrow> (\<And>x y. x \<in> set xs \<Longrightarrow> f x = Some y \<Longrightarrow> P y) \<Longrightarrow> list_all P ys"
proof (induction xs arbitrary: ys)
  case (Cons x xs)
  from Cons.prems(1) obtain y zs where y: "f x = Some y" "those (map f xs) = Some zs" "ys = y # zs"
    by (auto split: option.splits)
  have "list_all P zs" by (rule Cons.IH [OF y(2)]) (use Cons.prems(2) in auto)
  with y Cons.prems(2) [of x y] show ?case by simp
qed simp

lemma build_variants_small:
  assumes "list_all sample_small samples" "sized samples" "build_variants fexp samples = Some vs"
  shows "list_all (\<lambda>v. lengths_small (mv_characteristics v)) vs"
proof -
  obtain durations jitter where "those (map (\<lambda>(i, p). build_variant fexp samples durations jitter i p)
      (List.enumerate 0 LATENCY_PERCENTILES)) = Some vs"
    using assms(3) by (auto simp: build_variants_def Let_def split: bind_splits)
  then show ?thesis
  proof (rule those_list_all)
    fix e v
    assume e: "e \<in> set (List.enumerate 0 LATENCY_PERCENTILES)"
      "(\<lambda>(i, p). build_variant fexp samples durations jitter i p) e = Some v"
    obtain i p where ip: "e = (i, p)" by fastforce
    then have "0 \<le> p" "p \<le> 100" using e(1) by (auto simp: LATENCY_PERCENTILES_def)
    from build_variant_small [OF assms(1,2) this] e(2) ip show "lengths_small (mv_characteristics v)" by simp
  qed
qed

subsection \<open>What the endpoint promises\<close>

text \<open>A description of a variant that fits its profile.\<close>

definition dto_ok :: "mask_variant \<Rightarrow> signature_variant_dto \<Rightarrow> bool" where
  "dto_ok v d \<longleftrightarrow>
     sv_variant_id d = mv_id v \<and> sv_label d = mv_label v \<and>
     sv_request_query_length_bytes d = (case mc_observed_query_length_bytes (mv_characteristics v) of None \<Rightarrow> 0 | Some n \<Rightarrow> n) \<and>
     sv_request_body_length_bytes d = (case mc_observed_request_length_bytes (mv_characteristics v) of None \<Rightarrow> 0 | Some n \<Rightarrow> n) \<and>
     sv_response_length_bytes d = (case mc_observed_response_length_bytes (mv_characteristics v) of None \<Rightarrow> 0 | Some n \<Rightarrow> n) \<and>
     length (sv_request_query_signature d) = sv_request_query_length_bytes d \<and>
     set (sv_request_query_signature d) \<subseteq> set (bytes_string QUERY_ALPHABET) \<and>
     sv_request_signature d = build_request_example (sv_request_query_signature d) (sv_request_body_signature d) \<and>
     (13 \<le> sv_response_length_bytes d \<longrightarrow> suffix ''Hello World!#'' (sv_response_signature d))"

lemma option_small: "(\<forall>n \<in> set_option x. n \<le> m) \<Longrightarrow> (case x of None \<Rightarrow> 0 | Some n \<Rightarrow> n) \<le> (m :: nat)"
  by (cases x) simp_all

lemma variant_to_dto_total:
  assumes "lengths_small (mv_characteristics v)"
  shows "\<exists>d g'. variant_to_dto R v g = Some (d, g') \<and> dto_ok v d"
proof -
  let ?c = "mv_characteristics v"
  let ?len = "\<lambda>x. case x of None \<Rightarrow> 0 | Some n \<Rightarrow> (n :: nat)"
  have len: "?len (mc_observed_query_length_bytes ?c) \<le> isize_max" "?len (mc_observed_request_length_bytes ?c) \<le> isize_max"
    "?len (mc_observed_response_length_bytes ?c) \<le> isize_max"
    using assms option_small by (simp_all add: lengths_small_def)
  from synth_query_text_total [OF len(1), of R ?c g] obtain query g1 where
    q: "synth_query_text R (?len (mc_observed_query_length_bytes ?c)) ?c g = Some (query, g1)"
      "length query = ?len (mc_observed_query_length_bytes ?c)" "set query \<subseteq> set (bytes_string QUERY_ALPHABET)" by blast
  from synth_stream_total [OF len(2), of R ?c False g1] obtain raw g2 where
    "synth_stream R (?len (mc_observed_request_length_bytes ?c)) ?c False g1 = Some (raw, g2)" by blast
  then have b: "synth_body_text R (?len (mc_observed_request_length_bytes ?c)) ?c g1 = Some (from_utf8_lossy raw, g2)"
    by (simp add: synth_body_text_def)
  from synth_response_text_total [OF len(3), of R ?c g2] obtain response g3 where
    r: "synth_response_text R (?len (mc_observed_response_length_bytes ?c)) ?c g2 = Some (response, g3)"
      "13 \<le> ?len (mc_observed_response_length_bytes ?c) \<longrightarrow> suffix ''Hello World!#'' response" by blast
  show ?thesis
    unfolding variant_to_dto_def Let_def q(1) r(1) b Option.bind.bind_lunit prod.case using q(2,3) r(2)
    by (simp add: dto_ok_def)
qed

lemma thread_map_total:
  "(\<And>x g. x \<in> set xs \<Longrightarrow> \<exists>y g'. f x g = Some (y, g') \<and> P x y) \<Longrightarrow>
     \<exists>ys g'. thread_map f xs g = Some (ys, g') \<and> list_all2 P xs ys"
proof (induction xs arbitrary: g)
  case (Cons x xs)
  obtain y g1 where y: "f x g = Some (y, g1)" "P x y" using Cons.prems [of x g] by auto
  from Cons.IH [OF Cons.prems, of g1] obtain ys g2 where "thread_map f xs g1 = Some (ys, g2)" "list_all2 P xs ys" by auto
  with y show ?case by simp
qed simp

text \<open>An entry of the response, for the samples the store holds under its key.\<close>

definition signature_entry_ok :: "(f64 \<Rightarrow> f64) \<Rightarrow> train_store \<Rightarrow> signature_route_entry \<Rightarrow> bool" where
  "signature_entry_ok fexp ts e \<longleftrightarrow>
     se_ready e \<and> se_sample_count e = counts_for ts (se_route_key e) \<and> length (se_variants e) = 5 \<and>
     (\<exists>vs. build_variants fexp (samples_at (ps_routes (ts_inner ts)) (se_route_key e)) = Some vs \<and>
        list_all2 dto_ok vs (se_variants e))"

definition store_small :: "train_store \<Rightarrow> bool" where
  "store_small ts \<longleftrightarrow> store_sized ts \<and> list_all (\<lambda>(_, v). list_all sample_small v) (ps_routes (ts_inner ts))"

lemma store_small_at: "store_small ts \<Longrightarrow> list_all sample_small (samples_at (ps_routes (ts_inner ts)) k)"
  by (fastforce simp: store_small_def samples_at_def hm_get_def list_all_iff dest: map_of_SomeD [OF sym] split: option.split)

lemma entry_for_route_total:
  assumes "exp_ok fexp" "store_small ts" "samples = samples_at (ps_routes (ts_inner ts)) k"
  shows "\<exists>oe g'. entry_for_route fexp R (ts_min_samples ts) (k, samples) g = Some (oe, g') \<and>
    (if ts_min_samples ts \<le> counts_for ts k
     then \<exists>e. oe = Some e \<and> se_route_key e = k \<and> signature_entry_ok fexp ts e else oe = None)"
proof (cases "ts_min_samples ts \<le> counts_for ts k")
  case True
  have sized: "sized samples" "list_all sample_small samples"
    using store_sized_at store_small_at assms(2,3) by (auto simp: store_small_def)
  from build_variants_complete [OF assms(1) sized(1)] obtain vs where
    vs: "build_variants fexp samples = Some vs" "length vs = 5" by blast
  note small = build_variants_small [OF sized(2,1) vs(1)]
  have "\<exists>d g'. variant_to_dto R v g = Some (d, g') \<and> dto_ok v d" if "v \<in> set vs" for v g
  proof -
    have "lengths_small (mv_characteristics v)" using small that by (simp add: list_all_iff)
    from variant_to_dto_total [OF this, of R g] show ?thesis by blast
  qed
  from thread_map_total [of vs "variant_to_dto R" dto_ok, OF this] obtain ds g' where
    ds: "thread_map (variant_to_dto R) vs g = Some (ds, g')" "list_all2 dto_ok vs ds" by blast
  then have "length ds = 5" using vs(2) by (simp add: list_all2_lengthD [symmetric])
  then show ?thesis
    using True vs ds assms(3) by (simp add: entry_for_route_def signature_entry_ok_def counts_for_at Let_def)
qed (use assms(3) in \<open>simp add: entry_for_route_def counts_for_at\<close>)

lemma kept_entries:
  "list_all2 (\<lambda>(k, _) oe. if c \<le> counts_for ts k then \<exists>e. oe = Some e \<and> se_route_key e = k \<and> Q e else oe = None) rs oes \<Longrightarrow>
     map se_route_key (List.map_filter (\<lambda>e. e) oes) = filter (\<lambda>k. c \<le> counts_for ts k) (map fst rs) \<and>
     list_all Q (List.map_filter (\<lambda>e. e) oes)"
  by (induction rule: list_all2_induct) (auto simp: List.map_filter_simps split: if_splits)

text \<open>
  Asked for signatures of one route or of all, the service answers without a panic, whatever the
  generator draws and whatever share of ones and histogram the samples report, provided no sample
  claims a message above a terabyte.  The answer lists exactly the routes that have the required number of
  samples, in the order of their keys, each with five descriptions; in each of them the query has
  exactly the length it states and only characters of the query alphabet, the request is the query and
  the body put together, and a response of thirteen bytes or more ends with the marker.
\<close>
theorem signature_samples_spec:
  assumes "exp_ok fexp" "is_order order" "hm_ok (ps_routes (ts_inner ts))" "store_small ts"
    and "keys = (if is_specific_route_key q
       then [route_key (case mq_method q of None \<Rightarrow> [] | Some m \<Rightarrow> trim m) (case mq_path q of None \<Rightarrow> [] | Some p \<Rightarrow> trim p)]
       else sort (map fst (ps_routes (ts_inner ts))))"
  shows "\<exists>resp g'. signature_samples fexp R order ts q g = Some (resp, g') \<and> ss_min_samples resp = ts_min_samples ts \<and>
    map se_route_key (ss_routes resp) = filter (\<lambda>k. ts_min_samples ts \<le> counts_for ts k) keys \<and>
    list_all (signature_entry_ok fexp ts) (ss_routes resp)"
proof -
  define key where "key = route_key (case mq_method q of None \<Rightarrow> [] | Some m \<Rightarrow> trim m) (case mq_path q of None \<Rightarrow> [] | Some p \<Rightarrow> trim p)"
  define rs where "rs = (if is_specific_route_key q then [(key, case samples_for ts key of None \<Rightarrow> [] | Some v \<Rightarrow> v)]
    else routes_with_samples order ts)"
  let ?P = "\<lambda>(k, _) oe. if ts_min_samples ts \<le> counts_for ts k
    then \<exists>e. oe = Some e \<and> se_route_key e = k \<and> signature_entry_ok fexp ts e else oe = None"
  have "\<exists>oe g'. entry_for_route fexp R (ts_min_samples ts) r g = Some (oe, g') \<and> ?P r oe" if "r \<in> set rs" for r g
  proof (cases r)
    case (Pair k v)
    with that have "v = samples_at (ps_routes (ts_inner ts)) k"
      using routes_with_samples_at [OF assms(2,3), of k v] by (auto simp: rs_def samples_for_def samples_at_def split: if_splits)
    from entry_for_route_total [OF assms(1,4) this, of R g] Pair show ?thesis by auto
  qed
  from thread_map_total [of rs "entry_for_route fexp R (ts_min_samples ts)" ?P, OF this] obtain oes g' where
    oes: "thread_map (entry_for_route fexp R (ts_min_samples ts)) rs g = Some (oes, g')" "list_all2 ?P rs oes" by blast
  have "signature_samples fexp R order ts q g =
      Some (\<lparr>ss_min_samples = ts_min_samples ts, ss_routes = List.map_filter (\<lambda>e. e) oes\<rparr>, g')"
    using oes(1) by (cases "is_specific_route_key q") (simp_all add: signature_samples_def rs_def key_def Let_def)
  moreover have "map fst rs = keys"
    using assms(5) sorted_routes [OF assms(2), of ts] by (simp add: rs_def key_def)
  ultimately show ?thesis using kept_entries [OF oes(2)] by simp
qed

theorem signature_samples_spec_witness:
  "\<exists>resp g'. signature_samples (\<lambda>_. 1) demo_thread_rng (\<lambda>m. m) demo_taught \<lparr>mq_method = None, mq_path = None, mq_query = None\<rparr> 0 =
       Some (resp, g') \<and> ss_min_samples resp = 2 \<and> map se_route_key (ss_routes resp) = [''POST|/b''] \<and>
     list_all (signature_entry_ok (\<lambda>_. 1) demo_taught) (ss_routes resp)"
proof -
  let ?q = "\<lparr>mq_method = None, mq_path = None, mq_query = None\<rparr>"
  have exp: "exp_ok (\<lambda>_. 1)" by (simp add: exp_ok_def)
  have ok: "hm_ok (ps_routes (ts_inner demo_taught))" "store_small demo_taught"
    by (simp_all add: demo_taught_def with_options_def hm_ok_def store_small_def store_sized_def sized_def
        sample_small_def demo_sample_def)
  have "filter (\<lambda>k. ts_min_samples demo_taught \<le> counts_for demo_taught k)
      (if is_specific_route_key ?q
       then [route_key (case mq_method ?q of None \<Rightarrow> [] | Some m \<Rightarrow> trim m) (case mq_path ?q of None \<Rightarrow> [] | Some p \<Rightarrow> trim p)]
       else sort (map fst (ps_routes (ts_inner demo_taught)))) = [''POST|/b'']"
    by (simp add: is_specific_route_key_def trimmed_nonempty_def demo_taught_def with_options_def counts_for_def hm_get_def)
  then show ?thesis
    using signature_samples_spec [OF exp is_order_id(1) ok refl, where q = ?q and R = demo_thread_rng and g = 0]
    by (simp add: demo_taught_def with_options_def)
qed

subsection \<open>A sample that states a huge body\<close>

text \<open>One taught sample that claims \<open>2^63\<close> bytes makes the endpoint panic.\<close>

lemma f64_huge: "f64_of_nat (2 ^ 63) = 2 ^ 63"
proof -
  have q: "(2 :: rat) ^ 971 / 2 ^ 960 = 2 ^ 11" by (simp add: power_diff [symmetric])
  have "(2 :: rat) ^ 52 * 2 ^ 11 \<le> 2 ^ 63" "(2 :: rat) ^ 63 < 2 ^ Suc 52 * 2 ^ 11" by simp_all
  then have "ulp_down 52 2045 (2 ^ 971) (2 ^ 63) = (2 :: rat) ^ 971 / 2 ^ 960"
    by (intro ulp_down_binade) (simp_all only: q, simp_all)
  then have "f64_ulp (2 ^ 63) = 2 ^ 11" unfolding f64_ulp_def q by simp
  then have "f64_round (2 ^ 63) = of_int (rne (of_int (2 ^ 52))) * 2 ^ 11" by (simp add: f64_round_def)
  then show ?thesis unfolding f64_of_nat_def rne_of_int by simp
qed


lemma huge_body:
  assumes "sm_request_length s = Some (2 ^ 63)" "build_variants fexp [s] = Some vs" "v \<in> set vs"
  shows "mc_observed_request_length_bytes (mv_characteristics v) = Some (2 ^ 63)"
proof -
  have fl: "\<lfloor>(18446744073709551617 / 2 :: rat)\<rfloor> = 9223372036854775808" by (simp add: floor_eq_iff)
  have len: "collect_length_percentile [s] p True = Some (Some (2 ^ 63))" for p
    using assms(1) f64_huge fl
    by (simp add: collect_length_percentile_def List.map_filter_simps percentile_def slice_get_def round_half_away_def
        f64_to_u64_def Let_def)
  obtain durations jitter where "those (map (\<lambda>(i, p). build_variant fexp [s] durations jitter i p)
      (List.enumerate 0 LATENCY_PERCENTILES)) = Some vs"
    using assms(2) by (auto simp: build_variants_def Let_def split: bind_splits)
  then have "list_all (\<lambda>v. mc_observed_request_length_bytes (mv_characteristics v) = Some (2 ^ 63)) vs"
    by (rule those_list_all) (auto simp: build_variant_def len split: bind_splits prod.splits)
  then show ?thesis using assms(3) by (simp add: list_all_iff)
qed

text \<open>
  A sample states its lengths itself, so whoever may teach can make the endpoint panic for a route:
  nothing between the teaching request and the allocation bounds them.
\<close>

lemma huge_body_panics:
  assumes "exp_ok fexp" "is_specific_route_key q" "ts_min_samples ts \<le> 1"
    and "key = route_key (case mq_method q of None \<Rightarrow> [] | Some m \<Rightarrow> trim m) (case mq_path q of None \<Rightarrow> [] | Some p \<Rightarrow> trim p)"
    and "samples_for ts key = Some [s]" "sm_request_length s = Some (2 ^ 63)"
  shows "signature_samples fexp R order ts q g = None"
proof -
  have "sized [s]" by (simp add: sized_def)
  from build_variants_complete [OF assms(1) this] obtain vs where
    vs: "build_variants fexp [s] = Some vs" "length vs = 5" by blast
  then obtain v vs' where v: "vs = v # vs'" by (cases vs) auto
  have "mc_observed_request_length_bytes (mv_characteristics v) = Some (2 ^ 63)"
    using huge_body [OF assms(6) vs(1)] v by simp
  then have "variant_to_dto R v g = None"
    by (simp add: variant_to_dto_def synth_body_text_def synth_stream_def isize_max_def Let_def split: bind_splits prod.splits)
  then have "entry_for_route fexp R (ts_min_samples ts) (key, [s]) g = None"
    using assms(3) vs(1) v by (simp add: entry_for_route_def Let_def)
  then show ?thesis using assms(2,5) by (simp add: signature_samples_def assms(4) [symmetric] Let_def)
qed

end
