(* ===== verification/Services.thy ===== *)
theory Services
  imports App_Server Rust_Text
begin

section \<open>Services on the overlay\<close>

text \<open>
  The three servers under \<^verbatim>\<open>zona-p2p/servers\<close> that register handlers on an application server:
  \<^verbatim>\<open>zona-dns\<close> (domain names to proxy identifiers), \<^verbatim>\<open>proxy-server\<close> (requests to the internet) and
  \<^verbatim>\<open>hello-server\<close> (an echo).  Serialisation (\<^verbatim>\<open>serde_json\<close>, \<^verbatim>\<open>serde_yaml\<close>) and HTTP (\<^verbatim>\<open>reqwest\<close>, \<^verbatim>\<open>http\<close>)
  are parameters; what is relied on of them is \<open>json_ok\<close>.  The answers of the internet are a
  function of the request.  The main functions are in \<open>Service_Mains\<close>; the
  expiry of time-outs, logging and the parsing of command lines by \<^verbatim>\<open>clap\<close> are not modelled.
\<close>

subsection \<open>Data\<close>

record dns_lookup_response =
  dr_domain :: string
  dr_nodes :: "string list"

record http_proxy_request =
  hq_method :: string
  hq_url :: string
  hq_headers :: "(string \<times> string) list"
  hq_body :: "string option"

record http_proxy_response =
  hp_status :: u16
  hp_headers :: "(string \<times> string) list"
  hp_body :: string
  hp_error :: "string option"

text \<open>What the proxy sends to the internet, and what comes back.\<close>

record upstream_request =
  uq_method :: string
  uq_url :: string
  uq_headers :: "(string \<times> string) list"
  uq_body :: "bytes option"

record upstream_response =
  ur_status :: u16
  ur_headers :: "(string \<times> bytes) list"
  ur_bytes :: "(bytes, string) result"

text \<open>The settings of a \<^verbatim>\<open>reqwest\<close> client, with times in milliseconds.\<close>

record http_client =
  hc_connect_timeout :: "nat option"
  hc_timeout :: nat
  hc_user_agent :: "string option"

record service_libs = app_libs +
  dns_query_encode :: "string \<Rightarrow> (string, string) result"
  dns_query_decode :: "bytes \<Rightarrow> (string, string) result"
  dns_response_encode :: "dns_lookup_response \<Rightarrow> bytes"
  dns_response_decode :: "string \<Rightarrow> (dns_lookup_response, string) result"
  proxy_request_encode :: "http_proxy_request \<Rightarrow> (string, string) result"
  proxy_request_decode :: "bytes \<Rightarrow> (http_proxy_request, string) result"
  proxy_response_encode :: "http_proxy_response \<Rightarrow> bytes"
  proxy_response_decode :: "string \<Rightarrow> (http_proxy_response, string) result"
  to_uppercase :: "string \<Rightarrow> string"
  method_from_bytes :: "string \<Rightarrow> string option"
  client_build :: "http_client \<Rightarrow> (unit, string) result"
  http_send :: "http_client \<Rightarrow> upstream_request \<Rightarrow> (upstream_response, string) result"
  header_to_str :: "bytes \<Rightarrow> string option"
  yaml_decode :: "string \<Rightarrow> ((string, string list) hash_map, string) result"
  response_build :: "u16 \<Rightarrow> (string \<times> string) list \<Rightarrow> (unit, string) result"

text \<open>Texts of the values \<^verbatim>\<open>serde_json\<close> is given: a Rust string is valid UTF-8.\<close>

definition utf8_text :: "string \<Rightarrow> bool" where
  "utf8_text s \<longleftrightarrow> valid_utf8 (string_bytes s)"

definition dns_text :: "dns_lookup_response \<Rightarrow> bool" where
  "dns_text r \<longleftrightarrow> utf8_text (dr_domain r) \<and> list_all utf8_text (dr_nodes r)"

definition headers_text :: "(string \<times> string) list \<Rightarrow> bool" where
  "headers_text hs \<longleftrightarrow> list_all (\<lambda>(k, v). utf8_text k \<and> utf8_text v) hs"

definition request_text :: "http_proxy_request \<Rightarrow> bool" where
  "request_text r \<longleftrightarrow> utf8_text (hq_method r) \<and> utf8_text (hq_url r) \<and> headers_text (hq_headers r) \<and>
     pred_option utf8_text (hq_body r)"

definition response_text :: "http_proxy_response \<Rightarrow> bool" where
  "response_text r \<longleftrightarrow> headers_text (hp_headers r) \<and> utf8_text (hp_body r) \<and> pred_option utf8_text (hp_error r)"

text \<open>\<^verbatim>\<open>serde_json\<close> writes a structure as UTF-8 text of an object, and reads back what it wrote.\<close>

definition json_object :: "bytes \<Rightarrow> bool" where
  "json_object bs \<longleftrightarrow> valid_utf8 bs \<and> (\<exists>mid. bs = 123 # mid @ [125])"

definition json_ok :: "'a service_libs_scheme \<Rightarrow> bool" where
  "json_ok L \<longleftrightarrow>
     (\<forall>d. utf8_text d \<longrightarrow> (\<exists>t. dns_query_encode L d = Ok t \<and> utf8_text t \<and> dns_query_decode L (string_bytes t) = Ok d)) \<and>
     (\<forall>r. dns_text r \<longrightarrow> json_object (dns_response_encode L r) \<and>
        dns_response_decode L (bytes_string (dns_response_encode L r)) = Ok r) \<and>
     (\<forall>r. request_text r \<longrightarrow> (\<exists>t. proxy_request_encode L r = Ok t \<and> utf8_text t \<and>
        proxy_request_decode L (string_bytes t) = Ok r)) \<and>
     (\<forall>r. response_text r \<longrightarrow> json_object (proxy_response_encode L r) \<and>
        proxy_response_decode L (bytes_string (proxy_response_encode L r)) = Ok r)"

text \<open>\<^verbatim>\<open>payload.get(n..)\<close>.\<close>

definition slice_from :: "nat \<Rightarrow> 'x list \<Rightarrow> 'x list option" where
  "slice_from n xs = (if n \<le> length xs then Some (drop n xs) else None)"

subsection \<open>Names\<close>

type_synonym zone_table = "(string, string list) hash_map"

datatype zones_error = ZonesRead string | ZonesParse string

definition DNS_PREFIX :: bytes where
  "DNS_PREFIX = string_bytes ''ZONA_DNS:''"

definition normalize_domain :: "string \<Rightarrow> string" where
  "normalize_domain s = to_ascii_lowercase (trim s)"

text \<open>The identifiers of one zone: what is not 64 characters of hex is skipped.\<close>

definition zone_ids :: "'a hex_libs_scheme \<Rightarrow> string list \<Rightarrow> string list" where
  "zone_ids L v =
     List.map_filter
       (\<lambda>h. let h = trim h
            in if length h \<noteq> 64 then None
               else case hex_decode L h of
                      Inr b \<Rightarrow> if length b = 32 then Some (to_ascii_lowercase h) else None
                    | Inl _ \<Rightarrow> None) v"

definition load_zones ::
  "'a service_libs_scheme \<Rightarrow> (zone_table \<Rightarrow> (string \<times> string list) list) \<Rightarrow> (string, string) result \<Rightarrow> (zone_table, zones_error) result" where
  "load_zones L order raw =
     (case raw of
        Inl e \<Rightarrow> Err (ZonesRead e)
      | Inr text \<Rightarrow>
          (case yaml_decode L text of
             Inl e \<Rightarrow> Err (ZonesParse e)
           | Inr loaded \<Rightarrow> Ok (foldl (\<lambda>out (k, v). hm_insert (normalize_domain k) (zone_ids L v) out) [] (order loaded))))"

definition dns_lookup :: "zone_table \<Rightarrow> string \<Rightarrow> dns_lookup_response" where
  "dns_lookup zones domain =
     (let dom = normalize_domain domain; nodes = (case hm_get zones dom of None \<Rightarrow> [] | Some ids \<Rightarrow> ids)
      in \<lparr>dr_domain = dom, dr_nodes = nodes\<rparr>)"

definition dns_handler :: "'a service_libs_scheme \<Rightarrow> zone_table \<Rightarrow> app_packet \<Rightarrow> bytes option" where
  "dns_handler L zones packet =
     (case slice_from (length DNS_PREFIX) (pk_payload packet) of
        None \<Rightarrow> None
      | Some json_bytes \<Rightarrow>
          (case dns_query_decode L json_bytes of
             Inl _ \<Rightarrow> None
           | Inr domain \<Rightarrow> Some (dns_response_encode L (dns_lookup zones domain))))"

definition zona_dns_server :: "'a service_libs_scheme \<Rightarrow> zone_table \<Rightarrow> string \<Rightarrow> node_keypair \<Rightarrow> server_state" where
  "zona_dns_server L zones url keypair =
     server_register (PrefixHandler_new DNS_PREFIX (dns_handler L zones)) (NodeServer_new url keypair)"

definition http_lookup :: "zone_table \<Rightarrow> string \<Rightarrow> dns_lookup_response" where
  "http_lookup zones domain = dns_lookup zones domain"

subsection \<open>The proxy\<close>

definition PROXY_PREFIX :: bytes where
  "PROXY_PREFIX = string_bytes ''HTTP_PROXY:''"

definition make_error :: "u16 \<Rightarrow> string \<Rightarrow> http_proxy_response" where
  "make_error status msg = \<lparr>hp_status = status, hp_headers = [], hp_body = [], hp_error = Some msg\<rparr>"

text \<open>The headers of the answer as text; a value that is not text becomes empty.\<close>

definition header_texts :: "'a service_libs_scheme \<Rightarrow> (string \<times> bytes) list \<Rightarrow> (string \<times> string) list" where
  "header_texts L hs = map (\<lambda>(k, v). (k, case header_to_str L v of None \<Rightarrow> [] | Some s \<Rightarrow> s)) hs"

definition proxy_client :: "nat \<Rightarrow> http_client" where
  "proxy_client timeout =
     (let connect_timeout = min 15000 timeout
      in \<lparr>hc_connect_timeout = Some connect_timeout, hc_timeout = timeout, hc_user_agent = Some ''zona-p2p-proxy/1.0''\<rparr>)"

definition do_upstream_request :: "'a service_libs_scheme \<Rightarrow> nat \<Rightarrow> http_proxy_request \<Rightarrow> http_proxy_response" where
  "do_upstream_request L timeout req =
     (case client_build L (proxy_client timeout) of
        Inl e \<Rightarrow> make_error 500 (''build client: '' @ e)
      | Inr _ \<Rightarrow>
          (case method_from_bytes L (to_uppercase L (hq_method req)) of
             None \<Rightarrow> make_error 400 (''invalid method: '' @ hq_method req)
           | Some method \<Rightarrow>
               (case (case hq_body req of None \<Rightarrow> Ok None | Some b \<Rightarrow> map_sum (\<lambda>e. e) Some (b64_decode L b)) of
                  Inl e \<Rightarrow> make_error 400 (''bad body base64: '' @ e)
                | Inr body \<Rightarrow>
                    (case http_send L (proxy_client timeout)
                            \<lparr>uq_method = method, uq_url = hq_url req, uq_headers = hq_headers req, uq_body = body\<rparr> of
                       Inl e \<Rightarrow> make_error 502 (''upstream: '' @ e)
                     | Inr resp \<Rightarrow>
                         (case ur_bytes resp of
                            Inr bs \<Rightarrow> \<lparr>hp_status = ur_status resp, hp_headers = header_texts L (ur_headers resp),
                                       hp_body = b64_encode L bs, hp_error = None\<rparr>
                          | Inl e \<Rightarrow> \<lparr>hp_status = ur_status resp, hp_headers = header_texts L (ur_headers resp),
                                      hp_body = [], hp_error = Some (''read body: '' @ e)\<rparr>)))))"

definition proxy_handler :: "'a service_libs_scheme \<Rightarrow> nat \<Rightarrow> app_packet \<Rightarrow> bytes option" where
  "proxy_handler L upstream_timeout packet =
     (case slice_from (length PROXY_PREFIX) (pk_payload packet) of
        None \<Rightarrow> None
      | Some json_bytes \<Rightarrow>
          (case proxy_request_decode L json_bytes of
             Inl e \<Rightarrow> Some (proxy_response_encode L (make_error 400 (''parse error: '' @ e)))
           | Inr req \<Rightarrow> Some (proxy_response_encode L (do_upstream_request L upstream_timeout req))))"

definition proxy_server :: "'a service_libs_scheme \<Rightarrow> nat \<Rightarrow> string \<Rightarrow> node_keypair \<Rightarrow> server_state" where
  "proxy_server L upstream_timeout url keypair =
     server_register (PrefixHandler_new PROXY_PREFIX (proxy_handler L upstream_timeout)) (NodeServer_new url keypair)"

subsection \<open>The greeter\<close>

text \<open>\<^verbatim>\<open>split\<close> at a character: there is always one piece more than occurrences.\<close>

fun split_char :: "char \<Rightarrow> string \<Rightarrow> string list" where
  "split_char c [] = [[]]"
| "split_char c (d # s) =
     (if d = c then [] # split_char c s
      else case split_char c s of [] \<Rightarrow> [[d]] | p # ps \<Rightarrow> (d # p) # ps)"

definition bootstrap_urls :: "string option \<Rightarrow> string list" where
  "bootstrap_urls var =
     (let value = (case var of None \<Rightarrow> [] | Some s \<Rightarrow> s)
      in filter (\<lambda>s. s \<noteq> []) (map trim (split_char (CHR '','') value)))"

datatype seed_error = SeedHex string | SeedLength

definition seed_keypair :: "'a hex_libs_scheme \<Rightarrow> string \<Rightarrow> (node_keypair, seed_error) result" where
  "seed_keypair L seed_hex =
     (case hex_decode L seed_hex of
        Inl e \<Rightarrow> Err (SeedHex e)
      | Inr seed_bytes \<Rightarrow>
          (case array32 seed_bytes of None \<Rightarrow> Err SeedLength | Some seed \<Rightarrow> Ok (keypair_from_seed L seed)))"

definition hello_handler :: "app_packet \<Rightarrow> bytes option" where
  "hello_handler pkt =
     (let text = from_utf8_lossy (pk_payload pkt); reply = ''Hello from p2p-server! Echo: '' @ text
      in Some (string_bytes reply))"

definition hello_server :: "string \<Rightarrow> node_keypair \<Rightarrow> server_state" where
  "hello_server self_url keypair = server_register (CatchAllHandler_new hello_handler) (NodeServer_new self_url keypair)"

end
