(* ===== verification/Zona_Curl.thy ===== *)
theory Zona_Curl
  imports Services
begin

section \<open>The client of the services\<close>

text \<open>
  \<^verbatim>\<open>servers/zona-curl\<close>: one request through the overlay (\<^verbatim>\<open>main.rs\<close>), the local HTTP server that sends
  every request of a browser through it (\<^verbatim>\<open>serve.rs\<close>), and what both share (\<^verbatim>\<open>p2p.rs\<close>).  The errors
  are a datatype in place of the texts of \<^verbatim>\<open>anyhow\<close>.  The overlay is a function that answers a relay
  request (\<open>post\<close>), so the theorems can use the network of the theory App\_Server; introductions,
  files and the parsing of URLs are parameters.  Messages to the terminal are not modelled; of TLS only
  where certificate and key come from.
\<close>

datatype curl_error =
  NoBootstrapNode | AllPeersFailed | BadHex string | BadIdLength | JsonEncode string
| DnsNotDelivered "string list" string | DnsEmpty | DnsParse string
| NotDelivered "string list" string | NoProxyResponse | EmptyProxyResponse | ProxyParse string
| ProxyError u16 string | BodyBase64 string | NoProxy string | ResponseBuild string | ReadBody string
| BadScheme | SetProxyOrDns | TlsWithoutHttps | TlsMismatch | InvalidUrl string | NoHost
| ClientBuild string | BadHeader string | ReadFile string | WriteFile string
| BadListen string | LoadTls string | SelfSign string | TlsConfig string | TlsInternal | HttpsServer string
| BindFailed string

record curl_libs = service_libs +
  url_host :: "string \<Rightarrow> (string option, string) result"
  read_file :: "string \<Rightarrow> (bytes, string) result"
  write_file :: "string \<Rightarrow> bytes \<Rightarrow> (unit, string) result"
  pem_files_load :: "string \<Rightarrow> string \<Rightarrow> (unit, string) result"
  self_signed :: "string list \<Rightarrow> (string \<times> string, string) result"
  pem_load :: "string \<Rightarrow> string \<Rightarrow> (unit, string) result"

text \<open>The operator \<^verbatim>\<open>?\<close> in a computation that uses the overlay.\<close>

type_synonym ('x, 'n) remote = "(('x, curl_error) result \<times> 'n) option"

definition then_do :: "('x, 'n) remote \<Rightarrow> ('x \<Rightarrow> 'n \<Rightarrow> ('y, 'n) remote) \<Rightarrow> ('y, 'n) remote" where
  "then_do m f =
     (case m of
        None \<Rightarrow> None
      | Some (Inl e, net) \<Rightarrow> Some (Err e, net)
      | Some (Inr x, net) \<Rightarrow> f x net)"

lemma then_do_simps [simp]:
  "then_do None f = None" "then_do (Some (Err e, net)) f = Some (Err e, net)" "then_do (Some (Ok x, net)) f = f x net"
  by (simp_all add: then_do_def)

subsection \<open>Introductions\<close>

definition build_http_client :: "'a service_libs_scheme \<Rightarrow> nat \<Rightarrow> (unit, string) result" where
  "build_http_client L timeout =
     client_build L \<lparr>hc_connect_timeout = None, hc_timeout = timeout, hc_user_agent = None\<rparr>"

type_synonym introduction = "string \<Rightarrow> introduce_request \<Rightarrow> (introduce_response, string) result"

fun try_seeds :: "introduction \<Rightarrow> introduce_request \<Rightarrow> string list \<Rightarrow> (string \<times> string) list" where
  "try_seeds intro body [] = []"
| "try_seeds intro body (seed_url # seeds) =
     (case intro (seed_url @ ''/api/introduce'') body of
        Inl _ \<Rightarrow> try_seeds intro body seeds
      | Inr resp \<Rightarrow>
          (ir_node_id resp, seed_url) # map (\<lambda>nb. (nb_node_id nb, nb_admin_url nb)) (ir_neighbors resp))"

definition bootstrap_peers ::
  "introduction \<Rightarrow> string \<Rightarrow> string list \<Rightarrow> ((string \<times> string) list, curl_error) result" where
  "bootstrap_peers intro self_id seeds =
     (let introduce_body =
            \<lparr>iq_node_id = self_id, iq_admin_url = ''http://zona-curl-ephemeral'', iq_register_peer = False\<rparr>;
          peers = try_seeds intro introduce_body seeds
      in if peers = [] then Err NoBootstrapNode else Ok peers)"

subsection \<open>Relaying\<close>

fun relay_peers :: "'n post \<Rightarrow> relay_request \<Rightarrow> (string \<times> string) list \<Rightarrow> 'n \<Rightarrow> (relay_response, 'n) remote" where
  "relay_peers post req [] net = Some (Err AllPeersFailed, net)"
| "relay_peers post req ((peer_id, peer_url) # peers) net =
     (case post net (relay_endpoint peer_url) req of
        None \<Rightarrow> None
      | Some (Inl _, net) \<Rightarrow> relay_peers post req peers net
      | Some (Inr r, net) \<Rightarrow> Some (Ok r, net))"

definition relay_sync ::
  "'n post \<Rightarrow> (string \<times> string) list \<Rightarrow> string \<Rightarrow> string \<Rightarrow> string \<Rightarrow> 'n \<Rightarrow> (relay_response, 'n) remote" where
  "relay_sync post peers to_id_hex payload self_id net =
     (let relay_req =
            \<lparr>rr_to_id = to_id_hex, rr_text = payload, rr_from_client = self_id, rr_path = [self_id], rr_all_nodes = [],
             rr_return_node_url = None, rr_correlation_id = None\<rparr>
      in relay_peers post relay_req peers net)"

definition unwrap_or_default :: "string option \<Rightarrow> string" where
  "unwrap_or_default x = (case x of None \<Rightarrow> [] | Some s \<Rightarrow> s)"

definition dns_lookup_domain ::
  "'a service_libs_scheme \<Rightarrow> 'n post \<Rightarrow> (string \<times> string) list \<Rightarrow> string \<Rightarrow> string \<Rightarrow> string \<Rightarrow> 'n \<Rightarrow>
     (dns_lookup_response, 'n) remote" where
  "dns_lookup_domain L post peers dns_node domain self_id net =
     (case dns_query_encode L domain of
        Inl e \<Rightarrow> Some (Err (JsonEncode e), net)
      | Inr json \<Rightarrow>
          then_do (relay_sync post peers dns_node (bytes_string DNS_PREFIX @ json) self_id net) (\<lambda>relay net.
            if \<not> rs_delivered relay
            then Some (Err (DnsNotDelivered (rs_path relay) (unwrap_or_default (rs_error relay))), net)
            else case rs_response relay of
                   None \<Rightarrow> Some (Err DnsEmpty, net)
                 | Some text \<Rightarrow> Some (map_sum DnsParse id (dns_response_decode L (trim text)), net)))"

definition validate_hex_node_id :: "'a hex_libs_scheme \<Rightarrow> string \<Rightarrow> (unit, curl_error) result" where
  "validate_hex_node_id L s =
     (case hex_decode L s of
        Inl e \<Rightarrow> Err (BadHex e)
      | Inr b \<Rightarrow> if length b \<noteq> 32 then Err BadIdLength else Ok ())"

text \<open>White space and a byte order mark around the answer of the proxy are removed.\<close>

definition BOM :: string where
  "BOM = bytes_to_string [0xEF, 0xBB, 0xBF]"

definition clean_response :: "string \<Rightarrow> string" where
  "clean_response text =
     (let trimmed = trim text in if take 3 trimmed = BOM then trim (drop 3 trimmed) else trimmed)"

definition fetch_via_proxy ::
  "'a service_libs_scheme \<Rightarrow> 'n post \<Rightarrow> (string \<times> string) list \<Rightarrow> string \<Rightarrow> string \<Rightarrow> string \<Rightarrow>
     (string \<times> string) list \<Rightarrow> string option \<Rightarrow> string \<Rightarrow> 'n \<Rightarrow> (http_proxy_response \<times> bytes, 'n) remote" where
  "fetch_via_proxy L post peers proxy_node method url headers body_b64 self_id net =
     (let proxy_req = \<lparr>hq_method = to_uppercase L method, hq_url = url, hq_headers = headers, hq_body = body_b64\<rparr>
      in case proxy_request_encode L proxy_req of
           Inl e \<Rightarrow> Some (Err (JsonEncode e), net)
         | Inr json \<Rightarrow>
             then_do (relay_sync post peers proxy_node (bytes_string PROXY_PREFIX @ json) self_id net) (\<lambda>relay net.
               Some (if \<not> rs_delivered relay
                     then Err (NotDelivered (rs_path relay) (unwrap_or_default (rs_error relay)))
                     else case rs_response relay of
                            None \<Rightarrow> Err NoProxyResponse
                          | Some text \<Rightarrow>
                              let trimmed = clean_response text
                              in if trimmed = [] then Err EmptyProxyResponse
                                 else case proxy_response_decode L trimmed of
                                        Inl e \<Rightarrow> Err (ProxyParse e)
                                      | Inr resp \<Rightarrow>
                                          (case hp_error resp of
                                             Some err \<Rightarrow> Err (ProxyError (hp_status resp) err)
                                           | None \<Rightarrow>
                                               (case b64_decode L (hp_body resp) of
                                                  Inl e \<Rightarrow> Err (BodyBase64 e)
                                                | Inr body_bytes \<Rightarrow> Ok (resp, body_bytes))),
                     net)))"

subsection \<open>The proxy for a domain\<close>

text \<open>
  The proxy of the command line, or the first of the domain's zone.  The lookup is made, and may fail, also
  when the command line names a proxy.
\<close>

definition choose_proxy ::
  "'a service_libs_scheme \<Rightarrow> 'n post \<Rightarrow> (string \<times> string) list \<Rightarrow> string \<Rightarrow> string option \<Rightarrow> string option \<Rightarrow> string \<Rightarrow>
     'n \<Rightarrow> (string, 'n) remote" where
  "choose_proxy L post peers self_id dns_node proxy_node domain net =
     then_do
       (case dns_node of
          None \<Rightarrow> Some (Ok proxy_node, net)
        | Some dns \<Rightarrow>
            then_do (dns_lookup_domain L post peers dns domain self_id net) (\<lambda>r net.
              Some (Ok (if proxy_node = None \<and> dr_nodes r \<noteq> [] then Some (dr_nodes r ! 0) else proxy_node), net)))
       (\<lambda>proxy_hex net.
          case proxy_hex of
            None \<Rightarrow> Some (Err (NoProxy domain), net)
          | Some proxy \<Rightarrow> Some (map_sum (\<lambda>e. e) (\<lambda>_. proxy) (validate_hex_node_id L proxy), net))"

subsection \<open>The local server\<close>

record serve_state =
  st_peers :: "(string \<times> string) list"
  st_self_id :: string
  st_dns_node :: "string option"
  st_proxy_node :: "string option"
  st_scheme :: string

record http_request =
  rq_method :: string
  rq_uri_host :: "string option"
  rq_path_and_query :: "string option"
  rq_headers :: "(string \<times> bytes) list"

record http_response =
  rp_status :: u16
  rp_headers :: "(string \<times> string) list"
  rp_body :: bytes

datatype served = Response http_response | ErrResponse u16 curl_error

definition host_from_request :: "'a service_libs_scheme \<Rightarrow> (string \<times> bytes) list \<Rightarrow> string option \<Rightarrow> string" where
  "host_from_request L headers uri_host =
     (case Option.bind (map_of headers ''host'') (header_to_str L) of
        Some h \<Rightarrow> hd (split_char (CHR '':'') h)
      | None \<Rightarrow> (case uri_host of Some h \<Rightarrow> h | None \<Rightarrow> ''localhost''))"

definition hop_by_hop :: "string list" where
  "hop_by_hop = [''host'', ''connection'', ''proxy-connection'', ''keep-alive'', ''transfer-encoding'', ''te'', ''upgrade'',
     ''proxy-authorization'']"

definition forward_headers :: "'a service_libs_scheme \<Rightarrow> (string \<times> bytes) list \<Rightarrow> (string \<times> string) list" where
  "forward_headers L headers =
     List.map_filter
       (\<lambda>(k, v). if to_ascii_lowercase k \<in> set hop_by_hop then None else map_option (\<lambda>s. (k, s)) (header_to_str L v)) headers"

definition build_axum_response ::
  "'a service_libs_scheme \<Rightarrow> http_proxy_response \<Rightarrow> bytes \<Rightarrow> (http_response, curl_error) result" where
  "build_axum_response L pr body =
     (let headers = filter (\<lambda>(k, _). to_ascii_lowercase k \<noteq> ''transfer-encoding'') (hp_headers pr)
      in case response_build L (hp_status pr) headers of
           Inl e \<Rightarrow> Err (ResponseBuild e)
         | Inr _ \<Rightarrow> Ok \<lparr>rp_status = hp_status pr, rp_headers = headers, rp_body = body\<rparr>)"

definition upstream_url :: "serve_state \<Rightarrow> string \<Rightarrow> string option \<Rightarrow> string" where
  "upstream_url st domain path_and_query =
     (let pq = (case path_and_query of None \<Rightarrow> ''/'' | Some x \<Rightarrow> x) in st_scheme st @ ''://'' @ domain @ pq)"

definition serve_one_bytes ::
  "'a service_libs_scheme \<Rightarrow> 'n post \<Rightarrow> serve_state \<Rightarrow> string \<Rightarrow> http_request \<Rightarrow> bytes \<Rightarrow> 'n \<Rightarrow> (http_response, 'n) remote" where
  "serve_one_bytes L post st domain req body_bytes net =
     then_do (choose_proxy L post (st_peers st) (st_self_id st) (st_dns_node st) (st_proxy_node st) domain net) (\<lambda>proxy net.
       let url = upstream_url st domain (rq_path_and_query req);
           out_h = forward_headers L (rq_headers req);
           body_b64 = (if body_bytes = [] then None else Some (b64_encode L body_bytes))
       in then_do
            (fetch_via_proxy L post (st_peers st) proxy (rq_method req) url out_h body_b64 (st_self_id st) net)
            (\<lambda>(resp, body_out) net. Some (build_axum_response L resp body_out, net)))"

definition serve_handler ::
  "'a service_libs_scheme \<Rightarrow> 'n post \<Rightarrow> serve_state \<Rightarrow> http_request \<Rightarrow> (bytes, string) result \<Rightarrow> 'n \<Rightarrow> (served \<times> 'n) option" where
  "serve_handler L post st req body net =
     (let host = host_from_request L (rq_headers req) (rq_uri_host req)
      in case body of
           Inl e \<Rightarrow> Some (ErrResponse 400 (ReadBody e), net)
         | Inr body_bytes \<Rightarrow>
             (case serve_one_bytes L post st host req body_bytes net of
                None \<Rightarrow> None
              | Some (Inr resp, net) \<Rightarrow> Some (Response resp, net)
              | Some (Inl e, net) \<Rightarrow> Some (ErrResponse 502 e, net)))"

text \<open>The arguments of \<^verbatim>\<open>serve\<close> that are checked before anything else happens.\<close>

record serve_args =
  sa_listen :: string
  sa_https :: bool
  sa_tls_cert :: "string option"
  sa_tls_key :: "string option"
  sa_tls_san :: "string list"
  sa_nodes :: "string list"
  sa_dns_node :: "string option"
  sa_proxy_node :: "string option"
  sa_scheme :: string
  sa_timeout_ms :: nat

definition validate_option :: "'a hex_libs_scheme \<Rightarrow> string option \<Rightarrow> (unit, curl_error) result" where
  "validate_option L x = (case x of None \<Rightarrow> Ok () | Some s \<Rightarrow> validate_hex_node_id L s)"

text \<open>The first failed check, or the value.\<close>

fun first_error :: "(unit, curl_error) result list \<Rightarrow> ('y, curl_error) result \<Rightarrow> ('y, curl_error) result" where
  "first_error [] r = r"
| "first_error (c # cs) r = (case c of Inl e \<Rightarrow> Err e | Inr _ \<Rightarrow> first_error cs r)"

definition check :: "bool \<Rightarrow> curl_error \<Rightarrow> (unit, curl_error) result" where
  "check ok e = (if ok then Ok () else Err e)"

text \<open>The checks of the arguments, then the client, then the peers.\<close>

definition serve_checks :: "'a hex_libs_scheme \<Rightarrow> serve_args \<Rightarrow> (unit, curl_error) result list" where
  "serve_checks L args =
     [check (sa_scheme args = ''http'' \<or> sa_scheme args = ''https'') BadScheme,
      check (sa_proxy_node args \<noteq> None \<or> sa_dns_node args \<noteq> None) SetProxyOrDns,
      validate_option L (sa_proxy_node args),
      validate_option L (sa_dns_node args),
      check ((sa_tls_cert args = None \<and> sa_tls_key args = None) \<or> sa_https args) TlsWithoutHttps,
      check ((sa_tls_cert args \<noteq> None) = (sa_tls_key args \<noteq> None)) TlsMismatch]"

definition serve_setup ::
  "'a service_libs_scheme \<Rightarrow> introduction \<Rightarrow> string \<Rightarrow> serve_args \<Rightarrow> (serve_state, curl_error) result" where
  "serve_setup L intro self_id args =
     first_error
       (serve_checks L args @ [map_sum ClientBuild id (build_http_client L (sa_timeout_ms args))])
       (map_sum id
          (\<lambda>peers. \<lparr>st_peers = peers, st_self_id = self_id, st_dns_node = sa_dns_node args,
             st_proxy_node = sa_proxy_node args, st_scheme = sa_scheme args\<rparr>)
          (bootstrap_peers intro self_id (sa_nodes args)))"

subsection \<open>Listening\<close>

text \<open>
  Where the certificate comes from: the files that were named, or a new one for the names, given by its
  PEM text and that of its key.
\<close>

datatype tls_config = TlsFiles string string | TlsGenerated "string list" string string

definition rustls_config_for_serve :: "curl_libs \<Rightarrow> serve_args \<Rightarrow> (tls_config, curl_error) result" where
  "rustls_config_for_serve L args =
     (case (sa_tls_cert args, sa_tls_key args) of
        (Some c, Some k) \<Rightarrow> map_sum LoadTls (\<lambda>_. TlsFiles c k) (pem_files_load L c k)
      | (None, None) \<Rightarrow>
          let names = (if sa_tls_san args = [] then [''localhost'', ''127.0.0.1''] else sa_tls_san args)
          in (case self_signed L names of
                Inl e \<Rightarrow> Err (SelfSign e)
              | Inr (cert_pem, key_pem) \<Rightarrow>
                  map_sum TlsConfig (\<lambda>_. TlsGenerated names cert_pem key_pem) (pem_load L cert_pem key_pem))
      | _ \<Rightarrow> Err TlsInternal)"

text \<open>What follows the last colon.\<close>

definition port_part :: "string \<Rightarrow> string option" where
  "port_part listen =
     (if CHR '':'' \<in> set listen then Some (rev (takeWhile (\<lambda>c. c \<noteq> CHR '':'') (rev listen))) else None)"

text \<open>
  The state that is served, the address, the certificate if it is served with TLS, and the port that the
  greeting names.  The parser of addresses and the result of binding one are arguments; the errors of
  an accepted connection end up in the connection.
\<close>

record 'addr serving =
  sv_addr :: 'addr
  sv_tls :: "tls_config option"
  sv_state :: serve_state
  sv_port :: string

definition serve_and_listen ::
  "curl_libs \<Rightarrow> (string \<Rightarrow> 'addr option) \<Rightarrow> ('addr \<Rightarrow> (unit, string) result) \<Rightarrow> introduction \<Rightarrow> string \<Rightarrow> serve_args \<Rightarrow>
     ('addr serving, curl_error) result" where
  "serve_and_listen L parse_addr bind intro self_id args =
     (case serve_setup L intro self_id args of
        Inl e \<Rightarrow> Err e
      | Inr st \<Rightarrow>
          (case parse_addr (sa_listen args) of
             None \<Rightarrow> Err (BadListen (sa_listen args))
           | Some addr \<Rightarrow>
               let port = (case port_part (sa_listen args) of None \<Rightarrow> ''8765'' | Some p \<Rightarrow> p)
               in if sa_https args then
                    (case rustls_config_for_serve L args of
                       Inl e \<Rightarrow> Err e
                     | Inr tls \<Rightarrow>
                         map_sum HttpsServer
                           (\<lambda>_. \<lparr>sv_addr = addr, sv_tls = Some tls, sv_state = st, sv_port = port\<rparr>) (bind addr))
                  else
                    map_sum BindFailed
                      (\<lambda>_. \<lparr>sv_addr = addr, sv_tls = None, sv_state = st, sv_port = port\<rparr>) (bind addr)))"

text \<open>
  \<^verbatim>\<open>main\<close> runs all this inside a \<^verbatim>\<open>tokio\<close> runtime, with \<^verbatim>\<open>block_on\<close>.  Building a blocking client of \<^verbatim>\<open>reqwest\<close>
  there is documented to panic; the crate detects it in builds with debug assertions, which is
  the argument \<open>debug_assertions\<close>, and otherwise blocks the thread.  \<open>None\<close> is the panic: it comes after the checks
  of the arguments and before anything else.
\<close>

definition run_serve ::
  "curl_libs \<Rightarrow> bool \<Rightarrow> (string \<Rightarrow> 'addr option) \<Rightarrow> ('addr \<Rightarrow> (unit, string) result) \<Rightarrow> introduction \<Rightarrow> string \<Rightarrow> serve_args \<Rightarrow>
     ('addr serving, curl_error) result option" where
  "run_serve L debug_assertions parse_addr bind intro self_id args =
     (case first_error (serve_checks L args) (Ok ()) of
        Inl e \<Rightarrow> Some (Err e)
      | Inr _ \<Rightarrow>
          if debug_assertions then None
          else Some (serve_and_listen L parse_addr bind intro self_id args))"

subsection \<open>One request from the command line\<close>

text \<open>What the main function hands to which parser of arguments.\<close>

datatype main_command = RunServe "string list" | RunFetch "string list"

definition curl_main :: "string list \<Rightarrow> main_command" where
  "curl_main args =
     (if 2 \<le> length args \<and> args ! 1 = ''serve'' then RunServe (take 1 args @ drop 2 args)
      else if 2 \<le> length args \<and> args ! 1 \<noteq> ''fetch'' then RunFetch (take 1 args @ ''fetch'' # drop 1 args)
      else RunFetch args)"

record fetch_args =
  fa_url :: string
  fa_nodes :: "string list"
  fa_proxy_node :: "string option"
  fa_dns_node :: "string option"
  fa_method :: string
  fa_headers :: "string list"
  fa_data :: "string option"
  fa_timeout_ms :: nat
  fa_include :: bool
  fa_output :: "string option"

definition split_once_colon :: "string \<Rightarrow> (string \<times> string) option" where
  "split_once_colon s =
     (let name = before_char (CHR '':'') s
      in if length name < length s then Some (name, drop (Suc (length name)) s) else None)"

fun fetch_headers :: "string list \<Rightarrow> ((string \<times> string) list, curl_error) result" where
  "fetch_headers [] = Ok []"
| "fetch_headers (h # hs) =
     (case split_once_colon h of
        None \<Rightarrow> Err (BadHeader h)
      | Some (name, value) \<Rightarrow> map_sum id ((#) (trim name, trim value)) (fetch_headers hs))"

definition fetch_body :: "curl_libs \<Rightarrow> string option \<Rightarrow> (string option, curl_error) result" where
  "fetch_body L data =
     (case data of
        None \<Rightarrow> Ok None
      | Some d \<Rightarrow>
          if d \<noteq> [] \<and> hd d = CHR 0x40 then
            let path = tl d in map_sum ReadFile (\<lambda>bytes. Some (b64_encode L bytes)) (read_file L path)
          else Ok (Some (b64_encode L (string_bytes d))))"

text \<open>What is written to the standard output, and the exit code.\<close>

record fetch_output =
  fo_stdout :: bytes
  fo_exit :: int

definition line :: "string \<Rightarrow> string" where
  "line s = s @ [char_of (10 :: nat)]"

definition status_head :: "http_proxy_response \<Rightarrow> string" where
  "status_head resp =
     line (''HTTP/1.1 '' @ nat_to_string (unat (hp_status resp))) @
     concat (map (\<lambda>(name, value). line (name @ '': '' @ value)) (hp_headers resp)) @ line []"

definition print_fetch_output ::
  "curl_libs \<Rightarrow> fetch_args \<Rightarrow> http_proxy_response \<Rightarrow> bytes \<Rightarrow> (fetch_output, curl_error) result" where
  "print_fetch_output L args resp body_bytes =
     (let head = (if fa_include args then string_bytes (status_head resp) else []);
          exit = (if 400 \<le> hp_status resp then 22 else 0)
      in case fa_output args of
           Some path \<Rightarrow> map_sum WriteFile (\<lambda>_. \<lparr>fo_stdout = head, fo_exit = exit\<rparr>) (write_file L path body_bytes)
         | None \<Rightarrow>
             let newline = (if body_bytes \<noteq> [] \<and> last body_bytes = 10 then [] else [10])
             in Ok \<lparr>fo_stdout = head @ body_bytes @ newline, fo_exit = exit\<rparr>)"

definition fetch_setup ::
  "curl_libs \<Rightarrow> introduction \<Rightarrow> string \<Rightarrow> fetch_args \<Rightarrow> (string \<times> (string \<times> string) list, curl_error) result" where
  "fetch_setup L intro self_id args =
     first_error
       [check (fa_proxy_node args \<noteq> None \<or> fa_dns_node args \<noteq> None) SetProxyOrDns,
        validate_option L (fa_proxy_node args),
        validate_option L (fa_dns_node args)]
       (case url_host L (fa_url args) of
          Inl e \<Rightarrow> Err (InvalidUrl e)
        | Inr None \<Rightarrow> Err NoHost
        | Inr (Some host) \<Rightarrow>
            first_error [map_sum ClientBuild id (build_http_client L (fa_timeout_ms args))]
              (map_sum id (Pair host) (bootstrap_peers intro self_id (fa_nodes args))))"

definition run_fetch ::
  "curl_libs \<Rightarrow> introduction \<Rightarrow> 'n post \<Rightarrow> string \<Rightarrow> fetch_args \<Rightarrow> 'n \<Rightarrow> (fetch_output, 'n) remote" where
  "run_fetch L intro post self_id args net =
     then_do (Some (fetch_setup L intro self_id args, net)) (\<lambda>(host, peers) net.
     then_do (choose_proxy L post peers self_id (fa_dns_node args) (fa_proxy_node args) host net) (\<lambda>proxy net.
     then_do (Some (fetch_headers (fa_headers args), net)) (\<lambda>headers net.
     then_do (Some (fetch_body L (fa_data args), net)) (\<lambda>body net.
     then_do (fetch_via_proxy L post peers proxy (fa_method args) (fa_url args) headers body self_id net)
       (\<lambda>(resp, body_bytes) net. Some (print_fetch_output L args resp body_bytes, net))))))"

subsection \<open>A service answers\<close>

text \<open>
  The peers of the client: some at whose address nobody listens, then one from which next hops lead to
  the server with the identifier.
\<close>

definition reaches ::
  "'a hex_libs_scheme \<Rightarrow> mixed \<Rightarrow> (string \<times> string) list \<Rightarrow> string \<Rightarrow> server_state \<Rightarrow> bool" where
  "reaches L net peers self_id b \<longleftrightarrow>
     (\<exists>gone pid url others ep path.
        peers = gone @ (pid, url) # others \<and> list_all (\<lambda>(_, u). hm_get net (relay_endpoint u) = None) gone \<and>
        route L (roster net) (n_id (rn_node b)) (relay_endpoint url) [self_id] ep path \<and>
        hm_get net ep = Some (AppServer b))"

text \<open>Whom the server takes the packet to be from.\<close>

definition sender :: "'a hex_libs_scheme \<Rightarrow> string \<Rightarrow> node_id" where
  "sender L self_id = (case parse_node_id L self_id of None \<Rightarrow> node_id_ZERO | Some nid \<Rightarrow> nid)"

abbreviation overlay :: "'a hex_libs_scheme \<Rightarrow> url_order \<Rightarrow> mixed \<Rightarrow> mixed post" where
  "overlay L order net \<equiv> mixed_at L order (mixed_fuel L net)"

lemma relay_sync_answered:
  assumes "hex_ok L" "is_order order" "reaches L net peers self_id b"
    "find_handler b (string_bytes payload) = Some h"
    "h_handle h \<lparr>pk_from = sender L self_id, pk_payload = string_bytes payload\<rparr> = Some bs"
  shows "\<exists>path. relay_sync (overlay L order net) peers (id_hex L (n_id (rn_node b))) payload self_id net =
    Some (Ok \<lparr>rs_delivered = True, rs_path = path, rs_error = None, rs_response = Some (from_utf8_lossy bs)\<rparr>, net)"
proof -
  obtain gone pid url others ep path where peers: "peers = gone @ (pid, url) # others"
      "list_all (\<lambda>(_, u). hm_get net (relay_endpoint u) = None) gone"
    and way: "route L (roster net) (n_id (rn_node b)) (relay_endpoint url) [self_id] ep path"
      "hm_get net ep = Some (AppServer b)"
    using assms(3) unfolding reaches_def by blast
  define req where "req = \<lparr>rr_to_id = id_hex L (n_id (rn_node b)), rr_text = payload, rr_from_client = self_id,
    rr_path = [self_id], rr_all_nodes = [], rr_return_node_url = None, rr_correlation_id = None\<rparr>"
  let ?resp = "\<lparr>rs_delivered = True, rs_path = path, rs_error = None, rs_response = Some (from_utf8_lossy bs)\<rparr>"
  obtain f where f: "mixed_fuel L net = Suc f" unfolding mixed_fuel_def by simp
  have "srv_do_relay L order (mixed_at L order f) ep b (req\<lparr>rr_path := path\<rparr>) net =
      srv_deliver L (mixed_at L order f) ep b (req\<lparr>rr_path := path\<rparr>) net"
    by (rule srv_do_relay_to(1) [OF assms(1) _ refl]) (simp add: req_def)
  also have "\<dots> = Some (?resp, net)"
    using assms(4,5) by (simp add: srv_deliver_def pending_call_def req_def srv_delivered_def sender_def Let_def)
  finally have "overlay L order net net ep (req\<lparr>rr_path := path\<rparr>) = Some (Ok ?resp, net)"
    unfolding f using way(2) by simp
  from mixed_at_route [OF way(1) assms(1,2) this]
  have first: "overlay L order net net (relay_endpoint url) req = Some (Ok ?resp, net)" by (simp add: req_def)
  have none: "overlay L order net net (relay_endpoint u) req = Some (Err (http_error L (relay_endpoint u)), net)"
    if "hm_get net (relay_endpoint u) = None" for u
    unfolding f using that by simp
  from peers(2) have "relay_peers (overlay L order net) req (gone @ (pid, url) # others) net = Some (Ok ?resp, net)"
    by (induction gone) (auto simp: first none)
  then show ?thesis unfolding relay_sync_def Let_def req_def [symmetric] peers(1) by blast
qed

text \<open>JSON text of an object survives the conversions on its way.\<close>

lemma lossy_valid: "valid_utf8 bs \<Longrightarrow> from_utf8_lossy bs = bytes_string bs"
  using utf8_lossy_fixed [of bs] by (simp add: from_utf8_lossy_def)

lemma no_word_first:
  assumes "32 < (of_char c :: nat)" "(of_char c :: nat) \<le> 127"
  shows "no_word white_space (c # s)" "no_word (map rev white_space) (c # s)"
proof -
  have "c \<notin> set w" if "w \<in> set white_space" for w using white_space_ascii [OF that, of c] assms by auto
  then show "no_word white_space (c # s)" "no_word (map rev white_space) (c # s)"
    by (auto simp: no_word_def take_Cons' split: if_splits dest: arg_cong [where f = "\<lambda>w. c \<in> set w"])
qed

lemma trim_ascii_ends:
  assumes "s = c # mid" "32 < (of_char c :: nat)" "(of_char c :: nat) \<le> 127"
    "s = front @ [d]" "32 < (of_char d :: nat)" "(of_char d :: nat) \<le> 127"
  shows "trim s = s"
proof -
  have "no_word white_space s" unfolding assms(1) by (rule no_word_first [OF assms(2,3)])
  moreover have "no_word (map rev white_space) (rev s)" unfolding assms(4) rev_append by (simp add: no_word_first [OF assms(5,6)])
  ultimately have "trim_start s = s" "trim_end s = s" by (simp_all only: trim_start_fixed trim_end_fixed)
  then show ?thesis by (simp add: trim_def)
qed

lemma char_of_braces: "char_of (123 :: nat) = CHR ''{''" "char_of (125 :: nat) = CHR ''}''"
  by code_simp+

lemma object_text:
  assumes "json_object bs"
  shows "from_utf8_lossy bs = bytes_string bs" "trim (bytes_string bs) = bytes_string bs"
    "clean_response (bytes_string bs) = bytes_string bs" "bytes_string bs \<noteq> []"
proof -
  obtain mid where bs: "bs = 123 # mid @ [125]" "valid_utf8 bs" using assms unfolding json_object_def by blast
  show "from_utf8_lossy bs = bytes_string bs" by (rule lossy_valid [OF bs(2)])
  let ?s = "bytes_string bs"
  have s: "?s = CHR ''{'' # bytes_string mid @ [CHR ''}'']" by (simp add: bs(1) bytes_string_def char_of_braces)
  show t: "trim ?s = ?s"
    by (rule trim_ascii_ends [of _ "CHR ''{''" _ "CHR ''{'' # bytes_string mid" "CHR ''}''"]) (simp_all add: s)
  have "CHR ''{'' \<noteq> char_of (239 :: nat)" by code_simp
  then have "take 3 ?s \<noteq> BOM" unfolding s by (simp add: BOM_def bytes_to_string_def)
  then show "clean_response ?s = ?s" by (simp add: clean_response_def t)
  show "?s \<noteq> []" by (simp add: s)
qed

text \<open>What a server answers to a text, and the two services by their handlers.\<close>

definition server_answer :: "'a hex_libs_scheme \<Rightarrow> string \<Rightarrow> server_state \<Rightarrow> string \<Rightarrow> string option" where
  "server_answer L self_id b payload =
     (case find_handler b (string_bytes payload) of
        None \<Rightarrow> None
      | Some h \<Rightarrow> map_option from_utf8_lossy (h_handle h \<lparr>pk_from = sender L self_id, pk_payload = string_bytes payload\<rparr>))"

definition is_dns :: "'a service_libs_scheme \<Rightarrow> zone_table \<Rightarrow> server_state \<Rightarrow> bool" where
  "is_dns L zones b \<longleftrightarrow> ss_handlers b = ss_handlers (zona_dns_server L zones [] (keypair_from_seed L (fill32 0)))"

definition is_proxy :: "'a service_libs_scheme \<Rightarrow> nat \<Rightarrow> server_state \<Rightarrow> bool" where
  "is_proxy L timeout b \<longleftrightarrow> ss_handlers b = ss_handlers (proxy_server L timeout [] (keypair_from_seed L (fill32 0)))"

lemma prefix_handler_answer:
  assumes "ss_handlers b = [PrefixHandler_new (string_bytes pre) f]"
  shows "server_answer L self_id b (pre @ t) =
    map_option from_utf8_lossy (f \<lparr>pk_from = sender L self_id, pk_payload = string_bytes pre @ string_bytes t\<rparr>)"
  using assms by (simp add: server_answer_def find_handler_def PrefixHandler_new_def starts_with_def string_bytes_def)

lemma dns_answer:
  assumes "json_ok L" "is_dns L zones b" "utf8_text domain" "dns_text (dns_lookup zones domain)"
    "dns_query_encode L domain = Ok json"
  shows "server_answer L self_id b (bytes_string DNS_PREFIX @ json) =
    Some (bytes_string (dns_response_encode L (dns_lookup zones domain)))"
proof -
  have h: "ss_handlers b = [PrefixHandler_new (string_bytes (bytes_string DNS_PREFIX)) (dns_handler L zones)]"
    using assms(2) by (simp add: is_dns_def zona_dns_server_def server_register_def NodeServer_new_def Let_def)
  have "dns_query_decode L (string_bytes json) = Ok domain"
    using assms(1,3,5) unfolding json_ok_def by (metis sum.inject(2))
  moreover have "json_object (dns_response_encode L (dns_lookup zones domain))"
    using assms(1,4) unfolding json_ok_def by blast
  ultimately show ?thesis
    unfolding prefix_handler_answer [OF h] by (simp add: dns_handler_def slice_from_def object_text(1))
qed

lemma proxy_answer:
  assumes "json_ok L" "is_proxy L timeout b" "request_text req" "response_text (do_upstream_request L timeout req)"
    "proxy_request_encode L req = Ok json"
  shows "server_answer L self_id b (bytes_string PROXY_PREFIX @ json) =
    Some (bytes_string (proxy_response_encode L (do_upstream_request L timeout req)))"
proof -
  have h: "ss_handlers b = [PrefixHandler_new (string_bytes (bytes_string PROXY_PREFIX)) (proxy_handler L timeout)]"
    using assms(2) by (simp add: is_proxy_def proxy_server_def server_register_def NodeServer_new_def Let_def)
  have "proxy_request_decode L (string_bytes json) = Ok req"
    using assms(1,3,5) unfolding json_ok_def by (metis sum.inject(2))
  moreover have "json_object (proxy_response_encode L (do_upstream_request L timeout req))"
    using assms(1,4) unfolding json_ok_def by blast
  ultimately show ?thesis
    unfolding prefix_handler_answer [OF h] by (simp add: proxy_handler_def slice_from_def object_text(1))
qed

text \<open>
  What the client needs of the overlay: a text sent to a service that is ready is answered with what
  the service says, by a delivered response, and nothing else happens.
\<close>

locale overlay_service =
  fixes post :: "'c \<Rightarrow> 'n \<Rightarrow> 'n post"
    and ready :: "'c \<Rightarrow> 'n \<Rightarrow> (string \<times> string) list \<Rightarrow> string \<Rightarrow> string \<Rightarrow> (string \<Rightarrow> string option) \<Rightarrow> bool"
  assumes answered: "ready c net peers self_id to_id answer \<Longrightarrow> answer payload = Some text \<Longrightarrow>
    \<exists>path. relay_sync (post c net) peers to_id payload self_id net =
      Some (Ok \<lparr>rs_delivered = True, rs_path = path, rs_error = None, rs_response = Some text\<rparr>, net)"
begin

lemma dns_lookup_answered:
  assumes "json_ok L" "is_dns L zones b" "utf8_text domain" "dns_text (dns_lookup zones domain)"
    "ready c net peers self_id dns (server_answer L self_id b)"
  shows "dns_lookup_domain L (post c net) peers dns domain self_id net = Some (Ok (dns_lookup zones domain), net)"
proof -
  obtain json where json: "dns_query_encode L domain = Ok json" using assms(1,3) unfolding json_ok_def by blast
  have r: "json_object (dns_response_encode L (dns_lookup zones domain))"
    "dns_response_decode L (bytes_string (dns_response_encode L (dns_lookup zones domain))) = Ok (dns_lookup zones domain)"
    using assms(1,4) unfolding json_ok_def by blast+
  from answered [OF assms(5) dns_answer [OF assms(1-4) json]] show ?thesis
    by (auto simp: dns_lookup_domain_def json object_text(2) [OF r(1)] r(2))
qed

lemma fetch_answered:
  assumes "json_ok L" "is_proxy L timeout b" "req = \<lparr>hq_method = to_uppercase L method, hq_url = url, hq_headers = headers, hq_body = body\<rparr>"
    "request_text req" "response_text (do_upstream_request L timeout req)"
    "ready c net peers self_id proxy (server_answer L self_id b)"
  shows "fetch_via_proxy L (post c net) peers proxy method url headers body self_id net =
    Some (case hp_error (do_upstream_request L timeout req) of
            Some err \<Rightarrow> Err (ProxyError (hp_status (do_upstream_request L timeout req)) err)
          | None \<Rightarrow> map_sum BodyBase64 (Pair (do_upstream_request L timeout req)) (b64_decode L (hp_body (do_upstream_request L timeout req))), net)"
proof -
  let ?r = "do_upstream_request L timeout req"
  obtain json where json: "proxy_request_encode L req = Ok json" using assms(1,4) unfolding json_ok_def by blast
  have r: "json_object (proxy_response_encode L ?r)"
    "proxy_response_decode L (bytes_string (proxy_response_encode L ?r)) = Ok ?r"
    using assms(1,5) unfolding json_ok_def by blast+
  from answered [OF assms(6) proxy_answer [OF assms(1,2,4,5) json]] show ?thesis
    by (auto simp: fetch_via_proxy_def Let_def assms(3) [symmetric] json object_text(3,4) [OF r(1)] r(2)
        split: option.split sum.split)
qed

end

interpretation ov: overlay_service "\<lambda>(L :: 'a hex_libs_scheme, order) net. overlay L order net"
  "\<lambda>(L, order) net peers self_id to_id answer. hex_ok L \<and> is_order order \<and>
     (\<exists>b. reaches L net peers self_id b \<and> to_id = id_hex L (n_id (rn_node b)) \<and> answer = server_answer L self_id b)"
  by unfold_locales
    (auto simp: server_answer_def split: option.splits intro!: relay_sync_answered)

subsection \<open>A browser's request comes back with the answer of the internet\<close>

lemma validate_id_hex: "hex_ok L \<Longrightarrow> validate_hex_node_id L (id_hex L n) = Ok ()"
  by (simp add: validate_hex_node_id_def hex_decode_id)

text \<open>
  The client can reach a proxy: the one it was told, or the first in the domain's zone; and if it was
  told a name server, that one answers too.
\<close>

definition dns_ready ::
  "'a service_libs_scheme \<Rightarrow> mixed \<Rightarrow> (string \<times> string) list \<Rightarrow> string \<Rightarrow> string option \<Rightarrow> zone_table \<Rightarrow> string \<Rightarrow> bool" where
  "dns_ready L net peers self_id dns_node zones domain \<longleftrightarrow>
     (\<forall>dns \<in> set_option dns_node.
        utf8_text domain \<and> dns_text (dns_lookup zones domain) \<and>
        (\<exists>b. reaches L net peers self_id b \<and> dns = id_hex L (n_id (rn_node b)) \<and> is_dns L zones b))"

definition proxy_ready ::
  "'a service_libs_scheme \<Rightarrow> nat \<Rightarrow> mixed \<Rightarrow> (string \<times> string) list \<Rightarrow> string \<Rightarrow> string option \<Rightarrow> string option \<Rightarrow> zone_table \<Rightarrow>
     string \<Rightarrow> bool" where
  "proxy_ready L timeout net peers self_id dns_node proxy_node zones domain \<longleftrightarrow>
     (\<exists>b. reaches L net peers self_id b \<and> is_proxy L timeout b \<and>
        (case proxy_node of
           Some p \<Rightarrow> p = id_hex L (n_id (rn_node b))
         | None \<Rightarrow> dns_node \<noteq> None \<and> (\<exists>ids. dr_nodes (dns_lookup zones domain) = id_hex L (n_id (rn_node b)) # ids)))"

lemma choose_proxy_ready:
  assumes "json_ok L" "hex_ok L" "is_order order" "dns_ready L net peers self_id dns_node zones domain"
    "proxy_ready L timeout net peers self_id dns_node proxy_node zones domain"
  shows "\<exists>b. reaches L net peers self_id b \<and> is_proxy L timeout b \<and>
    choose_proxy L (overlay L order net) peers self_id dns_node proxy_node domain net =
      Some (Ok (id_hex L (n_id (rn_node b))), net)"
proof -
  obtain b where b: "reaches L net peers self_id b" "is_proxy L timeout b" and node: "case proxy_node of
      Some p \<Rightarrow> p = id_hex L (n_id (rn_node b))
    | None \<Rightarrow> dns_node \<noteq> None \<and> (\<exists>ids. dr_nodes (dns_lookup zones domain) = id_hex L (n_id (rn_node b)) # ids)"
    using assms(5) unfolding proxy_ready_def by blast
  have dns: "dns_lookup_domain L (overlay L order net) peers dns domain self_id net = Some (Ok (dns_lookup zones domain), net)"
    if node: "dns_node = Some dns" for dns
  proof -
    obtain d where "reaches L net peers self_id d" "dns = id_hex L (n_id (rn_node d))" "is_dns L zones d"
      "utf8_text domain" "dns_text (dns_lookup zones domain)"
      using assms(4) node unfolding dns_ready_def by auto
    with ov.dns_lookup_answered [OF assms(1), of zones d domain "(L, order)" net peers self_id dns] assms(2,3)
    show ?thesis by auto
  qed
  have "choose_proxy L (overlay L order net) peers self_id dns_node proxy_node domain net =
      Some (Ok (id_hex L (n_id (rn_node b))), net)"
    using node dns validate_id_hex [OF assms(2)]
    by (cases dns_node; cases proxy_node) (auto simp: choose_proxy_def)
  with b show ?thesis by blast
qed

text \<open>What the proxy does with a request it accepts.\<close>

definition internet ::
  "'a service_libs_scheme \<Rightarrow> nat \<Rightarrow> string \<Rightarrow> string \<Rightarrow> (string \<times> string) list \<Rightarrow> bytes option \<Rightarrow> (http_proxy_response \<times> bytes, curl_error) result" where
  "internet L timeout method url headers body =
     (case http_send L (proxy_client timeout) \<lparr>uq_method = method, uq_url = url, uq_headers = headers, uq_body = body\<rparr> of
        Inl e \<Rightarrow> Err (ProxyError 502 (''upstream: '' @ e))
      | Inr resp \<Rightarrow>
          (case ur_bytes resp of
             Inl e \<Rightarrow> Err (ProxyError (ur_status resp) (''read body: '' @ e))
           | Inr bs \<Rightarrow>
               Ok (\<lparr>hp_status = ur_status resp, hp_headers = header_texts L (ur_headers resp), hp_body = b64_encode L bs,
                    hp_error = None\<rparr>, bs)))"

text \<open>The method as the internet sees it, and the texts that make the request and the answer valid JSON.\<close>

definition method_ok :: "'a service_libs_scheme \<Rightarrow> nat \<Rightarrow> string \<Rightarrow> string \<Rightarrow> bool" where
  "method_ok L timeout method m \<longleftrightarrow> method_from_bytes L (to_uppercase L (to_uppercase L method)) = Some m \<and> client_build L (proxy_client timeout) = Ok ()"

definition texts_ok ::
  "'a service_libs_scheme \<Rightarrow> nat \<Rightarrow> string \<Rightarrow> string \<Rightarrow> (string \<times> string) list \<Rightarrow> string option \<Rightarrow> bool" where
  "texts_ok L timeout method url headers body \<longleftrightarrow>
     (let req = \<lparr>hq_method = to_uppercase L method, hq_url = url, hq_headers = headers, hq_body = body\<rparr>
      in request_text req \<and> response_text (do_upstream_request L timeout req))"

lemma fetch_internet:
  assumes "json_ok L" "hex_ok L" "b64_ok L" "is_order order" "reaches L net peers self_id b" "is_proxy L timeout b"
    "method_ok L timeout method m" "texts_ok L timeout method url headers (map_option (b64_encode L) body)"
  shows "fetch_via_proxy L (overlay L order net) peers (id_hex L (n_id (rn_node b))) method url headers
      (map_option (b64_encode L) body) self_id net = Some (internet L timeout m url headers body, net)"
proof -
  let ?req = "\<lparr>hq_method = to_uppercase L method, hq_url = url, hq_headers = headers, hq_body = map_option (b64_encode L) body\<rparr>"
  have "request_text ?req" "response_text (do_upstream_request L timeout ?req)" using assms(8) by (simp_all add: texts_ok_def Let_def)
  from ov.fetch_answered [OF assms(1,6) refl this, of "(L, order)" net peers self_id "id_hex L (n_id (rn_node b))"] assms(2,4,5)
  have "fetch_via_proxy L (overlay L order net) peers (id_hex L (n_id (rn_node b))) method url headers
      (map_option (b64_encode L) body) self_id net =
    Some (case hp_error (do_upstream_request L timeout ?req) of
            Some err \<Rightarrow> Err (ProxyError (hp_status (do_upstream_request L timeout ?req)) err)
          | None \<Rightarrow> map_sum BodyBase64 (Pair (do_upstream_request L timeout ?req)) (b64_decode L (hp_body (do_upstream_request L timeout ?req))), net)"
    by auto
  moreover have "(case body of None \<Rightarrow> Ok None | Some b \<Rightarrow> map_sum (\<lambda>e. e) Some (b64_decode L (b64_encode L b))) = Ok body"
    using assms(3) by (simp add: b64_ok_def split: option.split)
  then have "(case map_option (b64_encode L) body of None \<Rightarrow> Ok None | Some b \<Rightarrow> map_sum (\<lambda>e. e) Some (b64_decode L b)) = Ok body"
    by (cases body) simp_all
  ultimately show ?thesis
    using assms(3,7)
    by (simp add: do_upstream_request_def method_ok_def internet_def make_error_def b64_ok_def split: sum.split)
qed

lemma forward_headers_list:
  "forward_headers L hs = concat (map (\<lambda>(k, v).
       if to_ascii_lowercase k \<in> {''host'', ''connection'', ''proxy-connection'', ''keep-alive'', ''transfer-encoding'', ''te'',
         ''upgrade'', ''proxy-authorization''} then []
       else case header_to_str L v of None \<Rightarrow> [] | Some s \<Rightarrow> [(k, s)]) hs)"
proof -
  have "List.map_filter (\<lambda>(k, v). if to_ascii_lowercase k \<in> H then None else map_option (\<lambda>s. (k, s)) (header_to_str L v)) hs =
      concat (map (\<lambda>(k, v). if to_ascii_lowercase k \<in> H then []
        else case header_to_str L v of None \<Rightarrow> [] | Some s \<Rightarrow> [(k, s)]) hs)" for H
    by (induction hs) (auto simp: List.map_filter_simps split: option.splits if_splits)
  from this [of "set hop_by_hop"] show ?thesis unfolding forward_headers_def hop_by_hop_def list.set .
qed

lemma serve_handler_answered:
  assumes "json_ok L" "hex_ok L" "b64_ok L" "is_order order"
    and "host = host_from_request L (rq_headers req) (rq_uri_host req)"
    and "dns_ready L net (st_peers st) (st_self_id st) (st_dns_node st) zones host"
    and "proxy_ready L timeout net (st_peers st) (st_self_id st) (st_dns_node st) (st_proxy_node st) zones host"
    and "upstream_body = (if body = [] then None else Some body)"
    and "url = st_scheme st @ ''://'' @ host @ (case rq_path_and_query req of None \<Rightarrow> ''/'' | Some pq \<Rightarrow> pq)"
    and "sent = forward_headers L (rq_headers req)"
    and "method_ok L timeout (rq_method req) m" "texts_ok L timeout (rq_method req) url sent (map_option (b64_encode L) upstream_body)"
  shows "serve_handler L (overlay L order net) st req (Ok body) net =
    Some (case http_send L (proxy_client timeout) \<lparr>uq_method = m, uq_url = url, uq_headers = sent, uq_body = upstream_body\<rparr> of
            Inl e \<Rightarrow> ErrResponse 502 (ProxyError 502 (''upstream: '' @ e))
          | Inr resp \<Rightarrow>
              let headers = filter (\<lambda>(k, _). to_ascii_lowercase k \<noteq> ''transfer-encoding'') (header_texts L (ur_headers resp))
              in case ur_bytes resp of
                   Inl e \<Rightarrow> ErrResponse 502 (ProxyError (ur_status resp) (''read body: '' @ e))
                 | Inr bs \<Rightarrow>
                     (case response_build L (ur_status resp) headers of
                        Inl e \<Rightarrow> ErrResponse 502 (ResponseBuild e)
                      | Inr _ \<Rightarrow> Response \<lparr>rp_status = ur_status resp, rp_headers = headers, rp_body = bs\<rparr>), net)"
proof -
  from choose_proxy_ready [OF assms(1,2,4,6,7)] obtain b where
    b: "reaches L net (st_peers st) (st_self_id st) b" "is_proxy L timeout b"
    and choose: "choose_proxy L (overlay L order net) (st_peers st) (st_self_id st) (st_dns_node st) (st_proxy_node st) host net =
      Some (Ok (id_hex L (n_id (rn_node b))), net)" by blast
  have body: "(if body = [] then None else Some (b64_encode L body)) = map_option (b64_encode L) upstream_body"
    using assms(8) by simp
  have url: "upstream_url st host (rq_path_and_query req) = url" by (simp add: upstream_url_def assms(9))
  show ?thesis
    unfolding serve_handler_def serve_one_bytes_def Let_def assms(5) [symmetric] choose then_do_simps body sum.case url assms(10) [symmetric]
      fetch_internet [OF assms(1-4) b assms(11,12)]
    by (simp add: internet_def build_axum_response_def Let_def split: sum.split)
qed

text \<open>
  C10: A request to the local server comes back with the answer of the internet, when the name server (if
  one is set) and the proxy of the domain run and can be reached through however many nodes and after however many
  peers that no longer listen (\<open>dns_ready\<close>, \<open>proxy_ready\<close>), the method is one (\<open>method_ok\<close>) and
  what JSON carries is valid text (\<open>texts_ok\<close>).  Then the upstream server gets the method, the URL with
  the configured scheme, the headers whose values are text without those that concern a single hop, and the body byte
  for byte.  If it answers with a body that can be read and a response can be built, the browser gets its
  status, its body byte for byte, though both bodies pass through text on the way, and its headers except
  \<^verbatim>\<open>transfer-encoding\<close>, each value as text (one that is not text becomes empty); otherwise the
  browser gets a 502 that names the failure.  The overlay is left as it was.
\<close>
theorem serve_end_to_end:
  assumes "json_ok L" "hex_ok L" "b64_ok L" "is_order order"
    and "host = host_from_request L (rq_headers req) (rq_uri_host req)"
    and "dns_ready L net (st_peers st) (st_self_id st) (st_dns_node st) zones host"
    and "proxy_ready L timeout net (st_peers st) (st_self_id st) (st_dns_node st) (st_proxy_node st) zones host"
    and "upstream_body = (if body = [] then None else Some body)"
    and "url = st_scheme st @ ''://'' @ host @ (case rq_path_and_query req of None \<Rightarrow> ''/'' | Some pq \<Rightarrow> pq)"
    and "sent = concat (map (\<lambda>(k, v).
       if to_ascii_lowercase k \<in> {''host'', ''connection'', ''proxy-connection'', ''keep-alive'', ''transfer-encoding'', ''te'',
         ''upgrade'', ''proxy-authorization''} then []
       else case header_to_str L v of None \<Rightarrow> [] | Some s \<Rightarrow> [(k, s)]) (rq_headers req))"
    and "method_ok L timeout (rq_method req) m" "texts_ok L timeout (rq_method req) url sent (map_option (b64_encode L) upstream_body)"
  shows "serve_handler L (overlay L order net) st req (Ok body) net =
    Some (case http_send L (proxy_client timeout) \<lparr>uq_method = m, uq_url = url, uq_headers = sent, uq_body = upstream_body\<rparr> of
            Inl e \<Rightarrow> ErrResponse 502 (ProxyError 502 (''upstream: '' @ e))
          | Inr resp \<Rightarrow>
              let headers = filter (\<lambda>(k, _). to_ascii_lowercase k \<noteq> ''transfer-encoding'') (header_texts L (ur_headers resp))
              in case ur_bytes resp of
                   Inl e \<Rightarrow> ErrResponse 502 (ProxyError (ur_status resp) (''read body: '' @ e))
                 | Inr bs \<Rightarrow>
                     (case response_build L (ur_status resp) headers of
                        Inl e \<Rightarrow> ErrResponse 502 (ResponseBuild e)
                      | Inr _ \<Rightarrow> Response \<lparr>rp_status = ur_status resp, rp_headers = headers, rp_body = bs\<rparr>), net)"
proof -
  have "sent = forward_headers L (rq_headers req)" unfolding assms(10) by (rule forward_headers_list [symmetric])
  from serve_handler_answered [OF assms(1-9) this assms(11,12)] show ?thesis .
qed

text \<open>
  The same from the command line: the bytes that \<^verbatim>\<open>zona-curl\<close> prints are the upstream's body, with a
  newline if it ends without one, and it exits with 22 exactly for a status of 400 and above.
\<close>
theorem fetch_end_to_end:
  assumes "json_ok L" "hex_ok L" "b64_ok L" "is_order order"
    and "fetch_setup L intro self_id args = Ok (host, peers)"
    and "dns_ready L net peers self_id (fa_dns_node args) zones host"
    and "proxy_ready L timeout net peers self_id (fa_dns_node args) (fa_proxy_node args) zones host"
    and "fetch_headers (fa_headers args) = Ok headers" "fa_data args = map_option bytes_string body"
    and "\<forall>b. body = Some b \<longrightarrow> b = [] \<or> hd b \<noteq> 0x40"
    and "method_ok L timeout (fa_method args) m" "texts_ok L timeout (fa_method args) (fa_url args) headers (map_option (b64_encode L) body)"
    and "http_send L (proxy_client timeout) \<lparr>uq_method = m, uq_url = fa_url args, uq_headers = headers, uq_body = body\<rparr> = Ok resp"
    and "ur_bytes resp = Ok bs" "fa_include args = False" "fa_output args = None"
  shows "run_fetch L intro (overlay L order net) self_id args net =
    Some (Ok \<lparr>fo_stdout = bs @ (if bs \<noteq> [] \<and> last bs = 10 then [] else [10]), fo_exit = (if 400 \<le> ur_status resp then 22 else 0)\<rparr>, net)"
proof -
  from choose_proxy_ready [OF assms(1,2,4,6,7)] obtain b where
    b: "reaches L net peers self_id b" "is_proxy L timeout b"
    and choose: "choose_proxy L (overlay L order net) peers self_id (fa_dns_node args) (fa_proxy_node args) host net =
      Some (Ok (id_hex L (n_id (rn_node b))), net)" by blast
  have body: "fetch_body L (fa_data args) = Ok (map_option (b64_encode L) body)"
  proof (cases body)
    case (Some b)
    have "\<not> (bytes_string b \<noteq> [] \<and> hd (bytes_string b) = CHR 0x40)"
    proof
      assume at: "bytes_string b \<noteq> [] \<and> hd (bytes_string b) = CHR 0x40"
      then obtain path where "bytes_string b = CHR 0x40 # path" by (cases "bytes_string b") auto
      then have "b = string_bytes (CHR 0x40 # path)" by (metis string_bytes_inverse)
      then have "b \<noteq> []" "hd b = 0x40" by (simp_all add: string_bytes_def)
      then show False using assms(10) Some by simp
    qed
    then show ?thesis using assms(9) Some by (auto simp: fetch_body_def)
  qed (use assms(9) in \<open>simp add: fetch_body_def\<close>)
  show ?thesis
    unfolding run_fetch_def assms(5,8) body then_do_simps prod.case choose fetch_internet [OF assms(1-4) b assms(11,12)]
    using assms(13-16) by (simp add: internet_def print_fetch_output_def Let_def)
qed

text \<open>The peers are those of the first seed that answers.\<close>

lemma try_seeds_first:
  "try_seeds intro body seeds =
     (case dropWhile (\<lambda>u. \<not> is_ok (intro (u @ ''/api/introduce'') body)) seeds of
        [] \<Rightarrow> []
      | u # _ \<Rightarrow> (case intro (u @ ''/api/introduce'') body of
          Inl _ \<Rightarrow> []
        | Inr resp \<Rightarrow> (ir_node_id resp, u) # map (\<lambda>nb. (nb_node_id nb, nb_admin_url nb)) (ir_neighbors resp)))"
  by (induction seeds) (auto simp: is_ok_def split: sum.split)

lemma first_error_Ok: "first_error cs r = Ok x \<longleftrightarrow> list_all is_ok cs \<and> r = Ok x"
  by (induction cs) (auto simp: is_ok_def split: sum.splits)

lemma first_error_keeps: "\<forall>c \<in> set cs. c \<noteq> Err e \<Longrightarrow> r \<noteq> Err e \<Longrightarrow> first_error cs r \<noteq> Err e"
  by (induction cs) (auto split: sum.splits)

lemma check_ok [simp]: "is_ok (check P e) = P"
  by (simp add: check_def is_ok_def)

lemma serve_setup_Ok:
  assumes "serve_setup L intro self_id args = Ok st"
  shows "sa_scheme args \<in> {''http'', ''https''}" "sa_proxy_node args \<noteq> None \<or> sa_dns_node args \<noteq> None"
    "sa_tls_cert args = None \<and> sa_tls_key args = None \<or> sa_https args \<and> sa_tls_cert args \<noteq> None \<and> sa_tls_key args \<noteq> None"
    "st_self_id st = self_id" "st_dns_node st = sa_dns_node args" "st_proxy_node st = sa_proxy_node args"
    "st_scheme st = sa_scheme args" "bootstrap_peers intro self_id (sa_nodes args) = Ok (st_peers st)"
  using assms unfolding serve_setup_def serve_checks_def first_error_Ok by (auto simp: map_sum_def split: sum.splits)

lemma first_error_append:
  "first_error (cs @ ds) r = (case first_error cs (Ok ()) of Inl e \<Rightarrow> Err e | Inr _ \<Rightarrow> first_error ds r)"
  by (induction cs) (auto split: sum.split)

text \<open>In a build with debug assertions the local server never starts: with arguments that make sense it panics.\<close>

lemma run_serve_eq:
  "run_serve L debug parse_addr bind intro self_id args =
    (if debug \<and> list_all is_ok (serve_checks L args) then None
     else Some (serve_and_listen L parse_addr bind intro self_id args))"
proof (cases "first_error (serve_checks L args) (Ok ())")
  case (Inl e)
  then have "\<not> list_all is_ok (serve_checks L args)" using first_error_Ok [of "serve_checks L args" "Ok ()" "()"] by auto
  then show ?thesis using Inl by (simp add: run_serve_def serve_and_listen_def serve_setup_def first_error_append)
next
  case (Inr u)
  then have "list_all is_ok (serve_checks L args)" using first_error_Ok [of "serve_checks L args" "Ok ()" u] by simp
  then show ?thesis using Inr by (simp add: run_serve_def)
qed

lemma serve_panics_in_debug:
  assumes "list_all is_ok (serve_checks L args)"
  shows "run_serve L True parse_addr bind intro self_id args = None"
  using assms by (simp add: run_serve_eq)

lemma run_serve_started:
  assumes "run_serve L debug parse_addr bind intro self_id args = Some (Ok sv)"
  shows "\<not> debug" "serve_and_listen L parse_addr bind intro self_id args = Ok sv"
    "serve_setup L intro self_id args = Ok (sv_state sv)"
proof -
  show listen: "serve_and_listen L parse_addr bind intro self_id args = Ok sv"
    using assms by (simp add: run_serve_eq split: if_splits)
  then show set_up: "serve_setup L intro self_id args = Ok (sv_state sv)"
    by (auto simp: serve_and_listen_def map_sum_def Let_def split: sum.splits option.splits if_splits)
  then show "\<not> debug" using assms by (auto simp: run_serve_eq serve_setup_def first_error_Ok split: if_splits)
qed

lemma serve_and_listen_spec:
  assumes "serve_and_listen L parse_addr bind intro self_id args = r"
  shows "r \<noteq> Err TlsInternal \<and>
    (\<forall>sv. r = Ok sv \<longrightarrow>
       parse_addr (sa_listen args) = Some (sv_addr sv) \<and> bind (sv_addr sv) = Ok () \<and>
       sa_scheme args \<in> {''http'', ''https''} \<and> (sa_proxy_node args \<noteq> None \<or> sa_dns_node args \<noteq> None) \<and>
       (case sv_tls sv of
          None \<Rightarrow> \<not> sa_https args
        | Some (TlsFiles c k) \<Rightarrow> sa_https args \<and> sa_tls_cert args = Some c \<and> sa_tls_key args = Some k
        | Some (TlsGenerated names _ _) \<Rightarrow>
            sa_https args \<and> sa_tls_cert args = None \<and> sa_tls_key args = None \<and> names \<noteq> [] \<and>
            (sa_tls_san args \<noteq> [] \<longrightarrow> names = sa_tls_san args)) \<and>
       (\<exists>before u after resp. sa_nodes args = before @ u # after \<and> ir_node_id resp = fst (hd (st_peers (sv_state sv))) \<and>
          snd (hd (st_peers (sv_state sv))) = u \<and>
          intro (u @ ''/api/introduce'')
            \<lparr>iq_node_id = self_id, iq_admin_url = ''http://zona-curl-ephemeral'', iq_register_peer = False\<rparr> = Ok resp \<and>
          tl (st_peers (sv_state sv)) = map (\<lambda>nb. (nb_node_id nb, nb_admin_url nb)) (ir_neighbors resp)))"
proof (cases "serve_setup L intro self_id args")
  case (Inl e)
  have parts: "check P e' = Err TlsInternal \<longleftrightarrow> \<not> P \<and> e' = TlsInternal" "validate_option L x \<noteq> Err TlsInternal"
    "map_sum ClientBuild id c \<noteq> Err TlsInternal" for P e' x c
    by (auto simp: check_def validate_option_def validate_hex_node_id_def map_sum_def split: option.split sum.split)
  have "map_sum id f (bootstrap_peers intro self_id (sa_nodes args)) \<noteq> Err TlsInternal" for f :: "_ \<Rightarrow> serve_state"
    by (simp add: bootstrap_peers_def Let_def)
  then have "serve_setup L intro self_id args \<noteq> Err TlsInternal"
    unfolding serve_setup_def serve_checks_def append.simps by (intro first_error_keeps) (simp_all only: list.set ball_simps insert_iff empty_iff parts, simp_all)
  then have "e \<noteq> TlsInternal" using Inl by auto
  then show ?thesis using assms Inl by (auto simp: serve_and_listen_def)
next
  case (Inr st)
  note st = serve_setup_Ok [OF Inr]
  let ?body = "\<lparr>iq_node_id = self_id, iq_admin_url = ''http://zona-curl-ephemeral'', iq_register_peer = False\<rparr>"
  have peers: "st_peers st = try_seeds intro ?body (sa_nodes args)" "st_peers st \<noteq> []"
    using st(8) by (auto simp: bootstrap_peers_def Let_def split: if_splits)
  obtain u after where drop: "dropWhile (\<lambda>u. \<not> is_ok (intro (u @ ''/api/introduce'') ?body)) (sa_nodes args) = u # after"
    using peers unfolding try_seeds_first by (auto split: list.splits)
  note cons = iffD1 [OF dropWhile_eq_Cons_conv drop]
  from cons obtain resp where resp: "intro (u @ ''/api/introduce'') ?body = Ok resp" by (auto simp: is_ok_def split: sum.splits)
  have nodes: "sa_nodes args = takeWhile (\<lambda>u. \<not> is_ok (intro (u @ ''/api/introduce'') ?body)) (sa_nodes args) @ u # after"
    using cons by (rule conjunct1)
  have all: "st_peers st = (ir_node_id resp, u) # map (\<lambda>nb. (nb_node_id nb, nb_admin_url nb)) (ir_neighbors resp)"
    using peers(1) unfolding try_seeds_first drop by (simp add: resp)
  have tls: "rustls_config_for_serve L args \<noteq> Err TlsInternal"
    "rustls_config_for_serve L args = Ok (TlsFiles c k) \<Longrightarrow> sa_tls_cert args = Some c \<and> sa_tls_key args = Some k"
    "rustls_config_for_serve L args = Ok (TlsGenerated names cert key) \<Longrightarrow>
       sa_tls_cert args = None \<and> sa_tls_key args = None \<and> names \<noteq> [] \<and> (sa_tls_san args \<noteq> [] \<longrightarrow> names = sa_tls_san args)"
    if "sa_https args" for c k names cert key
    using st(3) by (auto simp: rustls_config_for_serve_def map_sum_def Let_def split: option.splits sum.splits if_splits)
  have "r \<noteq> Err TlsInternal"
    using assms tls(1) unfolding serve_and_listen_def Inr by (auto simp: map_sum_def Let_def split: option.splits sum.splits if_splits)
  moreover have "parse_addr (sa_listen args) = Some (sv_addr sv) \<and> bind (sv_addr sv) = Ok () \<and> sv_state sv = st \<and>
      (case sv_tls sv of None \<Rightarrow> \<not> sa_https args | Some t \<Rightarrow> sa_https args \<and> rustls_config_for_serve L args = Ok t)"
    if "r = Ok sv" for sv
    using assms that unfolding serve_and_listen_def Inr
    by (auto simp: map_sum_def Let_def split: option.splits sum.splits if_splits)
  moreover have "\<exists>before u after resp. sa_nodes args = before @ u # after \<and> ir_node_id resp = fst (hd (st_peers st)) \<and>
      snd (hd (st_peers st)) = u \<and> intro (u @ ''/api/introduce'') ?body = Ok resp \<and>
      tl (st_peers st) = map (\<lambda>nb. (nb_node_id nb, nb_admin_url nb)) (ir_neighbors resp)"
    using nodes resp by (intro exI [of _ "takeWhile _ _"] exI [of _ u] exI [of _ after] exI [of _ resp]) (simp add: all)
  ultimately show ?thesis
    using st(1,2) tls(2,3) by (auto split: option.splits tls_config.splits)
qed

text \<open>
  A build with debug assertions panics as soon as the arguments make sense.  Otherwise the local server listens only with a configuration that makes sense: a scheme that is http or https, a
  proxy or a name server, TLS exactly if it was asked for, with the files that were named or else with
  a new certificate for the wanted names, and with peers from the first seed that answers.  The branch for a
  certificate without key, marked internal in the code, is never taken.
\<close>
theorem run_serve_spec:
  assumes "run_serve L debug parse_addr bind intro self_id args = Some r"
  shows "(debug \<longrightarrow> \<not> list_all is_ok (serve_checks L args)) \<and> r \<noteq> Err TlsInternal \<and>
    (\<forall>sv. r = Ok sv \<longrightarrow>
       parse_addr (sa_listen args) = Some (sv_addr sv) \<and> bind (sv_addr sv) = Ok () \<and>
       sa_scheme args \<in> {''http'', ''https''} \<and> (sa_proxy_node args \<noteq> None \<or> sa_dns_node args \<noteq> None) \<and>
       (case sv_tls sv of
          None \<Rightarrow> \<not> sa_https args
        | Some (TlsFiles c k) \<Rightarrow> sa_https args \<and> sa_tls_cert args = Some c \<and> sa_tls_key args = Some k
        | Some (TlsGenerated names _ _) \<Rightarrow>
            sa_https args \<and> sa_tls_cert args = None \<and> sa_tls_key args = None \<and> names \<noteq> [] \<and>
            (sa_tls_san args \<noteq> [] \<longrightarrow> names = sa_tls_san args)) \<and>
       (\<exists>before u after resp. sa_nodes args = before @ u # after \<and> ir_node_id resp = fst (hd (st_peers (sv_state sv))) \<and>
          snd (hd (st_peers (sv_state sv))) = u \<and>
          intro (u @ ''/api/introduce'')
            \<lparr>iq_node_id = self_id, iq_admin_url = ''http://zona-curl-ephemeral'', iq_register_peer = False\<rparr> = Ok resp \<and>
          tl (st_peers (sv_state sv)) = map (\<lambda>nb. (nb_node_id nb, nb_admin_url nb)) (ir_neighbors resp)))"
proof -
  have debug: "debug \<longrightarrow> \<not> list_all is_ok (serve_checks L args)" and
    listen: "serve_and_listen L parse_addr bind intro self_id args = r"
    using assms by (simp_all add: run_serve_eq split: if_splits)
  show ?thesis using debug serve_and_listen_spec [OF listen] by blast
qed

text \<open>
  The zone file: what is loaded has normalised names, and every identifier in it is a trimmed,
  lower-case form of 64 characters that decode to 32 bytes.  If no two names of the file
  normalise alike, looking up a name in any spelling gives the valid identifiers of its zone in order,
  and nothing for other names, whatever order the file's map is iterated in.
\<close>
theorem load_zones_spec:
  assumes "is_order order" "yaml_decode L text = Ok loaded" "load_zones L order (Ok text) = Ok zones"
  shows "hm_ok zones \<and> hm_keys zones = (\<lambda>(k, _). normalize_domain k) ` set loaded \<and>
    (\<forall>k ids h. hm_get zones k = Some ids \<longrightarrow> h \<in> set ids \<longrightarrow>
       (\<exists>t. h = to_ascii_lowercase t \<and> trim t = t \<and> length t = 64 \<and> (\<exists>b. hex_decode L t = Ok b \<and> length b = 32))) \<and>
    (distinct (map (normalize_domain \<circ> fst) loaded) \<longrightarrow>
       (\<forall>d. dns_lookup zones d =
          \<lparr>dr_domain = normalize_domain d,
           dr_nodes = (case map_of (map (map_prod normalize_domain (zone_ids L)) loaded) (normalize_domain d) of
                         None \<Rightarrow> [] | Some ids \<Rightarrow> ids)\<rparr>))"
proof -
  define put where "put = (\<lambda>out (k, v). hm_insert (normalize_domain k) (zone_ids L v) out :: zone_table)"
  have zones: "zones = foldl put [] (order loaded)" using assms(2,3) by (simp add: load_zones_def put_def)
  have ok: "hm_ok (foldl put m es)" if "hm_ok m" for m es
    using that by (induction es arbitrary: m) (auto simp: put_def)
  have keys: "hm_keys (foldl put m es) = hm_keys m \<union> (\<lambda>(k, _). normalize_domain k) ` set es" for m es
    by (induction es arbitrary: m) (auto simp: put_def)
  have get: "hm_get (foldl put m es) k =
      (case map_of (rev (map (map_prod normalize_domain (zone_ids L)) es)) k of Some ids \<Rightarrow> Some ids | None \<Rightarrow> hm_get m k)" for m es k
    by (induction es arbitrary: m) (auto simp: put_def map_add_def split: option.split)
  have ids: "\<exists>v. ids = zone_ids L v" if "hm_get zones k = Some ids" for k ids
    using that get [of "[]" "order loaded" k] unfolding zones by (auto dest!: map_of_SomeD split: option.splits)
  have good: "\<exists>t. h = to_ascii_lowercase t \<and> trim t = t \<and> length t = 64 \<and> (\<exists>b. hex_decode L t = Ok b \<and> length b = 32)"
    if "h \<in> set (zone_ids L v)" for h v
  proof -
    from that obtain x where x: "x \<in> set v" "(if length (trim x) \<noteq> 64 then None
        else case hex_decode L (trim x) of Inr b \<Rightarrow> if length b = 32 then Some (to_ascii_lowercase (trim x)) else None
          | Inl _ \<Rightarrow> None) = Some h"
      unfolding zone_ids_def map_filter_set Let_def by blast
    then obtain b where "length (trim x) = 64" "hex_decode L (trim x) = Ok b" "length b = 32" "h = to_ascii_lowercase (trim x)"
      by (auto split: if_splits sum.splits)
    then show ?thesis by (intro exI [of _ "trim x"]) simp
  qed
  have look: "hm_get zones k = map_of (map (map_prod normalize_domain (zone_ids L)) loaded) k"
    if "distinct (map (normalize_domain \<circ> fst) loaded)" for k
  proof -
    let ?f = "map_prod normalize_domain (zone_ids L)"
    have m: "mset (rev (map ?f (order loaded))) = mset (map ?f loaded)" using assms(1) by (simp add: is_order_def)
    have "distinct (map fst (map ?f loaded))" using that by (simp add: comp_def)
    moreover from this have "distinct (map fst (rev (map ?f (order loaded))))"
      using m by (metis mset_eq_imp_distinct_iff mset_map)
    ultimately have "map_of (rev (map ?f (order loaded))) = map_of (map ?f loaded)"
      using m by (metis map_of_eqI mset_eq_setD map_of_inject_set set_map)
    then show ?thesis unfolding zones get by (simp split: option.split)
  qed
  have all: "\<exists>t. h = to_ascii_lowercase t \<and> trim t = t \<and> length t = 64 \<and> (\<exists>b. hex_decode L t = Ok b \<and> length b = 32)"
    if "hm_get zones k = Some ids" "h \<in> set ids" for k ids h
    using ids [OF that(1)] good that(2) by blast
  show ?thesis
    using ok [of "[]" "order loaded"] keys [of "[]" "order loaded"] all look is_orderD(1) [OF assms(1), of loaded]
    by (auto simp: zones [symmetric] dns_lookup_def Let_def)
qed


subsection \<open>Where the code surprises\<close>

text \<open>
  The documentation of \<^verbatim>\<open>--proxy\<close> says that it overrides the name server for every request; but when the
  name server fails, so does the request.
\<close>

lemma override_needs_dns:
  assumes "st_proxy_node st = Some proxy" "st_dns_node st = Some dns"
    and "dns_lookup_domain L post (st_peers st) dns (host_from_request L (rq_headers req) (rq_uri_host req)) (st_self_id st) net =
      Some (Err e, net')"
  shows "serve_handler L post st req (Ok body) net = Some (ErrResponse 502 e, net')"
  using assms by (simp add: serve_handler_def serve_one_bytes_def choose_proxy_def Let_def)

text \<open>A host that is an IPv6 address is cut at its first colon.\<close>

lemma ipv6_host_cut:
  assumes "map_of headers ''host'' = Some v" "header_to_str L v = Some ''[::1]:8765''"
  shows "host_from_request L headers uri_host = ''[''"
  using assms by (simp add: host_from_request_def)

text \<open>
  Without a subcommand the main function inserts the word \<^verbatim>\<open>fetch\<close> before the URL, and with it leaves it
  there; the parser of the arguments takes one positional argument, the URL, and knows no subcommand.
\<close>

lemma fetch_word_before_url:
  "url \<noteq> ''serve'' \<Longrightarrow> url \<noteq> ''fetch'' \<Longrightarrow> curl_main (prog # url # opts) = RunFetch (prog # ''fetch'' # url # opts)"
  "curl_main (prog # ''fetch'' # rest) = RunFetch (prog # ''fetch'' # rest)"
  by (simp_all add: curl_main_def)

text \<open>Two names that normalise alike are not merged: which identifiers stay depends on the order of the map.\<close>

lemma zones_last_wins:
  assumes "yaml_decode L text = Ok [(a, x), (b, y)]" "normalize_domain a = normalize_domain b"
  shows "load_zones L (\<lambda>m. m) (Ok text) = Ok [(normalize_domain a, zone_ids L y)]"
    "load_zones L rev (Ok text) = Ok [(normalize_domain a, zone_ids L x)]"
  using assms by (simp_all add: load_zones_def hm_insert_def)

text \<open>A peer that answers at all is believed: the peers after it are not asked although it did not deliver.\<close>

lemma first_answer_final:
  assumes "post net (relay_endpoint url) req = Some (Ok r, net')"
  shows "relay_peers post req ((pid, url) # peers) net = Some (Ok r, net')"
  using assms by simp

subsection \<open>An instance\<close>

definition demo_wrap :: "(string \<times> string) list \<Rightarrow> bytes" where
  "demo_wrap ps = string_bytes (''{'' @ demo_serialize ps @ ''}'')"

definition demo_unwrap :: "string \<Rightarrow> (string \<times> string) list" where
  "demo_unwrap s = demo_parse [] [] (butlast (tl s))"

definition demo_flag :: "string option \<Rightarrow> string \<times> string" where
  "demo_flag x = (case x of None \<Rightarrow> ([], []) | Some s \<Rightarrow> (''1'', s))"

definition demo_unflag :: "string \<times> string \<Rightarrow> string option" where
  "demo_unflag p = (if fst p = [] then None else Some (snd p))"

text \<open>An internet that answers with the address it was asked for.\<close>

definition demo_curl :: curl_libs where
  "demo_curl = service_libs.extend (app_libs.extend demo_app
     \<lparr>dns_query_encode = Ok, dns_query_decode = (\<lambda>bs. Ok (bytes_string bs)),
      dns_response_encode = (\<lambda>r. demo_wrap ((dr_domain r, []) # map (\<lambda>n. (n, [])) (dr_nodes r))),
      dns_response_decode = (\<lambda>s. case demo_unwrap s of [] \<Rightarrow> Err ''empty'' | (d, _) # ns \<Rightarrow> Ok \<lparr>dr_domain = d, dr_nodes = map fst ns\<rparr>),
      proxy_request_encode = (\<lambda>r. Ok (demo_serialize ((hq_method r, hq_url r) # demo_flag (hq_body r) # hq_headers r))),
      proxy_request_decode = (\<lambda>bs. case demo_parse [] [] (bytes_string bs) of
          (m, u) # b # hs \<Rightarrow> Ok \<lparr>hq_method = m, hq_url = u, hq_headers = hs, hq_body = demo_unflag b\<rparr> | _ \<Rightarrow> Err ''bad''),
      proxy_response_encode = (\<lambda>r. demo_wrap ((nat_to_string (unat (hp_status r)), hp_body r) # demo_flag (hp_error r) # hp_headers r)),
      proxy_response_decode = (\<lambda>s. case demo_unwrap s of
          (n, b) # e # hs \<Rightarrow> (case parse_usize n of Some k \<Rightarrow>
            Ok \<lparr>hp_status = word_of_nat k, hp_headers = hs, hp_body = b, hp_error = demo_unflag e\<rparr> | None \<Rightarrow> Err ''bad'')
        | _ \<Rightarrow> Err ''bad''),
      to_uppercase = to_ascii_uppercase, method_from_bytes = Some, client_build = (\<lambda>_. Ok ()),
      http_send = (\<lambda>_ q. Ok \<lparr>ur_status = 200, ur_headers = [], ur_bytes = Ok (string_bytes (uq_url q))\<rparr>),
      header_to_str = (\<lambda>v. Some (bytes_string v)),
      yaml_decode = (\<lambda>s. Ok [(s, [])]), response_build = (\<lambda>_ _. Ok ())\<rparr>)
     \<lparr>url_host = (\<lambda>u. Ok (Some (drop 7 u))), read_file = (\<lambda>_. Err ''no file''), write_file = (\<lambda>_ _. Ok ()), pem_files_load = (\<lambda>_ _. Ok ()),
      self_signed = (\<lambda>_. Ok (''cert'', ''key'')), pem_load = (\<lambda>_ _. Ok ())\<rparr>"

lemma demo_curl_ok: "hex_ok demo_curl" "b64_ok demo_curl"
  using demo_app_ok
  by (simp_all add: hex_ok_def b64_ok_def demo_curl_def app_libs.defs service_libs.defs)

lemma demo_wrap_object: "json_object (demo_wrap ps)" "demo_unwrap (bytes_string (demo_wrap ps)) = ps"
proof -
  have bytes: "demo_wrap ps = 123 # string_bytes (demo_serialize ps) @ [125]"
    by (simp add: demo_wrap_def string_bytes_def)
  have "valid_utf8 (123 # string_bytes (demo_serialize ps) @ [125])"
    using demo_serialize_ascii [of ps] by (intro ascii_valid) (simp add: list_all_iff)
  then show "json_object (demo_wrap ps)" unfolding json_object_def bytes by blast
  have "bytes_string (demo_wrap ps) = ''{'' @ demo_serialize ps @ ''}''" by (simp only: demo_wrap_def bytes_string_inverse)
  then show "demo_unwrap (bytes_string (demo_wrap ps)) = ps"
    by (simp add: demo_unwrap_def demo_parse_serialize butlast_append)
qed

lemma demo_flag_unflag: "demo_unflag (demo_flag x) = x"
  by (cases x) (simp_all add: demo_flag_def demo_unflag_def)

lemma demo_status: "parse_usize (nat_to_string (unat (s :: u16))) = Some (unat s)"
proof -
  have "unat s < 2 ^ 16" by (rule order_less_le_trans [OF unsigned_less]) simp
  then show ?thesis by (intro parse_nat_to_string) (simp add: usize_max_def)
qed

lemma demo_json_ok: "json_ok demo_curl"
  using demo_serialize_ascii [THEN ascii_valid]
  by (auto simp: json_ok_def demo_curl_def app_libs.defs service_libs.defs demo_wrap_object demo_parse_serialize demo_flag_unflag
      demo_status utf8_text_def comp_def)

text \<open>A name server that knows its neighbour, the proxy.\<close>

definition demo_zones :: zone_table where
  "demo_zones = [(''x.org'', [id_hex demo_curl (idn 4)])]"

definition demo_dns_srv :: server_state where
  "demo_dns_srv = demo_srv_a\<lparr>ss_handlers := [PrefixHandler_new DNS_PREFIX (dns_handler demo_curl demo_zones)]\<rparr>"

definition demo_proxy_srv :: server_state where
  "demo_proxy_srv = demo_srv_b\<lparr>ss_handlers := [PrefixHandler_new PROXY_PREFIX (proxy_handler demo_curl 30000)]\<rparr>"

definition demo_overlay :: mixed where
  "demo_overlay = [(''http://a/api/relay'', AppServer demo_dns_srv), (''http://b/api/relay'', AppServer demo_proxy_srv)]"

definition demo_peers :: "(string \<times> string) list" where
  "demo_peers = [(''gone'', ''http://c''), (''a'', ''http://a'')]"

lemma demo_services:
  "n_id (rn_node demo_dns_srv) = idn 8" "n_id (rn_node demo_proxy_srv) = idn 4"
  "is_dns demo_curl demo_zones demo_dns_srv" "is_proxy demo_curl 30000 demo_proxy_srv"
  using demo_mixed_get(3,4)
  by (simp_all add: demo_dns_srv_def demo_proxy_srv_def is_dns_def is_proxy_def zona_dns_server_def proxy_server_def
      server_register_def NodeServer_new_def Let_def)

text \<open>A server that knows the URL of another, and a client that knows the URL of the first.\<close>

lemma pair_reaches:
  assumes "rn_node a = demo_peer_node" "rn_peer_urls a = [(idn 4, ''http://b'')]" "n_id (rn_node b) = idn 4"
    "net = [(''http://a/api/relay'', AppServer a), (''http://b/api/relay'', AppServer b)]" "id_hex L (idn 4) \<noteq> ''me''"
  shows "reaches L net demo_peers ''me'' a" "reaches L net demo_peers ''me'' b"
proof -
  have get: "hm_get net (relay_endpoint ''http://c'') = None" "hm_get net (relay_endpoint ''http://a'') = Some (AppServer a)"
    "hm_get net (relay_endpoint ''http://b'') = Some (AppServer b)"
    by (simp_all add: assms(4) hm_get_def relay_endpoint_def)
  have peers: "demo_peers = [(''gone'', ''http://c'')] @ (''a'', ''http://a'') # []"
    "list_all (\<lambda>(_, u). hm_get net (relay_endpoint u) = None) [(''gone'', ''http://c'')]"
    by (simp_all add: demo_peers_def get)
  show "reaches L net demo_peers ''me'' a"
    unfolding reaches_def using peers route_here get(2) by blast
  have "map_of (roster net) (relay_endpoint ''http://a'') = Some (base_of (AppServer a))"
    by (simp add: roster_get get)
  moreover have "next_hop (idn 8) (idn 4) (n_table (rn_node (base_of (AppServer a)))) = Forward (idn 4)"
    "hm_get (rn_peer_urls (base_of (AppServer a))) (idn 4) = Some ''http://b''"
    "n_id (rn_node (base_of (AppServer a))) = idn 8"
    using demo_net_get(6,7) by (simp_all add: assms(1,2) demo_admin_a_def hm_get_def)
  ultimately have "route L (roster net) (idn 4) (relay_endpoint ''http://a'') [''me''] (relay_endpoint ''http://b'')
      ([''me''] @ [id_hex L (idn 4)])"
    using assms(5) by (intro route_hop [OF _ _ _ _ _ route_here]) (auto simp: fill32_inject)
  then show "reaches L net demo_peers ''me'' b"
    unfolding reaches_def assms(3) using peers get(3) by blast
qed

lemma demo_reaches:
  "reaches demo_curl demo_overlay demo_peers ''me'' demo_dns_srv" "reaches demo_curl demo_overlay demo_peers ''me'' demo_proxy_srv"
proof -
  have not_me: "id_hex demo_curl (idn 4) \<noteq> ''me''"
  proof
    assume "id_hex demo_curl (idn 4) = ''me''"
    then have "hex_decode demo_curl ''me'' = Ok (bytes_of (node_bytes (idn 4)))"
      using hex_decode_id [OF demo_curl_ok(1), of "idn 4"] by simp
    then have "length (string_bytes ''me'') = length (bytes_of (node_bytes (idn 4)))"
      by (simp add: demo_curl_def demo_app_def demo_hex_def app_libs.defs service_libs.defs hex_libs.defs libs.defs string_bytes_def
          del: length_bytes_of)
    then show False by (simp add: string_bytes_def)
  qed
  have a: "rn_node demo_dns_srv = demo_peer_node" "rn_peer_urls demo_dns_srv = [(idn 4, ''http://b'')]"
    by (simp_all add: demo_dns_srv_def demo_srv_a_def)
  show "reaches demo_curl demo_overlay demo_peers ''me'' demo_dns_srv" "reaches demo_curl demo_overlay demo_peers ''me'' demo_proxy_srv"
    using pair_reaches [OF a demo_services(2) demo_overlay_def not_me] by simp_all
qed

definition demo_serve :: serve_state where
  "demo_serve = \<lparr>st_peers = demo_peers, st_self_id = ''me'', st_dns_node = Some (id_hex demo_curl (idn 8)), st_proxy_node = None,
     st_scheme = ''http''\<rparr>"

definition demo_request :: http_request where
  "demo_request = \<lparr>rq_method = ''GET'', rq_uri_host = Some ''x.org'', rq_path_and_query = Some ''/p'', rq_headers = []\<rparr>"

lemma utf8_text_ascii: "list_all (\<lambda>c. (of_char c :: nat) < 128) s \<Longrightarrow> utf8_text s"
  unfolding utf8_text_def
  by (rule ascii_valid) (auto simp: string_bytes_def list_all_iff word_less_nat_alt unsigned_of_nat take_bit_nat_eq_self)

lemma demo_domain: "normalize_domain ''x.org'' = ''x.org''"
proof -
  have "trim ''x.org'' = ''x.org''"
    by (rule trim_ascii_ends [of _ "CHR ''x''" "''.org''" "''x.or''" "CHR ''g''"]) simp_all
  then show ?thesis by (simp add: normalize_domain_def) code_simp
qed

lemma demo_dns_ready: "dns_ready demo_curl demo_overlay demo_peers ''me'' (Some (id_hex demo_curl (idn 8))) demo_zones ''x.org''"
proof -
  have "string_bytes (id_hex demo_curl (idn 4)) = bytes_of (fill32 4)"
    using hex_decode_id [OF demo_curl_ok(1), of "idn 4"]
    by (simp add: demo_curl_def demo_app_def demo_hex_def app_libs.defs service_libs.defs hex_libs.defs libs.defs string_bytes_def)
  then have "utf8_text (id_hex demo_curl (idn 4))"
    unfolding utf8_text_def by (simp add: ascii_valid bytes_of_fill32 list_all_iff)
  then have "dns_text (dns_lookup demo_zones ''x.org'')"
    by (simp add: dns_text_def dns_lookup_def demo_domain demo_zones_def hm_get_def utf8_text_ascii Let_def)
  then show ?thesis
    unfolding dns_ready_def using demo_reaches(1) demo_services(1,3) by (auto simp: utf8_text_ascii)
qed

lemma demo_proxy_ready:
  "proxy_ready demo_curl 30000 demo_overlay demo_peers ''me'' (Some (id_hex demo_curl (idn 8))) None demo_zones ''x.org''"
  unfolding proxy_ready_def
  by (intro exI [of _ demo_proxy_srv])
    (simp add: demo_reaches(2) demo_services dns_lookup_def demo_domain demo_zones_def hm_get_def Let_def)

lemma demo_method: "method_ok demo_curl 30000 ''GET'' ''GET''"
proof -
  have "to_ascii_uppercase ''GET'' = ''GET''" by code_simp
  then show ?thesis by (simp add: method_ok_def demo_curl_def app_libs.defs service_libs.defs)
qed

lemma demo_texts: "list_all (\<lambda>c. (of_char c :: nat) < 128) url \<Longrightarrow> texts_ok demo_curl 30000 ''GET'' url [] None"
proof -
  assume url: "list_all (\<lambda>c. (of_char c :: nat) < 128) url"
  have "to_ascii_uppercase ''GET'' = ''GET''" by code_simp
  then show ?thesis
    using url by (simp add: texts_ok_def request_text_def response_text_def headers_text_def do_upstream_request_def
        header_texts_def utf8_text_ascii demo_curl_def demo_app_def demo_hex_def app_libs.defs service_libs.defs hex_libs.defs
        Let_def)
qed

theorem serve_end_to_end_witness:
  "serve_handler demo_curl (overlay demo_curl rev demo_overlay) demo_serve demo_request (Ok []) demo_overlay =
     Some (Response \<lparr>rp_status = 200, rp_headers = [], rp_body = string_bytes ''http://x.org/p''\<rparr>, demo_overlay)"
proof -
  have host: "''x.org'' = host_from_request demo_curl (rq_headers demo_request) (rq_uri_host demo_request)"
    by (simp add: host_from_request_def demo_request_def)
  have st: "st_peers demo_serve = demo_peers" "st_self_id demo_serve = ''me''" "st_dns_node demo_serve = Some (id_hex demo_curl (idn 8))"
    "st_proxy_node demo_serve = None" "rq_method demo_request = ''GET''" "st_scheme demo_serve = ''http''"
    "rq_path_and_query demo_request = Some ''/p''" "rq_headers demo_request = []" by (simp_all add: demo_serve_def demo_request_def)
  have "texts_ok demo_curl 30000 ''GET'' ''http://x.org/p'' [] (map_option (b64_encode demo_curl) None)" by (simp add: demo_texts)
  then show ?thesis
    using serve_end_to_end [OF demo_json_ok demo_curl_ok is_order_id(2) host demo_dns_ready [folded st]
        demo_proxy_ready [folded st] refl, of "''http://x.org/p''" "[]" "''GET''" "[]"] demo_method
    unfolding st by (simp add: demo_curl_def header_texts_def app_libs.defs service_libs.defs Let_def)
qed

definition demo_fetch :: fetch_args where
  "demo_fetch = \<lparr>fa_url = ''http://x.org'', fa_nodes = [''http://c''], fa_proxy_node = None, fa_dns_node = Some (id_hex demo_curl (idn 8)),
     fa_method = ''GET'', fa_headers = [], fa_data = None, fa_timeout_ms = 60000, fa_include = False, fa_output = None\<rparr>"

definition demo_introduction :: introduction where
  "demo_introduction = (\<lambda>_ _. Ok \<lparr>ir_node_id = ''gone'', ir_neighbors = [\<lparr>nb_node_id = ''a'', nb_admin_url = ''http://a''\<rparr>]\<rparr>)"

theorem fetch_end_to_end_witness:
  "run_fetch demo_curl demo_introduction (overlay demo_curl rev demo_overlay) ''me'' demo_fetch demo_overlay =
     Some (Ok \<lparr>fo_stdout = string_bytes ''http://x.org'' @ [10], fo_exit = 0\<rparr>, demo_overlay)"
proof -
  have curl: "url_host demo_curl ''http://x.org'' = Ok (Some ''x.org'')" "build_http_client demo_curl t = Ok ()" for t
    by (simp_all add: build_http_client_def demo_curl_def app_libs.defs service_libs.defs)
  have start: "fetch_setup demo_curl demo_introduction ''me'' demo_fetch = Ok (''x.org'', demo_peers)"
    by (simp add: fetch_setup_def demo_fetch_def check_def validate_option_def validate_id_hex [OF demo_curl_ok(1)] curl
        bootstrap_peers_def demo_introduction_def demo_peers_def)
  have args: "fa_dns_node demo_fetch = Some (id_hex demo_curl (idn 8))" "fa_proxy_node demo_fetch = None" "fa_method demo_fetch = ''GET''"
    "fa_url demo_fetch = ''http://x.org''" "fetch_headers (fa_headers demo_fetch) = Ok []"
    "fa_data demo_fetch = map_option bytes_string None" "fa_include demo_fetch = False" "fa_output demo_fetch = None"
    by (simp_all add: demo_fetch_def)
  have texts: "texts_ok demo_curl 30000 ''GET'' ''http://x.org'' [] (map_option (b64_encode demo_curl) None)" by (simp add: demo_texts)
  have send: "http_send demo_curl (proxy_client 30000) \<lparr>uq_method = ''GET'', uq_url = ''http://x.org'', uq_headers = [], uq_body = None\<rparr> =
      Ok \<lparr>ur_status = 200, ur_headers = [], ur_bytes = Ok (string_bytes ''http://x.org'')\<rparr>"
    by (simp add: demo_curl_def app_libs.defs service_libs.defs)
  have ready: "dns_ready demo_curl demo_overlay demo_peers ''me'' (fa_dns_node demo_fetch) demo_zones ''x.org''"
    "proxy_ready demo_curl 30000 demo_overlay demo_peers ''me'' (fa_dns_node demo_fetch) (fa_proxy_node demo_fetch) demo_zones ''x.org''"
    unfolding args(1,2) by (rule demo_dns_ready, rule demo_proxy_ready)
  have "run_fetch demo_curl demo_introduction (overlay demo_curl rev demo_overlay) ''me'' demo_fetch demo_overlay =
      Some (Ok \<lparr>fo_stdout = string_bytes ''http://x.org'' @ (if string_bytes ''http://x.org'' \<noteq> [] \<and> last (string_bytes ''http://x.org'') = 10
        then [] else [10]), fo_exit = 0\<rparr>, demo_overlay)"
    using fetch_end_to_end [OF demo_json_ok demo_curl_ok is_order_id(2) start ready args(5,6) _ _ _ _ _ args(7,8),
        of "''GET''" _ "string_bytes ''http://x.org''"] demo_method texts send
    unfolding args(3,4) by simp
  then show ?thesis by (simp add: string_bytes_def)
qed

theorem load_zones_spec_witness:
  "\<exists>zones. load_zones demo_curl rev (Ok ''x.org'') = Ok zones \<and> dr_nodes (dns_lookup zones ''x.org'') = [] \<and> hm_keys zones = {''x.org''}"
proof -
  have yaml: "yaml_decode demo_curl ''x.org'' = Ok [(''x.org'', [])]" by (simp add: demo_curl_def app_libs.defs service_libs.defs)
  obtain zones where zones: "load_zones demo_curl rev (Ok ''x.org'') = Ok zones" by (simp add: load_zones_def yaml)
  from load_zones_spec [OF is_order_id(2) yaml this] zones show ?thesis by (simp add: demo_domain zone_ids_def List.map_filter_simps)
qed

end
