(* ===== verification/Console.thy ===== *)
theory Console
  imports Relay Rust_Text F64
begin

section \<open>The interactive console\<close>

text \<open>
  \<^verbatim>\<open>zona-p2p-client\<close>: the trait \<^verbatim>\<open>AdminBackend\<close> that hides a network from the console, here a record of
  operations on a state, and the read-evaluate loop of \<^verbatim>\<open>interactive.rs\<close>.  What a command prints is a value of
  the datatype \<open>shown\<close> that carries the printed data; colours, column widths, the numbers of decimals and the
  measured times are left out.  A slice of a string off the character boundaries panics, which is
  the result \<open>None\<close>.  The Unicode lower-case table and the parser of floating-point numbers are
  parameters; numbers are finite, so the texts for infinities and NaN are outside of the model.
\<close>

subsection \<open>Data\<close>

record node_info =
  ni_id :: string
  ni_index :: nat
  ni_alive :: bool
  ni_healthy :: bool
  ni_slots :: nat

record network_stats =
  ns_node_count :: nat
  ns_healthy :: nat
  ns_avg_slots :: rat
  ns_drop_prob :: rat
  ns_ticks :: u64
  ns_mode :: string

record peer_slot =
  pl_kind :: string
  pl_peer_id :: string
  pl_peer_idx :: string
  pl_loss :: f32
  pl_referrer :: string

record 's admin_backend =
  ab_mode_name :: string
  ab_node_list :: "'s \<Rightarrow> node_info list option"
  ab_stats :: "'s \<Rightarrow> network_stats"
  ab_peer_table :: "'s \<Rightarrow> string \<Rightarrow> peer_slot list option"
  ab_step :: "nat \<Rightarrow> 's \<Rightarrow> 's"
  ab_drop_probability :: "'s \<Rightarrow> rat"
  ab_set_drop_probability :: "rat \<Rightarrow> 's \<Rightarrow> 's"
  ab_inbox :: "'s \<Rightarrow> inbox_entry list"
  ab_rpc :: "'s \<Rightarrow> string \<Rightarrow> bytes \<Rightarrow> nat \<Rightarrow> (bytes, string) result \<times> 's"

record console_libs = hex_libs +
  to_lowercase :: "string \<Rightarrow> string"
  parse_f64 :: "string \<Rightarrow> rat option"

definition is_ascii :: "string \<Rightarrow> bool" where
  "is_ascii s \<longleftrightarrow> list_all (\<lambda>c. (of_char c :: nat) < 128) s"

definition lower_ok :: "'a console_libs_scheme \<Rightarrow> bool" where
  "lower_ok L \<longleftrightarrow> (\<forall>s. is_ascii s \<longrightarrow> to_lowercase L s = to_ascii_lowercase s)"

text \<open>The average both backends report: a sum of doubles, divided by the number of live nodes.\<close>

definition avg_of :: "nat list \<Rightarrow> nat \<Rightarrow> rat" where
  "avg_of slots alive =
     (if alive = 0 then 0
      else f64_div (foldl f64_add 0 (map f64_of_nat slots)) (f64_of_nat alive))"

lemma sum_f64:
  assumes "a + sum_list ns < 2 ^ 53"
  shows "foldl f64_add (of_nat a) (map f64_of_nat ns) = of_nat (a + sum_list ns)"
  using assms
proof (induction ns arbitrary: a)
  case (Cons n ns)
  have "f64_add (of_nat a) (f64_of_nat n) = of_nat (a + n)"
    using Cons.prems f64_round_nat [of n] f64_round_nat [of "a + n"] by (simp add: f64_add_def f64_of_nat_def)
  then show ?case using Cons.IH [of "a + n"] Cons.prems by (simp add: add.assoc)
qed simp

lemma avg_of_bounds:
  assumes "list_all (\<lambda>n. n \<le> k) slots" "length slots \<le> alive" "k * alive < 2 ^ 53" "0 < k"
  shows "0 \<le> avg_of slots alive \<and> avg_of slots alive \<le> of_nat k"
proof (cases "alive = 0")
  case False
  have "sum_list slots \<le> k * length slots"
    using assms(1) by (induction slots) auto
  then have sum: "sum_list slots \<le> k * alive" using assms(2) by (meson le_trans mult_le_mono2)
  then have "foldl f64_add 0 (map f64_of_nat slots) = of_nat (sum_list slots)"
    using sum_f64 [of 0 slots] assms(3) by simp
  moreover have "alive \<le> k * alive" using assms(4) by simp
  then have "alive < 2 ^ 53" using assms(3) by linarith
  then have "f64_of_nat alive = of_nat alive" using f64_round_nat by (simp add: f64_of_nat_def)
  moreover have "of_nat (sum_list slots) / of_nat alive \<le> (of_nat k :: rat)"
    using sum False by (simp add: divide_le_eq) (metis of_nat_le_iff of_nat_mult)
  moreover have "k < 2 ^ 53" using assms(3) False by (cases alive) auto
  ultimately show ?thesis
    using False by (simp add: avg_of_def f64_div_def f64_round_le_nat f64_round_nonneg)
qed (simp add: avg_of_def)

lemma id_hex_inject: "hex_ok L \<Longrightarrow> id_hex L a = id_hex L b \<longleftrightarrow> a = b"
  using hex_decode_id [of L a] hex_decode_id [of L b] by (metis bytes_of_inject Inr_inject node_id.expand)

definition parse_u16 :: "string \<Rightarrow> u16 option" where
  "parse_u16 s = (case parse_usize s of Some n \<Rightarrow> if n < 65536 then Some (word_of_nat n) else None | None \<Rightarrow> None)"

subsection \<open>Splitting a line\<close>

text \<open>\<^verbatim>\<open>str::splitn\<close> with a character, \<^verbatim>\<open>join\<close> with a character and \<^verbatim>\<open>is_char_boundary\<close>.\<close>

fun splitn_char :: "nat \<Rightarrow> char \<Rightarrow> string \<Rightarrow> string list" where
  "splitn_char 0 c s = []"
| "splitn_char (Suc 0) c s = [s]"
| "splitn_char (Suc (Suc n)) c s =
     (if c \<in> set s
      then before_char c s # splitn_char (Suc n) c (drop (Suc (length (before_char c s))) s)
      else [s])"

fun join_char :: "char \<Rightarrow> string list \<Rightarrow> string" where
  "join_char c [] = []"
| "join_char c [s] = s"
| "join_char c (s # ss) = s @ c # join_char c ss"

definition is_char_boundary :: "string \<Rightarrow> nat \<Rightarrow> bool" where
  "is_char_boundary s i \<longleftrightarrow>
     i = 0 \<or> i = length s \<or> (i < length s \<and> ((of_char (s ! i) :: nat) < 0x80 \<or> 0xC0 \<le> (of_char (s ! i) :: nat)))"

definition str_starts_with :: "string \<Rightarrow> string \<Rightarrow> bool" where
  "str_starts_with s p \<longleftrightarrow> take (length p) s = p"

subsection \<open>Commands\<close>

datatype shown =
    ShowBanner string string
  | ShowHelp "(string \<times> string) list"
  | ShowNodes "node_info list"
  | ShowStats network_stats
  | ShowPeers "peer_slot list"
  | ShowNodeNotFound string
  | ShowUsage string
  | ShowPing string
  | ShowPong string
  | ShowRpc string string
  | ShowResponse string
  | ShowError string
  | ShowInbox string "inbox_entry list"
  | ShowStepped nat
  | ShowDropSet rat
  | ShowDrop rat
  | ShowUnknown string
  | ShowBye

text \<open>The three bytes of an ellipsis in UTF-8, after the first eight bytes of a full identifier.\<close>

definition ellipsis :: string where
  "ellipsis = map char_of [0xE2, 0x80, 0xA6 :: nat]"

definition cmd_display :: "string \<Rightarrow> string option" where
  "cmd_display to =
     (if length to = 64 then if is_char_boundary to 8 then Some (take 8 to @ ellipsis) else None
      else Some to)"

definition cmd_help :: "shown list" where
  "cmd_help =
     [ShowHelp
       [(''nodes'', ''list all P2P nodes''),
        (''stats'', ''network statistics''),
        (''peers [node]'', ''routing table of a node''),
        (''ping <node|idx|hex>'', ''send 'ping', wait for response, show RTT''),
        (''rpc <node|idx|hex> <msg>'', ''send packet via P2P relay, wait for response''),
        (''inbox'', ''show messages received by this client''),
        (''step [n]'', ''advance simulation ticks (sandbox only)''),
        (''drop [p]'', ''get/set drop probability 0..1 (sandbox only)''),
        (''quit'', ''exit'')]]"

definition cmd_stats :: "'s admin_backend \<Rightarrow> 's \<Rightarrow> shown list" where
  "cmd_stats B s = [ShowStats (ab_stats B s)]"

definition cmd_nodes :: "'s admin_backend \<Rightarrow> 's \<Rightarrow> shown list option" where
  "cmd_nodes B s = map_option (\<lambda>nodes. [ShowNodes nodes]) (ab_node_list B s)"

definition cmd_peers :: "'s admin_backend \<Rightarrow> 's \<Rightarrow> string \<Rightarrow> shown list" where
  "cmd_peers B s node_ref =
     (case ab_peer_table B s node_ref of None \<Rightarrow> [ShowNodeNotFound node_ref] | Some slots \<Rightarrow> [ShowPeers slots])"

definition cmd_ping :: "'s admin_backend \<Rightarrow> 's \<Rightarrow> string \<Rightarrow> (shown list \<times> 's) option" where
  "cmd_ping B s to =
     (case cmd_display to of
        None \<Rightarrow> None
      | Some display \<Rightarrow>
          let (r, s) = ab_rpc B s to (string_bytes ''ping'') 5000
          in Some ([ShowPing display,
                    case r of Inr resp \<Rightarrow> ShowPong (from_utf8_lossy resp) | Inl e \<Rightarrow> ShowError e], s))"

definition cmd_rpc :: "'a console_libs_scheme \<Rightarrow> 's admin_backend \<Rightarrow> 's \<Rightarrow> string \<Rightarrow> string \<Rightarrow> (shown list \<times> 's) option" where
  "cmd_rpc L B s to text =
     (case cmd_display to of
        None \<Rightarrow> None
      | Some display \<Rightarrow>
          let (r, s) = ab_rpc B s to (string_bytes text) 5000
          in Some ([ShowRpc display text,
                    case r of
                      Inr resp \<Rightarrow>
                        ShowResponse (if valid_utf8 resp then bytes_string resp else ''0x'' @ hex_encode L resp)
                    | Inl e \<Rightarrow> ShowError e], s))"

definition cmd_inbox :: "'s admin_backend \<Rightarrow> string \<Rightarrow> 's \<Rightarrow> shown list" where
  "cmd_inbox B client_name s = [ShowInbox client_name (ab_inbox B s)]"

text \<open>One line: what is shown, the new state, and whether the loop goes on.\<close>

definition repl_dispatch ::
  "'a console_libs_scheme \<Rightarrow> 's admin_backend \<Rightarrow> string \<Rightarrow> 's \<Rightarrow> string \<Rightarrow> (shown list \<times> 's \<times> bool) option" where
  "repl_dispatch L B client_name s line =
     (let parts = splitn_char 4 (CHR '' '') line;
          cmd = to_lowercase L (hd parts);
          stay = map_option (\<lambda>(out, s). (out, s, True))
      in if cmd = ''help'' \<or> cmd = ''?'' then stay (Some (cmd_help, s))
         else if cmd = ''nodes'' then stay (map_option (\<lambda>out. (out, s)) (cmd_nodes B s))
         else if cmd = ''stats'' then stay (Some (cmd_stats B s, s))
         else if cmd = ''peers'' then
           stay (Some (cmd_peers B s (if 1 < length parts then parts ! 1 else ''0''), s))
         else if cmd = ''ping'' then
           stay (if length parts < 2 then Some ([ShowUsage ''ping''], s) else cmd_ping B s (parts ! 1))
         else if cmd = ''rpc'' then
           stay (if length parts < 3 then Some ([ShowUsage ''rpc''], s)
                 else cmd_rpc L B s (parts ! 1) (join_char (CHR '' '') (drop 2 parts)))
         else if cmd = ''inbox'' then stay (Some (cmd_inbox B client_name s, s))
         else if cmd = ''step'' then
           (let n = (case (if 1 < length parts then parse_usize (parts ! 1) else None) of None \<Rightarrow> 10 | Some n \<Rightarrow> n)
            in stay (Some ([ShowStepped n], ab_step B n s)))
         else if cmd = ''drop'' then
           stay (Some (case (if 1 < length parts then parse_f64 L (parts ! 1) else None) of
                         Some p \<Rightarrow> ([ShowDropSet p], ab_set_drop_probability B p s)
                       | None \<Rightarrow> ([ShowDrop (ab_drop_probability B s)], s)))
         else if cmd = ''quit'' \<or> cmd = ''exit'' \<or> cmd = ''q'' then Some ([], s, False)
         else stay (Some ([ShowUnknown cmd], s)))"

text \<open>
  The loop over the lines that \<^verbatim>\<open>read_line\<close> yields, each with its line feed; a line that is not UTF-8 is an
  error of the reader and ends the loop like the end of the input.
\<close>

fun repl_loop ::
  "'a console_libs_scheme \<Rightarrow> 's admin_backend \<Rightarrow> string \<Rightarrow> 's \<Rightarrow> string list \<Rightarrow> (shown list \<times> 's) option" where
  "repl_loop L B client_name s [] = Some ([ShowBye], s)"
| "repl_loop L B client_name s (line # lines) =
     (if \<not> valid_utf8 (string_bytes line) \<or> line = [] then Some ([ShowBye], s)
      else if trim line = [] \<or> str_starts_with (trim line) ''#'' then repl_loop L B client_name s lines
      else case repl_dispatch L B client_name s (trim line) of
          None \<Rightarrow> None
        | Some (out, s, go_on) \<Rightarrow>
            if go_on then map_option (\<lambda>(rest, s). (out @ rest, s)) (repl_loop L B client_name s lines)
            else Some (out @ [ShowBye], s))"

definition repl_run ::
  "'a console_libs_scheme \<Rightarrow> 's admin_backend \<Rightarrow> string \<Rightarrow> 's \<Rightarrow> string list \<Rightarrow> (shown list \<times> 's) option" where
  "repl_run L B client_name s lines =
     map_option (\<lambda>(out, s). (ShowBanner (ab_mode_name B) client_name # out, s)) (repl_loop L B client_name s lines)"

subsection \<open>Lines and their parts\<close>

lemma before_char_append: "c \<notin> set w \<Longrightarrow> before_char c (w @ c # s) = w"
  by (induction w) (auto simp: before_char_def)

lemma before_char_split: "c \<in> set s \<Longrightarrow> s = before_char c s @ c # drop (Suc (length (before_char c s))) s"
  by (induction s) (auto simp: before_char_def)

lemma splitn_char_append [simp]:
  "c \<notin> set w \<Longrightarrow> splitn_char (Suc (Suc n)) c (w @ c # s) = w # splitn_char (Suc n) c s"
  by (simp add: before_char_append)

lemma splitn_char_whole: "c \<notin> set s \<Longrightarrow> splitn_char (Suc n) c s = [s]"
  by (cases n) simp_all

lemma splitn_char_nonempty [simp]: "splitn_char (Suc n) c s \<noteq> []"
  by (cases n) simp_all

lemma join_char_Cons: "ss \<noteq> [] \<Longrightarrow> join_char c (s # ss) = s @ c # join_char c ss"
  by (cases ss) simp_all

text \<open>Splitting loses nothing: joined again the parts are the line.\<close>

lemma join_splitn_char: "join_char c (splitn_char (Suc n) c s) = s"
proof (induction n arbitrary: s)
  case (Suc n)
  show ?case
  proof (cases "c \<in> set s")
    case True
    then have "join_char c (splitn_char (Suc (Suc n)) c s) =
        before_char c s @ c # drop (Suc (length (before_char c s))) s"
      by (simp add: join_char_Cons Suc.IH)
    then show ?thesis using before_char_split [OF True] by simp
  qed simp
qed simp

lemma dispatch_rpc:
  assumes "to_lowercase L w = ''rpc''" "CHR '' '' \<notin> set w" "CHR '' '' \<notin> set to"
  shows "repl_dispatch L B name s (w @ '' '' @ to @ '' '' @ text) =
    map_option (\<lambda>(out, s). (out, s, True)) (cmd_rpc L B s to text)"
proof -
  obtain rest where rest: "splitn_char 2 (CHR '' '') text = rest" "rest \<noteq> []" "join_char (CHR '' '') rest = text"
    using join_splitn_char [of "CHR '' ''" 1 "text"] by (simp add: numeral_2_eq_2 del: splitn_char.simps)
  have "splitn_char 4 (CHR '' '') (w @ '' '' @ to @ '' '' @ text) = w # to # rest"
    using splitn_char_append [OF assms(2), of 2 "to @ '' '' @ text"] splitn_char_append [OF assms(3), of 1 "text"] rest(1)
    by (simp add: numeral_eq_Suc del: splitn_char.simps)
  then show ?thesis using assms(1) rest(2,3) unfolding repl_dispatch_def Let_def by (cases rest) simp_all
qed

subsection \<open>Sessions\<close>

text \<open>
  What a session relies on: a property of the state that the operations which change it keep.  A
  backend may promise besides that a packet leaves the state alone.
\<close>

locale console_backend =
  fixes B :: "'s admin_backend" and good :: "'s \<Rightarrow> bool"
  assumes good_step: "good s \<Longrightarrow> good (ab_step B n s)"
    and good_drop: "good s \<Longrightarrow> good (ab_set_drop_probability B p s)"
    and good_rpc: "good s \<Longrightarrow> good (snd (ab_rpc B s to payload timeout))"
begin

lemma good_cmd_ping: "good s \<Longrightarrow> cmd_ping B s to = Some (out, s') \<Longrightarrow> good s'"
  using good_rpc [of s to "string_bytes ''ping''" 5000]
  by (auto simp: cmd_ping_def Let_def split: option.splits prod.splits)

lemma good_cmd_rpc: "good s \<Longrightarrow> cmd_rpc L B s to text = Some (out, s') \<Longrightarrow> good s'"
  using good_rpc [of s to "string_bytes text" 5000]
  by (auto simp: cmd_rpc_def Let_def split: option.splits prod.splits)

lemma good_dispatch:
  assumes "good s" "repl_dispatch L B name s line = Some (out, s', go_on)"
  shows "good s'"
  using assms good_cmd_ping [OF assms(1)] good_cmd_rpc [OF assms(1)] good_step [OF assms(1)] good_drop [OF assms(1)]
  by (auto simp: repl_dispatch_def Let_def split: if_splits option.splits)

lemma good_loop: "good s \<Longrightarrow> repl_loop L B name s lines = Some (out, s') \<Longrightarrow> good s'"
proof (induction lines arbitrary: s out)
  case (Cons line lines)
  have "good s2" if "repl_dispatch L B name s (trim line) = Some (o2, s2, go_on)" for o2 s2 go_on
    using good_dispatch [OF Cons.prems(1) that] .
  then show ?case using Cons.prems Cons.IH by (auto split: if_splits option.splits)
qed simp

lemma good_session: "good s \<Longrightarrow> repl_run L B name s lines = Some (out, s') \<Longrightarrow> good s'"
  by (auto simp: repl_run_def dest: good_loop)

end

locale quiet_backend = console_backend +
  assumes quiet_rpc: "snd (ab_rpc B s to payload timeout) = s"
begin

definition commands :: "'b console_libs_scheme \<Rightarrow> string \<Rightarrow> string" where
  "commands L line = to_lowercase L (hd (splitn_char 4 (CHR '' '') line))"

lemma quiet_dispatch:
  assumes "repl_dispatch L B name s line = Some (out, s', go_on)" "commands L line \<notin> {''step'', ''drop''}"
  shows "s' = s"
proof -
  have "r = (x, s2) \<Longrightarrow> r = ab_rpc B s to payload timeout \<Longrightarrow> s2 = s" for r x s2 to payload timeout
    using quiet_rpc [of s to payload timeout] by simp
  then have "cmd_ping B s to = Some (out, s2) \<Longrightarrow> s2 = s" "cmd_rpc L B s to x = Some (out, s2) \<Longrightarrow> s2 = s" for to x out s2
    by (auto simp: cmd_ping_def cmd_rpc_def Let_def split: option.splits prod.splits)
  then show ?thesis
    using assms by (auto simp: repl_dispatch_def commands_def Let_def split: if_splits option.splits)
qed

text \<open>Only \<^verbatim>\<open>step\<close> and \<^verbatim>\<open>drop\<close> change anything.\<close>

lemma quiet_loop:
  assumes "repl_loop L B name s lines = Some (out, s')" "\<And>line. line \<in> set lines \<Longrightarrow> commands L (trim line) \<notin> {''step'', ''drop''}"
  shows "s' = s"
  using assms
proof (induction lines arbitrary: out)
  case (Cons line lines)
  have rest: "repl_loop L B name s lines = Some (out, s') \<Longrightarrow> s' = s" for out using Cons.IH Cons.prems(2) by simp
  have line: "s2 = s" if "repl_dispatch L B name s (trim line) = Some (out, s2, go_on)" for out s2 go_on
    using quiet_dispatch [OF that] Cons.prems(2) by simp
  show ?case using Cons.prems(1) rest line by (auto split: if_splits option.splits)
qed simp

end

subsection \<open>Properties\<close>

text \<open>
  An \<^verbatim>\<open>rpc\<close> line sends everything after its second blank, byte for byte and blanks included, to the
  named node in one call, shows the answer or the error, and the session goes on with the state the
  call left.  It panics exactly if the name has 64 bytes of which the ninth is inside a character.
\<close>

theorem rpc_line:
  assumes "trim line = w @ '' '' @ to @ '' '' @ text" "valid_utf8 (string_bytes line)"
    "to_lowercase L w = ''rpc''" "CHR '' '' \<notin> set w" "CHR '' '' \<notin> set to" "hd (trim line) \<noteq> CHR ''#''"
  shows "repl_loop L B name s (line # lines) =
    (if length to = 64 \<and> \<not> is_char_boundary to 8 then None
     else case ab_rpc B s to (string_bytes text) 5000 of (r, s') \<Rightarrow>
       map_option (\<lambda>(out, s'').
           (ShowRpc (if length to = 64 then take 8 to @ ellipsis else to) text #
            (case r of
               Inr resp \<Rightarrow> ShowResponse (if valid_utf8 resp then bytes_string resp else ''0x'' @ hex_encode L resp)
             | Inl e \<Rightarrow> ShowError e) # out, s''))
         (repl_loop L B name s' lines))"
proof -
  have line: "line \<noteq> []" "trim line \<noteq> []" using assms(1) trim_infix [of line] by auto
  have "\<not> str_starts_with (trim line) ''#''"
    using assms(6) line by (cases "trim line") (simp_all add: str_starts_with_def)
  then have "repl_loop L B name s (line # lines) =
      (case cmd_rpc L B s to text of None \<Rightarrow> None
       | Some (out, s) \<Rightarrow> map_option (\<lambda>(rest, s). (out @ rest, s)) (repl_loop L B name s lines))"
    using line assms(2) dispatch_rpc [OF assms(3-5), of B name s "text"] assms(1)
    by (simp split: option.split)
  then show ?thesis
    by (auto simp: cmd_rpc_def cmd_display_def Let_def split: prod.splits)
qed

subsection \<open>Witnesses\<close>

definition demo_console :: console_libs where
  "demo_console = hex_libs.extend demo_hex
     \<lparr>to_lowercase = to_ascii_lowercase, parse_f64 = (\<lambda>s. map_option of_nat (parse_usize s))\<rparr>"

text \<open>A backend that counts its packets and sends them back.\<close>

definition demo_backend :: "nat admin_backend" where
  "demo_backend =
     \<lparr>ab_mode_name = ''demo'', ab_node_list = (\<lambda>_. Some []),
      ab_stats = (\<lambda>n. \<lparr>ns_node_count = 0, ns_healthy = 0, ns_avg_slots = 0, ns_drop_prob = 0, ns_ticks = of_nat n, ns_mode = ''demo''\<rparr>),
      ab_peer_table = (\<lambda>_ _. None), ab_step = (\<lambda>_ n. n), ab_drop_probability = (\<lambda>_. 0),
      ab_set_drop_probability = (\<lambda>_ n. n), ab_inbox = (\<lambda>_. []), ab_rpc = (\<lambda>n to payload timeout. (Ok payload, Suc n))\<rparr>"

lemma demo_console_ok: "hex_ok demo_console" "lower_ok demo_console"
  using demo_hex_ok by (simp_all add: hex_ok_def lower_ok_def demo_console_def demo_hex_def libs.defs hex_libs.defs)

theorem rpc_line_witness:
  "repl_loop demo_console demo_backend ''me'' 0 [''RPC 3 a  b'' @ [CHR 0x0A]] =
     Some ([ShowRpc ''3'' ''a  b'', ShowResponse ''a  b'', ShowBye], 1)"
proof -
  have line: "trim (''RPC 3 a  b'' @ [CHR 0x0A]) = ''RPC'' @ '' '' @ ''3'' @ '' '' @ ''a  b''"
    "valid_utf8 (string_bytes (''RPC 3 a  b'' @ [CHR 0x0A]))" "valid_utf8 (string_bytes ''a  b'')"
    "to_ascii_lowercase ''RPC'' = ''rpc''"
    by code_simp+
  have low: "to_lowercase demo_console ''RPC'' = ''rpc''"
    using line(4) by (simp add: demo_console_def libs.defs hex_libs.defs)
  show ?thesis
    using rpc_line [OF line(1,2) low, of demo_backend "''me''" 0 "[]"] line(3) line(1)
    by (simp add: demo_backend_def)
qed

text \<open>
  The slice in \<^verbatim>\<open>cmd_ping\<close> and \<^verbatim>\<open>cmd_rpc\<close> is at byte 8 of any argument of 64 bytes: seven letters, a letter of two
  bytes and 55 more letters end the console, whatever the backend.
\<close>

lemma display_panics: "cmd_ping B s (replicate 7 CHR ''a'' @ [CHR 0xC3, CHR 0xA9] @ replicate 55 CHR ''a'') = None"
proof -
  have "cmd_display (replicate 7 CHR ''a'' @ [CHR 0xC3, CHR 0xA9] @ replicate 55 CHR ''a'') = None" by code_simp
  then show ?thesis unfolding cmd_ping_def by simp
qed

text \<open>Two blanks after \<^verbatim>\<open>rpc\<close> make the empty text the name of the addressee.\<close>

lemma rpc_double_blank:
  assumes "lower_ok L"
  shows "repl_dispatch L B name s (''rpc  '' @ rest) = map_option (\<lambda>(out, s). (out, s, True)) (cmd_rpc L B s [] rest)"
proof -
  have "is_ascii ''rpc''" "to_ascii_lowercase ''rpc'' = ''rpc''" by code_simp+
  then have "to_lowercase L ''rpc'' = ''rpc''" using assms by (simp add: lower_ok_def)
  then show ?thesis using dispatch_rpc [of L "''rpc''" "[]" B name s rest] by simp
qed

end
