(* ===== verification/Sandbox.thy ===== *)
theory Sandbox
  imports Simulator Console
begin

section \<open>The sandbox behind the console\<close>

text \<open>
  \<^verbatim>\<open>zona-p2p-sim/src/backend_sandbox.rs\<close>: a simulation that is bootstrapped by introductions, and the
  operations of the console on it; and the demonstration \<^verbatim>\<open>main.rs\<close> of the same crate.  Key pairs
  that are generated, and the shuffling of the \<^verbatim>\<open>rand\<close> crate with its state, are parameters; of the
  latter it is only used that a shuffled list has the same members (\<open>shuffle_ok\<close>).  The clock is
  a function of the tick at which a run of steps begins.  Indexing a missing node panics, which is \<open>None\<close>.
\<close>

record 'h shuffler =
  sh_seed_from_u64 :: "u64 \<Rightarrow> 'h"
  sh_shuffle :: "nat list \<Rightarrow> 'h \<Rightarrow> nat list \<times> 'h"

definition shuffle_ok :: "'h shuffler \<Rightarrow> bool" where
  "shuffle_ok H \<longleftrightarrow> (\<forall>xs g. mset (fst (sh_shuffle H xs g)) = mset xs)"

type_synonym tick_clock = "u64 \<Rightarrow> nat \<Rightarrow> nat \<Rightarrow> clock"

subsection \<open>Setting a network up\<close>

fun add_nodes :: "'g sim \<Rightarrow> node_keypair list \<Rightarrow> node_id list \<times> 'g sim" where
  "add_nodes s [] = ([], s)"
| "add_nodes s (kp # kps) =
     (let (id, s) = add_node s kp; (ids, s) = add_nodes s kps in (id # ids, s))"

fun introduce_each :: "'a libs_scheme \<Rightarrow> 'g sim \<Rightarrow> node_id list \<Rightarrow> nat \<Rightarrow> nat list \<Rightarrow> 'g sim option" where
  "introduce_each L s ids i [] = Some s"
| "introduce_each L s ids i (j # js) =
     (if i < length ids \<and> j < length ids
      then (case introduce L s (ids ! i) (ids ! j) of
              None \<Rightarrow> None
            | Some s \<Rightarrow> introduce_each L s ids i js)
      else None)"

fun introduce_three ::
  "'a libs_scheme \<Rightarrow> 'h shuffler \<Rightarrow> node_id list \<Rightarrow> 'g sim \<Rightarrow> 'h \<Rightarrow> nat list \<Rightarrow> 'g sim option" where
  "introduce_three L H ids s rng [] = Some s"
| "introduce_three L H ids s rng (i # is) =
     (let (cands, rng) = sh_shuffle H (filter (\<lambda>j. j \<noteq> i) [0 ..< length ids]) rng
      in case introduce_each L s ids i (take 3 cands) of
           None \<Rightarrow> None
         | Some s \<Rightarrow> introduce_three L H ids s rng is)"

definition run_from ::
  "'a libs_scheme \<Rightarrow> 'g rng_lib \<Rightarrow> store_order \<Rightarrow> tick_clock \<Rightarrow> nat \<Rightarrow> 'g sim \<Rightarrow> 'g sim" where
  "run_from L R order clocks n s = run_steps L R order (clocks (sim_ticks s)) n s"

fun settle ::
  "'a libs_scheme \<Rightarrow> 'g rng_lib \<Rightarrow> store_order \<Rightarrow> node_order \<Rightarrow> tick_clock \<Rightarrow> nat \<Rightarrow> 'g sim \<Rightarrow> 'g sim option" where
  "settle L R order norder clocks 0 s = Some s"
| "settle L R order norder clocks (Suc k) s =
     (case repair_all L norder (run_from L R order clocks 6 s) of
        None \<Rightarrow> None
      | Some s \<Rightarrow> settle L R order norder clocks k s)"

record 'g sandbox =
  sb_sim :: "'g sim"
  sb_nodes :: "node_id option list"
  sb_inbox :: "inbox_entry list"

definition sandbox_bootstrap ::
  "'a libs_scheme \<Rightarrow> 'g rng_lib \<Rightarrow> 'h shuffler \<Rightarrow> store_order \<Rightarrow> node_order \<Rightarrow> tick_clock \<Rightarrow>
   node_keypair list \<Rightarrow> 'g sandbox option" where
  "sandbox_bootstrap L R H order norder clocks keypairs =
     (let (node_ids, sim) = add_nodes (Sim_new R 42 0) keypairs
      in case introduce_three L H node_ids sim (sh_seed_from_u64 H 7) [0 ..< length keypairs] of
           None \<Rightarrow> None
         | Some sim \<Rightarrow>
             (case settle L R order norder clocks 5 sim of
                None \<Rightarrow> None
              | Some sim \<Rightarrow>
                  Some \<lparr>sb_sim = run_from L R order clocks 10 sim, sb_nodes = map Some node_ids, sb_inbox = []\<rparr>))"

text \<open>The demonstration, with what it reports.  It makes twenty key pairs.\<close>

record sim_report =
  rep_healthy :: nat
  rep_routable :: bool
  rep_still_routes :: bool
  rep_healed :: nat

definition sim_main ::
  "'a libs_scheme \<Rightarrow> 'g rng_lib \<Rightarrow> 'h shuffler \<Rightarrow> store_order \<Rightarrow> node_order \<Rightarrow> tick_clock \<Rightarrow>
   node_keypair list \<Rightarrow> sim_report option" where
  "sim_main L R H order norder clocks keypairs =
     (let (ids, sim) = add_nodes (Sim_new R 0xDEADBEEF (f64_round (1 / 20))) keypairs; n = length ids
      in case introduce_three L H ids sim (sh_seed_from_u64 H 1) [0 ..< n] of
           None \<Rightarrow> None
         | Some sim \<Rightarrow>
             (case repair_all L norder (run_from L R order clocks 30 sim) of
                None \<Rightarrow> None
              | Some sim \<Rightarrow>
                  let sim = run_from L R order clocks 20 sim; healthy = count_healthy sim
                  in case can_route sim (ids ! 0) (ids ! (n - 1)) of
                       None \<Rightarrow> None
                     | Some routable \<Rightarrow>
                         let sim = run_from L R order clocks 5 (partition_groups sim (take 10 ids) (drop 10 ids))
                         in (case can_route sim (ids ! 0) (ids ! (n - 1)) of
                               None \<Rightarrow> None
                             | Some still_routes \<Rightarrow>
                                 map_option (\<lambda>sim.
                                   \<lparr>rep_healthy = healthy, rep_routable = routable, rep_still_routes = still_routes,
                                    rep_healed = count_healthy (run_from L R order clocks 20 sim)\<rparr>)
                                   (repair_all L norder (heal_partition sim)))))"

subsection \<open>Names of nodes\<close>

definition alive_nodes :: "'g sandbox \<Rightarrow> node_id list" where
  "alive_nodes b = List.map_filter (\<lambda>x. x) (sb_nodes b)"

definition resolve_node :: "'a console_libs_scheme \<Rightarrow> 'g sandbox \<Rightarrow> string \<Rightarrow> node_id option" where
  "resolve_node L b s =
     (case parse_usize s of
        Some i \<Rightarrow> if i < length (sb_nodes b) then sb_nodes b ! i else None
      | None \<Rightarrow>
          let lower = to_lowercase L s
          in List.find (\<lambda>nid. str_starts_with (id_hex L nid) lower) (alive_nodes b))"

definition node_idx_str :: "'g sandbox \<Rightarrow> node_id \<Rightarrow> string" where
  "node_idx_str b nid =
     (case position (\<lambda>s. s = Some nid) (sb_nodes b) of None \<Rightarrow> ''?'' | Some i \<Rightarrow> nat_to_string i)"

definition short_id :: "'a console_libs_scheme \<Rightarrow> node_id \<Rightarrow> string" where
  "short_id L nid = hex_encode L (take 4 (bytes_of (as_bytes nid)))"

definition any_node :: "'g sandbox \<Rightarrow> node_id option" where
  "any_node b = (case alive_nodes b of [] \<Rightarrow> None | nid # _ \<Rightarrow> Some nid)"

subsection \<open>Operations\<close>

definition sandbox_node_list :: "'a console_libs_scheme \<Rightarrow> 'g sandbox \<Rightarrow> node_info list" where
  "sandbox_node_list L b =
     map (\<lambda>(i, slot).
       (case slot of
          None \<Rightarrow> \<lparr>ni_id = ''dead'', ni_index = i, ni_alive = False, ni_healthy = False, ni_slots = 0\<rparr>
        | Some nid \<Rightarrow>
            let n = sim_node (sb_sim b) nid
            in \<lparr>ni_id = short_id L nid, ni_index = i, ni_alive = True,
                ni_healthy = (case n of None \<Rightarrow> False | Some nd \<Rightarrow> \<not> in_recovery (n_table nd)),
                ni_slots = (case n of None \<Rightarrow> 0 | Some nd \<Rightarrow> length (pt_slots (n_table nd)))\<rparr>))
       (List.enumerate 0 (sb_nodes b))"

definition sandbox_stats :: "'g sandbox \<Rightarrow> network_stats" where
  "sandbox_stats b =
     (let alive = count_if (\<lambda>s. s \<noteq> None) (sb_nodes b);
          healthy = count_healthy (sb_sim b);
          avg = avg_of (map (\<lambda>n. length (pt_slots (n_table n))) (List.map_filter (sim_node (sb_sim b)) (alive_nodes b))) alive
      in \<lparr>ns_node_count = alive, ns_healthy = healthy, ns_avg_slots = avg, ns_drop_prob = sim_drop_prob (sb_sim b),
          ns_ticks = sim_ticks (sb_sim b), ns_mode = ''sandbox''\<rparr>)"

definition sandbox_peer_table :: "'a console_libs_scheme \<Rightarrow> 'g sandbox \<Rightarrow> string \<Rightarrow> peer_slot list option" where
  "sandbox_peer_table L b node_ref =
     (case resolve_node L b node_ref of
        None \<Rightarrow> None
      | Some nid \<Rightarrow>
          map_option (\<lambda>node.
            map (\<lambda>s. \<lparr>pl_kind = (case s_kind s of Greedy \<Rightarrow> ''G'' | LongJump \<Rightarrow> ''L'' | Diversity \<Rightarrow> ''D''),
                      pl_peer_id = short_id L (s_peer_id s), pl_peer_idx = node_idx_str b (s_peer_id s),
                      pl_loss = s_ewma_loss s, pl_referrer = short_id L (s_referrer_id s)\<rparr>)
              (pt_slots (n_table node)))
            (sim_node (sb_sim b) nid))"

text \<open>An arrow between blanks, in UTF-8; \<^verbatim>\<open>join\<close> with a string; a name in quotes.\<close>

definition arrow_sep :: string where
  "arrow_sep = '' '' @ map char_of [0xE2, 0x86, 0x92 :: nat] @ '' ''"

definition quoted :: "string \<Rightarrow> string" where
  "quoted s = CHR 0x27 # s @ [CHR 0x27]"

fun join_str :: "string \<Rightarrow> string list \<Rightarrow> string" where
  "join_str sep [] = []"
| "join_str sep [s] = s"
| "join_str sep (s # ss) = s @ sep @ join_str sep ss"

definition routed_text :: "nat \<Rightarrow> string" where
  "routed_text hops = ''[sandbox] routed in '' @ nat_to_string hops @ '' hop(s) '' @ em_dash @ '' echo: ''"

definition sandbox_rpc ::
  "'a console_libs_scheme \<Rightarrow> 'g sandbox \<Rightarrow> string \<Rightarrow> bytes \<Rightarrow> nat \<Rightarrow> (bytes, string) result \<times> 'g sandbox" where
  "sandbox_rpc L b to payload timeout_ms =
     ((case any_node b of
         None \<Rightarrow> Err ''no nodes''
       | Some src \<Rightarrow>
           (case resolve_node L b to of
              None \<Rightarrow> Err (''node '' @ quoted to @ '' not found'')
            | Some dst \<Rightarrow>
                let path = trace_route (sb_sim b) src dst
                in if last path \<noteq> dst then
                     Err (''no route to '' @ quoted to @ '' (stopped at: '' @
                          join_str arrow_sep (map (\<lambda>n. ''['' @ node_idx_str b n @ '']'') path) @ '')'')
                   else
                     Ok (string_bytes (routed_text (length path - 1) @ from_utf8_lossy payload)))), b)"

definition sandbox_backend ::
  "'a console_libs_scheme \<Rightarrow> 'g rng_lib \<Rightarrow> store_order \<Rightarrow> tick_clock \<Rightarrow> 'g sandbox admin_backend" where
  "sandbox_backend L R order clocks =
     \<lparr>ab_mode_name = ''sandbox'', ab_node_list = (\<lambda>b. Some (sandbox_node_list L b)), ab_stats = sandbox_stats,
      ab_peer_table = sandbox_peer_table L, ab_step = (\<lambda>n b. b\<lparr>sb_sim := run_from L R order clocks n (sb_sim b)\<rparr>),
      ab_drop_probability = (\<lambda>b. sim_drop_prob (sb_sim b)),
      ab_set_drop_probability = (\<lambda>p b. b\<lparr>sb_sim := set_drop_prob (sb_sim b) p\<rparr>),
      ab_inbox = sb_inbox, ab_rpc = sandbox_rpc L\<rparr>"

subsection \<open>The nodes of a simulation stay\<close>

abbreviation sim_keys :: "'g sim \<Rightarrow> node_id set" where
  "sim_keys s \<equiv> hm_keys (sim_nodes s)"

lemma hm_get_key: "hm_get m k = Some v \<Longrightarrow> k \<in> hm_keys m"
  by (simp add: hm_keys_get)

lemma sim_keys_frame [simp]:
  "sim_keys (set_drop_prob s p) = sim_keys s" "sim_keys (partition_groups s as bs) = sim_keys s"
  "sim_keys (heal_partition s) = sim_keys s" "sim_keys (enqueue s a b body) = sim_keys s"
  by (simp_all add: set_drop_prob_def partition_groups_def heal_partition_def enqueue_def Let_def split: option.split)

lemma sim_keys_deliver [simp]: "sim_keys (deliver L order clock s msg) = sim_keys s"
  by (auto simp: deliver_def case_prod_beta' Let_def split: option.split dest: hm_get_key)

lemma sim_keys_loop [simp]: "sim_keys (step_loop L R order clocks i s batch) = sim_keys s"
  by (induction batch arbitrary: i s) (simp_all add: Let_def case_prod_beta')

lemma sim_keys_steps [simp]: "sim_keys (run_steps L R order clocks n s) = sim_keys s"
  by (induction n arbitrary: s) (simp_all add: sim_step_def Let_def)

lemma sim_keys_introduce: "introduce L s a b = Some s' \<Longrightarrow> sim_keys s' = sim_keys s"
  by (auto simp: introduce_def Let_def split: option.splits)

lemma introduce_total: "a \<in> sim_keys s \<Longrightarrow> b \<in> sim_keys s \<Longrightarrow> \<exists>s'. introduce L s a b = Some s'"
  by (auto simp: introduce_def hm_keys_get Let_def)

lemma sim_keys_repair: "repair_nodes L s ids = Some s' \<Longrightarrow> sim_keys s' = sim_keys s"
  by (induction ids arbitrary: s)
    (fastforce simp: case_prod_beta' Let_def split: option.splits dest: hm_get_key)+

lemma repair_all_total:
  assumes "is_order norder"
  obtains s' where "repair_all L norder s = Some s'" "sim_keys s' = sim_keys s"
proof -
  have "set (map fst (norder (sim_nodes s))) \<subseteq> sim_keys s"
    using is_orderD(1) [OF assms, of "sim_nodes s"] by (simp add: hm_keys_def)
  then obtain s' where "repair_all L norder s = Some s'"
    unfolding repair_all_def using repair_nodes_total by blast
  then show thesis using that sim_keys_repair unfolding repair_all_def by blast
qed

lemma reachable_steps: "sim_reachable L R order s \<Longrightarrow> sim_reachable L R order (run_steps L R order clocks n s)"
  by (induction n arbitrary: s) (simp_all add: sim_reach_step)

subsection \<open>Bootstrapping succeeds\<close>

lemma add_nodes_spec:
  assumes "sim_reachable L R order s" "list_all (keypair_wf L) kps" "add_nodes s kps = (ids, s')"
  shows "sim_reachable L R order s' \<and> ids = map kp_node_id kps \<and>
    hm_keys (sim_nodes s') = hm_keys (sim_nodes s) \<union> set (map kp_node_id kps)"
  using assms
proof (induction kps arbitrary: s ids)
  case (Cons kp kps)
  obtain id s1 where add: "add_node s kp = (id, s1)" by fastforce
  then have s1: "id = kp_node_id kp" "hm_keys (sim_nodes s1) = insert (kp_node_id kp) (hm_keys (sim_nodes s))"
    by (auto simp: add_node_def Let_def)
  obtain ids1 where rest: "add_nodes s1 kps = (ids1, s')" "ids = id # ids1"
    using Cons.prems(3) add by (auto simp: Let_def split: prod.splits)
  have "sim_reachable L R order s1" "list_all (keypair_wf L) kps"
    using sim_reach_add [OF Cons.prems(1), of kp] Cons.prems(2) add by simp_all
  from Cons.IH [OF this rest(1)] show ?case using s1 rest(2) by simp
qed simp

text \<open>What the steps of a bootstrap keep: a reachable simulation with the same nodes.\<close>

definition set_up :: "'a libs_scheme \<Rightarrow> 'g rng_lib \<Rightarrow> store_order \<Rightarrow> node_id set \<Rightarrow> 'g sim \<Rightarrow> bool" where
  "set_up L R order N s \<longleftrightarrow> sim_reachable L R order s \<and> hm_keys (sim_nodes s) = N"

lemma set_up_run: "set_up L R order N s \<Longrightarrow> set_up L R order N (run_from L R order clocks n s)"
  by (simp add: set_up_def run_from_def reachable_steps)

lemma set_up_introduce:
  assumes "set_up L R order N s" "a \<in> N" "b \<in> N"
  obtains s' where "introduce L s a b = Some s'" "set_up L R order N s'"
proof -
  obtain s' where s': "introduce L s a b = Some s'"
    using introduce_total [of a s b L] assms by (auto simp: set_up_def)
  then have "set_up L R order N s'"
    using sim_keys_introduce [OF s'] sim_reach_introduce [OF _ s'] assms(1) by (simp add: set_up_def)
  then show thesis using that s' by blast
qed

lemma set_up_each:
  assumes "set_up L R order (set ids) s" "i < length ids" "\<forall>j \<in> set js. j < length ids"
  shows "\<exists>s'. introduce_each L s ids i js = Some s' \<and> set_up L R order (set ids) s'"
  using assms
proof (induction js arbitrary: s)
  case (Cons j js)
  obtain s1 where "introduce L s (ids ! i) (ids ! j) = Some s1" "set_up L R order (set ids) s1"
    using set_up_introduce [OF Cons.prems(1), of "ids ! i" "ids ! j"] Cons.prems(2,3) by auto
  then show ?case using Cons by simp
qed simp

lemma set_up_three:
  assumes "shuffle_ok H" "set_up L R order (set ids) s" "\<forall>i \<in> set is. i < length ids"
  shows "\<exists>s'. introduce_three L H ids s rng is = Some s' \<and> set_up L R order (set ids) s'"
  using assms(2,3)
proof (induction "is" arbitrary: s rng)
  case (Cons i "is")
  let ?c = "fst (sh_shuffle H (filter (\<lambda>j. j \<noteq> i) [0 ..< length ids]) rng)"
  have "set ?c = set (filter (\<lambda>j. j \<noteq> i) [0 ..< length ids])"
    using assms(1) unfolding shuffle_ok_def by (metis set_mset_mset)
  then have "\<forall>j \<in> set (take 3 ?c). j < length ids" by (auto dest: in_set_takeD)
  from set_up_each [OF Cons.prems(1) _ this, of i] Cons show ?case by (auto simp: case_prod_beta' Let_def)
qed simp

lemma set_up_settle:
  assumes "is_order norder" "set_up L R order N s"
  shows "\<exists>s'. settle L R order norder clocks k s = Some s' \<and> set_up L R order N s'"
  using assms(2)
proof (induction k arbitrary: s)
  case (Suc k)
  let ?s = "run_from L R order clocks 6 s"
  obtain s1 where s1: "repair_all L norder ?s = Some s1" "sim_keys s1 = sim_keys ?s" using repair_all_total [OF assms(1)] .
  have "set_up L R order N s1"
    using set_up_run [OF Suc.prems, of clocks 6] sim_reach_repair [OF _ assms(1) s1(1)] s1(2)
    by (simp add: set_up_def)
  then show ?case using Suc.IH s1(1) by simp
qed simp

lemma bootstrap_set_up:
  assumes "list_all (keypair_wf L) kps" "is_order norder" "shuffle_ok H"
  shows "\<exists>b. sandbox_bootstrap L R H order norder clocks kps = Some b \<and>
    set_up L R order (set (map kp_node_id kps)) (sb_sim b) \<and> sb_nodes b = map (Some \<circ> kp_node_id) kps \<and> sb_inbox b = []"
proof -
  obtain ids s where add: "add_nodes (Sim_new R 42 0) kps = (ids, s)" by fastforce
  from add_nodes_spec [OF sim_reach_new assms(1) add]
  have s: "set_up L R order (set ids) s" "ids = map kp_node_id kps" by (auto simp: set_up_def Sim_new_def hm_keys_def)
  have "\<forall>i \<in> set [0 ..< length kps]. i < length ids" using s(2) by simp
  from set_up_three [OF assms(3) s(1) this]
  obtain s1 where s1: "introduce_three L H ids s (sh_seed_from_u64 H 7) [0 ..< length kps] = Some s1"
    "set_up L R order (set ids) s1" by blast
  obtain s2 where s2: "settle L R order norder clocks 5 s1 = Some s2" "set_up L R order (set ids) s2"
    using set_up_settle [OF assms(2) s1(2)] by blast
  from set_up_run [OF s2(2)] show ?thesis
    unfolding sandbox_bootstrap_def add using s(2) s1(1) s2(1) by simp
qed

subsection \<open>Console sessions\<close>

text \<open>The sandbox is a backend for any set of nodes; packets leave it alone.\<close>

definition sandbox_good ::
  "'a libs_scheme \<Rightarrow> 'g rng_lib \<Rightarrow> store_order \<Rightarrow> node_id set \<Rightarrow> node_id option list \<Rightarrow> 'g sandbox \<Rightarrow> bool" where
  "sandbox_good L R order N nodes b \<longleftrightarrow> set_up L R order N (sb_sim b) \<and> sb_nodes b = nodes \<and> sb_inbox b = []"

interpretation sbx: quiet_backend "sandbox_backend L R order clocks" "sandbox_good L R order N nodes"
  for L R order clocks N nodes
proof unfold_locales
  fix b :: "'b sandbox" and n p to payload timeout
  assume b: "sandbox_good L R order N nodes b"
  show "sandbox_good L R order N nodes (ab_step (sandbox_backend L R order clocks) n b)"
    using b set_up_run [of L R order N "sb_sim b" clocks n] by (simp add: sandbox_good_def sandbox_backend_def)
  have "set_up L R order N (set_drop_prob (sb_sim b) p)"
    using b by (simp add: sandbox_good_def set_up_def sim_reach_drop)
  then show "sandbox_good L R order N nodes (ab_set_drop_probability (sandbox_backend L R order clocks) p b)"
    using b by (simp add: sandbox_good_def sandbox_backend_def)
  show "sandbox_good L R order N nodes (snd (ab_rpc (sandbox_backend L R order clocks) b to payload timeout))"
    using b by (simp add: sandbox_backend_def sandbox_rpc_def)
qed (simp add: sandbox_backend_def sandbox_rpc_def)

lemma set_up_node:
  assumes "set_up L R order N s" "k \<in> N"
  obtains n where "sim_node s k = Some n" "table_inv (n_table n)" "pt_max_greedy (n_table n) = 3" "n_id n = k"
proof -
  obtain n where n: "hm_get (sim_nodes s) k = Some n" using assms by (auto simp: set_up_def hm_keys_get)
  have "node_home L k n" using assms(1) sim_invD [OF sim_reachable_inv n] by (auto simp: set_up_def)
  then obtain kp cfg where kp: "node_reachable L kp cfg n" "kp_node_id kp = k" "nc_max_greedy cfg = 3"
    unfolding node_home_def by blast
  have "table_inv (n_table n) \<and> pt_max_greedy (n_table n) = 3"
    using table_reachable_frame [OF node_reachable_parts(1) [OF kp(1)]] kp(3) by simp
  then show thesis using that n node_reachable_identity [OF kp(1)] kp(2) by (simp add: sim_node_def)
qed

lemma alive_map_Some: "sb_nodes b = map Some ids \<Longrightarrow> alive_nodes b = ids"
  by (simp add: alive_nodes_def List.map_filter_def comp_def)

lemma count_healthy_le:
  assumes "set_up L R order N s" shows "count_healthy s \<le> card N"
proof -
  have "distinct (map fst (sim_nodes s))"
    using sim_reachable_inv assms unfolding set_up_def sim_inv_def hm_ok_def by blast
  then have "length (sim_nodes s) = card (sim_keys s)" unfolding hm_keys_def by (metis distinct_card length_map set_map)
  then show ?thesis using count_if_le_length assms unfolding count_healthy_def set_up_def by metis
qed

lemma sandbox_stats_bounds:
  assumes "sandbox_good L R order (set ids) (map Some ids) b" "5 * length ids < 2 ^ 53"
  shows "ns_node_count (sandbox_stats b) = length ids \<and> ns_healthy (sandbox_stats b) \<le> length ids \<and>
    0 \<le> ns_avg_slots (sandbox_stats b) \<and> ns_avg_slots (sandbox_stats b) \<le> 5"
proof -
  let ?ns = "List.map_filter (sim_node (sb_sim b)) (alive_nodes b)"
  have b: "set_up L R order (set ids) (sb_sim b)" "sb_nodes b = map Some ids" "alive_nodes b = ids"
    using assms(1) alive_map_Some unfolding sandbox_good_def by blast+
  have alive: "count_if (\<lambda>s. s \<noteq> None) (sb_nodes b) = length ids" by (simp add: b(2) count_if_def comp_def)
  have "length (pt_slots (n_table n)) \<le> 5" if n: "n \<in> set ?ns" for n
  proof -
    obtain k where k: "k \<in> set ids" "sim_node (sb_sim b) k = Some n" using n unfolding map_filter_set b(3) by blast
    obtain m where "sim_node (sb_sim b) k = Some m" "table_inv (n_table m)" "pt_max_greedy (n_table m) = 3"
      using set_up_node [OF b(1) k(1)] .
    then show ?thesis using table_length_bound [of "n_table n"] k(2) by simp
  qed
  then have "list_all (\<lambda>n. n \<le> 5) (map (\<lambda>n. length (pt_slots (n_table n))) ?ns)" by (simp add: list_all_iff)
  moreover have "length ?ns \<le> length ids" using length_map_filter_le [of "sim_node (sb_sim b)" "alive_nodes b"] b(3) by simp
  ultimately have "0 \<le> avg_of (map (\<lambda>n. length (pt_slots (n_table n))) ?ns) (length ids) \<and>
      avg_of (map (\<lambda>n. length (pt_slots (n_table n))) ?ns) (length ids) \<le> of_nat 5"
    using assms(2) by (intro avg_of_bounds) simp_all
  moreover have "ns_avg_slots (sandbox_stats b) = avg_of (map (\<lambda>n. length (pt_slots (n_table n))) ?ns) (length ids)"
    "ns_node_count (sandbox_stats b) = length ids" "ns_healthy (sandbox_stats b) = count_healthy (sb_sim b)"
    unfolding sandbox_stats_def alive Let_def by simp_all
  moreover have "count_healthy (sb_sim b) \<le> length ids"
    using count_healthy_le [OF b(1)] card_length [of ids] by linarith
  ultimately show ?thesis by simp
qed

subsection \<open>Routes\<close>

definition hop_path :: "'g sim \<Rightarrow> node_id \<Rightarrow> node_id list \<Rightarrow> bool" where
  "hop_path s dst p \<longleftrightarrow> p \<noteq> [] \<and> (\<forall>i. Suc i < length p \<longrightarrow> sim_hop s dst (p ! i) = Some (p ! Suc i))"

lemma path_is_walk:
  "p \<noteq> [] \<Longrightarrow> \<forall>i. Suc i < length p \<longrightarrow> h (p ! i) = Some (p ! Suc i) \<Longrightarrow> p = walk h (length p - 1) (hd p)"
proof (induction p)
  case (Cons a p)
  show ?case
  proof (cases p)
    case (Cons b q)
    have hop: "h a = Some b" using Cons.prems(2) Cons by (auto dest: spec [of _ 0])
    have hops: "\<forall>i. Suc i < length p \<longrightarrow> h (p ! i) = Some (p ! Suc i)"
      using Cons.prems(2) by (auto dest: spec [of _ "Suc _"])
    have p: "p \<noteq> []" "hd p = b" "length (a # p) - 1 = Suc (length p - 1)" using Cons by simp_all
    have "walk h (length (a # p) - 1) (hd (a # p)) = a # walk h (length p - 1) b" unfolding p(3) using hop by simp
    then show ?thesis using Cons.IH [OF p(1) hops] p(2) by metis
  qed simp
qed simp

lemma trace_route_paths:
  assumes "p = trace_route s src dst"
  shows "hop_path s dst p \<and> hd p = src \<and> length p \<le> 31 \<and>
    (last p \<noteq> dst \<longrightarrow> (\<nexists>q. hop_path s dst q \<and> hd q = src \<and> last q = dst \<and> length q \<le> 31))"
proof -
  let ?h = "sim_hop s dst"
  have p: "p = walk ?h 30 src" using assms trace_route_walk by simp
  have "last p = dst" if q: "hop_path s dst q" "hd q = src" "last q = dst" "length q \<le> 31" for q
  proof -
    obtain k where walk: "q = walk ?h k src" "k \<le> 30"
      using q(1,2,4) path_is_walk [of q ?h] unfolding hop_path_def by fastforce
    then have "?h (last (walk ?h k src)) = None" using q(3) by simp
    then have "walk ?h 30 src = walk ?h k src" using walk(2) by (rule walk_stuck)
    then show ?thesis using q(3) walk p by simp
  qed
  then show ?thesis
    using walk_hops [of _ ?h 30 src] length_walk [of ?h 30 src] unfolding p hop_path_def by auto
qed

subsection \<open>Names resolve\<close>

text \<open>Hexadecimal text: two lower-case digits for every byte.\<close>

definition hex_text_ok :: "'a hex_libs_scheme \<Rightarrow> bool" where
  "hex_text_ok L \<longleftrightarrow> hex_ok L \<and> (\<forall>bs. length (hex_encode L bs) = 2 * length bs)"

lemma length_id_hex: "hex_text_ok L \<Longrightarrow> length (id_hex L n) = 64"
  by (simp add: hex_text_ok_def id_hex_def)

lemma resolve_full:
  assumes "hex_text_ok L" "nid \<in> set (alive_nodes b)" "to_lowercase L name = id_hex L nid" "parse_usize name = None"
  shows "resolve_node L b name = Some nid"
proof -
  have eq: "str_starts_with (id_hex L n) (id_hex L nid) \<longleftrightarrow> n = nid" for n
    using length_id_hex [OF assms(1)] id_hex_inject [of L] assms(1) by (simp add: str_starts_with_def hex_text_ok_def)
  have "List.find (\<lambda>n. n = nid) xs = Some nid" if "nid \<in> set xs" for xs using that by (induction xs) auto
  then show ?thesis using assms(2-4) by (simp add: resolve_node_def eq Let_def)
qed

subsection \<open>Properties\<close>

text \<open>
  C32: bootstrapping a sandbox never fails, and no session with the console loses or damages a node.
  After any lines, also between the steps of a lossy simulation, the simulation is a reachable
  one, the nodes are those of the bootstrap, each is found under its identifier with a table that
  satisfies its invariant, and the statistics are within bounds.  Nothing ever reaches the
  sandbox's inbox.
\<close>

theorem sandbox_session_safe:
  assumes "list_all (keypair_wf L) keypairs" "is_order norder" "shuffle_ok H" "5 * length keypairs < 2 ^ 53"
  shows "\<exists>b. sandbox_bootstrap L R H order norder clocks keypairs = Some b \<and>
    (\<forall>name lines out b'. repl_run L (sandbox_backend L R order clocks) name b lines = Some (out, b') \<longrightarrow>
       sim_reachable L R order (sb_sim b') \<and> sb_nodes b' = map (Some \<circ> kp_node_id) keypairs \<and> sb_inbox b' = [] \<and>
       (\<forall>kp \<in> set keypairs. \<exists>n. sim_node (sb_sim b') (kp_node_id kp) = Some n \<and> n_id n = kp_node_id kp \<and>
          table_inv (n_table n)) \<and>
       ns_node_count (sandbox_stats b') = length keypairs \<and> ns_healthy (sandbox_stats b') \<le> length keypairs \<and>
       0 \<le> ns_avg_slots (sandbox_stats b') \<and> ns_avg_slots (sandbox_stats b') \<le> 5)"
proof -
  let ?ids = "map kp_node_id keypairs"
  obtain b where b: "sandbox_bootstrap L R H order norder clocks keypairs = Some b"
    "sandbox_good L R order (set ?ids) (map Some ?ids) b"
    using bootstrap_set_up [OF assms(1-3), of R order clocks] by (auto simp: sandbox_good_def)
  {
    fix name lines out b'
    assume run: "repl_run L (sandbox_backend L R order clocks) name b lines = Some (out, b')"
    note good = sbx.good_session [OF b(2) run]
    then have set_up: "set_up L R order (set ?ids) (sb_sim b')" "sb_nodes b' = map Some ?ids" "sb_inbox b' = []"
      unfolding sandbox_good_def by blast+
    have "\<exists>n. sim_node (sb_sim b') (kp_node_id kp) = Some n \<and> n_id n = kp_node_id kp \<and> table_inv (n_table n)"
      if "kp \<in> set keypairs" for kp
      using set_up_node [OF set_up(1), of "kp_node_id kp"] that by (metis image_eqI set_map)
    with set_up sandbox_stats_bounds [OF good] assms(4)
    have "sim_reachable L R order (sb_sim b') \<and> sb_nodes b' = map (Some \<circ> kp_node_id) keypairs \<and> sb_inbox b' = [] \<and>
       (\<forall>kp \<in> set keypairs. \<exists>n. sim_node (sb_sim b') (kp_node_id kp) = Some n \<and> n_id n = kp_node_id kp \<and>
          table_inv (n_table n)) \<and>
       ns_node_count (sandbox_stats b') = length keypairs \<and> ns_healthy (sandbox_stats b') \<le> length keypairs \<and>
       0 \<le> ns_avg_slots (sandbox_stats b') \<and> ns_avg_slots (sandbox_stats b') \<le> 5"
      by (simp add: set_up_def comp_def)
  }
  then show ?thesis using b(1) by blast
qed

text \<open>
  A packet in the sandbox is answered exactly if the next hops of the nodes lead from the first live
  node to the addressee in at most 30 hops.  The answer states the number of hops and echoes
  the payload, and neither answer nor failure changes the sandbox.
\<close>

theorem sandbox_rpc_routes:
  assumes "any_node b = Some src" "resolve_node L b name = Some dst"
  shows "snd (sandbox_rpc L b name payload timeout) = b \<and>
    (case fst (sandbox_rpc L b name payload timeout) of
       Inr resp \<Rightarrow> \<exists>p. hop_path (sb_sim b) dst p \<and> hd p = src \<and> last p = dst \<and> length p \<le> 31 \<and>
         resp = string_bytes (routed_text (length p - 1)) @ utf8_lossy payload
     | Inl e \<Rightarrow> \<nexists>p. hop_path (sb_sim b) dst p \<and> hd p = src \<and> last p = dst \<and> length p \<le> 31)"
proof -
  define p where "p = trace_route (sb_sim b) src dst"
  note path = trace_route_paths [OF p_def]
  have rpc: "sandbox_rpc L b name payload timeout =
      (if last p \<noteq> dst then
         Err (''no route to '' @ quoted name @ '' (stopped at: '' @
           join_str arrow_sep (map (\<lambda>n. ''['' @ node_idx_str b n @ '']'') p) @ '')'')
       else Ok (string_bytes (routed_text (length p - 1) @ from_utf8_lossy payload)), b)"
    by (simp add: sandbox_rpc_def assms p_def Let_def)
  have "string_bytes (x @ y) = string_bytes x @ string_bytes y" for x y by (simp add: string_bytes_def)
  then show ?thesis
    using path unfolding rpc by (cases "last p = dst") auto
qed

text \<open>
  Nodes can be named by what the console shows.  The index that a list of peers shows for a live node
  resolves to that node, and so does its full identifier in any spelling whose lower case is the
  identifier's text, unless that text is a decimal number below \<open>2 ^ 64\<close>.
\<close>

theorem sandbox_names_resolve:
  assumes "hex_text_ok L" "nid \<in> set (alive_nodes b)" "length (sb_nodes b) \<le> usize_max"
    "to_lowercase L name = id_hex L nid" "parse_usize name = None"
  shows "resolve_node L b (node_idx_str b nid) = Some nid \<and> resolve_node L b name = Some nid"
proof -
  have "Some nid \<in> set (sb_nodes b)"
    using assms(2) unfolding alive_nodes_def map_filter_set by auto
  then obtain i where i: "position (\<lambda>s. s = Some nid) (sb_nodes b) = Some i"
    using position_None_iff [of "\<lambda>s. s = Some nid" "sb_nodes b"] by (cases "position (\<lambda>s. s = Some nid) (sb_nodes b)") auto
  have "sb_nodes b ! i = Some nid" "i < length (sb_nodes b)" using position_holds [OF i] position_lt [OF i] by simp_all
  moreover from this have "parse_usize (nat_to_string i) = Some i" using parse_nat_to_string assms(3) by simp
  ultimately have "resolve_node L b (node_idx_str b nid) = Some nid" by (simp add: resolve_node_def node_idx_str_def i)
  then show ?thesis using resolve_full assms by blast
qed

text \<open>
  What does not resolve, or resolves to another node: a short identifier of digits only is read as an
  index; the empty name is the first live node.
\<close>

lemma digits_are_an_index:
  assumes "parse_usize (short_id L nid) = Some i" "length (sb_nodes b) \<le> i"
  shows "resolve_node L b (short_id L nid) = None"
  using assms by (simp add: resolve_node_def)

lemma empty_name: "lower_ok L \<Longrightarrow> resolve_node L b [] = any_node b"
  by (simp add: lower_ok_def is_ascii_def to_ascii_lowercase_def ascii_map_def resolve_node_def any_node_def parse_usize_def strip_prefix_char_def str_starts_with_def Let_def split: list.split)

text \<open>Routes are read from the tables: a partition alone does not change what \<^verbatim>\<open>can_route\<close> answers.\<close>

lemma can_route_ignores_partition: "can_route (partition_groups s as bs) src dst = can_route s src dst"
proof -
  have "can_route_loop (partition_groups s as bs) dst k c = can_route_loop s dst k c" for k c
    by (induction k arbitrary: c) (simp_all add: partition_groups_def split: option.split next_hop_result.split)
  then show ?thesis by (simp add: can_route_def)
qed

subsection \<open>Witnesses\<close>

text \<open>Hexadecimal text as the \<^verbatim>\<open>hex\<close> crate writes it.\<close>

definition hex_digit :: "nat \<Rightarrow> char" where
  "hex_digit n = char_of (if n < 10 then 48 + n else 87 + n)"

definition digit_value :: "char \<Rightarrow> nat" where
  "digit_value c = (if (of_char c :: nat) < 58 then of_char c - 48 else of_char c - 87)"

definition hex_text :: "bytes \<Rightarrow> string" where
  "hex_text bs = concat (map (\<lambda>b. [hex_digit (unat b div 16), hex_digit (unat b mod 16)]) bs)"

fun hex_bytes :: "string \<Rightarrow> bytes" where
  "hex_bytes (c # d # s) = word_of_nat (16 * digit_value c + digit_value d) # hex_bytes s"
| "hex_bytes s = []"

lemma digit_value_hex: "n < 16 \<Longrightarrow> digit_value (hex_digit n) = n"
  by (simp add: hex_digit_def digit_value_def of_char_of)

lemma hex_bytes_text: "hex_bytes (hex_text bs) = bs"
proof (induction bs)
  case (Cons b bs)
  have "unat b < 256" using unsigned_less [of b, where 'a = nat] by simp
  then have "unat b div 16 < 16" "unat b mod 16 < 16" by simp_all
  then have "16 * digit_value (hex_digit (unat b div 16)) + digit_value (hex_digit (unat b mod 16)) = unat b"
    by (simp add: digit_value_hex)
  then show ?case using Cons by (simp add: hex_text_def)
qed (simp add: hex_text_def)

definition demo_text :: console_libs where
  "demo_text = demo_console\<lparr>hex_encode := hex_text, hex_decode := \<lambda>s. Ok (hex_bytes s)\<rparr>"

lemma demo_text_ok: "hex_text_ok demo_text"
  using hex_bytes_text by (auto simp: hex_text_ok_def hex_ok_def demo_text_def hex_text_def length_concat comp_def sum_list_triv)

definition demo_sandbox :: "nat sandbox" where
  "demo_sandbox =
     \<lparr>sb_sim = demo_sim\<lparr>sim_nodes := [(idn 8, demo_peer_node), (idn 4, demo_node 4)]\<rparr>,
      sb_nodes = [None, Some (idn 8), Some (idn 4)], sb_inbox = []\<rparr>"

lemma demo_sandbox_names: "alive_nodes demo_sandbox = [idn 8, idn 4]" "any_node demo_sandbox = Some (idn 8)"
  by (simp_all add: any_node_def alive_nodes_def demo_sandbox_def List.map_filter_def)

theorem sandbox_names_resolve_witness:
  "let b = demo_sandbox\<lparr>sb_nodes := [None, Some (idn 8), Some (idn 0xAB)]\<rparr>; name = concat (replicate 32 ''AB'')
   in resolve_node demo_text b (node_idx_str b (idn 0xAB)) = Some (idn 0xAB) \<and> resolve_node demo_text b name = Some (idn 0xAB)"
proof -
  let ?b = "demo_sandbox\<lparr>sb_nodes := [None, Some (idn 8), Some (idn 0xAB)]\<rparr>"
  have digits: "hex_digit 10 = CHR ''a''" "hex_digit 11 = CHR ''b''" "to_ascii_lowercase ''AB'' = ''ab''" by code_simp+
  have "hex_text (replicate n 0xAB) = concat (replicate n ''ab'')" for n
    by (induction n) (simp_all add: hex_text_def digits)
  then have hex: "id_hex demo_text (idn 0xAB) = concat (replicate 32 ''ab'')"
    by (simp add: id_hex_def demo_text_def as_bytes_def bytes_of_fill32)
  have app: "to_ascii_lowercase (x @ y) = to_ascii_lowercase x @ to_ascii_lowercase y" for x y
    by (simp add: to_ascii_lowercase_def ascii_map_def)
  have "to_ascii_lowercase (concat (replicate n ''AB'')) = concat (replicate n ''ab'')" for n
  proof (induction n)
    case (Suc n)
    have "to_ascii_lowercase (concat (replicate (Suc n) ''AB'')) = to_ascii_lowercase (''AB'' @ concat (replicate n ''AB''))" by simp
    then show ?case unfolding app digits(3) Suc by simp
  qed (simp add: to_ascii_lowercase_def ascii_map_def)
  then have lower: "to_lowercase demo_text (concat (replicate 32 ''AB'')) = id_hex demo_text (idn 0xAB)"
    unfolding hex by (simp add: demo_text_def demo_console_def libs.defs hex_libs.defs)
  have "concat (replicate 32 ''AB'') = CHR ''A'' # CHR ''B'' # concat (replicate 31 ''AB'')" by (simp add: numeral_eq_Suc)
  then have "parse_usize (concat (replicate 32 ''AB'')) = None"
    by (simp only: parse_usize_def strip_prefix_char_def) (simp add: is_digit_def)
  moreover have "idn 0xAB \<in> set (alive_nodes ?b)" "length (sb_nodes ?b) \<le> usize_max"
    by (simp_all add: alive_nodes_def List.map_filter_def usize_max_def)
  ultimately show ?thesis using sandbox_names_resolve [OF demo_text_ok _ _ lower, of ?b] by (simp add: Let_def)
qed

theorem sandbox_rpc_routes_witness:
  "(case fst (sandbox_rpc demo_text demo_sandbox ''2'' [104, 105] 5000) of Inr resp \<Rightarrow> True | Inl e \<Rightarrow> False) \<and>
   snd (sandbox_rpc demo_text demo_sandbox ''2'' [104, 105] 5000) = demo_sandbox"
proof -
  let ?s = "sb_sim demo_sandbox"
  have "nat_to_string 2 = ''2''" by code_simp
  then have "parse_usize ''2'' = Some 2" using parse_nat_to_string [of 2] by (simp add: usize_max_def)
  then have dst: "resolve_node demo_text demo_sandbox ''2'' = Some (idn 4)"
    by (simp add: resolve_node_def demo_sandbox_def numeral_2_eq_2)
  have "sim_hop ?s (idn 4) (idn 8) = Some (idn 4)"
    by (simp add: demo_sandbox_def sim_hop_eq hm_get_def next_hop_def PeerTable_new_def Let_def)
  then have "hop_path ?s (idn 4) [idn 8, idn 4]" by (simp add: hop_path_def)
  then have "\<exists>p. hop_path ?s (idn 4) p \<and> hd p = idn 8 \<and> last p = idn 4 \<and> length p \<le> 31"
    by (intro exI [of _ "[idn 8, idn 4]"]) simp
  then show ?thesis
    using sandbox_rpc_routes [OF demo_sandbox_names(2) dst, of "[104, 105]" 5000]
    by (cases "fst (sandbox_rpc demo_text demo_sandbox ''2'' [104, 105] 5000)") simp_all
qed

definition demo_shuffler :: "nat shuffler" where
  "demo_shuffler = \<lparr>sh_seed_from_u64 = unat, sh_shuffle = (\<lambda>xs g. (rev xs, Suc g))\<rparr>"

theorem sandbox_session_safe_witness:
  "\<exists>b n. sandbox_bootstrap demo_text demo_rng demo_shuffler (\<lambda>m. m) (\<lambda>m. m) (\<lambda>_ _ _. (0, 0))
      (map (\<lambda>i. keypair_from_seed demo_text (fill32 i)) [1, 2, 3, 4, 5]) = Some b \<and>
     length (sb_nodes b) = 5 \<and> sim_node (sb_sim b) (kp_node_id (keypair_from_seed demo_text (fill32 4))) = Some n \<and> table_inv (n_table n)"
proof -
  let ?kps = "map (\<lambda>i. keypair_from_seed demo_text (fill32 i)) [1, 2, 3, 4, 5]"
  have "list_all (keypair_wf demo_text) ?kps" "shuffle_ok demo_shuffler"
    by (simp_all add: shuffle_ok_def demo_shuffler_def)
  from sandbox_session_safe [OF this(1) is_order_id(1) this(2), of demo_rng "\<lambda>m. m" "\<lambda>_ _ _. (0, 0)"]
  obtain b where b: "sandbox_bootstrap demo_text demo_rng demo_shuffler (\<lambda>m. m) (\<lambda>m. m) (\<lambda>_ _ _. (0, 0)) ?kps = Some b"
    and session: "\<And>name lines out b'. repl_run demo_text (sandbox_backend demo_text demo_rng (\<lambda>m. m) (\<lambda>_ _ _. (0, 0))) name b lines =
        Some (out, b') \<Longrightarrow> sb_nodes b' = map (Some \<circ> kp_node_id) ?kps \<and>
          (\<forall>kp \<in> set ?kps. \<exists>n. sim_node (sb_sim b') (kp_node_id kp) = Some n \<and> n_id n = kp_node_id kp \<and> table_inv (n_table n))"
    by auto
  have "sb_nodes b = map (Some \<circ> kp_node_id) ?kps \<and>
      (\<forall>kp \<in> set ?kps. \<exists>n. sim_node (sb_sim b) (kp_node_id kp) = Some n \<and> n_id n = kp_node_id kp \<and> table_inv (n_table n))"
    by (rule session [of "''me''" "[]"]) (simp add: repl_run_def)
  then show ?thesis using b by auto
qed

end
