(* ===== verification/Docker.thy ===== *)
theory Docker
  imports App_Server Console
begin

section \<open>Containers behind the console\<close>

text \<open>
  \<^verbatim>\<open>zona-p2p-sim/src/backend_docker.rs\<close>: the console on running nodes, which it asks over HTTP, and the
  command line of \<^verbatim>\<open>interactive_main.rs\<close>.  The HTTP client is a record of functions on a state of the
  world; \<open>mixed_http\<close> is that record for the networks of nodes and application servers of the
  other theories.  Building the client and time-outs are not modelled.
\<close>

text \<open>The fields of the answer that the code reads; a field of another type is absent.\<close>

record relay_json =
  rj_delivered :: "bool option"
  rj_error :: "string option"
  rj_response :: "string option"

datatype post_error = HttpError string | BadJson string

record 'w docker_http =
  dh_info :: "'w \<Rightarrow> string \<Rightarrow> (api_info, string) result"
  dh_peers :: "'w \<Rightarrow> string \<Rightarrow> (api_peer_slot list, string) result"
  dh_inbox :: "'w \<Rightarrow> string \<Rightarrow> (inbox_entry list, string) result"
  dh_relay :: "'w \<Rightarrow> string \<Rightarrow> nat \<Rightarrow> relay_request \<Rightarrow> (relay_json, post_error) result \<times> 'w"

record docker_node =
  dn_index :: nat
  dn_node_id :: string
  dn_admin_url :: string
  dn_alive :: bool
  dn_healthy :: bool
  dn_slots :: nat

record 'w docker =
  dk_nodes :: "docker_node list"
  dk_world :: 'w

subsection \<open>Connecting\<close>

fun connect_nodes :: "'w docker_http \<Rightarrow> 'w \<Rightarrow> nat \<Rightarrow> string list \<Rightarrow> (docker_node list, string) result" where
  "connect_nodes H w index [] = Ok []"
| "connect_nodes H w index (url # urls) =
     (case dh_info H w (url @ ''/api/info'') of
        Inl e \<Rightarrow> Err e
      | Inr info \<Rightarrow>
          (case connect_nodes H w (Suc index) urls of
             Inl e \<Rightarrow> Err e
           | Inr nodes \<Rightarrow>
               Ok (\<lparr>dn_index = index, dn_node_id = ai_node_id info, dn_admin_url = url, dn_alive = True,
                    dn_healthy = ai_healthy info, dn_slots = ai_slots info\<rparr> # nodes)))"

definition docker_connect :: "'w docker_http \<Rightarrow> 'w \<Rightarrow> string list \<Rightarrow> ('w docker, string) result" where
  "docker_connect H w admin_urls =
     (case connect_nodes H w 0 admin_urls of Inl e \<Rightarrow> Err e | Inr nodes \<Rightarrow> Ok \<lparr>dk_nodes = nodes, dk_world = w\<rparr>)"

definition refresh_node :: "'w docker_http \<Rightarrow> 'w \<Rightarrow> docker_node \<Rightarrow> docker_node" where
  "refresh_node H w n =
     (if \<not> dn_alive n then n
      else case dh_info H w (dn_admin_url n @ ''/api/info'') of
          Inl _ \<Rightarrow> n
        | Inr info \<Rightarrow> n\<lparr>dn_healthy := ai_healthy info, dn_slots := ai_slots info\<rparr>)"

definition docker_refresh :: "'w docker_http \<Rightarrow> 'w docker \<Rightarrow> 'w docker" where
  "docker_refresh H d = d\<lparr>dk_nodes := map (refresh_node H (dk_world d)) (dk_nodes d)\<rparr>"

subsection \<open>Names of nodes\<close>

text \<open>A slice that panics off the character boundaries.\<close>

definition docker_short_id :: "string \<Rightarrow> string option" where
  "docker_short_id name =
     (let k = min 8 (length name) in if is_char_boundary name k then Some (take k name) else None)"

definition resolve_node_index :: "'w docker \<Rightarrow> string \<Rightarrow> nat option" where
  "resolve_node_index d node_ref =
     (case parse_usize node_ref of
        Some i \<Rightarrow>
          if i < length (dk_nodes d) then Some i
          else position (\<lambda>n. str_starts_with (dn_node_id n) node_ref) (dk_nodes d)
      | None \<Rightarrow> position (\<lambda>n. str_starts_with (dn_node_id n) node_ref) (dk_nodes d))"

definition is_ascii_hexdigit :: "char \<Rightarrow> bool" where
  "is_ascii_hexdigit c \<longleftrightarrow>
     (let n = of_char c :: nat in 48 \<le> n \<and> n \<le> 57 \<or> 65 \<le> n \<and> n \<le> 70 \<or> 97 \<le> n \<and> n \<le> 102)"

definition resolve_node_id :: "'a console_libs_scheme \<Rightarrow> 'w docker \<Rightarrow> string \<Rightarrow> (string, string) result" where
  "resolve_node_id L d to =
     (case parse_usize to of
        Some idx \<Rightarrow>
          if idx < length (dk_nodes d) then Ok (dn_node_id (dk_nodes d ! idx))
          else Err (''node index '' @ nat_to_string idx @ '' out of range (have '' @
                    nat_to_string (length (dk_nodes d)) @ '' nodes)'')
      | None \<Rightarrow>
          if length to = 64 \<and> list_all is_ascii_hexdigit to then Ok (to_lowercase L to)
          else
            let lower = to_lowercase L to
            in case List.find (\<lambda>n. str_starts_with (dn_node_id n) lower) (dk_nodes d) of
                 Some n \<Rightarrow> Ok (dn_node_id n)
               | None \<Rightarrow> Err (''no known node matching prefix '' @ CHR 0x27 # to @ [CHR 0x27]))"

definition gateway :: "'w docker \<Rightarrow> (docker_node, string) result" where
  "gateway d = (case List.find dn_alive (dk_nodes d) of None \<Rightarrow> Err ''no alive nodes'' | Some n \<Rightarrow> Ok n)"

subsection \<open>Operations\<close>

definition docker_node_list :: "'w docker \<Rightarrow> node_info list option" where
  "docker_node_list d =
     (if list_all (\<lambda>n. docker_short_id (dn_node_id n) \<noteq> None) (dk_nodes d)
      then Some (map (\<lambda>n. \<lparr>ni_id = the (docker_short_id (dn_node_id n)), ni_index = dn_index n, ni_alive = dn_alive n,
                           ni_healthy = dn_healthy n, ni_slots = dn_slots n\<rparr>) (dk_nodes d))
      else None)"

definition docker_stats :: "'w docker \<Rightarrow> network_stats" where
  "docker_stats d =
     (let alive = count_if dn_alive (dk_nodes d);
          healthy = count_if (\<lambda>n. dn_alive n \<and> dn_healthy n) (dk_nodes d)
      in \<lparr>ns_node_count = alive, ns_healthy = healthy,
          ns_avg_slots = avg_of (map dn_slots (filter dn_alive (dk_nodes d))) alive,
          ns_drop_prob = 0, ns_ticks = 0, ns_mode = ''docker''\<rparr>)"

definition docker_peer_table :: "'w docker_http \<Rightarrow> 'w docker \<Rightarrow> string \<Rightarrow> peer_slot list option" where
  "docker_peer_table H d node_ref =
     (case List.find (\<lambda>n. dn_alive n \<and> (nat_to_string (dn_index n) = node_ref \<or> str_starts_with (dn_node_id n) node_ref))
             (dk_nodes d) of
        None \<Rightarrow> None
      | Some n \<Rightarrow>
          (case dh_peers H (dk_world d) (dn_admin_url n @ ''/api/peers'') of
             Inl _ \<Rightarrow> None
           | Inr slots \<Rightarrow>
               Some (map (\<lambda>s. \<lparr>pl_kind = ap_kind s, pl_peer_id = ap_peer_id s, pl_peer_idx = ap_peer_idx s,
                               pl_loss = ap_loss s, pl_referrer = ap_referrer s\<rparr>) slots)))"

definition inbox_key :: "inbox_entry \<Rightarrow> string" where
  "inbox_key e = ib_from e @ CHR ''|'' # ib_text e"

fun merge_entries :: "string set \<Rightarrow> inbox_entry list \<Rightarrow> inbox_entry list \<Rightarrow> string set \<times> inbox_entry list" where
  "merge_entries seen result [] = (seen, result)"
| "merge_entries seen result (e # es) =
     (if inbox_key e \<in> seen then merge_entries seen result es
      else merge_entries (insert (inbox_key e) seen) (result @ [e]) es)"

definition node_entries :: "'w docker_http \<Rightarrow> 'w docker \<Rightarrow> docker_node \<Rightarrow> inbox_entry list" where
  "node_entries H d n = (case dh_inbox H (dk_world d) (dn_admin_url n @ ''/api/inbox'') of Inl _ \<Rightarrow> [] | Inr es \<Rightarrow> es)"

fun merge_nodes ::
  "'w docker_http \<Rightarrow> 'w docker \<Rightarrow> string set \<Rightarrow> inbox_entry list \<Rightarrow> docker_node list \<Rightarrow> inbox_entry list" where
  "merge_nodes H d seen result [] = result"
| "merge_nodes H d seen result (n # nodes) =
     (let (seen, result) = merge_entries seen result (node_entries H d n) in merge_nodes H d seen result nodes)"

definition docker_inbox :: "'w docker_http \<Rightarrow> 'w docker \<Rightarrow> inbox_entry list" where
  "docker_inbox H d = merge_nodes H d {} [] (filter dn_alive (dk_nodes d))"

definition docker_request :: "docker_node \<Rightarrow> string \<Rightarrow> bytes \<Rightarrow> relay_request" where
  "docker_request gw to_id payload =
     \<lparr>rr_to_id = to_id, rr_text = from_utf8_lossy payload, rr_from_client = dn_node_id gw, rr_path = [dn_node_id gw],
      rr_all_nodes = [], rr_return_node_url = None, rr_correlation_id = None\<rparr>"

definition docker_answer :: "(relay_json, post_error) result \<Rightarrow> (bytes, string) result" where
  "docker_answer r =
     (case r of
        Inl (HttpError e) \<Rightarrow> Err (''HTTP error: '' @ e)
      | Inl (BadJson e) \<Rightarrow> Err (''bad JSON: '' @ e)
      | Inr json \<Rightarrow>
          if rj_delivered json \<noteq> Some True
          then Err (''relay failed: '' @ (case rj_error json of None \<Rightarrow> ''not delivered'' | Some e \<Rightarrow> e))
          else (case rj_response json of
                  Some r \<Rightarrow> Ok (string_bytes r)
                | None \<Rightarrow> Err ''packet delivered but server returned no response''))"

definition docker_rpc ::
  "'a console_libs_scheme \<Rightarrow> 'w docker_http \<Rightarrow> 'w docker \<Rightarrow> string \<Rightarrow> bytes \<Rightarrow> nat \<Rightarrow>
   (bytes, string) result \<times> 'w docker" where
  "docker_rpc L H d to payload timeout_ms =
     (case resolve_node_id L d to of
        Inl e \<Rightarrow> (Err e, d)
      | Inr to_id \<Rightarrow>
          (case gateway d of
             Inl e \<Rightarrow> (Err e, d)
           | Inr gw \<Rightarrow>
               let (r, w) = dh_relay H (dk_world d) (dn_admin_url gw @ ''/api/relay'') timeout_ms
                              (docker_request gw to_id payload)
               in (docker_answer r, d\<lparr>dk_world := w\<rparr>)))"

definition docker_backend :: "'a console_libs_scheme \<Rightarrow> 'w docker_http \<Rightarrow> 'w docker admin_backend" where
  "docker_backend L H =
     \<lparr>ab_mode_name = ''docker'', ab_node_list = docker_node_list, ab_stats = docker_stats,
      ab_peer_table = docker_peer_table H, ab_step = (\<lambda>n. docker_refresh H), ab_drop_probability = (\<lambda>d. 0),
      ab_set_drop_probability = (\<lambda>p d. d), ab_inbox = docker_inbox H, ab_rpc = docker_rpc L H\<rparr>"

subsection \<open>The command line\<close>

record sim_args =
  sa_docker :: bool
  sa_nodes :: "nat option"
  sa_base_port :: u16
  sa_client :: string

text \<open>The argument of an option, when there is one.\<close>

definition next_arg :: "string list \<Rightarrow> string option" where
  "next_arg raw = (case raw of [] \<Rightarrow> None | s # _ \<Rightarrow> Some s)"

fun sim_args_loop :: "sim_args \<Rightarrow> string list \<Rightarrow> sim_args" where
  "sim_args_loop a [] = a"
| "sim_args_loop a (s # raw) =
     (if s = ''--docker'' then sim_args_loop (a\<lparr>sa_docker := True\<rparr>) raw
      else if s \<in> {''--nodes'', ''-n'', ''-N''} then
        sim_args_loop (a\<lparr>sa_nodes := Option.bind (next_arg raw) parse_usize\<rparr>) (tl raw)
      else if s = ''--base-port'' then
        sim_args_loop (case Option.bind (next_arg raw) parse_u16 of None \<Rightarrow> a | Some p \<Rightarrow> a\<lparr>sa_base_port := p\<rparr>) (tl raw)
      else if s = ''--client'' then
        sim_args_loop (case next_arg raw of None \<Rightarrow> a | Some name \<Rightarrow> a\<lparr>sa_client := name\<rparr>) (tl raw)
      else sim_args_loop (case parse_usize s of None \<Rightarrow> a | Some n \<Rightarrow> a\<lparr>sa_nodes := Some n\<rparr>) raw)"

definition parse_sim_args :: "string list \<Rightarrow> sim_args" where
  "parse_sim_args = sim_args_loop \<lparr>sa_docker = False, sa_nodes = None, sa_base_port = 17701, sa_client = ''me''\<rparr>"

text \<open>The addresses of the containers; the sum of the ports overflows, which panics in a debug build.\<close>

definition admin_urls :: "sim_args \<Rightarrow> string list option" where
  "admin_urls a =
     (let n = (case sa_nodes a of None \<Rightarrow> 6 | Some n \<Rightarrow> n)
      in if list_all (\<lambda>i. unat (sa_base_port a) + i mod 65536 < 65536) [0 ..< n]
         then Some (map (\<lambda>i. ''http://localhost:'' @ nat_to_string (unat (sa_base_port a) + i mod 65536)) [0 ..< n])
         else None)"

subsection \<open>Networks of nodes and servers\<close>

text \<open>
  Who answers at an address: the participant whose base URL it extends by the path.  A server has no
  administrative endpoints.
\<close>

definition strip_suffix :: "string \<Rightarrow> string \<Rightarrow> string option" where
  "strip_suffix path url =
     (let k = length url - length path
      in if length path \<le> length url \<and> drop k url = path then Some (take k url) else None)"

definition admin_at :: "mixed \<Rightarrow> string \<Rightarrow> string \<Rightarrow> admin_state option" where
  "admin_at net path url =
     (case strip_suffix path url of
        None \<Rightarrow> None
      | Some base_url \<Rightarrow>
          (case hm_get net (relay_endpoint base_url) of Some (PlainNode g) \<Rightarrow> Some g | _ \<Rightarrow> None))"

definition relay_json_of :: "relay_response \<Rightarrow> relay_json" where
  "relay_json_of r = \<lparr>rj_delivered = Some (rs_delivered r), rj_error = rs_error r, rj_response = rs_response r\<rparr>"

definition mixed_http :: "'a hex_libs_scheme \<Rightarrow> url_order \<Rightarrow> mixed docker_http" where
  "mixed_http L order =
     \<lparr>dh_info = (\<lambda>net url. case admin_at net ''/api/info'' url of None \<Rightarrow> Err (http_error L url) | Some g \<Rightarrow> Ok (handle_info L g)),
      dh_peers = (\<lambda>net url. case admin_at net ''/api/peers'' url of None \<Rightarrow> Err (http_error L url) | Some g \<Rightarrow> Ok (handle_peers L order g)),
      dh_inbox = (\<lambda>net url. case admin_at net ''/api/inbox'' url of None \<Rightarrow> Err (http_error L url) | Some g \<Rightarrow> Ok (handle_inbox g)),
      dh_relay = (\<lambda>net url timeout_ms req.
        (case mixed_at L order (mixed_fuel L net) net url req of
           None \<Rightarrow> (Inl (HttpError (http_error L url)), net)
         | Some (Inl e, net) \<Rightarrow> (Inl (HttpError e), net)
         | Some (Inr resp, net) \<Rightarrow> (Inr (relay_json_of resp), net)))\<rparr>"

lemma strip_suffix_append [simp]: "strip_suffix path (url @ path) = Some url"
  by (simp add: strip_suffix_def Let_def)

lemma mixed_relay_steps:
  assumes "is_order order"
  shows "mixed_step\<^sup>*\<^sup>* net (snd (dh_relay (mixed_http L order) net url timeout req))"
  using mixed_answers [OF assms, where L = L and net = net and ep = url and req = req]
  by (auto simp: mixed_http_def answers_def mixed_outcome_def split: option.split sum.split)

subsection \<open>Console sessions\<close>

text \<open>What a console never changes of its own record of the nodes.\<close>

definition node_frame :: "docker_node \<Rightarrow> nat \<times> string \<times> string \<times> bool" where
  "node_frame n = (dn_index n, dn_node_id n, dn_admin_url n, dn_alive n)"

lemma node_frame_refresh [simp]: "node_frame (refresh_node H w n) = node_frame n"
  by (simp add: refresh_node_def node_frame_def split: sum.split)

definition docker_good :: "url_order \<Rightarrow> mixed docker \<Rightarrow> mixed docker \<Rightarrow> bool" where
  "docker_good order d0 d \<longleftrightarrow> is_order order \<and> map node_frame (dk_nodes d) = map node_frame (dk_nodes d0) \<and>
     mixed_step\<^sup>*\<^sup>* (dk_world d0) (dk_world d)"

interpretation dk: console_backend "docker_backend L (mixed_http L order)" "docker_good order d0" for L order d0
proof unfold_locales
  fix d n p to payload timeout
  assume d: "docker_good order d0 d"
  show "docker_good order d0 (ab_step (docker_backend L (mixed_http L order)) n d)"
    using d by (simp add: docker_good_def docker_backend_def docker_refresh_def comp_def)
  show "docker_good order d0 (ab_set_drop_probability (docker_backend L (mixed_http L order)) p d)"
    using d by (simp add: docker_backend_def)
  have "mixed_step\<^sup>*\<^sup>* (dk_world d0) (snd (dh_relay (mixed_http L order) (dk_world d) url timeout req))" for url req
    using mixed_relay_steps [of order "dk_world d"] d unfolding docker_good_def by (meson rtranclp_trans)
  then show "docker_good order d0 (snd (ab_rpc (docker_backend L (mixed_http L order)) d to payload timeout))"
    using d by (simp add: docker_good_def docker_backend_def docker_rpc_def case_prod_beta' Let_def split: sum.split)
qed

subsection \<open>Merged inboxes\<close>

lemma merge_entries_spec:
  assumes "seen = inbox_key ` set result" "distinct (map inbox_key result)" "merge_entries seen result es = (seen', result')"
  shows "seen' = inbox_key ` set result' \<and> distinct (map inbox_key result') \<and>
    set result' \<subseteq> set result \<union> set es \<and> inbox_key ` set result' = inbox_key ` (set result \<union> set es) \<and> (\<exists>more. result' = result @ more)"
  using assms
proof (induction es arbitrary: seen result)
  case (Cons e es)
  show ?case
  proof (cases "inbox_key e \<in> seen")
    case True
    then show ?thesis using Cons.IH [OF Cons.prems(1,2)] Cons.prems by auto
  next
    case False
    then have "merge_entries (insert (inbox_key e) seen) (result @ [e]) es = (seen', result')" using Cons.prems(3) by simp
    from Cons.IH [OF _ _ this] show ?thesis using False Cons.prems(1,2) by (auto simp: image_Un)
  qed
qed auto

lemma merge_nodes_spec:
  assumes "seen = inbox_key ` set result" "distinct (map inbox_key result)"
  shows "distinct (map inbox_key (merge_nodes H d seen result ns)) \<and>
    set (merge_nodes H d seen result ns) \<subseteq> set result \<union> (\<Union>n \<in> set ns. set (node_entries H d n)) \<and>
    inbox_key ` set (merge_nodes H d seen result ns) = inbox_key ` (set result \<union> (\<Union>n \<in> set ns. set (node_entries H d n)))"
  using assms
proof (induction ns arbitrary: seen result)
  case (Cons n ns)
  obtain seen' result' where m: "merge_entries seen result (node_entries H d n) = (seen', result')" by fastforce
  note spec = merge_entries_spec [OF Cons.prems m]
  from Cons.IH [of seen' result'] spec show ?case by (simp add: m) (auto simp: image_Un)
qed simp

subsection \<open>Packets\<close>

lemma dispatch_only_nodes:
  assumes post: "\<And>net ep req r net'. all net \<Longrightarrow> post net ep req = Some (r, net') \<Longrightarrow>
      all net' \<and> (\<forall>resp. r = Ok resp \<longrightarrow> rs_response resp = None)"
    and "all net" "relay_dispatch L post req dec net = Some (resp, net')"
  shows "all net' \<and> rs_response resp = None"
proof -
  have fan: "all net \<Longrightarrow> rs_response l = None \<Longrightarrow> fan_out post req alts l net = Some (resp, net') \<Longrightarrow>
      all net' \<and> rs_response resp = None" for alts l net
  proof (induction alts arbitrary: l net)
    case (Cons alt alts)
    obtain h url where alt: "alt = (h, url)" by fastforce
    obtain r net1 where r: "post net (relay_endpoint url) (req\<lparr>rr_path := rr_path req @ [h]\<rparr>) = Some (r, net1)"
      using Cons.prems(3) by (auto simp: alt split: option.splits)
    show ?case using post [OF Cons.prems(1) r] Cons r by (auto simp: alt split: sum.splits if_splits)
  qed simp
  show ?thesis
  proof (cases dec)
    case (RelayForward nid u)
    then show ?thesis
      using assms(2,3) post
      by (auto simp: relay_dispatch_def failed_def Let_def split: option.splits if_splits sum.splits dest: post [OF assms(2)])
  next
    case (RelayLocalMinimum alts)
    have none: "rs_response (failed path e) = None" for path e by (simp add: failed_def)
    show ?thesis
    proof (cases "alts = []")
      case True
      then show ?thesis using assms(2,3) RelayLocalMinimum by (auto simp: relay_dispatch_def none)
    next
      case False
      then show ?thesis
        using assms(3) RelayLocalMinimum by (auto simp: relay_dispatch_def intro: fan [OF assms(2) none] dest: fan [OF assms(2) none])
    qed
  qed
qed

definition only_nodes :: "mixed \<Rightarrow> bool" where
  "only_nodes net \<longleftrightarrow> (\<forall>ep p. hm_get net ep = Some p \<longrightarrow> (\<exists>g. p = PlainNode g))"

lemma nodes_never_respond:
  "only_nodes net \<Longrightarrow> mixed_at L order f net ep req = Some (r, net') \<Longrightarrow>
    only_nodes net' \<and> (\<forall>resp. r = Ok resp \<longrightarrow> rs_response resp = None)"
proof (induction f arbitrary: net ep req r net')
  case (Suc f)
  show ?case
  proof (cases "hm_get net ep")
    case (Some p)
    then obtain g where p: "hm_get net ep = Some (PlainNode g)" using Suc.prems(1) unfolding only_nodes_def by blast
    show ?thesis
    proof (cases "relay_decide L order g req")
      case (Inl a)
      then obtain resp g' where a: "relay_decide L order g req = Inl (resp, g')" by (cases a) auto
      then have "rs_response resp = None" using relay_decide_cases [OF a] by (auto simp: failed_def delivered_to_def)
      then show ?thesis using Suc.prems a p by (auto simp: only_nodes_def split: if_splits)
    next
      case (Inr dec)
      then obtain resp where d: "relay_dispatch L (mixed_at L order f) req dec net = Some (resp, net')" "r = Ok resp"
        using Suc.prems(2) p by (auto split: option.splits)
      have "only_nodes net' \<and> rs_response resp = None"
        using Suc.prems(1) d(1) by (rule dispatch_only_nodes [rotated]) (rule Suc.IH)
      then show ?thesis using d(2) by simp
    qed
  qed (use Suc.prems in auto)
qed simp

lemma docker_rpc_sent:
  assumes "resolve_node_id L d name = Ok to_id" "gateway d = Ok gw"
  shows "docker_rpc L H d name payload timeout =
    (case dh_relay H (dk_world d) (relay_endpoint (dn_admin_url gw)) timeout (docker_request gw to_id payload) of
       (r, w) \<Rightarrow> (docker_answer r, d\<lparr>dk_world := w\<rparr>))"
  by (simp add: docker_rpc_def assms relay_endpoint_def Let_def)

subsection \<open>Properties\<close>

text \<open>
  C11: a packet sent from the console reaches an application server and its answer comes back.  If next hops
  lead from the first live node to the server that the name stands for, however many nodes and
  servers lie between, and the server has a handler for the packet's text, then the console gets
  that handler's answer, as lossy UTF-8 text, for the packet and the gateway's identity as sender, and the network is as before.
\<close>

theorem docker_rpc_answered:
  assumes "hex_ok L" "is_order order"
    "resolve_node_id L d name = Ok (id_hex L (n_id (rn_node b)))" "gateway d = Ok gw" "dn_node_id gw = id_hex L sender"
    "hm_get (dk_world d) ep_b = Some (AppServer b)"
    "route L (roster (dk_world d)) (n_id (rn_node b)) (relay_endpoint (dn_admin_url gw)) [dn_node_id gw] ep_b path"
    "find_handler b (utf8_lossy payload) = Some h"
    "h_handle h \<lparr>pk_from = sender, pk_payload = utf8_lossy payload\<rparr> = Some answer"
  shows "docker_rpc L (mixed_http L order) d name payload timeout = (Ok (utf8_lossy answer), d)"
proof -
  let ?req = "docker_request gw (id_hex L (n_id (rn_node b))) payload"
  let ?net = "dk_world d"
  let ?resp = "srv_delivered (?req\<lparr>rr_path := path\<rparr>) (Some (from_utf8_lossy answer))"
  obtain f where f: "mixed_fuel L ?net = Suc f" unfolding mixed_fuel_def by simp
  have "parse_node_id L (dn_node_id gw) = Some sender" by (simp add: assms(5) parse_node_id_hex [OF assms(1)])
  then have deliver: "srv_deliver L post ep_b b (?req\<lparr>rr_path := path\<rparr>) ?net = Some (?resp, ?net)" for post
    using assms(8,9) by (simp add: srv_deliver_def docker_request_def pending_call_def Let_def)
  have "srv_do_relay L order post ep_b b (?req\<lparr>rr_path := path\<rparr>) ?net = Some (?resp, ?net)" for post
    using srv_do_relay_to(1) [OF assms(1), of "?req\<lparr>rr_path := path\<rparr>" "n_id (rn_node b)" b] deliver
    by (simp add: docker_request_def)
  then have "mixed_at L order (mixed_fuel L ?net) ?net ep_b (?req\<lparr>rr_path := path\<rparr>) = Some (Ok ?resp, ?net)"
    unfolding f using assms(6) by simp
  from mixed_at_route [OF assms(7,1,2) this]
  have "mixed_at L order (mixed_fuel L ?net) ?net (relay_endpoint (dn_admin_url gw)) ?req = Some (Ok ?resp, ?net)"
    by (simp add: docker_request_def)
  then show ?thesis
    by (simp add: docker_rpc_sent [OF assms(3,4)] mixed_http_def docker_answer_def relay_json_of_def srv_delivered_def)
qed

text \<open>
  Plain nodes deliver but never answer.  In a network without application servers every packet and
  every \<^verbatim>\<open>ping\<close> from the console ends in an error; it has changed the network only if the error
  says that the packet was delivered.
\<close>

theorem docker_nodes_never_answer:
  assumes "is_order order" "only_nodes (dk_world d)" "docker_rpc L (mixed_http L order) d name payload timeout = (r, d')"
  shows "\<exists>e. r = Err e \<and> dk_nodes d' = dk_nodes d \<and>
    (dk_world d' \<noteq> dk_world d \<longrightarrow> e = ''packet delivered but server returned no response'')"
proof (cases "\<exists>to_id gw. resolve_node_id L d name = Ok to_id \<and> gateway d = Ok gw")
  case True
  then obtain to_id gw where sent: "resolve_node_id L d name = Ok to_id" "gateway d = Ok gw" by blast
  let ?req = "docker_request gw to_id payload"
  let ?at = "mixed_at L order (mixed_fuel L (dk_world d)) (dk_world d) (relay_endpoint (dn_admin_url gw)) ?req"
  have "answers (mixed_outcome L ?req (dk_world d)) (dk_world d) ?at" by (rule mixed_answers [OF assms(1)])
  then show ?thesis
  proof (cases rule: answers_cases)
    case (1 e)
    then show ?thesis
      using assms(3) by (auto simp: docker_rpc_sent [OF sent] mixed_http_def docker_answer_def)
  next
    case (2 resp net')
    then have "rs_response resp = None" using nodes_never_respond [OF assms(2) 2(1)] by simp
    then show ?thesis
      using assms(3) 2 by (auto simp: docker_rpc_sent [OF sent] mixed_http_def docker_answer_def relay_json_of_def)
  qed
next
  case False
  then show ?thesis using assms(3) by (auto simp: docker_rpc_def split: sum.splits)
qed

text \<open>
  The combined inbox shows, in some order, exactly one of the messages of the live nodes for each
  pair of sender and text as it is printed, and nothing else.
\<close>

theorem docker_inbox_merged:
  assumes "nodes = filter dn_alive (dk_nodes d)" "found = (\<Union>n \<in> set nodes. set (node_entries H d n))"
  shows "distinct (map inbox_key (docker_inbox H d)) \<and> set (docker_inbox H d) \<subseteq> found \<and>
    inbox_key ` set (docker_inbox H d) = inbox_key ` found"
  using merge_nodes_spec [of "{}" "[]" H d nodes] assms by (simp add: docker_inbox_def)

text \<open>
  No session with the console changes what it knows of the nodes, apart from their health and number
  of slots, and all that it does to the network is to add inbox entries and resolve pending calls: no
  table and no URL map of a participant changes.
\<close>

theorem docker_session_safe:
  assumes "is_order order" "repl_run L (docker_backend L (mixed_http L order)) name d lines = Some (out, d')"
  shows "map node_frame (dk_nodes d') = map node_frame (dk_nodes d) \<and> mixed_step\<^sup>*\<^sup>* (dk_world d) (dk_world d') \<and>
    roster (dk_world d') = roster (dk_world d)"
proof -
  have "docker_good order d d" using assms(1) by (simp add: docker_good_def)
  from dk.good_session [OF this assms(2)] show ?thesis
    using mixed_steps_roster unfolding docker_good_def by blast
qed

subsection \<open>Divergences\<close>

text \<open>
  \<^verbatim>\<open>peers\<close> and \<^verbatim>\<open>rpc\<close> resolve a name differently: a live node whose identifier begins with the digits of an
  index hides the node with that index from \<^verbatim>\<open>peers\<close>, while \<^verbatim>\<open>rpc\<close> goes to the index.
\<close>

lemma peers_of_another_node:
  assumes "dk_nodes d = n0 # n1 # rest" "dn_alive n0" "str_starts_with (dn_node_id n0) ''1''"
  shows "docker_peer_table H d ''1'' = docker_peer_table H (d\<lparr>dk_nodes := [n0]\<rparr>) ''1''"
    "resolve_node_id L d ''1'' = Ok (dn_node_id n1)"
proof -
  show "docker_peer_table H d ''1'' = docker_peer_table H (d\<lparr>dk_nodes := [n0]\<rparr>) ''1''"
    using assms by (simp add: docker_peer_table_def)
  have "nat_to_string 1 = ''1''" by code_simp
  then have "parse_usize ''1'' = Some 1" using parse_nat_to_string [of 1] by (simp add: usize_max_def)
  then show "resolve_node_id L d ''1'' = Ok (dn_node_id n1)" using assms(1) by (simp add: resolve_node_id_def)
qed

text \<open>Two different messages may be printed alike, and a message sent twice is shown once.\<close>

lemma inbox_key_collides:
  "inbox_key \<lparr>ib_from = ''a'', ib_text = ''b|c''\<rparr> = inbox_key \<lparr>ib_from = ''a|b'', ib_text = ''c''\<rparr>"
  by (simp add: inbox_key_def)

text \<open>A node that reports an identifier with a letter of two bytes across byte 8 ends the console.\<close>

lemma node_list_panics: "docker_short_id (replicate 7 CHR ''a'' @ [CHR 0xC3, CHR 0xA9]) = None"
  by code_simp

subsection \<open>Witnesses\<close>

definition demo_docker :: "mixed \<Rightarrow> mixed docker" where
  "demo_docker net =
     \<lparr>dk_nodes =
        [\<lparr>dn_index = 0, dn_node_id = id_hex demo_console (idn 8), dn_admin_url = ''http://a'', dn_alive = True,
          dn_healthy = True, dn_slots = 1\<rparr>,
         \<lparr>dn_index = 1, dn_node_id = id_hex demo_console (idn 4), dn_admin_url = ''http://b'', dn_alive = True,
          dn_healthy = True, dn_slots = 0\<rparr>],
      dk_world = net\<rparr>"

definition demo_plain :: mixed where
  "demo_plain = [(''http://a/api/relay'', PlainNode demo_admin_a),
     (''http://b/api/relay'', PlainNode (demo_admin_b\<lparr>as_inbox := replicate 2 \<lparr>ib_from = ''me'', ib_text = ''hi''\<rparr>\<rparr>))]"

lemma demo_docker_resolve:
  "resolve_node_id demo_console (demo_docker net) ''1'' = Ok (id_hex demo_console (idn 4))"
  "gateway (demo_docker net) = Ok (hd (dk_nodes (demo_docker net)))"
proof -
  have "nat_to_string 1 = ''1''" by code_simp
  then have "parse_usize ''1'' = Some 1" using parse_nat_to_string [of 1] by (simp add: usize_max_def)
  then show "resolve_node_id demo_console (demo_docker net) ''1'' = Ok (id_hex demo_console (idn 4))"
    by (simp add: resolve_node_id_def demo_docker_def)
  show "gateway (demo_docker net) = Ok (hd (dk_nodes (demo_docker net)))"
    by (simp add: gateway_def demo_docker_def)
qed

lemma demo_mixed_hop:
  "route demo_console (roster demo_mixed) (idn 4) (relay_endpoint ''http://a'') [id_hex demo_console (idn 8)]
     (relay_endpoint ''http://b'') [id_hex demo_console (idn 8), id_hex demo_console (idn 4)]"
proof -
  have "route demo_console (roster demo_mixed) (idn 4) (relay_endpoint ''http://b'')
      ([id_hex demo_console (idn 8)] @ [id_hex demo_console (idn 4)]) (relay_endpoint ''http://b'')
      [id_hex demo_console (idn 8), id_hex demo_console (idn 4)]"
    by (simp add: route_here)
  moreover have "map_of (roster demo_mixed) (relay_endpoint ''http://a'') = Some (relay_node.truncate demo_srv_a)"
    by (simp add: roster_get relay_endpoint_def demo_mixed_get)
  ultimately show ?thesis
    by (rule route_hop [rotated 5])
      (simp_all add: demo_mixed_get(3) id_hex_inject [OF demo_console_ok(1)],
       simp_all add: demo_srv_a_def hm_get_def demo_net_get(6,7) next_hop_def Let_def)
qed

theorem docker_rpc_answered_witness:
  "docker_rpc demo_console (mixed_http demo_console rev) (demo_docker demo_mixed) ''1'' [104, 105] 5000 =
     (Ok (utf8_lossy (utf8_lossy [104, 105])), demo_docker demo_mixed)"
proof -
  have world: "dk_world (demo_docker demo_mixed) = demo_mixed"
    "dn_admin_url (hd (dk_nodes (demo_docker demo_mixed))) = ''http://a''"
    "dn_node_id (hd (dk_nodes (demo_docker demo_mixed))) = id_hex demo_console (idn 8)"
    by (simp_all add: demo_docker_def)
  show ?thesis
    by (rule docker_rpc_answered [OF demo_console_ok(1) is_order_id(2) _ demo_docker_resolve(2) world(3),
          where b = demo_srv_b and ep_b = "relay_endpoint ''http://b''"])
      (simp_all only: world demo_mixed_get demo_docker_resolve, rule demo_mixed_hop, simp_all add: CatchAllHandler_new_def)
qed

lemma demo_plain_nodes: "only_nodes demo_plain"
  by (auto simp: only_nodes_def demo_plain_def hm_get_def split: if_splits)

theorem docker_nodes_never_answer_witness:
  "\<exists>e. fst (docker_rpc demo_console (mixed_http demo_console rev) (demo_docker demo_plain) ''1'' [104, 105] 5000) = Err e"
proof -
  have "only_nodes (dk_world (demo_docker demo_plain))" using demo_plain_nodes by (simp add: demo_docker_def)
  from docker_nodes_never_answer [OF is_order_id(2) this prod.collapse [symmetric]] show ?thesis by blast
qed

theorem docker_inbox_merged_witness:
  "inbox_key ` set (docker_inbox (mixed_http demo_console rev) (demo_docker demo_plain)) = {''me|hi''} \<and>
   distinct (map inbox_key (docker_inbox (mixed_http demo_console rev) (demo_docker demo_plain)))"
proof -
  let ?H = "mixed_http demo_console rev" and ?d = "demo_docker demo_plain"
  have "hm_get demo_plain (relay_endpoint ''http://b'') =
      Some (PlainNode (demo_admin_b\<lparr>as_inbox := replicate 2 \<lparr>ib_from = ''me'', ib_text = ''hi''\<rparr>\<rparr>))"
    "hm_get demo_plain (relay_endpoint ''http://a'') = Some (PlainNode demo_admin_a)"
    by (simp_all add: demo_plain_def hm_get_def relay_endpoint_def)
  then have "(\<Union>n \<in> set (filter dn_alive (dk_nodes ?d)). set (node_entries ?H ?d n)) = {\<lparr>ib_from = ''me'', ib_text = ''hi''\<rparr>}"
    by (simp add: demo_docker_def node_entries_def mixed_http_def admin_at_def handle_inbox_def demo_admin_a_def
        del: append.simps)
  from docker_inbox_merged [OF refl this [symmetric]] show ?thesis by (simp add: inbox_key_def)
qed

theorem docker_session_safe_witness:
  "\<exists>out d'. repl_run demo_console (docker_backend demo_console (mixed_http demo_console rev)) ''me'' (demo_docker demo_plain) [] =
     Some (out, d') \<and> roster (dk_world d') = roster demo_plain"
proof -
  obtain out d' where run: "repl_run demo_console (docker_backend demo_console (mixed_http demo_console rev)) ''me''
      (demo_docker demo_plain) [] = Some (out, d')"
    by (simp add: repl_run_def)
  from docker_session_safe [OF is_order_id(2) run] run show ?thesis by (auto simp: demo_docker_def)
qed

subsection \<open>The containers' addresses\<close>

lemma nat_to_string_inject: "nat_to_string m = nat_to_string n \<longleftrightarrow> m = n"
  using nat_to_string_digits [of m] nat_to_string_digits [of n] by metis

lemma admin_urls_distinct:
  assumes "admin_urls a = Some urls" "length urls \<le> 65536"
  shows "distinct urls"
proof -
  obtain n where n: "urls = map (\<lambda>i. ''http://localhost:'' @ nat_to_string (unat (sa_base_port a) + i mod 65536)) [0 ..< n]"
    using assms(1) by (auto simp: admin_urls_def Let_def split: if_splits)
  then have "n \<le> 65536" using assms(2) by simp
  then have "inj_on (\<lambda>i. ''http://localhost:'' @ nat_to_string (unat (sa_base_port a) + i mod 65536)) {0 ..< n}"
    by (intro inj_onI) (simp add: nat_to_string_inject)
  then show ?thesis unfolding n by (simp add: distinct_map)
qed

text \<open>The last occurrence of an option decides, and an option without a readable number takes the number back.\<close>

lemma nodes_option_resets: "sa_nodes (parse_sim_args [''5'', ''--nodes'', ''x'']) = None"
proof -
  have "parse_usize ''5'' = Some 5" "parse_usize ''x'' = None" by (simp_all add: parse_usize_def strip_prefix_char_def is_digit_def usize_max_def Let_def)
  then show ?thesis by (simp add: parse_sim_args_def next_arg_def)
qed

end
