(* ===== verification/Startup.thy ===== *)
theory Startup
  imports Services Console
begin

section \<open>Starting a node and a server\<close>

text \<open>
  The main functions of the node binary (\<^verbatim>\<open>zona-p2p-node/src/main.rs\<close>) and of the greeter
  (\<^verbatim>\<open>hello-server/src/main.rs\<close>), from the environment variables to the state that is served: addresses
  and key pair from the environment, then the bootstrap.  The key pair that is generated when no
  seed is set, the answers of the network and the parser of socket addresses are arguments.  The
  routers are in \<open>Web_Api\<close>; binding of sockets and logging are not modelled.
\<close>

subsection \<open>The node\<close>

record node_env =
  ne_admin_url :: "string option"
  ne_admin_port :: "string option"
  ne_bootstrap_peers :: "string option"
  ne_node_seed :: "string option"

datatype node_run = Standalone node | StartFailed seed_error | Serving u16 admin_state

definition env_keypair :: "'a hex_libs_scheme \<Rightarrow> string option \<Rightarrow> node_keypair \<Rightarrow> (node_keypair, seed_error) result" where
  "env_keypair L seed generated = (case seed of Some seed_hex \<Rightarrow> seed_keypair L seed_hex | None \<Rightarrow> Ok generated)"

definition node_main :: "'a hex_libs_scheme \<Rightarrow> introducer \<Rightarrow> node_env \<Rightarrow> node_keypair \<Rightarrow> node_run" where
  "node_main L net env generated =
     (case ne_admin_url env of
        None \<Rightarrow> Standalone (Node_new generated (NodeConfig_new (SocketAddrV4 0 7700)))
      | Some self_url \<Rightarrow>
          let admin_port = (case Option.bind (ne_admin_port env) parse_u16 of None \<Rightarrow> 7701 | Some p \<Rightarrow> p);
              peers = bootstrap_urls (ne_bootstrap_peers env)
          in case env_keypair L (ne_node_seed env) generated of
               Inl e \<Rightarrow> StartFailed e
             | Inr keypair \<Rightarrow> Serving admin_port (snd (node_bootstrap L net (node_main_state keypair self_url) peers)))"

subsection \<open>The greeter\<close>

record hello_env =
  he_self_url :: "string option"
  he_http_addr :: "string option"
  he_bootstrap :: "string option"
  he_seed :: "string option"

datatype 'addr hello_run = BadAddress | BadSeed seed_error | Listening 'addr server_state

definition hello_main ::
  "'a hex_libs_scheme \<Rightarrow> (string \<Rightarrow> 'addr option) \<Rightarrow> introducer \<Rightarrow> hello_env \<Rightarrow> node_keypair \<Rightarrow> 'addr hello_run" where
  "hello_main L parse_addr net env generated =
     (let self_url = (case he_self_url env of None \<Rightarrow> ''http://0.0.0.0:8801'' | Some u \<Rightarrow> u)
      in case parse_addr (case he_http_addr env of None \<Rightarrow> ''0.0.0.0:8801'' | Some a \<Rightarrow> a) of
           None \<Rightarrow> BadAddress
         | Some http_addr \<Rightarrow>
             let urls = bootstrap_urls (he_bootstrap env)
             in (case env_keypair L (he_seed env) generated of
                   Inl e \<Rightarrow> BadSeed e
                 | Inr keypair \<Rightarrow>
                     let server = hello_server self_url keypair
                     in Listening http_addr (if urls = [] then server else snd (srv_bootstrap L net server urls))))"

subsection \<open>Whoever answers is known\<close>

text \<open>An address answers for an identifier if every introduction to it is answered under that identifier.\<close>

definition answers_as :: "'a hex_libs_scheme \<Rightarrow> introducer \<Rightarrow> string \<Rightarrow> node_id \<Rightarrow> bool" where
  "answers_as L net url nid \<longleftrightarrow> (\<forall>k. \<exists>intro. net k url = Ok intro \<and> parse_node_id L (ir_node_id intro) = Some nid)"

lemma registers_keys: "only_registers g g' \<Longrightarrow> nid \<in> hm_keys (rn_peer_urls g) \<Longrightarrow> nid \<in> hm_keys (rn_peer_urls g')"
  by (auto simp: only_registers_def)

lemma only_registers_id:
  assumes "only_registers g g'" shows "n_id (rn_node g') = n_id (rn_node g)"
proof -
  have "rn_node g' = (rn_node g)\<lparr>n_table := n_table (rn_node g')\<rparr>" using assms by (simp add: only_registers_def)
  from arg_cong [OF this, of n_id] show ?thesis by simp
qed

lemma only_registers_handlers:
  fixes g g' :: server_state
  assumes "only_registers g g'" shows "ss_handlers g' = ss_handlers g"
proof -
  have "relay_node.more g' = relay_node.more g" using assms by (simp add: only_registers_def)
  then show ?thesis by (cases g; cases g') simp
qed

lemma register_answer_keys:
  assumes "parse_node_id L (ir_node_id intro) = Some nid"
  shows "nid \<in> hm_keys (rn_peer_urls (register_answer L target intro g))"
proof -
  have keep: "nid \<in> hm_keys (rn_peer_urls h) \<Longrightarrow>
      nid \<in> hm_keys (rn_peer_urls (foldl (\<lambda>g nb. register_hex L g (nb_node_id nb) (nb_admin_url nb)) h nbs))" for h nbs
    by (induction nbs arbitrary: h) (simp_all add: registers_keys [OF only_registers_hex])
  have "nid \<in> hm_keys (rn_peer_urls (register_hex L g (ir_node_id intro) target))"
    by (simp add: register_hex_def assms register_peer_def)
  then show ?thesis unfolding register_answer_def by (rule keep)
qed

lemma introduce_keys:
  assumes "answers_as L net url nid"
  shows "nid \<in> hm_keys (rn_peer_urls (snd (node_do_introduce L net k g url)))"
    "nid \<in> hm_keys (rn_peer_urls (snd (srv_do_introduce L net k g url)))"
    "\<exists>nbs h. srv_do_introduce L net k g url = (Ok nbs, h)"
proof -
  obtain intro where "net k url = Ok intro" "parse_node_id L (ir_node_id intro) = Some nid"
    using assms unfolding answers_as_def by blast
  then show "nid \<in> hm_keys (rn_peer_urls (snd (node_do_introduce L net k g url)))"
    "nid \<in> hm_keys (rn_peer_urls (snd (srv_do_introduce L net k g url)))"
    "\<exists>nbs h. srv_do_introduce L net k g url = (Ok nbs, h)"
    by (simp_all add: node_do_introduce_def srv_do_introduce_def register_answer_keys)
qed

lemma attempts_keys:
  assumes "answers_as L net url nid"
  shows "nid \<in> hm_keys (rn_peer_urls (snd (snd (snd (node_attempts L net (Suc left) k g url)))))"
proof -
  obtain nbs h where h: "node_do_introduce L net k g url = (nbs, h)" by fastforce
  then have "nid \<in> hm_keys (rn_peer_urls h)" using introduce_keys(1) [OF assms, of k g] by simp
  then show ?thesis
    using registers_keys [OF node_attempts_registers, of nid h L net left "Suc k" url] h by simp
qed

lemma round1_keys:
  fixes g :: "'r relay_node_scheme"
  assumes "answers_as L net url nid" "url \<in> set urls"
  shows "nid \<in> hm_keys (rn_peer_urls (snd (snd (node_round1 L net k g urls nbs))))"
    "nid \<in> hm_keys (rn_peer_urls (snd (snd (srv_round1 L net k g urls nbs))))"
proof -
  show "nid \<in> hm_keys (rn_peer_urls (snd (snd (node_round1 L net k g urls nbs))))"
    using assms(2)
  proof (induction urls arbitrary: k g nbs)
    case (Cons u urls)
    obtain ok ns k' h where a: "node_attempts L net 8 k g u = (ok, ns, k', h)" by (metis prod_cases4)
    have step: "node_round1 L net k g (u # urls) nbs = node_round1 L net k' h urls (nbs @ ns)"
      using a by (simp del: node_attempts.simps)
    show ?case
    proof (cases "url \<in> set urls")
      case True
      then show ?thesis unfolding step by (rule Cons.IH)
    next
      case False
      then have "u = url" using Cons.prems by simp
      then have "nid \<in> hm_keys (rn_peer_urls h)"
        using attempts_keys [OF assms(1), of 7 k g] a by (simp add: numeral_eq_Suc del: node_attempts.simps)
      then show ?thesis unfolding step by (rule registers_keys [OF node_round1_registers])
    qed
  qed simp
  show "nid \<in> hm_keys (rn_peer_urls (snd (snd (srv_round1 L net k g urls nbs))))"
    using assms(2)
  proof (induction urls arbitrary: k g nbs)
    case (Cons u urls)
    show ?case
    proof (cases "u = url")
      case True
      then obtain ns h where h: "srv_do_introduce L net k g u = (Ok ns, h)" using introduce_keys(3) [OF assms(1)] by blast
      then have "nid \<in> hm_keys (rn_peer_urls h)" using introduce_keys(2) [OF assms(1), of k g] True by simp
      then show ?thesis using registers_keys [OF srv_round1_registers, of nid h] h by simp
    next
      case False
      then have "url \<in> set urls" using Cons.prems by simp
      then show ?thesis
        using Cons.IH by (auto simp: case_prod_beta' Let_def split: prod.split sum.split simp del: srv_attempts.simps)
    qed
  qed simp
qed

lemma bootstrap_keys:
  assumes "answers_as L net url nid" "url \<in> set urls"
  shows "nid \<in> hm_keys (rn_peer_urls (snd (node_bootstrap L net g urls)))"
    "nid \<in> hm_keys (rn_peer_urls (snd (srv_bootstrap L net g urls)))"
  unfolding node_bootstrap_def srv_bootstrap_def Let_def case_prod_beta'
  using round1_keys [OF assms] registers_keys [OF node_round2_registers] registers_keys [OF srv_round2_registers] by blast+

subsection \<open>Properties\<close>

text \<open>
  C27: a node whose environment names its address and whose seed, if set, is well-formed starts serving.  It
  has the identity of the seed's key pair, its own address, an empty inbox and at most seven peers,
  and it knows a URL of every bootstrap peer that answers.  The port is the given one if it is a
  number below 65536 and 7701 otherwise.
\<close>

theorem node_starts:
  assumes "ne_admin_url env = Some self_url" "env_keypair L (ne_node_seed env) generated = Ok keypair"
  shows "\<exists>port g. node_main L net env generated = Serving port g \<and>
    node_reachable L keypair ((NodeConfig_new (SocketAddrV4 0 0))\<lparr>nc_max_greedy := 5\<rparr>) (rn_node g) \<and>
    n_id (rn_node g) = kp_node_id keypair \<and> length (pt_slots (n_table (rn_node g))) \<le> 7 \<and>
    rn_self_url g = self_url \<and> as_inbox g = [] \<and>
    (\<forall>url \<in> set (bootstrap_urls (ne_bootstrap_peers env)). \<forall>nid. answers_as L net url nid \<longrightarrow>
       nid \<in> hm_keys (rn_peer_urls g)) \<and>
    port = (case Option.bind (ne_admin_port env) parse_u16 of None \<Rightarrow> 7701 | Some p \<Rightarrow> p)"
proof -
  let ?cfg = "(NodeConfig_new (SocketAddrV4 0 0))\<lparr>nc_max_greedy := 5\<rparr>"
  let ?g0 = "node_main_state keypair self_url"
  define g where "g = snd (node_bootstrap L net ?g0 (bootstrap_urls (ne_bootstrap_peers env)))"
  have "node_reachable L keypair ?cfg (rn_node ?g0)" by (simp add: node_main_state_def Let_def node_reach_new)
  moreover have reg: "only_registers ?g0 g" unfolding g_def by (rule bootstrap_registers(1))
  ultimately have reach: "node_reachable L keypair ?cfg (rn_node g)" using only_registers_reachable by blast
  have "length (pt_slots (n_table (rn_node g))) \<le> nc_max_greedy ?cfg + 2"
    using table_reachable_frame [OF node_reachable_parts(1) [OF reach]] table_length_bound [of "n_table (rn_node g)"]
    by simp
  moreover have "relay_node.more g = relay_node.more ?g0" "rn_self_url g = self_url"
    using reg by (simp_all add: only_registers_def node_main_state_def Let_def)
  then have "as_inbox g = []" "rn_self_url g = self_url" by (cases g; simp add: node_main_state_def Let_def)+
  moreover have "nid \<in> hm_keys (rn_peer_urls g)"
    if "url \<in> set (bootstrap_urls (ne_bootstrap_peers env))" "answers_as L net url nid" for url nid
    unfolding g_def by (rule bootstrap_keys(1) [OF that(2,1)])
  ultimately show ?thesis
    using reach node_reachable_identity [OF reach] by (simp add: node_main_def assms Let_def flip: g_def)
qed

lemma hello_starts:
  assumes "parse_addr (case he_http_addr env of None \<Rightarrow> ''0.0.0.0:8801'' | Some a \<Rightarrow> a) = Some addr"
    "env_keypair L (he_seed env) generated = Ok keypair"
  shows "\<exists>g. hello_main L parse_addr net env generated = Listening addr g \<and> n_id (rn_node g) = kp_node_id keypair \<and>
    ss_handlers g = [CatchAllHandler_new hello_handler] \<and>
    (\<forall>url \<in> set (bootstrap_urls (he_bootstrap env)). \<forall>nid. answers_as L net url nid \<longrightarrow> nid \<in> hm_keys (rn_peer_urls g))"
proof -
  let ?urls = "bootstrap_urls (he_bootstrap env)"
  let ?s = "hello_server (case he_self_url env of None \<Rightarrow> ''http://0.0.0.0:8801'' | Some u \<Rightarrow> u) keypair"
  define g where "g = (if ?urls = [] then ?s else snd (srv_bootstrap L net ?s ?urls))"
  have run: "hello_main L parse_addr net env generated = Listening addr g"
    by (simp add: hello_main_def assms Let_def flip: g_def)
  have reg: "only_registers ?s g" unfolding g_def by (simp add: bootstrap_registers(2))
  then have "n_id (rn_node g) = n_id (rn_node ?s)" "ss_handlers g = ss_handlers ?s"
    by (rule only_registers_id, rule only_registers_handlers)
  moreover have "nid \<in> hm_keys (rn_peer_urls g)" if "url \<in> set ?urls" "answers_as L net url nid" for url nid
    using bootstrap_keys(2) [OF that(2,1), of ?s] that(1) unfolding g_def by (cases ?urls) simp_all
  ultimately show ?thesis
    using run by (simp add: hello_server_def server_register_def NodeServer_new_def Node_new_def Let_def)
qed

subsection \<open>Witnesses\<close>

definition demo_introducer :: introducer where
  "demo_introducer = (\<lambda>k url. if url = ''http://b'' then Ok \<lparr>ir_node_id = id_hex demo_hex (idn 4), ir_neighbors = []\<rparr>
     else Err ''refused'')"

theorem node_starts_witness:
  "\<exists>g. node_main demo_hex demo_introducer
       \<lparr>ne_admin_url = Some ''http://a'', ne_admin_port = None, ne_bootstrap_peers = Some ''http://b'', ne_node_seed = None\<rparr>
       (keypair_from_seed demo_hex (fill32 8)) = Serving 7701 g \<and>
     rn_self_url g = ''http://a'' \<and> idn 4 \<in> hm_keys (rn_peer_urls g)"
proof -
  let ?env = "\<lparr>ne_admin_url = Some ''http://a'', ne_admin_port = None, ne_bootstrap_peers = Some ''http://b'', ne_node_seed = None\<rparr>"
  have "bootstrap_urls (Some ''http://b'') = [''http://b'']" by code_simp
  moreover have "answers_as demo_hex demo_introducer ''http://b'' (idn 4)"
    by (simp add: answers_as_def demo_introducer_def parse_node_id_hex [OF demo_hex_ok])
  ultimately show ?thesis
    using node_starts [of ?env "''http://a''" demo_hex "keypair_from_seed demo_hex (fill32 8)"
        "keypair_from_seed demo_hex (fill32 8)" demo_introducer]
    by (auto simp: env_keypair_def)
qed

end
