(* ===== verification/Concurrent_Calls.thy ===== *)
theory Concurrent_Calls
  imports App_Server
begin

section \<open>Calls that overlap\<close>

text \<open>
  A server runs many calls of \<^verbatim>\<open>send_and_wait\<close> and answers many relays at once.  The code takes the lock for
  short regions only, so these interleave: a number is taken from the atomic counter, the call is entered
  under the lock, an arriving request takes a pending call out, and a call that fails or times out is
  removed.  Here each of these regions is one step of a transition system on the server's state, with the calls
  that have a number but are not yet entered beside it, and a run may interleave them in any order.
\<close>

datatype call_event =
    Allocated u64 nat
  | Inserted u64 nat
  | Arrived relay_request
  | GaveUp u64
  | Unrelated

type_synonym calls = "(u64 \<times> nat) list \<times> server_state"

definition alloc_call :: "server_state \<Rightarrow> u64 \<times> nat \<times> server_state" where
  "alloc_call g =
     (let tx = ss_channels g; (cid, g) = next_cid (g\<lparr>ss_channels := ss_channels g + 1\<rparr>) in (cid, tx, g))"

definition insert_call :: "u64 \<Rightarrow> nat \<Rightarrow> server_state \<Rightarrow> server_state" where
  "insert_call cid tx g = g\<lparr>ss_pending := hm_insert cid tx (ss_pending g)\<rparr>"

text \<open>Without interruption the two first regions are the opening of a call in the sequential model.\<close>

lemma open_call_regions: "open_call g = (case alloc_call g of (cid, tx, g) \<Rightarrow> (cid, tx, insert_call cid tx g))"
  by (simp add: open_call_def alloc_call_def insert_call_def next_cid_def Let_def)

inductive calls_step :: "calls \<Rightarrow> call_event \<Rightarrow> calls \<Rightarrow> bool" where
  step_alloc: "alloc_call g = (cid, tx, g') \<Longrightarrow> calls_step (fresh, g) (Allocated cid tx) ((cid, tx) # fresh, g')"
| step_insert: "(cid, tx) \<in> set fresh \<Longrightarrow>
    calls_step (fresh, g) (Inserted cid tx) (removeAll (cid, tx) fresh, insert_call cid tx g)"
| step_answer: "pending_call g req = Some (cid, tx) \<Longrightarrow>
    calls_step (fresh, g) (Arrived req) (fresh, resolve_pending cid tx (rr_text req) g)"
| step_packet: "pending_call g req = None \<Longrightarrow> calls_step (fresh, g) (Arrived req) (fresh, g)"
| step_give_up: "calls_step (fresh, g) (GaveUp cid) (fresh, remove_pending cid g)"
| step_other: "ss_pending g' = ss_pending g \<Longrightarrow> ss_sent g' = ss_sent g \<Longrightarrow> ss_next_cid g' = ss_next_cid g \<Longrightarrow>
    ss_channels g' = ss_channels g \<Longrightarrow> calls_step (fresh, g) Unrelated (fresh, g')"

inductive_cases calls_stepE: "calls_step c e c'"

inductive calls_run :: "calls \<Rightarrow> call_event list \<Rightarrow> calls \<Rightarrow> bool" where
  run_done: "calls_run c [] c"
| run_step: "calls_step c e c' \<Longrightarrow> calls_run c' es c'' \<Longrightarrow> calls_run c (e # es) c''"

inductive_cases run_doneE: "calls_run c [] c'"
inductive_cases run_stepE: "calls_run c (e # es) c''"

text \<open>What a call must get, from the events after it was entered and its own number alone.\<close>

fun first_answer :: "u64 \<Rightarrow> call_event list \<Rightarrow> bytes option" where
  "first_answer cid [] = None"
| "first_answer cid (Arrived req # es) =
     (if rr_correlation_id req = Some cid then Some (string_bytes (rr_text req)) else first_answer cid es)"
| "first_answer cid (GaveUp c # es) = (if c = cid then None else first_answer cid es)"
| "first_answer cid (e # es) = first_answer cid es"

subsection \<open>The invariant\<close>

text \<open>
  A channel and the number of its call determine each other while fewer than \<open>2 ^ 64\<close> calls were made; a
  call is at most once either waiting to be entered or pending, and then nothing was sent to it.
\<close>

definition number_of :: "nat \<Rightarrow> u64" where
  "number_of tx = 1 + word_of_nat tx"

definition call_known :: "server_state \<Rightarrow> u64 \<Rightarrow> nat \<Rightarrow> bool" where
  "call_known g c t \<longleftrightarrow> c = number_of t \<and> t < ss_channels g \<and> t \<notin> fst ` set (ss_sent g)"

definition calls_inv :: "calls \<Rightarrow> bool" where
  "calls_inv = (\<lambda>(fresh, g).
     ss_next_cid g = number_of (ss_channels g) \<and>
     (\<forall>c t. (c, t) \<in> set fresh \<longrightarrow> call_known g c t \<and> hm_get (ss_pending g) c \<noteq> Some t) \<and>
     (\<forall>c t. hm_get (ss_pending g) c = Some t \<longrightarrow> call_known g c t) \<and>
     (\<forall>t \<in> fst ` set (ss_sent g). t < ss_channels g) \<and> distinct (map fst (ss_sent g)))"

lemma calls_invI:
  assumes "ss_next_cid g = number_of (ss_channels g)"
    "\<And>c t. (c, t) \<in> set fresh \<Longrightarrow> call_known g c t \<and> hm_get (ss_pending g) c \<noteq> Some t"
    "\<And>c t. hm_get (ss_pending g) c = Some t \<Longrightarrow> call_known g c t"
    "\<And>t. t \<in> fst ` set (ss_sent g) \<Longrightarrow> t < ss_channels g" "distinct (map fst (ss_sent g))"
  shows "calls_inv (fresh, g)"
  using assms unfolding calls_inv_def by blast

lemma calls_invD:
  assumes "calls_inv (fresh, g)"
  shows "ss_next_cid g = number_of (ss_channels g)"
    "(c, t) \<in> set fresh \<Longrightarrow> call_known g c t" "(c, t) \<in> set fresh \<Longrightarrow> hm_get (ss_pending g) c \<noteq> Some t"
    "hm_get (ss_pending g) c = Some t \<Longrightarrow> call_known g c t"
    "t \<in> fst ` set (ss_sent g) \<Longrightarrow> t < ss_channels g" "distinct (map fst (ss_sent g))"
  using assms unfolding calls_inv_def by blast+

lemma number_of_Suc [simp]: "number_of (Suc n) = number_of n + 1"
  by (simp add: number_of_def ac_simps)

lemma number_of_inject: "s < 2 ^ 64 \<Longrightarrow> t < 2 ^ 64 \<Longrightarrow> number_of s = number_of t \<longleftrightarrow> s = t"
proof -
  assume st: "s < 2 ^ 64" "t < 2 ^ 64"
  have "unat (word_of_nat n :: u64) = n" if "n < 2 ^ 64" for n
    using that by (simp add: unsigned_of_nat take_bit_nat_eq_self)
  then have "(word_of_nat s :: u64) = word_of_nat t \<longleftrightarrow> s = t" using st by metis
  then show ?thesis by (simp add: number_of_def)
qed

lemma calls_inv_new: "calls_inv ([], NodeServer_new url keypair)"
  by (simp add: calls_inv_def NodeServer_new_def number_of_def Let_def)

lemma alloc_call_simps:
  assumes "alloc_call g = (cid, tx, g')"
  shows "cid = ss_next_cid g" "tx = ss_channels g" "g' = g\<lparr>ss_channels := ss_channels g + 1, ss_next_cid := ss_next_cid g + 1\<rparr>"
  using assms by (auto simp: alloc_call_def next_cid_def Let_def)

lemma channels_grow: "calls_step (fresh, g) e (fresh', g') \<Longrightarrow> ss_channels g \<le> ss_channels g'"
  by (auto elim!: calls_stepE dest: alloc_call_simps(3)
      simp: insert_call_def resolve_pending_def remove_pending_def)

lemma run_channels_grow: "calls_run c es c' \<Longrightarrow> ss_channels (snd c) \<le> ss_channels (snd c')"
  by (induction rule: calls_run.induct) (auto dest: channels_grow order_trans)

lemma calls_inv_step:
  assumes "calls_step (fresh, g) e (fresh', g')" "calls_inv (fresh, g)" "ss_channels g' \<le> 2 ^ 64"
  shows "calls_inv (fresh', g')"
  using assms(1)
proof (cases rule: calls_step.cases)
  case (step_alloc cid tx)
  note simps = alloc_call_simps [OF step_alloc(3)]
  have known: "call_known g' c t" if "call_known g c t" for c t
    using that simps(3) by (simp add: call_known_def)
  have new: "call_known g' cid tx" "hm_get (ss_pending g) cid \<noteq> Some tx"
    using calls_invD(1,4,5) [OF assms(2)] simps by (auto simp: call_known_def)
  show ?thesis
  proof (rule calls_invI)
    show "ss_next_cid g' = number_of (ss_channels g')" using calls_invD(1) [OF assms(2)] simps(3) by simp
    show "call_known g' c t \<and> hm_get (ss_pending g') c \<noteq> Some t" if "(c, t) \<in> set fresh'" for c t
      using that step_alloc(2) known new calls_invD(2,3) [OF assms(2), of c t] simps(3) by auto
    show "call_known g' c t" if "hm_get (ss_pending g') c = Some t" for c t
      using that known calls_invD(4) [OF assms(2), of c t] simps(3) by simp
    show "t < ss_channels g'" if "t \<in> fst ` set (ss_sent g')" for t
      using that calls_invD(5) [OF assms(2), of t] simps(3) by simp
    show "distinct (map fst (ss_sent g'))" using calls_invD(6) [OF assms(2)] simps(3) by simp
  qed
next
  case (step_insert cid tx)
  have g': "g' = insert_call cid tx g" using step_insert by simp
  have known: "call_known g' c t \<longleftrightarrow> call_known g c t" for c t by (simp add: g' insert_call_def call_known_def)
  have cid: "call_known g cid tx" using calls_invD(2) [OF assms(2)] step_insert(4) by blast
  show ?thesis
  proof (rule calls_invI)
    show "call_known g' c t \<and> hm_get (ss_pending g') c \<noteq> Some t" if fresh: "(c, t) \<in> set fresh'" for c t
    proof -
      have ct: "(c, t) \<in> set fresh" "(c, t) \<noteq> (cid, tx)" using fresh step_insert(2) by auto
      have "c = cid \<Longrightarrow> t \<noteq> tx" using ct(2) by simp
      then show ?thesis
        using known calls_invD(2,3) [OF assms(2) ct(1)] by (auto simp: g' insert_call_def)
    qed
    show "call_known g' c t" if "hm_get (ss_pending g') c = Some t" for c t
      using that known cid calls_invD(4) [OF assms(2), of c t] by (auto simp: g' insert_call_def split: if_splits)
  qed (use calls_invD(1,5,6) [OF assms(2)] in \<open>simp_all add: g' insert_call_def\<close>)
next
  case (step_answer req cid tx)
  have pending: "hm_get (ss_pending g) cid = Some tx" using step_answer by (auto simp: pending_call_def split: option.splits)
  have g': "g' = resolve_pending cid tx (rr_text req) g" using step_answer by simp
  note tx = calls_invD(4) [OF assms(2) pending]
  have known: "call_known g' c t" if "call_known g c t" "t \<noteq> tx" for c t
    using that by (simp add: g' resolve_pending_def call_known_def)
  have other: "t \<noteq> tx" if "call_known g c t" "(c, t) \<noteq> (cid, tx)" for c t
    using that tx by (auto simp: call_known_def)
  show ?thesis
  proof (rule calls_invI)
    show "call_known g' c t \<and> hm_get (ss_pending g') c \<noteq> Some t" if "(c, t) \<in> set fresh'" for c t
    proof -
      have ct: "(c, t) \<in> set fresh" using that step_answer by simp
      then have "(c, t) \<noteq> (cid, tx)" using calls_invD(3) [OF assms(2) ct] pending by auto
      then have "call_known g' c t" using known other calls_invD(2) [OF assms(2) ct] by blast
      then show ?thesis using calls_invD(3) [OF assms(2) ct] by (simp add: g' resolve_pending_def)
    qed
    show "call_known g' c t" if p: "hm_get (ss_pending g') c = Some t" for c t
    proof -
      have "hm_get (ss_pending g) c = Some t" "c \<noteq> cid" using p by (auto simp: g' resolve_pending_def split: if_splits)
      then show ?thesis using known other calls_invD(4) [OF assms(2), of c t] by blast
    qed
    show "t < ss_channels g'" if "t \<in> fst ` set (ss_sent g')" for t
      using that calls_invD(5) [OF assms(2), of t] tx by (auto simp: g' resolve_pending_def call_known_def)
    show "distinct (map fst (ss_sent g'))"
      using calls_invD(6) [OF assms(2)] tx by (simp add: g' resolve_pending_def call_known_def)
  qed (use calls_invD(1) [OF assms(2)] in \<open>simp add: g' resolve_pending_def\<close>)
next
  case (step_give_up cid)
  have known: "call_known g' c t \<longleftrightarrow> call_known g c t" for c t using step_give_up by (simp add: remove_pending_def call_known_def)
  show ?thesis
    by (rule calls_invI)
      (use step_give_up known calls_invD [OF assms(2)] in \<open>auto simp: remove_pending_def split: if_splits\<close>)
next
  case step_other
  then have "call_known g' c t \<longleftrightarrow> call_known g c t" for c t by (simp add: call_known_def)
  then show ?thesis using assms(2) step_other by (simp add: calls_inv_def)
qed (use assms(2) in simp)

subsection \<open>What a run sends to a call\<close>

text \<open>Nothing more is sent to a call that is neither waiting to be entered nor pending.\<close>

lemma closed_stays:
  assumes "calls_run c es c'" "c = (fresh, g)" "calls_inv (fresh, g)" "ss_channels (snd c') \<le> 2 ^ 64"
    "tx < ss_channels g" "\<And>n. (n, tx) \<notin> set fresh" "\<And>n. hm_get (ss_pending g) n \<noteq> Some tx"
  shows "map_of (ss_sent (snd c')) tx = map_of (ss_sent g) tx"
  using assms
proof (induction arbitrary: fresh g rule: calls_run.induct)
  case (run_step c e c1 es c')
  obtain fresh1 g1 where c1: "c1 = (fresh1, g1)" by (cases c1)
  have step: "calls_step (fresh, g) e (fresh1, g1)" using run_step.hyps(1) run_step.prems(1) c1 by simp
  have "ss_channels g1 \<le> 2 ^ 64"
    using run_channels_grow [OF run_step.hyps(2)] run_step.prems(3) c1 by simp
  note inv = calls_inv_step [OF step run_step.prems(2) this]
  have "ss_channels g \<le> ss_channels g1" by (rule channels_grow [OF step])
  then have lt: "tx < ss_channels g1" using run_step.prems(4) by simp
  have "(\<forall>n. (n, tx) \<notin> set fresh1) \<and> (\<forall>n. hm_get (ss_pending g1) n \<noteq> Some tx) \<and>
      map_of (ss_sent g1) tx = map_of (ss_sent g) tx"
    using step
  proof (cases rule: calls_step.cases)
    case (step_alloc n t)
    then show ?thesis using alloc_call_simps [OF step_alloc(3)] run_step.prems(4,5,6) by auto
  next
    case (step_insert n t)
    then have "t \<noteq> tx" using run_step.prems(5) by auto
    then show ?thesis using step_insert run_step.prems(5,6) by (auto simp: insert_call_def split: if_splits)
  next
    case (step_answer req n t)
    then have "hm_get (ss_pending g) n = Some t" by (auto simp: pending_call_def split: option.splits)
    then have "t \<noteq> tx" using run_step.prems(6) by auto
    then show ?thesis using step_answer run_step.prems(5,6)
      by (auto simp: resolve_pending_def map_add_def split: option.splits if_splits)
  next
    case (step_give_up n)
    then show ?thesis using run_step.prems(5,6) by (auto simp: remove_pending_def split: if_splits)
  qed (use run_step.prems(5,6) in auto)
  then show ?case using run_step.IH [OF c1 inv run_step.prems(3) lt] by simp
qed simp

lemma pending_answered:
  assumes "calls_run c es c'" "c = (fresh, g)" "calls_inv (fresh, g)" "ss_channels (snd c') \<le> 2 ^ 64"
    "hm_get (ss_pending g) cid = Some tx"
  shows "map_of (ss_sent (snd c')) tx = first_answer cid es"
  using assms
proof (induction arbitrary: fresh g rule: calls_run.induct)
  case (run_done c)
  have "call_known g cid tx" by (rule calls_invD(4) [OF run_done.prems(2,4)])
  then show ?case using run_done.prems(1) by (auto simp: call_known_def map_of_eq_None_iff)
next
  case (run_step c e c1 es c')
  obtain fresh1 g1 where c1: "c1 = (fresh1, g1)" by (cases c1)
  have step: "calls_step (fresh, g) e (fresh1, g1)" using run_step.hyps(1) run_step.prems(1) c1 by simp
  have small: "ss_channels g1 \<le> 2 ^ 64"
    using run_channels_grow [OF run_step.hyps(2)] run_step.prems(3) c1 by simp
  note inv = calls_inv_step [OF step run_step.prems(2) small]
  note known = calls_invD(4) [OF run_step.prems(2,4)]
  have lt: "tx < ss_channels g" "tx < ss_channels g1" "ss_channels g \<le> 2 ^ 64"
    using known channels_grow [OF step] small by (auto simp: call_known_def)
  note rest = run_step.IH [OF c1 inv run_step.prems(3)]
  note ended = closed_stays [OF run_step.hyps(2) c1 inv run_step.prems(3) lt(2)]
  have own: "n = cid" if "hm_get (ss_pending g) n = Some tx" for n
    using calls_invD(4) [OF run_step.prems(2) that] known by (simp add: call_known_def)
  have not_fresh: "(n, tx) \<notin> set fresh" for n
    using calls_invD(2,3) [OF run_step.prems(2), of n tx] known run_step.prems(4) by (auto simp: call_known_def)
  show ?case
    using step
  proof (cases rule: calls_step.cases)
    case (step_alloc n t)
    then show ?thesis using rest alloc_call_simps [OF step_alloc(3)] run_step.prems(4) by simp
  next
    case (step_insert n t)
    then have t: "call_known g n t" "t \<noteq> tx" using calls_invD(2) [OF run_step.prems(2)] not_fresh by blast+
    then have "n \<noteq> cid" using known number_of_inject [of t tx] lt by (auto simp: call_known_def)
    then show ?thesis using rest step_insert run_step.prems(4) by (simp add: insert_call_def)
  next
    case (step_answer req n t)
    then have req: "rr_correlation_id req = Some n" "hm_get (ss_pending g) n = Some t"
      by (auto simp: pending_call_def split: option.splits)
    show ?thesis
    proof (cases "n = cid")
      case True
      then have "t = tx" using req run_step.prems(4) by simp
      then have "map_of (ss_sent (snd c')) tx = map_of (ss_sent g1) tx"
        using step_answer own not_fresh True by (intro ended) (auto simp: resolve_pending_def split: if_splits)
      moreover have "map_of (ss_sent g1) tx = Some (string_bytes (rr_text req))"
        using step_answer known \<open>t = tx\<close> by (simp add: resolve_pending_def map_of_new call_known_def)
      ultimately show ?thesis using step_answer req True by simp
    next
      case False
      then show ?thesis using rest step_answer req run_step.prems(4) by (simp add: resolve_pending_def)
    qed
  next
    case (step_packet req)
    then have "rr_correlation_id req \<noteq> Some cid" using run_step.prems(4) by (auto simp: pending_call_def)
    then show ?thesis using rest step_packet run_step.prems(4) by simp
  next
    case (step_give_up n)
    show ?thesis
    proof (cases "n = cid")
      case True
      then have "map_of (ss_sent (snd c')) tx = map_of (ss_sent g1) tx"
        using step_give_up own not_fresh by (intro ended) (auto simp: remove_pending_def split: if_splits)
      moreover have "map_of (ss_sent g1) tx = None"
        using step_give_up known by (auto simp: remove_pending_def call_known_def map_of_eq_None_iff)
      ultimately show ?thesis using step_give_up True by simp
    next
      case False
      then show ?thesis using rest step_give_up run_step.prems(4) by (simp add: remove_pending_def)
    qed
  next
    case step_other
    then show ?thesis using rest run_step.prems(4) by simp
  qed
qed

lemma calls_run_inv:
  "calls_run c es c' \<Longrightarrow> calls_inv c \<Longrightarrow> ss_channels (snd c') \<le> 2 ^ 64 \<Longrightarrow> calls_inv c'"
proof (induction rule: calls_run.induct)
  case (run_step c e c1 es c')
  have "ss_channels (snd c1) \<le> 2 ^ 64" using run_channels_grow [OF run_step.hyps(2)] run_step.prems(2) by simp
  then have "calls_inv c1"
    using run_step calls_inv_step [of "fst c" "snd c" e "fst c1" "snd c1"] by simp
  then show ?case using run_step by simp
qed simp

lemma calls_run_split:
  "calls_run c (xs @ e # ys) c'' \<Longrightarrow> \<exists>c1 c2. calls_run c xs c1 \<and> calls_step c1 e c2 \<and> calls_run c2 ys c''"
proof (induction xs arbitrary: c)
  case Nil
  then obtain c2 where "calls_step c e c2" "calls_run c2 ys c''" by (auto elim: run_stepE)
  then show ?case using run_done [of c] by (metis append_Nil)
next
  case (Cons x xs)
  then obtain c1 where c1: "calls_step c x c1" "calls_run c1 (xs @ e # ys) c''" by (auto elim: run_stepE)
  from Cons.IH [OF c1(2)] c1(1) show ?case by (blast intro: run_step)
qed

subsection \<open>Properties\<close>

text \<open>
  C7: overlapping calls do not disturb each other.  However the steps of a server's calls and the requests that
  arrive interleave, while fewer than \<open>2 ^ 64\<close> calls were made: each call is sent the text of the first
  request that arrives under its number after it was entered and before it is given up, whatever
  happens to other calls, and nothing if there is none; no call is sent more than one answer.
\<close>

theorem concurrent_calls:
  assumes "calls_run ([], NodeServer_new url keypair) events (fresh, g)" "ss_channels g \<le> 2 ^ 64"
    "events = before @ Inserted cid tx # after"
  shows "map_of (ss_sent g) tx = first_answer cid after \<and> distinct (map fst (ss_sent g))"
proof -
  obtain c1 c2 where run: "calls_run ([], NodeServer_new url keypair) before c1" "calls_step c1 (Inserted cid tx) c2"
    "calls_run c2 after (fresh, g)"
    using calls_run_split assms(1,3) by blast
  obtain fresh2 g2 where c2: "c2 = (fresh2, g2)" by (cases c2)
  have inv: "calls_inv c'" if "calls_run ([], NodeServer_new url keypair) es c'" "ss_channels (snd c') \<le> 2 ^ 64" for es c'
    using calls_run_inv [OF that(1) calls_inv_new that(2)] .
  have small: "ss_channels g2 \<le> 2 ^ 64" using run_channels_grow [OF run(3)] assms(2) c2 by simp
  then have "ss_channels (snd c1) \<le> 2 ^ 64"
    using channels_grow [of "fst c1" "snd c1" "Inserted cid tx" fresh2 g2] run(2) c2 by simp
  then have "calls_inv (fresh2, g2)"
    using calls_inv_step [of "fst c1" "snd c1" "Inserted cid tx" fresh2 g2] inv [OF run(1)] run(2) c2 small by simp
  moreover have "hm_get (ss_pending g2) cid = Some tx"
    using run(2) c2 by (auto elim!: calls_stepE simp: insert_call_def)
  ultimately have "map_of (ss_sent g) tx = first_answer cid after"
    using pending_answered [OF run(3) c2] assms(2) by simp
  then show ?thesis using inv [OF assms(1)] assms(2) by (simp add: calls_invD(6))
qed

text \<open>Two calls that take their numbers in one order and are entered in the other; one is answered and one given up.\<close>

theorem concurrent_calls_witness:
  "\<exists>g. calls_run ([], NodeServer_new ''http://a'' (keypair_from_seed demo_hex (fill32 8)))
      [Allocated 1 0, Allocated 2 1, Inserted 2 1, Inserted 1 0,
       Arrived (demo_relay_request\<lparr>rr_correlation_id := Some 1\<rparr>), GaveUp 2] ([], g) \<and>
     map_of (ss_sent g) 0 = Some (string_bytes ''hi'')"
proof -
  let ?g = "NodeServer_new ''http://a'' (keypair_from_seed demo_hex (fill32 8))"
  let ?req = "demo_relay_request\<lparr>rr_correlation_id := Some 1\<rparr>"
  let ?es = "[Allocated 1 0, Allocated 2 1, Inserted 2 1, Inserted 1 0, Arrived ?req, GaveUp 2]"
  let ?g2 = "?g\<lparr>ss_channels := 2, ss_next_cid := 3\<rparr>"
  let ?g4 = "insert_call 1 0 (insert_call 2 1 ?g2)"
  let ?g6 = "remove_pending 2 (resolve_pending 1 0 (rr_text ?req) ?g4)"
  have a: "alloc_call ?g = (1, 0, ?g\<lparr>ss_channels := 1, ss_next_cid := 2\<rparr>)"
    "alloc_call (?g\<lparr>ss_channels := 1, ss_next_cid := 2\<rparr>) = (2, 1, ?g2)"
    by (simp_all add: alloc_call_def next_cid_def NodeServer_new_def Let_def)
  have s: "calls_step ([], ?g) (Allocated 1 0) ([(1, 0)], ?g\<lparr>ss_channels := 1, ss_next_cid := 2\<rparr>)"
    "calls_step ([(1, 0)], ?g\<lparr>ss_channels := 1, ss_next_cid := 2\<rparr>) (Allocated 2 1) ([(2, 1), (1, 0)], ?g2)"
    by (rule step_alloc [OF a(1)], rule step_alloc [OF a(2)])
  have i: "calls_step ([(2, 1), (1, 0)], ?g2) (Inserted 2 1) ([(1, 0)], insert_call 2 1 ?g2)"
    "calls_step ([(1, 0)], insert_call 2 1 ?g2) (Inserted 1 0) ([], ?g4)"
    using step_insert [of 2 1 "[(2, 1), (1, 0)]" ?g2] step_insert [of 1 0 "[(1, 0)]" "insert_call 2 1 ?g2"] by simp_all
  have "pending_call ?g4 ?req = Some (1, 0)" by (simp add: pending_call_def insert_call_def)
  then have "calls_step ([], ?g4) (Arrived ?req) ([], resolve_pending 1 0 (rr_text ?req) ?g4)" by (rule step_answer)
  then have run: "calls_run ([], ?g) ?es ([], ?g6)"
    by (intro run_step [OF s(1)] run_step [OF s(2)] run_step [OF i(1)] run_step [OF i(2)])
      (erule run_step, rule run_step [OF step_give_up run_done])
  have "ss_channels ?g6 \<le> 2 ^ 64" by (simp add: remove_pending_def resolve_pending_def insert_call_def)
  from concurrent_calls [OF run this, of "[Allocated 1 0, Allocated 2 1, Inserted 2 1]" 1 0 "[Arrived ?req, GaveUp 2]"] run
  show ?thesis by (auto simp: demo_relay_request_def)
qed

end
