(* ===== verification/Service_Mains.thy ===== *)
theory Service_Mains
  imports Startup Zona_Curl Sandbox
begin

section \<open>The overlay services from their command lines to a browser's answer\<close>

text \<open>
  The main functions of \<^verbatim>\<open>zona-dns\<close> and \<^verbatim>\<open>proxy-server\<close>, from the parsed arguments to the state
  that is served, and the three programs together: a name server and a proxy that were started from
  their command lines, and a browser that asks the local server of \<^verbatim>\<open>zona-curl serve\<close>.  The key pair that is
  generated, the zone file, the answers of the network and the success of binding a socket are
  arguments.  Parsing of the command line, logging and a client that cannot be built are not modelled.
\<close>

subsection \<open>The name server\<close>

record dns_args =
  da_url :: string
  da_listen :: string
  da_http_listen :: string
  da_nodes :: "string list"
  da_zones_file :: string

datatype main_error = ZonesFailed zones_error | ListenFailed string

text \<open>The server on the overlay, and the zones of the second listener if that could be bound.\<close>

record dns_service =
  ds_server :: server_state
  ds_http :: "zone_table option"

definition bootstrapped :: "'a hex_libs_scheme \<Rightarrow> introducer \<Rightarrow> server_state \<Rightarrow> string list \<Rightarrow> server_state" where
  "bootstrapped L net server nodes = (if nodes = [] then server else snd (srv_bootstrap L net server nodes))"

definition dns_main ::
  "'a service_libs_scheme \<Rightarrow> (zone_table \<Rightarrow> (string \<times> string list) list) \<Rightarrow> (string \<Rightarrow> (string, string) result) \<Rightarrow>
   (string \<Rightarrow> (unit, string) result) \<Rightarrow> introducer \<Rightarrow> dns_args \<Rightarrow> node_keypair \<Rightarrow> (dns_service, main_error) result" where
  "dns_main L order read_to_string bind net args keypair =
     (case load_zones L order (read_to_string (da_zones_file args)) of
        Inl e \<Rightarrow> Err (ZonesFailed e)
      | Inr zones \<Rightarrow>
          let server = bootstrapped L net (zona_dns_server L zones (da_url args) keypair) (da_nodes args)
          in (case bind (da_listen args) of
                Inl e \<Rightarrow> Err (ListenFailed e)
              | Inr _ \<Rightarrow>
                  Ok \<lparr>ds_server = server,
                      ds_http = (if is_ok (bind (da_http_listen args)) then Some zones else None)\<rparr>))"

text \<open>The second listener: the same lookup by plain HTTP.\<close>

definition dns_http_get :: "dns_service \<Rightarrow> string \<Rightarrow> dns_lookup_response option" where
  "dns_http_get d domain = map_option (\<lambda>zones. http_lookup zones domain) (ds_http d)"

subsection \<open>The proxy\<close>

record proxy_args =
  pa_url :: string
  pa_listen :: string
  pa_nodes :: "string list"
  pa_upstream_timeout_secs :: nat

definition proxy_main ::
  "'a service_libs_scheme \<Rightarrow> (string \<Rightarrow> (unit, string) result) \<Rightarrow> introducer \<Rightarrow> proxy_args \<Rightarrow> node_keypair \<Rightarrow>
   (server_state, main_error) result" where
  "proxy_main L bind net args keypair =
     (let upstream_timeout = pa_upstream_timeout_secs args * 1000;
          server = bootstrapped L net (proxy_server L upstream_timeout (pa_url args) keypair) (pa_nodes args)
      in map_sum ListenFailed (\<lambda>_. server) (bind (pa_listen args)))"

subsection \<open>What is served\<close>

lemma bootstrapped_registers: "only_registers server (bootstrapped L net server nodes)"
  by (simp add: bootstrapped_def bootstrap_registers(2))

lemma bootstrapped_keys:
  assumes "url \<in> set nodes" "answers_as L net url nid"
  shows "nid \<in> hm_keys (rn_peer_urls (bootstrapped L net server nodes))"
  using bootstrap_keys(2) [OF assms(2,1)] assms(1) by (auto simp: bootstrapped_def)

lemma bootstrapped_server:
  "n_id (rn_node (bootstrapped L net server nodes)) = n_id (rn_node server)"
  "ss_handlers (bootstrapped L net server nodes) = ss_handlers server"
  using bootstrapped_registers by (rule only_registers_id, rule only_registers_handlers)

lemma new_server:
  "n_id (rn_node (server_register h (NodeServer_new url keypair))) = kp_node_id keypair"
  "rn_self_url (server_register h (NodeServer_new url keypair)) = url"
  by (simp_all add: server_register_def NodeServer_new_def Node_new_def Let_def)

lemma bootstrapped_url: "rn_self_url (bootstrapped L net server nodes) = rn_self_url server"
  using bootstrapped_registers unfolding only_registers_def by blast

text \<open>
  The name server starts exactly if its zone file can be loaded and its socket be bound.  Then it has the
  identity of its key pair and the announced URL, it knows every bootstrap node that answers, and what
  it answers on the overlay is fixed by the zone file: no bootstrap node changes it.  The second
  listener, if its socket could be bound, gives the same answers.
\<close>
theorem dns_starts:
  "case dns_main L order read_to_string bind net args keypair of
     Inr d \<Rightarrow> \<exists>zones. load_zones L order (read_to_string (da_zones_file args)) = Ok zones \<and>
       is_ok (bind (da_listen args)) \<and> is_dns L zones (ds_server d) \<and>
       n_id (rn_node (ds_server d)) = kp_node_id keypair \<and> rn_self_url (ds_server d) = da_url args \<and>
       (\<forall>url \<in> set (da_nodes args). \<forall>nid. answers_as L net url nid \<longrightarrow> nid \<in> hm_keys (rn_peer_urls (ds_server d))) \<and>
       (\<forall>domain. dns_http_get d domain =
         (if is_ok (bind (da_http_listen args)) then Some (dns_lookup zones domain) else None))
   | Inl _ \<Rightarrow> \<not> is_ok (load_zones L order (read_to_string (da_zones_file args))) \<or> \<not> is_ok (bind (da_listen args))"
proof (cases "load_zones L order (read_to_string (da_zones_file args))")
  case (Inr zones)
  let ?s = "zona_dns_server L zones (da_url args) keypair"
  have "is_dns L zones (bootstrapped L net ?s (da_nodes args))"
    unfolding is_dns_def bootstrapped_server by (simp add: zona_dns_server_def server_register_def NodeServer_new_def Let_def)
  then show ?thesis
    using Inr bootstrapped_keys [of _ "da_nodes args" L net _ ?s]
    by (auto simp: dns_main_def Let_def bootstrapped_server bootstrapped_url new_server zona_dns_server_def dns_http_get_def
        http_lookup_def is_ok_def split: sum.split)
qed (simp add: dns_main_def is_ok_def)

text \<open>The same for the proxy, whose answers are fixed by its timeout.\<close>

theorem proxy_starts:
  "case proxy_main L bind net args keypair of
     Inr p \<Rightarrow> is_ok (bind (pa_listen args)) \<and> is_proxy L (1000 * pa_upstream_timeout_secs args) p \<and>
       n_id (rn_node p) = kp_node_id keypair \<and> rn_self_url p = pa_url args \<and>
       (\<forall>url \<in> set (pa_nodes args). \<forall>nid. answers_as L net url nid \<longrightarrow> nid \<in> hm_keys (rn_peer_urls p))
   | Inl _ \<Rightarrow> \<not> is_ok (bind (pa_listen args))"
proof -
  let ?p = "proxy_server L (pa_upstream_timeout_secs args * 1000) (pa_url args) keypair"
  have "is_proxy L (1000 * pa_upstream_timeout_secs args) (bootstrapped L net ?p (pa_nodes args))"
    unfolding is_proxy_def bootstrapped_server
    by (simp add: proxy_server_def server_register_def NodeServer_new_def Let_def mult.commute)
  then show ?thesis
    using bootstrapped_keys [of _ "pa_nodes args" L net _ ?p]
    by (auto simp: proxy_main_def Let_def bootstrapped_server bootstrapped_url new_server proxy_server_def is_ok_def
        split: sum.split)
qed

subsection \<open>All together\<close>

text \<open>The name that a host looks up, and the identifiers the zone file gives it.\<close>

lemma zone_lookup:
  assumes "is_order order" "yaml_decode L yaml = Ok loaded" "load_zones L order (Ok yaml) = Ok zones"
    "distinct (map (normalize_domain \<circ> fst) loaded)" "(name, ids) \<in> set loaded" "normalize_domain name = normalize_domain host"
  shows "dns_lookup zones host = \<lparr>dr_domain = normalize_domain host, dr_nodes = zone_ids L ids\<rparr>"
proof -
  let ?m = "map (map_prod normalize_domain (zone_ids L)) loaded"
  have "distinct (map fst ?m)" using assms(4) by (simp add: comp_def)
  moreover have "(normalize_domain host, zone_ids L ids) \<in> set ?m" using assms(5,6) by force
  ultimately have "map_of ?m (normalize_domain host) = Some (zone_ids L ids)" by (rule map_of_is_SomeI)
  then show ?thesis using load_zones_spec [OF assms(1-3)] assms(4) by simp
qed

text \<open>A participant that still is the service it was started as: registrations and calls change neither.\<close>

definition runs_as :: "server_state \<Rightarrow> server_state \<Rightarrow> bool" where
  "runs_as started b \<longleftrightarrow> n_id (rn_node b) = n_id (rn_node started) \<and> ss_handlers b = ss_handlers started"

text \<open>
  C9: The three programs together.  A name server was started with a zone file, a proxy with a key pair, and
  \<^verbatim>\<open>zona-curl serve\<close> with the name server's identifier and no proxy of its own; both services are
  still running and next hops lead to them from the client's peers (\<open>reaches\<close>).  Then a browser's request for a
  host whose zone
  begins with the proxy's identifier, whatever spelling the zone file uses for the name, comes back
  with the status and the body that the internet gave, byte for byte, and with its headers except
  \<^verbatim>\<open>transfer-encoding\<close>, each value as text (a value that is not text becomes empty); the overlay is left
  as it was.  It is assumed that the request and the answer are valid text where JSON needs it
  (\<open>texts_ok\<close>), that the method is one (\<open>method_ok\<close>), that the internet answers with a body that can be read, and that a response
  can be built from status and headers.  That \<^verbatim>\<open>serve\<close> has started says that the client was built without debug assertions: with
  them it panics at once (\<open>serve_panics_in_debug\<close>).
\<close>
theorem deployment_end_to_end:
  assumes "json_ok L" "hex_ok L" "b64_ok L" "is_order order" "is_order zorder"
    and "dns_main L zorder read_to_string bind dnet dargs dkey = Ok d" "runs_as (ds_server d) bd"
    and "proxy_main L bind' pnet pargs pkey = Ok p" "runs_as p bp"
    and "run_serve L debug parse_addr bind'' intro self_id sargs = Some (Ok sv)" "st = sv_state sv"
    and "sa_dns_node sargs = Some (id_hex L (kp_node_id dkey))" "sa_proxy_node sargs = None"
    and "reaches L net (st_peers st) self_id bd" "reaches L net (st_peers st) self_id bp"
    and "read_to_string (da_zones_file dargs) = Ok yaml" "yaml_decode L yaml = Ok loaded"
    and "distinct (map (normalize_domain \<circ> fst) loaded)" "(name, ids) \<in> set loaded"
    and "host = host_from_request L (rq_headers req) (rq_uri_host req)" "normalize_domain name = normalize_domain host"
    and "zone_ids L ids = id_hex L (kp_node_id pkey) # others"
    and "utf8_text host" "dns_text \<lparr>dr_domain = normalize_domain host, dr_nodes = zone_ids L ids\<rparr>"
    and "upstream_body = (if body = [] then None else Some body)"
    and "url = sa_scheme sargs @ ''://'' @ host @ (case rq_path_and_query req of None \<Rightarrow> ''/'' | Some pq \<Rightarrow> pq)"
    and "timeout = 1000 * pa_upstream_timeout_secs pargs"
    and "method_ok L timeout (rq_method req) m"
    and "texts_ok L timeout (rq_method req) url (forward_headers L (rq_headers req)) (map_option (b64_encode L) upstream_body)"
    and "http_send L (proxy_client timeout)
        \<lparr>uq_method = m, uq_url = url, uq_headers = forward_headers L (rq_headers req), uq_body = upstream_body\<rparr> = Ok resp"
    and "ur_bytes resp = Ok bs"
    and "headers = filter (\<lambda>(k, _). to_ascii_lowercase k \<noteq> ''transfer-encoding'') (header_texts L (ur_headers resp))"
    and "response_build L (ur_status resp) headers = Ok ()"
  shows "serve_handler L (overlay L order net) st req (Ok body) net =
    Some (Response \<lparr>rp_status = ur_status resp, rp_headers = headers, rp_body = bs\<rparr>, net) \<and> \<not> debug"
proof -
  note set_up = run_serve_started(3) [OF assms(10), folded assms(11)]
  note st = serve_setup_Ok(4-7) [OF set_up]
  have dns: "\<exists>zones. load_zones L zorder (Ok yaml) = Ok zones \<and> is_dns L zones (ds_server d) \<and>
      n_id (rn_node (ds_server d)) = kp_node_id dkey"
    using dns_starts [where L = L and order = zorder and read_to_string = read_to_string and bind = bind and net = dnet and
        args = dargs and keypair = dkey] assms(6,16) by auto
  then obtain zones where zones: "load_zones L zorder (Ok yaml) = Ok zones" "is_dns L zones bd"
    "n_id (rn_node bd) = kp_node_id dkey"
    using assms(7) unfolding runs_as_def is_dns_def by auto
  have proxy: "is_proxy L timeout bp" "n_id (rn_node bp) = kp_node_id pkey"
    using proxy_starts [where L = L and bind = bind' and net = pnet and args = pargs and keypair = pkey] assms(8,9,27) unfolding runs_as_def is_proxy_def by auto
  note look = zone_lookup [OF assms(5,17) zones(1) assms(18,19,21)]
  have ready: "dns_ready L net (st_peers st) (st_self_id st) (st_dns_node st) zones host"
    "proxy_ready L timeout net (st_peers st) (st_self_id st) (st_dns_node st) (st_proxy_node st) zones host"
    unfolding st dns_ready_def proxy_ready_def look
    using assms(12-15,22-24) zones(2,3) proxy by auto
  have "url = st_scheme st @ ''://'' @ host @ (case rq_path_and_query req of None \<Rightarrow> ''/'' | Some pq \<Rightarrow> pq)"
    by (simp add: assms(26) st(4))
  from serve_handler_answered [OF assms(1-4,20) ready assms(25) this refl assms(28,29)]
  show ?thesis using assms(30-33) run_serve_started(1) [OF assms(10)] by (simp add: Let_def)
qed

subsection \<open>An instance\<close>

text \<open>The libraries with hexadecimal text as the \<^verbatim>\<open>hex\<close> crate writes it, and a zone file of one name.\<close>

definition demo_hex_id :: string where
  "demo_hex_id = concat (replicate 32 ''04'')"

definition demo_deploy :: curl_libs where
  "demo_deploy = demo_curl\<lparr>hex_encode := hex_text, hex_decode := \<lambda>s. Ok (hex_bytes s),
     yaml_decode := \<lambda>s. Ok [(s, [demo_hex_id, ''too short''])]\<rparr>"

lemma demo_deploy_ok: "json_ok demo_deploy" "hex_ok demo_deploy" "b64_ok demo_deploy"
  using demo_json_ok demo_curl_ok(2) hex_bytes_text
  by (simp_all add: demo_deploy_def json_ok_def hex_ok_def b64_ok_def)

lemma demo_hex_id:
  "id_hex demo_deploy (idn 4) = demo_hex_id" "length demo_hex_id = 64" "trim demo_hex_id = demo_hex_id"
  "to_ascii_lowercase demo_hex_id = demo_hex_id" "utf8_text demo_hex_id" "demo_hex_id \<noteq> ''me''"
  "zone_ids demo_deploy [demo_hex_id, ''too short''] = [demo_hex_id]"
proof -
  have digits: "hex_digit 0 = CHR ''0''" "hex_digit 4 = CHR ''4''" "to_ascii_lowercase ''04'' = ''04''" by code_simp+
  have "hex_text (replicate n 4) = concat (replicate n ''04'')" for n
    by (induction n) (simp_all add: hex_text_def digits)
  then show hex: "id_hex demo_deploy (idn 4) = demo_hex_id"
    by (simp add: id_hex_def demo_deploy_def as_bytes_def bytes_of_fill32 demo_hex_id_def)
  show len: "length demo_hex_id = 64" by (simp add: demo_hex_id_def length_concat sum_list_replicate)
  show "demo_hex_id \<noteq> ''me''"
  proof
    assume "demo_hex_id = ''me''"
    then have "length demo_hex_id = length ''me''" by (rule arg_cong)
    then show False using len by simp
  qed
  have front: "demo_hex_id = CHR ''0'' # (CHR ''4'' # concat (replicate 31 ''04''))"
    by (simp add: demo_hex_id_def numeral_eq_Suc)
  have last: "demo_hex_id = (concat (replicate 31 ''04'') @ ''0'') @ [CHR ''4'']"
    by (simp add: demo_hex_id_def numeral_eq_Suc)
  show trim: "trim demo_hex_id = demo_hex_id"
    by (rule trim_ascii_ends [OF front _ _ last]) simp_all
  have app: "to_ascii_lowercase (x @ y) = to_ascii_lowercase x @ to_ascii_lowercase y" for x y
    by (simp add: to_ascii_lowercase_def ascii_map_def)
  have "to_ascii_lowercase (concat (replicate n ''04'')) = concat (replicate n ''04'')" for n
  proof (induction n)
    case (Suc n)
    have "to_ascii_lowercase (concat (replicate (Suc n) ''04'')) = to_ascii_lowercase (''04'' @ concat (replicate n ''04''))" by simp
    then show ?case unfolding app digits(3) Suc by simp
  qed (simp add: to_ascii_lowercase_def ascii_map_def)
  then show lower: "to_ascii_lowercase demo_hex_id = demo_hex_id" by (simp add: demo_hex_id_def)
  show "utf8_text demo_hex_id"
    by (rule utf8_text_ascii) (auto simp: demo_hex_id_def list_all_iff)
  have "hex_decode demo_deploy demo_hex_id = Ok (bytes_of (fill32 4))"
    using hex_decode_id [OF demo_deploy_ok(2), of "idn 4"] hex by simp
  moreover have "length (trim ''too short'') \<noteq> 64"
    by (subst trim_ascii_ends [of _ "CHR ''t''" "''oo short''" "''too shor''" "CHR ''t''"]) simp_all
  ultimately show "zone_ids demo_deploy [demo_hex_id, ''too short''] = [demo_hex_id]"
    by (simp add: zone_ids_def List.map_filter_simps trim len lower)
qed

definition demo_dns_args :: dns_args where
  "demo_dns_args = \<lparr>da_url = ''http://a'', da_listen = ''0.0.0.0:8811'', da_http_listen = ''127.0.0.1:8822'', da_nodes = [],
     da_zones_file = ''zones.yml''\<rparr>"

definition demo_proxy_args :: proxy_args where
  "demo_proxy_args = \<lparr>pa_url = ''http://b'', pa_listen = ''0.0.0.0:8801'', pa_nodes = [], pa_upstream_timeout_secs = 30\<rparr>"

definition demo_serve_args :: serve_args where
  "demo_serve_args = \<lparr>sa_listen = ''127.0.0.1:8765'', sa_https = True, sa_tls_cert = None, sa_tls_key = None, sa_tls_san = [],
     sa_nodes = [''http://c''], sa_dns_node = Some (id_hex demo_deploy (idn 8)), sa_proxy_node = None, sa_scheme = ''http'',
     sa_timeout_ms = 60000\<rparr>"

definition demo_key :: "u8 \<Rightarrow> node_keypair" where
  "demo_key b = keypair_from_seed demo_libs (fill32 b)"

definition demo_bind :: "string \<Rightarrow> (unit, string) result" where
  "demo_bind addr = Ok ()"

theorem deployment_end_to_end_witness:
  "\<exists>d p sv bd bp net.
     dns_main demo_deploy rev (\<lambda>_. Ok ''X.ORG'') demo_bind demo_introducer demo_dns_args (demo_key 8) = Ok d \<and> runs_as (ds_server d) bd \<and>
     proxy_main demo_deploy demo_bind demo_introducer demo_proxy_args (demo_key 4) = Ok p \<and> runs_as p bp \<and>
     run_serve demo_deploy False Some demo_bind demo_introduction ''me'' demo_serve_args = Some (Ok sv) \<and>
     serve_handler demo_deploy (overlay demo_deploy rev net) (sv_state sv) demo_request (Ok []) net =
       Some (Response \<lparr>rp_status = 200, rp_headers = [], rp_body = string_bytes ''http://x.org/p''\<rparr>, net)"
proof -
  let ?L = demo_deploy and ?ids = "[demo_hex_id, ''too short'']"
  let ?loaded = "[(''X.ORG'', ?ids)]"
    and ?resp = "\<lparr>ur_status = 200, ur_headers = [], ur_bytes = Ok (string_bytes ''http://x.org/p'')\<rparr>"
  have domain: "normalize_domain ''X.ORG'' = ''x.org''"
  proof -
    have "trim ''X.ORG'' = ''X.ORG''"
      by (rule trim_ascii_ends [of _ "CHR ''X''" "''.ORG''" "''X.OR''" "CHR ''G''"]) simp_all
    then show ?thesis by (simp add: normalize_domain_def) code_simp
  qed
  have yaml: "yaml_decode ?L ''X.ORG'' = Ok [(''X.ORG'', [demo_hex_id, ''too short''])]" by (simp add: demo_deploy_def)
  obtain zones where "load_zones ?L rev (Ok ''X.ORG'') = Ok zones" by (simp add: load_zones_def yaml)
  then obtain d where d: "dns_main ?L rev (\<lambda>_. Ok ''X.ORG'') demo_bind demo_introducer demo_dns_args (demo_key 8) = Ok d"
    by (simp add: dns_main_def demo_bind_def Let_def)
  obtain p where p: "proxy_main ?L demo_bind demo_introducer demo_proxy_args (demo_key 4) = Ok p"
    by (simp add: proxy_main_def demo_bind_def Let_def)
  have ids: "n_id (rn_node (ds_server d)) = idn 8" "n_id (rn_node p) = idn 4" "kp_node_id (demo_key 8) = idn 8" "kp_node_id (demo_key 4) = idn 4"
    using dns_starts [where L = ?L and order = rev and read_to_string = "\<lambda>_. Ok ''X.ORG''" and bind = demo_bind and
        net = demo_introducer and args = demo_dns_args and keypair = "demo_key 8"]
      proxy_starts [where L = ?L and bind = demo_bind and net = demo_introducer and args = demo_proxy_args and
        keypair = "demo_key 4"] d p by (auto simp: demo_key_def)
  define bd where "bd = demo_srv_a\<lparr>ss_handlers := ss_handlers (ds_server d)\<rparr>"
  define bp where "bp = demo_srv_b\<lparr>ss_handlers := ss_handlers p\<rparr>"
  define net where "net = [(''http://a/api/relay'', AppServer bd), (''http://b/api/relay'', AppServer bp)]"
  have runs: "runs_as (ds_server d) bd" "runs_as p bp"
    using ids demo_mixed_get(3,4) by (simp_all add: runs_as_def bd_def bp_def)
  have "build_http_client ?L t = Ok ()" for t
    by (simp add: build_http_client_def demo_deploy_def demo_curl_def app_libs.defs service_libs.defs)
  moreover have "bootstrap_peers demo_introduction ''me'' [''http://c''] = Ok demo_peers"
    by (simp add: bootstrap_peers_def demo_introduction_def demo_peers_def)
  ultimately have "\<exists>st. serve_setup ?L demo_introduction ''me'' demo_serve_args = Ok st \<and> st_peers st = demo_peers"
    by (simp add: serve_setup_def serve_checks_def demo_serve_args_def check_def validate_option_def validate_id_hex [OF demo_deploy_ok(2)])
  moreover have "\<exists>tls. rustls_config_for_serve ?L demo_serve_args = Ok tls"
    by (simp add: rustls_config_for_serve_def demo_serve_args_def demo_deploy_def demo_curl_def app_libs.defs service_libs.defs Let_def)
  ultimately obtain sv where sv: "run_serve ?L False Some demo_bind demo_introduction ''me'' demo_serve_args = Some (Ok sv)"
    "st_peers (sv_state sv) = demo_peers"
    by (auto simp: run_serve_eq serve_and_listen_def demo_serve_args_def demo_bind_def Let_def)
  have a: "rn_node bd = demo_peer_node" "rn_peer_urls bd = [(idn 4, ''http://b'')]" "n_id (rn_node bp) = idn 4"
    using demo_mixed_get(4) by (simp_all add: bd_def bp_def demo_srv_a_def)
  have not_me: "id_hex ?L (idn 4) \<noteq> ''me''" using demo_hex_id(1,6) by simp
  have reach: "reaches ?L net (st_peers (sv_state sv)) ''me'' bd" "reaches ?L net (st_peers (sv_state sv)) ''me'' bp"
    unfolding sv(2) by (rule pair_reaches [OF a net_def not_me])+
  have args: "sa_dns_node demo_serve_args = Some (id_hex ?L (kp_node_id (demo_key 8)))" "sa_proxy_node demo_serve_args = None"
    "''http://x.org/p'' = sa_scheme demo_serve_args @ ''://'' @ ''x.org'' @
       (case rq_path_and_query demo_request of None \<Rightarrow> ''/'' | Some pq \<Rightarrow> pq)"
    "(30000 :: nat) = 1000 * pa_upstream_timeout_secs demo_proxy_args" "rq_method demo_request = ''GET''"
    "forward_headers ?L (rq_headers demo_request) = []"
    by (simp_all add: demo_serve_args_def demo_request_def demo_proxy_args_def ids forward_headers_def List.map_filter_simps)
  have host: "''x.org'' = host_from_request ?L (rq_headers demo_request) (rq_uri_host demo_request)"
    by (simp add: host_from_request_def demo_request_def)
  have zone: "zone_ids ?L [demo_hex_id, ''too short''] = id_hex ?L (kp_node_id (demo_key 4)) # []"
    "dns_text \<lparr>dr_domain = normalize_domain ''x.org'', dr_nodes = zone_ids ?L [demo_hex_id, ''too short'']\<rparr>"
    by (simp_all add: demo_hex_id ids dns_text_def demo_domain utf8_text_ascii)
  have meth: "method_ok ?L 30000 (rq_method demo_request) ''GET''"
    using demo_method args(5) by (simp add: method_ok_def demo_deploy_def)
  have are_texts: "texts_ok ?L 30000 (rq_method demo_request) ''http://x.org/p'' (forward_headers ?L (rq_headers demo_request))
      (map_option (b64_encode ?L) None)"
    using demo_texts [of "''http://x.org/p''"] unfolding args(5,6)
    by (simp add: texts_ok_def do_upstream_request_def demo_deploy_def header_texts_def
        cong: sum.case_cong option.case_cong)
  have send: "http_send ?L (proxy_client 30000) \<lparr>uq_method = ''GET'', uq_url = ''http://x.org/p'',
      uq_headers = forward_headers ?L (rq_headers demo_request), uq_body = None\<rparr> =
      Ok \<lparr>ur_status = 200, ur_headers = [], ur_bytes = Ok (string_bytes ''http://x.org/p'')\<rparr>"
    by (simp add: demo_deploy_def demo_curl_def app_libs.defs service_libs.defs)
  have build: "response_build ?L (ur_status \<lparr>ur_status = 200, ur_headers = [], ur_bytes = Ok (string_bytes ''http://x.org/p'')\<rparr>) [] = Ok ()"
    by (simp add: demo_deploy_def demo_curl_def app_libs.defs service_libs.defs)
  have "serve_handler ?L (overlay ?L rev net) (sv_state sv) demo_request (Ok []) net =
      Some (Response \<lparr>rp_status = ur_status ?resp, rp_headers = [], rp_body = string_bytes ''http://x.org/p''\<rparr>, net)"
    by (rule deployment_end_to_end [OF demo_deploy_ok is_order_id(2) is_order_id(2) d runs(1) p runs(2) sv(1) refl args(1,2) reach,
        where yaml = "''X.ORG''" and loaded = ?loaded and name = "''X.ORG''" and ids = ?ids and host = "''x.org''" and
        others = "[]" and upstream_body = None and url = "''http://x.org/p''" and timeout = 30000 and m = "''GET''" and
        resp = ?resp, THEN conjunct1])
      (rule yaml host zone meth are_texts send args(3,4) |
       simp add: domain demo_domain utf8_text_ascii header_texts_def build [simplified])+
  then have "serve_handler ?L (overlay ?L rev net) (sv_state sv) demo_request (Ok []) net =
      Some (Response \<lparr>rp_status = 200, rp_headers = [], rp_body = string_bytes ''http://x.org/p''\<rparr>, net)"
    by simp
  with d p runs sv(1) show ?thesis by blast
qed

end
