(* ===== verification/Axum_Router.thy ===== *)
theory Axum_Router
  imports Zona_Prelude
begin

section \<open>Routers\<close>

text \<open>
  The part of the web framework \<^verbatim>\<open>axum\<close> that the programs use: routers that send a request to a handler by its
  path and method.  Putting routers together and the dispatch are parameters with what the
  documentation says as a hypothesis; \<open>route_dispatch\<close> is the dispatch that the hypothesis determines.
\<close>

subsection \<open>Requests and routes\<close>

record web_request =
  wq_method :: string
  wq_path :: string
  wq_query :: "string option"
  wq_headers :: "(string \<times> bytes) list"
  wq_body :: bytes

text \<open>A router: path and method with their handler.\<close>

type_synonym 'h router = "((string \<times> string) \<times> 'h) list"

text \<open>
  \<^verbatim>\<open>axum\<close>: \<open>None\<close> is the panic of \<^verbatim>\<open>merge\<close>; the dispatch yields a handler or the status of a request that has
  none.  What is relied on: routers without a common route are put together; a route leads to its
  handler, and a \<^verbatim>\<open>HEAD\<close> request to that of \<^verbatim>\<open>GET\<close>, whose body the connection then drops; otherwise 404 for
  an unknown path and 405 for a known one.
\<close>

record 'h axum =
  ax_merge :: "'h router \<Rightarrow> 'h router \<Rightarrow> 'h router option"
  ax_dispatch :: "'h router \<Rightarrow> string \<Rightarrow> string \<Rightarrow> ('h, nat) result"

definition axum_ok :: "'h axum \<Rightarrow> bool" where
  "axum_ok A \<longleftrightarrow>
     (\<forall>r r'. fst ` set r \<inter> fst ` set r' = {} \<longrightarrow> ax_merge A r r' = Some (r @ r')) \<and>
     (\<forall>r m p h. distinct (map fst r) \<longrightarrow> ((p, m), h) \<in> set r \<longrightarrow> ax_dispatch A r m p = Ok h) \<and>
     (\<forall>r m p. p \<notin> fst ` fst ` set r \<longrightarrow> ax_dispatch A r m p = Err 404) \<and>
     (\<forall>r p h. distinct (map fst r) \<longrightarrow> (p, ''HEAD'') \<notin> fst ` set r \<longrightarrow> ((p, ''GET''), h) \<in> set r \<longrightarrow>
        ax_dispatch A r ''HEAD'' p = Ok h) \<and>
     (\<forall>r m p. p \<in> fst ` fst ` set r \<longrightarrow> (p, m) \<notin> fst ` set r \<longrightarrow> m \<noteq> ''HEAD'' \<or> (p, ''GET'') \<notin> fst ` set r \<longrightarrow>
        ax_dispatch A r m p = Err 405)"

subsection \<open>The dispatch\<close>

definition route_dispatch :: "'h router \<Rightarrow> string \<Rightarrow> string \<Rightarrow> ('h, nat) result" where
  "route_dispatch r m p =
     (case map_of r (p, m) of
        Some h \<Rightarrow> Ok h
      | None \<Rightarrow>
          (case (if m = ''HEAD'' then map_of r (p, ''GET'') else None) of
             Some h \<Rightarrow> Ok h
           | None \<Rightarrow> Err (if p \<in> fst ` fst ` set r then 405 else 404)))"

lemma axum_dispatch:
  assumes "axum_ok A" "distinct (map fst r)"
  shows "ax_dispatch A r m p = route_dispatch r m p"
proof (cases "map_of r (p, m)")
  case (Some h)
  then have "((p, m), h) \<in> set r" by (rule map_of_SomeD)
  then have "ax_dispatch A r m p = Ok h" using assms unfolding axum_ok_def by blast
  then show ?thesis using Some by (simp add: route_dispatch_def)
next
  case no: None
  then have absent: "(p, m) \<notin> fst ` set r" by (simp add: map_of_eq_None_iff)
  show ?thesis
  proof (cases "if m = ''HEAD'' then map_of r (p, ''GET'') else None")
    case (Some h)
    then have "m = ''HEAD''" "((p, ''GET''), h) \<in> set r" by (auto split: if_splits dest: map_of_SomeD)
    then have "ax_dispatch A r m p = Ok h" using assms absent unfolding axum_ok_def by blast
    then show ?thesis using no Some by (simp add: route_dispatch_def)
  next
    case None
    then have get: "m \<noteq> ''HEAD'' \<or> (p, ''GET'') \<notin> fst ` set r" by (auto simp: map_of_eq_None_iff split: if_splits)
    have "ax_dispatch A r m p = Err (if p \<in> fst ` fst ` set r then 405 else 404)"
      using assms(1) absent get unfolding axum_ok_def by (cases "p \<in> fst ` fst ` set r") simp_all
    then show ?thesis using no None by (simp add: route_dispatch_def)
  qed
qed

subsection \<open>An instance\<close>

definition demo_axum :: "'h axum" where
  "demo_axum = \<lparr>ax_merge = (\<lambda>r r'. Some (r @ r')), ax_dispatch = route_dispatch\<rparr>"

lemma demo_axum_ok: "axum_ok demo_axum"
proof -
  have none: "map_of r (p, m) = None" if "(p, m) \<notin> fst ` set r" for r :: "'h router" and p m
    using that by (rule iffD2 [OF map_of_eq_None_iff])
  have unknown: "(p, m) \<notin> fst ` set r" if "p \<notin> fst ` fst ` set r" for r :: "'h router" and p m
    using that by force
  have some: "map_of r k = Some h" if "distinct (map fst r)" "(k, h) \<in> set r" for r :: "'h router" and k h
    using that by (rule map_of_is_SomeI)
  show ?thesis
    unfolding axum_ok_def demo_axum_def axum.simps
  proof (intro conjI allI impI)
    show "route_dispatch r m p = Err 404" if "p \<notin> fst ` fst ` set r" for r :: "'h router" and m p
      using that by (simp add: route_dispatch_def none [OF unknown [OF that]])
  qed (simp_all add: route_dispatch_def none some)
qed

end
