(* ===== verification/Zona_Service.thy ===== *)
theory Zona_Service
  imports Signature_Synth Axum_Router
begin

section \<open>The web service\<close>

text \<open>
  The service of the crate \<^verbatim>\<open>zona\<close> as a whole (\<^verbatim>\<open>zona/src/lib.rs\<close>, \<^verbatim>\<open>main.rs\<close> and the routers of the
  other files): which method and path lead to which handler, what a request does to the store and to its
  file, and what it is answered, from the environment at the start over any sequence of requests.
  The dispatch of \<^verbatim>\<open>axum\<close>, its extractors and the parser of socket addresses are parameters; the dispatch
  comes with what its documentation says as a hypothesis.  The handlers take the store's lock for each
  access, so requests are served one after the other here; the lock is never held where a handler panics.
\<close>

subsection \<open>Routes\<close>

definition TEACH_PATH :: string where
  "TEACH_PATH = ''/teach''"

definition MASK_PROFILES_PATH :: string where
  "MASK_PROFILES_PATH = ''/mask-profiles''"

definition SIGNATURE_SAMPLES_PATH :: string where
  "SIGNATURE_SAMPLES_PATH = ''/signature-samples''"

definition TRAIN_STORE_DUMP_PATH :: string where
  "TRAIN_STORE_DUMP_PATH = ''/train-store''"

definition TRAINING_STATUS_PATH :: string where
  "TRAINING_STATUS_PATH = ''/training-status''"

datatype zona_handler = Teach | MaskProfiles | SignatureSamples | TrainStoreDump | TrainingStatus

definition teach_router :: "zona_handler router" where
  "teach_router = [((TEACH_PATH, ''POST''), Teach)]"

definition mask_profiles_router :: "zona_handler router" where
  "mask_profiles_router = [((MASK_PROFILES_PATH, ''GET''), MaskProfiles)]"

definition signature_synth_router :: "zona_handler router" where
  "signature_synth_router = [((SIGNATURE_SAMPLES_PATH, ''GET''), SignatureSamples)]"

definition train_store_dump_router :: "zona_handler router" where
  "train_store_dump_router = [((TRAIN_STORE_DUMP_PATH, ''GET''), TrainStoreDump)]"

definition training_status_router :: "zona_handler router" where
  "training_status_router = [((TRAINING_STATUS_PATH, ''GET''), TrainingStatus)]"

definition app_with_store :: "zona_handler axum \<Rightarrow> zona_handler router option" where
  "app_with_store A =
     do {
       r \<leftarrow> ax_merge A [] teach_router;
       r \<leftarrow> ax_merge A r mask_profiles_router;
       r \<leftarrow> ax_merge A r signature_synth_router;
       r \<leftarrow> ax_merge A r train_store_dump_router;
       ax_merge A r training_status_router
     }"

subsection \<open>Requests\<close>

text \<open>
  The extractors: the payload of a JSON body, the parameters of a query string, or the status of the
  rejection.
\<close>

record zona_libs = train_libs +
  json_body :: "web_request \<Rightarrow> (teach_payload, nat) result"
  query_params :: "string option \<Rightarrow> (mask_profiles_query, nat) result"

text \<open>What a request meets: the clock, the faults of the disk, the order of the map, the thread's generator.\<close>

record 'r moment =
  mo_now :: int
  mo_faults :: disk_faults
  mo_order :: route_order
  mo_rng :: 'r

datatype zona_body =
  NoBody
| ProfilesBody mask_profiles_response
| SamplesBody signature_samples_response
| StoreBody persisted_train_store
| StatusBody training_status_response

definition train_store_dump :: "train_store \<Rightarrow> persisted_train_store" where
  "train_store_dump ts = persisted_snapshot ts"

text \<open>The reply, or \<open>None\<close> for a handler that panics: its connection is closed and the service goes on.\<close>

type_synonym zona_reply = "(nat \<times> zona_body) option"

definition handle_request ::
  "'a zona_libs_scheme \<Rightarrow> (f64 \<Rightarrow> f64) \<Rightarrow> 'r thread_rng \<Rightarrow> zona_handler \<Rightarrow> 'r moment \<Rightarrow> web_request \<Rightarrow>
   train_store \<times> disk \<Rightarrow> zona_reply \<times> train_store \<times> disk" where
  "handle_request L fexp R h m req s =
     (case h of
        Teach \<Rightarrow>
          (case json_body L req of
             Inl status \<Rightarrow> (Some (status, NoBody), s)
           | Inr body \<Rightarrow> let (status, s) = teach L (mo_faults m) (mo_now m) body s in (Some (status, NoBody), s))
      | MaskProfiles \<Rightarrow>
          (case query_params L (wq_query req) of
             Inl status \<Rightarrow> (Some (status, NoBody), s)
           | Inr q \<Rightarrow> (map_option (\<lambda>resp. (200, ProfilesBody resp)) (mask_profiles fexp (mo_order m) (fst s) q), s))
      | SignatureSamples \<Rightarrow>
          (case query_params L (wq_query req) of
             Inl status \<Rightarrow> (Some (status, NoBody), s)
           | Inr q \<Rightarrow>
               (map_option (\<lambda>(resp, _). (200, SamplesBody resp))
                  (signature_samples fexp R (mo_order m) (fst s) q (mo_rng m)), s))
      | TrainStoreDump \<Rightarrow> (Some (200, StoreBody (train_store_dump (fst s))), s)
      | TrainingStatus \<Rightarrow> (Some (200, StatusBody (training_status (fst s))), s))"

definition serve_request ::
  "'a zona_libs_scheme \<Rightarrow> zona_handler axum \<Rightarrow> zona_handler router \<Rightarrow> (f64 \<Rightarrow> f64) \<Rightarrow> 'r thread_rng \<Rightarrow> 'r moment \<Rightarrow>
   web_request \<Rightarrow> train_store \<times> disk \<Rightarrow> zona_reply \<times> train_store \<times> disk" where
  "serve_request L A router fexp R m req s =
     (case ax_dispatch A router (wq_method req) (wq_path req) of
        Inl status \<Rightarrow> (Some (status, NoBody), s)
      | Inr h \<Rightarrow> handle_request L fexp R h m req s)"

fun serve_requests ::
  "'a zona_libs_scheme \<Rightarrow> zona_handler axum \<Rightarrow> zona_handler router \<Rightarrow> (f64 \<Rightarrow> f64) \<Rightarrow> 'r thread_rng \<Rightarrow>
   ('r moment \<times> web_request) list \<Rightarrow> train_store \<times> disk \<Rightarrow> zona_reply list \<times> train_store \<times> disk" where
  "serve_requests L A router fexp R [] s = ([], s)"
| "serve_requests L A router fexp R ((m, req) # reqs) s =
     (let (reply, s) = serve_request L A router fexp R m req s;
          (replies, s) = serve_requests L A router fexp R reqs s
      in (reply # replies, s))"

subsection \<open>The main function\<close>

definition DEFAULT_LISTEN :: string where
  "DEFAULT_LISTEN = ''127.0.0.1:8787''"

datatype zona_main_error = BadListenAddress string | AppPanics | BindError string

text \<open>
  The listen address is parsed first; then the store is loaded, which may write its file, and only then
  the socket is bound.
\<close>

definition zona_app ::
  "'a train_libs_scheme \<Rightarrow> zona_handler axum \<Rightarrow> environment \<Rightarrow> int \<Rightarrow> disk_faults \<Rightarrow> disk_faults \<Rightarrow> disk_faults \<Rightarrow> disk \<Rightarrow>
   zona_handler router option \<times> train_store \<times> disk" where
  "zona_app L A env now faults_load faults_reset faults_done disk =
     (let s = TrainStore_from_env L env now faults_load faults_reset faults_done disk in (app_with_store A, s))"

definition zona_main ::
  "'a train_libs_scheme \<Rightarrow> zona_handler axum \<Rightarrow> (string \<Rightarrow> 'addr option) \<Rightarrow> ('addr \<Rightarrow> (unit, string) result) \<Rightarrow> environment \<Rightarrow>
   int \<Rightarrow> disk_faults \<Rightarrow> disk_faults \<Rightarrow> disk_faults \<Rightarrow> disk \<Rightarrow>
   (zona_handler router \<times> 'addr \<times> train_store, zona_main_error) result \<times> disk" where
  "zona_main L A parse_addr bind_socket env now faults_load faults_reset faults_done disk =
     (let listen = (case env ''ZONA_LISTEN'' of None \<Rightarrow> DEFAULT_LISTEN | Some l \<Rightarrow> l)
      in case parse_addr listen of
           None \<Rightarrow> (Err (BadListenAddress listen), disk)
         | Some addr \<Rightarrow>
             let (app, ts, disk) = zona_app L A env now faults_load faults_reset faults_done disk
             in (case app of
                   None \<Rightarrow> (Err AppPanics, disk)
                 | Some router \<Rightarrow> (map_sum BindError (\<lambda>_. (router, addr, ts)) (bind_socket addr), disk)))"

subsection \<open>Every route leads to its handler\<close>

definition zona_routes :: "zona_handler router" where
  "zona_routes =
     [((TEACH_PATH, ''POST''), Teach), ((MASK_PROFILES_PATH, ''GET''), MaskProfiles),
      ((SIGNATURE_SAMPLES_PATH, ''GET''), SignatureSamples), ((TRAIN_STORE_DUMP_PATH, ''GET''), TrainStoreDump),
      ((TRAINING_STATUS_PATH, ''GET''), TrainingStatus)]"

lemmas path_defs = TEACH_PATH_def MASK_PROFILES_PATH_def SIGNATURE_SAMPLES_PATH_def TRAIN_STORE_DUMP_PATH_def
  TRAINING_STATUS_PATH_def

lemmas router_defs = teach_router_def mask_profiles_router_def signature_synth_router_def train_store_dump_router_def
  training_status_router_def

lemma paths_distinct [simp]:
  "TEACH_PATH \<noteq> MASK_PROFILES_PATH" "TEACH_PATH \<noteq> SIGNATURE_SAMPLES_PATH" "TEACH_PATH \<noteq> TRAIN_STORE_DUMP_PATH"
  "TEACH_PATH \<noteq> TRAINING_STATUS_PATH" "MASK_PROFILES_PATH \<noteq> TEACH_PATH" "MASK_PROFILES_PATH \<noteq> SIGNATURE_SAMPLES_PATH"
  "MASK_PROFILES_PATH \<noteq> TRAIN_STORE_DUMP_PATH" "MASK_PROFILES_PATH \<noteq> TRAINING_STATUS_PATH" "SIGNATURE_SAMPLES_PATH \<noteq> TEACH_PATH"
  "SIGNATURE_SAMPLES_PATH \<noteq> MASK_PROFILES_PATH" "SIGNATURE_SAMPLES_PATH \<noteq> TRAIN_STORE_DUMP_PATH" "SIGNATURE_SAMPLES_PATH \<noteq> TRAINING_STATUS_PATH"
  "TRAIN_STORE_DUMP_PATH \<noteq> TEACH_PATH" "TRAIN_STORE_DUMP_PATH \<noteq> MASK_PROFILES_PATH" "TRAIN_STORE_DUMP_PATH \<noteq> SIGNATURE_SAMPLES_PATH"
  "TRAIN_STORE_DUMP_PATH \<noteq> TRAINING_STATUS_PATH" "TRAINING_STATUS_PATH \<noteq> TEACH_PATH" "TRAINING_STATUS_PATH \<noteq> MASK_PROFILES_PATH"
  "TRAINING_STATUS_PATH \<noteq> SIGNATURE_SAMPLES_PATH" "TRAINING_STATUS_PATH \<noteq> TRAIN_STORE_DUMP_PATH"
  by (simp_all add: path_defs)

lemma app_routes: "axum_ok A \<Longrightarrow> app_with_store A = Some zona_routes"
  by (simp add: axum_ok_def app_with_store_def router_defs zona_routes_def)

text \<open>The handler of a request, by its method and path alone.\<close>

definition zona_dispatch :: "string \<Rightarrow> string \<Rightarrow> (zona_handler, nat) result" where
  "zona_dispatch m p =
     (if p = TEACH_PATH then if m = ''POST'' then Ok Teach else Err 405
      else case map_of [(MASK_PROFILES_PATH, MaskProfiles), (SIGNATURE_SAMPLES_PATH, SignatureSamples),
          (TRAIN_STORE_DUMP_PATH, TrainStoreDump), (TRAINING_STATUS_PATH, TrainingStatus)] p of
        None \<Rightarrow> Err 404
      | Some h \<Rightarrow> if m = ''GET'' \<or> m = ''HEAD'' then Ok h else Err 405)"

lemma dispatch_routes:
  assumes "axum_ok A" shows "ax_dispatch A zona_routes m p = zona_dispatch m p"
proof -
  have "distinct (map fst zona_routes)" by (simp add: zona_routes_def)
  from axum_dispatch [OF assms this] show ?thesis
    by (auto simp: route_dispatch_def zona_dispatch_def zona_routes_def)
qed

subsection \<open>The store is the log of the accepted requests\<close>

text \<open>The payloads of the accepted teaching requests, with the moment each of them met.\<close>

definition accepted ::
  "'a zona_libs_scheme \<Rightarrow> ('r moment \<times> web_request) list \<Rightarrow> ('r moment \<times> teach_payload) list" where
  "accepted L reqs =
     List.map_filter
       (\<lambda>(m, req). if wq_method req = ''POST'' \<and> wq_path req = TEACH_PATH
          then (case json_body L req of Inl _ \<Rightarrow> None | Inr body \<Rightarrow> Some (m, body)) else None) reqs"

definition recorded :: "'a zona_libs_scheme \<Rightarrow> 'r moment \<times> teach_payload \<Rightarrow> disk_faults \<times> int \<times> string \<times> sample" where
  "recorded L = (\<lambda>(m, body). (mo_faults m, mo_now m, route_key (tp_method body) (tp_path body), sample_of L body))"

lemma accepted_simps [simp]:
  "accepted L [] = []"
  "accepted L ((m, req) # reqs) =
     (if wq_method req = ''POST'' \<and> wq_path req = TEACH_PATH
      then (case json_body L req of Inl _ \<Rightarrow> [] | Inr body \<Rightarrow> [(m, body)]) else []) @ accepted L reqs"
  by (simp_all add: accepted_def List.map_filter_simps split: sum.split)

lemma run_store_simps [simp]:
  "run_store L s [] = s"
  "run_store L s ((f, now, key, sm) # es) = run_store L (store_record L f now key sm s) es"
  by (simp_all add: run_store_def)

lemma serve_request_state:
  assumes "axum_ok A"
  shows "snd (serve_request L A zona_routes fexp R m req s) = run_store L s (map (recorded L) (accepted L [(m, req)]))"
proof (cases "zona_dispatch (wq_method req) (wq_path req)")
  case (Inl status)
  then have "\<not> (wq_method req = ''POST'' \<and> wq_path req = TEACH_PATH)" by (auto simp: zona_dispatch_def)
  then show ?thesis using Inl by (auto simp: serve_request_def dispatch_routes [OF assms])
next
  case (Inr h)
  have "h = Teach \<longleftrightarrow> wq_method req = ''POST'' \<and> wq_path req = TEACH_PATH"
    using Inr by (auto simp: zona_dispatch_def split: if_splits)
  then show ?thesis
    using Inr by (cases h) (auto simp: serve_request_def dispatch_routes [OF assms] handle_request_def recorded_def teach_def
        split: sum.split)
qed

lemma serve_requests_state:
  assumes "axum_ok A"
  shows "snd (serve_requests L A zona_routes fexp R reqs s) = run_store L s (map (recorded L) (accepted L reqs))"
proof (induction reqs arbitrary: s)
  case (Cons e reqs)
  obtain m req where e: "e = (m, req)" by (cases e)
  have split: "accepted L ((m, req) # reqs) = accepted L [(m, req)] @ accepted L reqs" by simp
  have "run_store L s (map (recorded L) (accepted L ((m, req) # reqs))) =
      run_store L (run_store L s (map (recorded L) (accepted L [(m, req)]))) (map (recorded L) (accepted L reqs))"
    unfolding split by (simp add: run_store_def)
  then show ?case
    using Cons serve_request_state [OF assms, of L fexp R m req s]
    by (simp add: e case_prod_beta' Let_def del: accepted_simps)
qed simp

lemma serve_requests_length: "length (fst (serve_requests L A router fexp R reqs s)) = length reqs"
proof (induction reqs arbitrary: s)
  case (Cons e reqs)
  then show ?case by (cases e) (simp add: case_prod_beta' Let_def)
qed simp

subsection \<open>From the start over any requests\<close>

lemma zona_main_Ok:
  assumes "axum_ok A" "zona_main L A parse_addr bind_socket env now f1 f2 f3 disk = (Ok (router, addr, ts), disk')"
  shows "router = zona_routes" "TrainStore_from_env L env now f1 f2 f3 disk = (ts, disk')"
    "parse_addr (case env ''ZONA_LISTEN'' of None \<Rightarrow> DEFAULT_LISTEN | Some l \<Rightarrow> l) = Some addr" "bind_socket addr = Ok ()"
  using assms(2) by (auto simp: zona_main_def zona_app_def app_routes [OF assms(1)] map_sum_def Let_def
      split: option.splits prod.splits sum.splits)

lemma serve_requests_append:
  "serve_requests L A router fexp R (reqs @ reqs') s =
     (let (replies, s) = serve_requests L A router fexp R reqs s;
          (replies', s) = serve_requests L A router fexp R reqs' s
      in (replies @ replies', s))"
proof (induction reqs arbitrary: s)
  case (Cons e reqs)
  then show ?case by (cases e) (simp add: case_prod_beta' Let_def)
qed simp

lemma serve_requests_nth:
  assumes "i < length reqs"
  shows "fst (serve_requests L A router fexp R reqs s) ! i =
    fst (serve_request L A router fexp R (fst (reqs ! i)) (snd (reqs ! i)) (snd (serve_requests L A router fexp R (take i reqs) s)))"
  using assms
proof (induction reqs arbitrary: s i)
  case (Cons e reqs)
  then show ?case by (cases e; cases i) (simp_all add: case_prod_beta' Let_def)
qed simp

lemma service_state:
  assumes "axum_ok A" "zona_main L A parse_addr bind_socket env now f1 f2 f3 disk0 = (Ok (router, addr, ts0), disk)"
    and "serve_requests L A router fexp R reqs (ts0, disk) = (replies, ts, disk')"
  shows "run_store L (ts0, disk) (map (recorded L) (accepted L reqs)) = (ts, disk')"
    "ts = run_records ts0 (map snd (map (recorded L) (accepted L reqs)))"
proof -
  show run: "run_store L (ts0, disk) (map (recorded L) (accepted L reqs)) = (ts, disk')"
    using serve_requests_state [OF assms(1), of L fexp R reqs "(ts0, disk)"] assms(3) zona_main_Ok(1) [OF assms(1,2)] by simp
  show "ts = run_records ts0 (map snd (map (recorded L) (accepted L reqs)))"
    using run_store_fst [of L "(ts0, disk)" "map (recorded L) (accepted L reqs)"] unfolding run by simp
qed

lemma samples_recorded:
  "map (\<lambda>(_, _, sm). sm) (filter (\<lambda>(_, k, _). k = key) (map snd (map (recorded L) as))) =
     map (\<lambda>(_, body). sample_of L body) (filter (\<lambda>(_, body). route_key (tp_method body) (tp_path body) = key) as)"
  by (induction as) (auto simp: recorded_def)

text \<open>The samples of a route after some requests: those loaded and then those of the accepted requests for it.\<close>

definition logged_samples ::
  "'a zona_libs_scheme \<Rightarrow> train_store \<Rightarrow> ('r moment \<times> web_request) list \<Rightarrow> string \<Rightarrow> sample list" where
  "logged_samples L ts0 reqs key = samples_at (ps_routes (ts_inner ts0)) key @
     map (\<lambda>(_, body). sample_of L body)
       (filter (\<lambda>(_, body). route_key (tp_method body) (tp_path body) = key) (accepted L reqs))"

text \<open>A store that is this log: its samples and their number, the settings it was started with, and a completion that is in order.\<close>

definition is_log ::
  "'a zona_libs_scheme \<Rightarrow> train_store \<Rightarrow> ('r moment \<times> web_request) list \<Rightarrow> train_store \<Rightarrow> bool" where
  "is_log L ts0 reqs ts \<longleftrightarrow>
     (\<forall>key. samples_at (ps_routes (ts_inner ts)) key = logged_samples L ts0 reqs key) \<and>
     total_sample_count ts = total_sample_count ts0 + length (accepted L reqs) \<and>
     ts = ts0\<lparr>ts_inner := ts_inner ts\<rparr> \<and> hm_ok (ps_routes (ts_inner ts)) \<and>
     (ps_training_complete (ts_inner ts) \<longleftrightarrow> ps_training_complete (ts_inner ts0) \<or> done_now ts)"

lemma run_records_frame: "run_records ts es = ts\<lparr>ts_inner := ts_inner (run_records ts es)\<rparr>"
proof (rule train_store.equality)
  show "ts_min_samples (run_records ts es) = ts_min_samples (ts\<lparr>ts_inner := ts_inner (run_records ts es)\<rparr>)"
    "ts_data_path (run_records ts es) = ts_data_path (ts\<lparr>ts_inner := ts_inner (run_records ts es)\<rparr>)"
    "ts_done_mode (run_records ts es) = ts_done_mode (ts\<lparr>ts_inner := ts_inner (run_records ts es)\<rparr>)"
    "ts_total_threshold (run_records ts es) = ts_total_threshold (ts\<lparr>ts_inner := ts_inner (run_records ts es)\<rparr>)"
    "ts_min_ready_routes (run_records ts es) = ts_min_ready_routes (ts\<lparr>ts_inner := ts_inner (run_records ts es)\<rparr>)"
    by (induction es rule: rev_induct) (auto simp: record_sample_routes)
qed simp_all

lemma service_is_log:
  assumes "axum_ok A" "maps_ok L"
    and "zona_main L A parse_addr bind_socket env now f1 f2 f3 disk0 = (Ok (router, addr, ts0), disk)"
    and "serve_requests L A router fexp R reqs (ts0, disk) = (replies, ts, disk')"
  shows "is_log L ts0 reqs ts"
proof -
  have ok: "train_ok ts0" using from_env_ok [OF assms(2), of env now f1 f2 f3 disk0] zona_main_Ok(2) [OF assms(1,3)] by simp
  note state = service_state(2) [OF assms(1,3,4)]
  show ?thesis
    using training_log [OF ok state] run_records_frame [of ts0] state unfolding samples_recorded is_log_def logged_samples_def
    by (auto simp: train_ok_def)
qed

text \<open>The reply that the route of a request prescribes, when the request meets a given store.\<close>

definition prescribed ::
  "'a zona_libs_scheme \<Rightarrow> (f64 \<Rightarrow> f64) \<Rightarrow> 'r thread_rng \<Rightarrow> 'r moment \<Rightarrow> web_request \<Rightarrow> train_store \<Rightarrow> zona_reply" where
  "prescribed L fexp R m req ts =
     (case zona_dispatch (wq_method req) (wq_path req) of
        Inl status \<Rightarrow> Some (status, NoBody)
      | Inr Teach \<Rightarrow> Some (case json_body L req of Inl status \<Rightarrow> status | Inr _ \<Rightarrow> 204, NoBody)
      | Inr MaskProfiles \<Rightarrow>
          (case query_params L (wq_query req) of
             Inl status \<Rightarrow> Some (status, NoBody)
           | Inr q \<Rightarrow> map_option (\<lambda>resp. (200, ProfilesBody resp)) (mask_profiles fexp (mo_order m) ts q))
      | Inr SignatureSamples \<Rightarrow>
          (case query_params L (wq_query req) of
             Inl status \<Rightarrow> Some (status, NoBody)
           | Inr q \<Rightarrow> map_option (\<lambda>(resp, _). (200, SamplesBody resp))
               (signature_samples fexp R (mo_order m) ts q (mo_rng m)))
      | Inr TrainStoreDump \<Rightarrow> Some (200, StoreBody (ts_inner ts))
      | Inr TrainingStatus \<Rightarrow> Some (200, StatusBody (training_status ts)))"

lemma serve_request_reply:
  assumes "axum_ok A"
  shows "fst (serve_request L A zona_routes fexp R m req s) = prescribed L fexp R m req (fst s)"
  by (auto simp: serve_request_def dispatch_routes [OF assms] prescribed_def handle_request_def teach_def
      train_store_dump_def persisted_snapshot_def split: sum.split zona_handler.split)

lemma zona_dispatch_status: "zona_dispatch m p = Err status \<Longrightarrow> status \<in> {404, 405}"
  by (auto simp: zona_dispatch_def split: if_splits option.splits)

text \<open>
  C13: Whatever is sent to the service, its store is the log of the accepted teaching requests, at every
  request, requests being served one at a time.  When request \<open>i\<close> is served, the samples
  of a route are those that were loaded and then, in order, those of the accepted ones among the requests before it.
  Its reply is the one its route prescribes for that store: 404 or 405 without a route, 204 for a \<^verbatim>\<open>POST\<close> to the
  teaching path with a valid body and the status of the rejection for an invalid one, the dump of exactly
  this log, the status computed from it (its total is the loaded and the accepted samples), and the
  profiles and signatures computed from it, 200 with the result, the status of the rejection for a query
  that cannot be read, and no reply if the computation panics, which nothing else does.
\<close>
theorem service_log:
  assumes "axum_ok A" "maps_ok L"
    and "zona_main L A parse_addr bind_socket env now f1 f2 f3 disk0 = (Ok (router, addr, ts0), disk)"
    and "serve_requests L A router fexp R reqs (ts0, disk) = (replies, ts, disk')"
  shows "is_log L ts0 reqs ts \<and> length replies = length reqs \<and>
    (\<forall>i < length reqs. \<exists>tsi. is_log L ts0 (take i reqs) tsi \<and>
      replies ! i = prescribed L fexp R (fst (reqs ! i)) (snd (reqs ! i)) tsi \<and>
      (\<forall>p. replies ! i = Some (200, StoreBody p) \<longrightarrow>
         (\<forall>key. samples_at (ps_routes p) key = logged_samples L ts0 (take i reqs) key)) \<and>
      (\<forall>st. replies ! i = Some (200, StatusBody st) \<longrightarrow>
         tr_total_samples st = total_sample_count ts0 + length (accepted L (take i reqs))) \<and>
      (replies ! i = None \<longrightarrow>
         zona_dispatch (wq_method (snd (reqs ! i))) (wq_path (snd (reqs ! i))) \<in> {Ok MaskProfiles, Ok SignatureSamples}) \<and>
      (\<forall>status. zona_dispatch (wq_method (snd (reqs ! i))) (wq_path (snd (reqs ! i))) = Err status \<longrightarrow> status \<in> {404, 405}))"
proof -
  note main = zona_main_Ok [OF assms(1,3)]
  have step: "\<exists>tsi. is_log L ts0 (take i reqs) tsi \<and> replies ! i = prescribed L fexp R (fst (reqs ! i)) (snd (reqs ! i)) tsi"
    if "i < length reqs" for i
  proof -
    obtain r tsi d where before: "serve_requests L A router fexp R (take i reqs) (ts0, disk) = (r, tsi, d)" by (metis prod_cases3)
    have "replies ! i = prescribed L fexp R (fst (reqs ! i)) (snd (reqs ! i)) tsi"
      using serve_requests_nth [OF that, of L A router fexp R "(ts0, disk)"] assms(4) before main(1)
        serve_request_reply [OF assms(1), of L fexp R _ _ "(tsi, d)"] by simp
    then show ?thesis using service_is_log [OF assms(1-3) before] by blast
  qed
  have dump: "p = ts_inner tsi" if "prescribed L fexp R m req tsi = Some (200, StoreBody p)" for m req tsi p
    using that by (auto simp: prescribed_def split: sum.splits zona_handler.splits)
  have status: "st = training_status tsi" if "prescribed L fexp R m req tsi = Some (200, StatusBody st)" for m req tsi st
    using that by (auto simp: prescribed_def split: sum.splits zona_handler.splits)
  have panic: "zona_dispatch (wq_method req) (wq_path req) \<in> {Ok MaskProfiles, Ok SignatureSamples}"
    if "prescribed L fexp R m req tsi = None" for m req tsi
    using that by (auto simp: prescribed_def split: sum.splits zona_handler.splits)
  have "length replies = length reqs"
    using serve_requests_length [of L A router fexp R reqs "(ts0, disk)"] assms(4) by simp
  moreover have "\<exists>tsi. is_log L ts0 (take i reqs) tsi \<and>
      replies ! i = prescribed L fexp R (fst (reqs ! i)) (snd (reqs ! i)) tsi \<and>
      (\<forall>p. replies ! i = Some (200, StoreBody p) \<longrightarrow>
         (\<forall>key. samples_at (ps_routes p) key = logged_samples L ts0 (take i reqs) key)) \<and>
      (\<forall>st. replies ! i = Some (200, StatusBody st) \<longrightarrow>
         tr_total_samples st = total_sample_count ts0 + length (accepted L (take i reqs))) \<and>
      (replies ! i = None \<longrightarrow>
         zona_dispatch (wq_method (snd (reqs ! i))) (wq_path (snd (reqs ! i))) \<in> {Ok MaskProfiles, Ok SignatureSamples}) \<and>
      (\<forall>status. zona_dispatch (wq_method (snd (reqs ! i))) (wq_path (snd (reqs ! i))) = Err status \<longrightarrow> status \<in> {404, 405})"
    if i: "i < length reqs" for i
  proof -
    obtain tsi where tsi: "is_log L ts0 (take i reqs) tsi"
        "replies ! i = prescribed L fexp R (fst (reqs ! i)) (snd (reqs ! i)) tsi" using step [OF i] by blast
    have "\<forall>key. samples_at (ps_routes p) key = logged_samples L ts0 (take i reqs) key" if "replies ! i = Some (200, StoreBody p)" for p
      using tsi(1) dump [OF that [unfolded tsi(2)]] by (simp add: is_log_def)
    moreover have "tr_total_samples st = total_sample_count ts0 + length (accepted L (take i reqs))"
      if "replies ! i = Some (200, StatusBody st)" for st
      using tsi(1) status [OF that [unfolded tsi(2)]] by (simp add: is_log_def training_status_def)
    ultimately show ?thesis using tsi panic zona_dispatch_status by (metis (no_types, lifting))
  qed
  ultimately show ?thesis using service_is_log [OF assms] by blast
qed

text \<open>What bounds the store: bounds on what was loaded and on what was accepted.\<close>

lemma store_small_iff:
  assumes "hm_ok (ps_routes (ts_inner ts))"
  shows "store_small ts \<longleftrightarrow> (\<forall>k. sized (samples_at (ps_routes (ts_inner ts)) k) \<and> list_all sample_small (samples_at (ps_routes (ts_inner ts)) k))"
proof -
  have at: "(k, v) \<in> set (ps_routes (ts_inner ts)) \<Longrightarrow> samples_at (ps_routes (ts_inner ts)) k = v" for k v
    using assms by (simp add: samples_at_def hm_get_in [symmetric])
  show ?thesis
  proof
    assume small: "store_small ts"
    show "\<forall>k. sized (samples_at (ps_routes (ts_inner ts)) k) \<and> list_all sample_small (samples_at (ps_routes (ts_inner ts)) k)"
      using store_small_at [OF small] store_sized_at small by (simp add: store_small_def)
  next
    assume "\<forall>k. sized (samples_at (ps_routes (ts_inner ts)) k) \<and> list_all sample_small (samples_at (ps_routes (ts_inner ts)) k)"
    then have "sized v \<and> list_all sample_small v" if "(k, v) \<in> set (ps_routes (ts_inner ts))" for k v
      using at [OF that] by (metis)
    then show "store_small ts" by (auto simp: store_small_def store_sized_def list_all_iff)
  qed
qed

lemma samples_at_total: "length (samples_at (ps_routes (ts_inner ts)) k) \<le> total_sample_count ts"
proof (cases "hm_get (ps_routes (ts_inner ts)) k")
  case (Some v)
  then have "(k, v) \<in> set (ps_routes (ts_inner ts))" by (auto simp: hm_get_def dest: map_of_SomeD)
  then have "length v \<in> set (route_lengths (ts_inner ts))" by (force simp: route_lengths_def)
  then show ?thesis using Some by (simp add: samples_at_def total_sample_count_def member_le_sum_list)
qed (simp add: samples_at_def)

lemma service_small:
  assumes "train_ok ts0" "ts = run_records ts0 (map snd (map (recorded L) as))" "store_small ts0"
    and "\<forall>(_, body) \<in> set as. sample_small (sample_of L body)" "total_sample_count ts0 + length as \<le> 2 ^ 40"
  shows "store_small ts"
proof -
  note logged = training_log [OF assms(1,2)]
  have ok: "hm_ok (ps_routes (ts_inner ts))" using logged by (simp add: train_ok_def)
  have "sized (samples_at (ps_routes (ts_inner ts)) k)" for k
    using samples_at_total [of ts k] logged assms(5) by (simp add: sized_def)
  moreover have "list_all sample_small (samples_at (ps_routes (ts_inner ts)) k)" for k
    using logged store_small_at [OF assms(3), of k] assms(4)
    unfolding samples_recorded by (auto simp: list_all_iff)
  ultimately show ?thesis unfolding store_small_iff [OF ok] by blast
qed

text \<open>How often a route was taught: what was loaded, and the accepted requests for it.\<close>

definition taught_count :: "'a zona_libs_scheme \<Rightarrow> train_store \<Rightarrow> ('r moment \<times> web_request) list \<Rightarrow> string \<Rightarrow> nat" where
  "taught_count L ts0 reqs key =
     counts_for ts0 key + length (filter (\<lambda>(_, body). route_key (tp_method body) (tp_path body) = key) (accepted L reqs))"

text \<open>
  C12: A route's mask profiles and signatures are served as soon as the route was taught often enough.  After
  any requests to a service that was started from any environment and file, a \<^verbatim>\<open>GET\<close> of the profiles, for
  one route or for all, is answered with 200 and exactly the routes that were loaded and taught the
  required number of times, each with that number and five variants, and likewise a \<^verbatim>\<open>GET\<close> of the
  signatures; neither panics, and neither changes the store or the disk.  The bounds that rule out a panic are on what
  was loaded and accepted: no message above a terabyte, and \<open>2^40\<close> samples.
\<close>
theorem service_answers:
  assumes "axum_ok A" "maps_ok L" "exp_ok fexp" "is_order (mo_order m)"
    and "zona_main L A parse_addr bind_socket env now f1 f2 f3 disk0 = (Ok (router, addr, ts0), disk)"
    and "serve_requests L A router fexp R reqs (ts0, disk) = (replies, ts, disk')"
    and "store_small ts0" "\<forall>(_, body) \<in> set (accepted L reqs). sample_small (sample_of L body)"
      "total_sample_count ts0 + length (accepted L reqs) \<le> 2 ^ 40"
    and "wq_method req = ''GET''" "query_params L (wq_query req) = Ok q"
    and "keys = (if is_specific_route_key q
       then [route_key (case mq_method q of None \<Rightarrow> [] | Some s \<Rightarrow> trim s) (case mq_path q of None \<Rightarrow> [] | Some s \<Rightarrow> trim s)]
       else sort (map fst (ps_routes (ts_inner ts))))"
    and "n = taught_count L ts0 reqs"
  shows "(wq_path req = MASK_PROFILES_PATH \<longrightarrow>
      (\<exists>resp. serve_request L A router fexp R m req (ts, disk') = (Some (200, ProfilesBody resp), ts, disk') \<and>
         map me_route_key (mr_routes resp) = filter (\<lambda>k. ts_min_samples ts0 \<le> n k) keys \<and>
         list_all (\<lambda>e. me_sample_count e = n (me_route_key e) \<and> me_ready e \<and> entry_ok ts e) (mr_routes resp))) \<and>
    (wq_path req = SIGNATURE_SAMPLES_PATH \<longrightarrow>
      (\<exists>resp. serve_request L A router fexp R m req (ts, disk') = (Some (200, SamplesBody resp), ts, disk') \<and>
         map se_route_key (ss_routes resp) = filter (\<lambda>k. ts_min_samples ts0 \<le> n k) keys \<and>
         list_all (\<lambda>e. se_sample_count e = n (se_route_key e) \<and> signature_entry_ok fexp ts e) (ss_routes resp)))"
proof -
  note main = zona_main_Ok [OF assms(1,5)] and state = service_state [OF assms(1,5,6)]
  have ok: "train_ok ts0" using from_env_ok [OF assms(2), of env now f1 f2 f3 disk0] main(2) by simp
  note logged = training_log [OF ok state(2)]
  have count: "counts_for ts k = n k" for k
    using logged unfolding samples_recorded by (simp add: counts_for_at assms(13) taught_count_def)
  have min: "ts_min_samples ts = ts_min_samples ts0"
  proof -
    have "ts_min_samples (run_records ts0 es) = ts_min_samples ts0" for es
      by (induction es rule: rev_induct) (auto simp: record_sample_routes)
    then show ?thesis unfolding state(2) .
  qed
  have small: "store_small ts" by (rule service_small [OF ok state(2) assms(7-9)])
  have routes: "hm_ok (ps_routes (ts_inner ts))" using logged by (simp add: train_ok_def)
  have sized: "store_sized ts" using small by (simp add: store_small_def)
  obtain resp where resp: "mask_profiles fexp (mo_order m) ts q = Some resp"
      "map me_route_key (mr_routes resp) = filter (\<lambda>k. ts_min_samples ts0 \<le> n k) keys"
      "list_all (\<lambda>e. me_ready e \<and> entry_ok ts e) (mr_routes resp)"
    using mask_profiles_spec [OF assms(3,4) routes sized assms(12)] unfolding count min by blast
  obtain resp' g' where resp': "signature_samples fexp R (mo_order m) ts q (mo_rng m) = Some (resp', g')"
      "map se_route_key (ss_routes resp') = filter (\<lambda>k. ts_min_samples ts0 \<le> n k) keys"
      "list_all (signature_entry_ok fexp ts) (ss_routes resp')"
    using signature_samples_spec [OF assms(3,4) routes small assms(12), of R "mo_rng m"] unfolding count min by blast
  have served: "serve_request L A router fexp R m req (ts, disk') = handle_request L fexp R h m req (ts, disk')"
    if "zona_dispatch ''GET'' (wq_path req) = Ok h" for h
    using that by (simp add: serve_request_def main(1) dispatch_routes [OF assms(1)] assms(10))
  have "me_sample_count e = n (me_route_key e)" if "entry_ok ts e" for e
    using that by (simp add: entry_ok_def count)
  moreover have "se_sample_count e = n (se_route_key e)" if "signature_entry_ok fexp ts e" for e
    using that by (simp add: signature_entry_ok_def count)
  ultimately show ?thesis
    using resp resp' served [of MaskProfiles] served [of SignatureSamples] assms(11)
    by (auto simp: zona_dispatch_def handle_request_def list_all_iff)
qed

lemma complete_stays:
  assumes "ps_training_complete (ts_inner ts)"
  shows "ps_training_complete (ts_inner (run_records ts es)) \<and>
    ps_completed_at_unix_ms (ts_inner (run_records ts es)) = ps_completed_at_unix_ms (ts_inner ts)"
proof (induction es rule: rev_induct)
  case (snoc e es)
  then show ?case by (cases e) (simp add: record_sample_complete record_sample_completed_at)
qed (use assms in simp)

lemma serve_status:
  assumes "axum_ok A" "wq_method req = ''GET''" "wq_path req = TRAINING_STATUS_PATH"
  shows "serve_request L A zona_routes fexp R m req s = (Some (200, StatusBody (training_status (fst s))), s)"
  by (simp add: serve_request_def dispatch_routes [OF assms(1)] assms(2,3) zona_dispatch_def handle_request_def)

lemma done_now_status:
  "done_now ts \<longleftrightarrow> (let st = training_status ts in
     case ts_done_mode ts of
       Total \<Rightarrow> tr_total_threshold st \<le> tr_total_samples st
     | AllRoutes \<Rightarrow> tr_min_ready_routes st \<le> tr_routes_meeting_min_samples st)"
  by (simp add: done_now_def check_training_done_def training_status_def total_sample_count_def routes_meeting_min_samples_def
      split: training_done_mode.split)

text \<open>
  C15: The status tells the host when to stop teaching.  It counts the loaded samples and the accepted
  requests; it says that the training is complete exactly if it was when the store was loaded or its own
  figures reach the thresholds it shows, the total in one mode and the ready routes in the other; and
  once it says so it says so after any further requests, with the same time.
\<close>
theorem training_stops:
  assumes "axum_ok A" "maps_ok L"
    and "zona_main L A parse_addr bind_socket env now f1 f2 f3 disk0 = (Ok (router, addr, ts0), disk)"
    and "serve_requests L A router fexp R reqs (ts0, disk) = (replies, ts, disk')"
    and "serve_requests L A router fexp R later (ts, disk') = (replies', ts', disk'')"
    and "wq_method req = ''GET''" "wq_path req = TRAINING_STATUS_PATH"
  shows "\<exists>st st'. serve_request L A router fexp R m req (ts, disk') = (Some (200, StatusBody st), ts, disk') \<and>
    serve_request L A router fexp R m' req (ts', disk'') = (Some (200, StatusBody st'), ts', disk'') \<and>
    tr_total_samples st = total_sample_count ts0 + length (accepted L reqs) \<and>
    (tr_training_complete st \<longleftrightarrow> ps_training_complete (ts_inner ts0) \<or>
       (if tr_done_mode st = ''total'' then tr_total_threshold st \<le> tr_total_samples st
        else tr_min_ready_routes st \<le> tr_routes_meeting_min_samples st)) \<and>
    (tr_training_complete st \<longrightarrow>
       tr_training_complete st' \<and> tr_completed_at_unix_ms st' = tr_completed_at_unix_ms st)"
proof -
  note main = zona_main_Ok [OF assms(1,3)] and state = service_state [OF assms(1,3,4)]
  have ok: "train_ok ts0" using from_env_ok [OF assms(2), of env now f1 f2 f3 disk0] main(2) by simp
  have later: "ts' = run_records ts (map snd (map (recorded L) (accepted L later)))"
    using serve_requests_state [OF assms(1), of L fexp R later "(ts, disk')"] assms(5) main(1)
      run_store_fst [of L "(ts, disk')" "map (recorded L) (accepted L later)"] by (metis fst_conv snd_conv)
  let ?st = "training_status ts"
  have "tr_total_samples ?st = total_sample_count ts0 + length (accepted L reqs)"
    "tr_training_complete ?st \<longleftrightarrow> ps_training_complete (ts_inner ts0) \<or> done_now ts"
    using training_log [OF ok state(2)] by (simp_all add: training_status_def)
  moreover have "done_now ts \<longleftrightarrow> (if tr_done_mode ?st = ''total'' then tr_total_threshold ?st \<le> tr_total_samples ?st
      else tr_min_ready_routes ?st \<le> tr_routes_meeting_min_samples ?st)"
    unfolding done_now_status by (cases "ts_done_mode ts") (simp_all add: training_status_def mode_str_def Let_def)
  moreover have "tr_training_complete ?st \<longrightarrow> tr_training_complete (training_status ts') \<and>
      tr_completed_at_unix_ms (training_status ts') = tr_completed_at_unix_ms ?st"
    using complete_stays [of ts "map snd (map (recorded L) (accepted L later))"] unfolding later
    by (simp add: training_status_def)
  ultimately show ?thesis
    unfolding main(1) serve_status [OF assms(1,6,7)] fst_conv by blast
qed

text \<open>
  C14: A restart of the service loses nothing but the last places of floating-point numbers.  If the last
  accepted request was saved without a fault of the disk, and \<^verbatim>\<open>serde_json\<close> reads the store it wrote
  back up to the values of the \<^verbatim>\<open>f64\<close> fields (\<open>read_back_as\<close>), then
  starting again from the same environment and the disk it left gives the same routes
  at the same address with the same settings and the store as it is read back, so that it reports
  the same training status; and starting leaves the disk alone.
\<close>
theorem service_restart:
  assumes "axum_ok A" "maps_ok L" "resolve_data_dir env = Some dir"
    and "zona_main L A parse_addr bind_socket env now f1 f2 f3 disk0 = (Ok (router, addr, ts0), disk)"
    and "serve_requests L A router fexp R (reqs @ [(m, req)]) (ts0, disk) = (replies, ts, disk')"
    and "wq_method req = ''POST''" "wq_path req = TEACH_PATH" "json_body L req = Ok body" "mo_faults m = no_faults"
    and "json_encode L (ts_inner ts) = Ok json" "json_decode L json = Ok q" "read_back_as (ts_inner ts) q" "df_read f = None"
  shows "zona_main L A parse_addr bind_socket env now' f f2' f3' disk' = (Ok (router, addr, ts\<lparr>ts_inner := q\<rparr>), disk') \<and>
    training_status (ts\<lparr>ts_inner := q\<rparr>) = training_status ts"
proof
  note main = zona_main_Ok [OF assms(1,4)]
  have split: "accepted L (reqs @ [(m, req)]) = accepted L reqs @ [(m, body)]"
    using assms(6-8) by (induction reqs) auto
  have run: "run_store L (TrainStore_from_env L env now f1 f2 f3 disk0)
      (map (recorded L) (accepted L reqs) @
       [(no_faults, mo_now m, route_key (tp_method body) (tp_path body), sample_of L body)]) = (ts, disk')"
    using service_state(1) [OF assms(1,4,5)] assms(9) unfolding split main(2) by (simp add: recorded_def)
  have "TrainStore_from_env L env now' f f2' f3' disk' = (ts\<lparr>ts_inner := q\<rparr>, disk')"
    by (rule restart_restores [OF assms(2,3) run assms(10-13)])
  then show "zona_main L A parse_addr bind_socket env now' f f2' f3' disk' = (Ok (router, addr, ts\<lparr>ts_inner := q\<rparr>), disk')"
    using main by (simp add: zona_main_def zona_app_def app_routes [OF assms(1)] Let_def)
  show "training_status (ts\<lparr>ts_inner := q\<rparr>) = training_status ts"
    using service_is_log [OF assms(1,2,4,5)] assms(2,11)
    by (intro read_back_status [OF assms(12)]) (simp_all add: is_log_def maps_ok_def)
qed

subsection \<open>An instance\<close>

text \<open>A teaching request for \<^verbatim>\<open>GET /\<close>, and a question for the profiles of all routes.\<close>

definition demo_payload :: teach_payload where
  "demo_payload =
     \<lparr>tp_method = ''GET'', tp_path = ''/'', tp_query = None, tp_unix_ms = 0, tp_duration_ms = Some 5, tp_status_code = Some 200,
      tp_request_length = None, tp_response_length = None, tp_response_ttfb_ms = None, tp_request_entropy_bits = None,
      tp_request_ones_ratio = None, tp_request_byte_histogram16 = None, tp_response_entropy_bits = None,
      tp_response_ones_ratio = None, tp_response_byte_histogram16 = None\<rparr>"

definition demo_question :: mask_profiles_query where
  "demo_question = \<lparr>mq_method = None, mq_path = None, mq_query = None\<rparr>"

definition demo_zona :: zona_libs where
  "demo_zona = train_libs.extend demo_train_libs
     \<lparr>json_body = (\<lambda>_. Ok demo_payload), query_params = (\<lambda>_. Ok demo_question)\<rparr>"

definition demo_service_env :: environment where
  "demo_service_env = [''ZONA_DATA_DIR'' \<mapsto> ''d'', ''ZONA_TEACH_MIN_SAMPLES'' \<mapsto> ''1'']"

definition demo_moment :: "nat moment" where
  "demo_moment = \<lparr>mo_now = 2, mo_faults = no_faults, mo_order = (\<lambda>m. m), mo_rng = 0\<rparr>"

definition demo_zona_request :: "string \<Rightarrow> string \<Rightarrow> web_request" where
  "demo_zona_request meth path = \<lparr>wq_method = meth, wq_path = path, wq_query = None, wq_headers = [], wq_body = []\<rparr>"

abbreviation demo_teach :: "(nat moment \<times> web_request) list" where
  "demo_teach \<equiv> [(demo_moment, demo_zona_request ''POST'' TEACH_PATH)]"

abbreviation demo_store :: train_store where
  "demo_store \<equiv> env_store demo_service_env PersistedTrainStore_default"

lemma demo_zona_libs [simp]:
  "json_encode demo_zona st = Ok ''{}''" "json_decode demo_zona js = Ok demo_persisted"
  "json_body demo_zona req = Ok demo_payload" "query_params demo_zona qs = Ok demo_question"
  by (simp_all add: demo_zona_def demo_train_libs_def train_libs.defs)

lemma demo_zona_maps: "maps_ok demo_zona"
  by (simp add: maps_ok_def demo_persisted_def hm_ok_def)

lemma demo_dir: "resolve_data_dir demo_service_env = Some ''d''"
  using trim_printable [of "''d''"] by (simp add: resolve_data_dir_def demo_service_env_def Let_def)

lemma demo_env_settings:
  "env_usize demo_service_env ''ZONA_TEACH_MIN_SAMPLES'' 10 = 1"
  "env_usize demo_service_env ''ZONA_TRAINING_MIN_READY_ROUTES'' 3 = 3" "env_done_mode demo_service_env = AllRoutes"
  "env_string demo_service_env ''ZONA_HOST_SESSION'' = []"
proof -
  have "parse_usize ''1'' = Some 1"
  proof -
    have "char_of (49 :: nat) = CHR ''1''" by code_simp
    then show ?thesis using parse_nat_to_string [of 1] by (simp add: usize_max_def nat_to_string.simps)
  qed
  then show "env_usize demo_service_env ''ZONA_TEACH_MIN_SAMPLES'' 10 = 1"
    by (simp add: env_usize_def demo_service_env_def)
  show "env_usize demo_service_env ''ZONA_TRAINING_MIN_READY_ROUTES'' 3 = 3"
    "env_string demo_service_env ''ZONA_HOST_SESSION'' = []"
    by (simp_all add: env_usize_def env_string_def demo_service_env_def)
  show "env_done_mode demo_service_env = AllRoutes"
    using trim_printable [of "[]"]
    by (simp add: env_done_mode_def env_string_def demo_service_env_def to_ascii_lowercase_def ascii_map_def Let_def)
qed

lemma demo_zona_start:
  "zona_main demo_zona demo_axum Some (\<lambda>_. Ok ()) demo_service_env 1 no_faults no_faults no_faults [] =
     (Ok (zona_routes, DEFAULT_LISTEN, demo_store), [])"
proof -
  have q: "session_store demo_service_env (loaded demo_zona demo_service_env no_faults ''d'' []) = PersistedTrainStore_default"
    "loaded demo_zona demo_service_env no_faults ''d'' [] = PersistedTrainStore_default"
    by (simp_all add: session_store_def loaded_def load_from_disk_def should_reset_store_for_host_session_def demo_env_settings)
  have "\<not> done_now demo_store" by (rule done_now_empty) (simp add: PersistedTrainStore_default_def)
  then have "TrainStore_from_env demo_zona demo_service_env 1 no_faults no_faults no_faults [] = (demo_store, [])"
    using from_env_path(2) [OF demo_dir q(1) [symmetric] q(2)]
    by (simp add: should_reset_store_for_host_session_def demo_env_settings)
  then show ?thesis
    by (simp add: zona_main_def zona_app_def app_routes [OF demo_axum_ok] demo_service_env_def Let_def)
qed

lemma demo_accepted: "accepted demo_zona demo_teach = [(demo_moment, demo_payload)]"
  by (simp add: demo_zona_request_def)

lemma demo_sample_of: "sample_of demo_zona demo_payload = demo_sample 5"
  by (simp add: sample_of_def demo_payload_def demo_sample_def canonical_query_def)

lemma demo_key_of: "route_key (tp_method demo_payload) (tp_path demo_payload) = ''GET|/''"
proof -
  have "trim ''GET'' = ''GET''" "trim ''/'' = ''/''" using trim_printable [of "''GET''"] trim_printable [of "''/''"] by simp_all
  then show ?thesis
    by (simp add: route_key_def normalize_route_path_def path_without_query_fragment_def before_char_def demo_payload_def Let_def)
      code_simp
qed

lemma demo_zona_taught:
  "\<exists>ts disk. serve_requests demo_zona demo_axum zona_routes (\<lambda>_. 1) demo_thread_rng demo_teach (demo_store, []) =
     ([Some (204, NoBody)], ts, disk) \<and> ts_inner ts = demo_persisted \<and> ts_min_samples ts = 1"
proof -
  obtain ts disk where s: "run_store demo_zona (demo_store, []) (map (recorded demo_zona) (accepted demo_zona demo_teach)) = (ts, disk)"
    by fastforce
  have served: "fst (serve_requests demo_zona demo_axum zona_routes (\<lambda>_. 1) demo_thread_rng demo_teach (demo_store, [])) =
      [Some (204, NoBody)]"
    by (simp add: serve_request_def dispatch_routes [OF demo_axum_ok] zona_dispatch_def demo_zona_request_def handle_request_def
        teach_def case_prod_beta' Let_def)
  have push: "push_route ''GET|/'' x [] = [(''GET|/'', [x])]" for x
    by (simp add: push_route_def hm_or_insert_def hm_insert_def)
  have "ts = record_sample demo_store 2 ''GET|/'' (demo_sample 5)"
    using run_store_fst [of demo_zona "(demo_store, [])" "map (recorded demo_zona) (accepted demo_zona demo_teach)"]
    unfolding s fst_conv unfolding demo_accepted
    by (simp add: run_records_def recorded_def demo_sample_of demo_key_of demo_moment_def)
  then have "ts_inner ts = demo_persisted \<and> ts_min_samples ts = 1"
    by (simp add: record_sample_def env_store_def with_options_def demo_env_settings check_training_done_def route_lengths_def
        PersistedTrainStore_default_def push demo_persisted_def count_if_def Let_def)
  then show ?thesis
    using served s serve_requests_state [OF demo_axum_ok, of demo_zona "\<lambda>_. 1" demo_thread_rng demo_teach "(demo_store, [])"]
    by (intro exI [of _ ts] exI [of _ disk]) (simp add: prod_eq_iff)
qed

theorem service_log_witness:
  "\<exists>replies ts disk. serve_requests demo_zona demo_axum zona_routes (\<lambda>_. 1) demo_thread_rng demo_teach (demo_store, []) =
     (replies, ts, disk) \<and> samples_at (ps_routes (ts_inner ts)) ''GET|/'' = [demo_sample 5] \<and> replies ! 0 = Some (204, NoBody)"
proof -
  obtain replies ts disk where run: "serve_requests demo_zona demo_axum zona_routes (\<lambda>_. 1) demo_thread_rng demo_teach
      (demo_store, []) = (replies, ts, disk)" by (metis prod_cases3)
  have new: "samples_at (ps_routes (ts_inner demo_store)) k = []" for k
    by (simp add: samples_at_def PersistedTrainStore_default_def hm_get_def)
  have "zona_dispatch ''POST'' TEACH_PATH = Ok Teach" by (simp add: zona_dispatch_def)
  then have "replies ! 0 = Some (204, NoBody)"
    using service_log [OF demo_axum_ok demo_zona_maps demo_zona_start run]
    by (auto simp: demo_zona_request_def prescribed_def)
  moreover have "samples_at (ps_routes (ts_inner ts)) ''GET|/'' = [demo_sample 5]"
    using service_log [OF demo_axum_ok demo_zona_maps demo_zona_start run, THEN conjunct1]
    unfolding is_log_def logged_samples_def demo_accepted new by (simp add: demo_key_of demo_sample_of)
  ultimately show ?thesis using run by blast
qed

theorem service_answers_witness:
  "\<exists>replies ts disk resp. serve_requests demo_zona demo_axum zona_routes (\<lambda>_. 1) demo_thread_rng demo_teach (demo_store, []) =
       (replies, ts, disk) \<and>
     serve_request demo_zona demo_axum zona_routes (\<lambda>_. 1) demo_thread_rng demo_moment
       (demo_zona_request ''GET'' MASK_PROFILES_PATH) (ts, disk) = (Some (200, ProfilesBody resp), ts, disk) \<and>
     map me_route_key (mr_routes resp) = [''GET|/'']"
proof -
  obtain ts disk where run: "serve_requests demo_zona demo_axum zona_routes (\<lambda>_. 1) demo_thread_rng demo_teach
      (demo_store, []) = ([Some (204, NoBody)], ts, disk)" and taught: "ts_inner ts = demo_persisted"
    using demo_zona_taught by blast
  have exp: "exp_ok (\<lambda>_. 1)" by (simp add: exp_ok_def)
  have order: "is_order (mo_order demo_moment)" using is_order_id(1) by (simp add: demo_moment_def)
  have small: "store_small demo_store" by (simp add: store_small_def store_sized_def PersistedTrainStore_default_def)
  have bodies: "\<forall>(_, body) \<in> set (accepted demo_zona demo_teach). sample_small (sample_of demo_zona body)"
    unfolding demo_accepted by (simp add: demo_sample_of sample_small_def demo_sample_def)
  have count: "total_sample_count demo_store + length (accepted demo_zona demo_teach) \<le> 2 ^ 40"
    unfolding demo_accepted by (simp add: total_sample_count_def route_lengths_def PersistedTrainStore_default_def)
  have ask: "wq_method (demo_zona_request ''GET'' MASK_PROFILES_PATH) = ''GET''"
    "query_params demo_zona (wq_query (demo_zona_request ''GET'' MASK_PROFILES_PATH)) = Ok demo_question"
    "wq_path (demo_zona_request ''GET'' MASK_PROFILES_PATH) = MASK_PROFILES_PATH"
    by (simp_all add: demo_zona_request_def)
  have "\<not> is_specific_route_key demo_question"
    by (simp add: is_specific_route_key_def trimmed_nonempty_def demo_question_def)
  moreover have "taught_count demo_zona demo_store demo_teach ''GET|/'' = 1"
    unfolding taught_count_def demo_accepted
    by (simp add: counts_for_def PersistedTrainStore_default_def hm_get_def demo_key_of)
  moreover have "ts_min_samples demo_store = 1" by (simp add: env_store_def with_options_def demo_env_settings Let_def)
  moreover have "sort (map fst (ps_routes (ts_inner ts))) = [''GET|/'']" by (simp add: taught demo_persisted_def)
  ultimately show ?thesis
    using service_answers [OF demo_axum_ok demo_zona_maps exp order demo_zona_start run small bodies count ask(1,2) refl refl] run ask(3)
    by fastforce
qed

theorem training_stops_witness:
  "\<exists>replies ts disk st. serve_requests demo_zona demo_axum zona_routes (\<lambda>_. 1) demo_thread_rng demo_teach (demo_store, []) =
       (replies, ts, disk) \<and>
     serve_request demo_zona demo_axum zona_routes (\<lambda>_. 1) demo_thread_rng demo_moment
       (demo_zona_request ''GET'' TRAINING_STATUS_PATH) (ts, disk) = (Some (200, StatusBody st), ts, disk) \<and>
     tr_total_samples st = 1"
proof -
  obtain replies ts disk where run: "serve_requests demo_zona demo_axum zona_routes (\<lambda>_. 1) demo_thread_rng demo_teach
      (demo_store, []) = (replies, ts, disk)" by (metis prod_cases3)
  have none: "serve_requests demo_zona demo_axum zona_routes (\<lambda>_. 1) demo_thread_rng [] (ts, disk) = ([], ts, disk)" by simp
  have ask: "wq_method (demo_zona_request ''GET'' TRAINING_STATUS_PATH) = ''GET''"
    "wq_path (demo_zona_request ''GET'' TRAINING_STATUS_PATH) = TRAINING_STATUS_PATH" by (simp_all add: demo_zona_request_def)
  have "total_sample_count demo_store + length (accepted demo_zona demo_teach) = 1"
    unfolding demo_accepted by (simp add: total_sample_count_def route_lengths_def PersistedTrainStore_default_def)
  then show ?thesis
    using training_stops [OF demo_axum_ok demo_zona_maps demo_zona_start run none ask, of demo_moment] run by fastforce
qed

theorem service_restart_witness:
  "\<exists>ts disk. zona_main demo_zona demo_axum Some (\<lambda>_. Ok ()) demo_service_env 9 no_faults no_faults no_faults disk =
     (Ok (zona_routes, DEFAULT_LISTEN, ts), disk) \<and> ts_inner ts = demo_persisted"
proof -
  obtain ts disk where run: "serve_requests demo_zona demo_axum zona_routes (\<lambda>_. 1) demo_thread_rng ([] @ demo_teach)
      (demo_store, []) = ([Some (204, NoBody)], ts, disk)" and taught: "ts_inner ts = demo_persisted"
    using demo_zona_taught unfolding append_Nil by blast
  have req: "wq_method (demo_zona_request ''POST'' TEACH_PATH) = ''POST''" "wq_path (demo_zona_request ''POST'' TEACH_PATH) = TEACH_PATH"
    "json_body demo_zona (demo_zona_request ''POST'' TEACH_PATH) = Ok demo_payload" "mo_faults demo_moment = no_faults"
    "json_encode demo_zona (ts_inner ts) = Ok ''{}''" "json_decode demo_zona ''{}'' = Ok (ts_inner ts)"
    "read_back_as (ts_inner ts) (ts_inner ts)" "df_read no_faults = None"
    by (simp_all add: demo_zona_request_def demo_moment_def taught no_faults_def read_back_as_refl)
  from service_restart [OF demo_axum_ok demo_zona_maps demo_dir demo_zona_start run req, where now' = 9 and f2' = no_faults and f3' = no_faults]
  have "zona_main demo_zona demo_axum Some (\<lambda>_. Ok ()) demo_service_env 9 no_faults no_faults no_faults disk =
      (Ok (zona_routes, DEFAULT_LISTEN, ts), disk)" by simp
  with taught show ?thesis by blast
qed

end
