(* ===== verification/Web_Api.thy ===== *)
theory Web_Api
  imports App_Server Startup Axum_Router
begin

section \<open>The web interface of nodes and servers\<close>

text \<open>
  The routers of \<^verbatim>\<open>zona-p2p-node/src/admin.rs\<close>, \<^verbatim>\<open>zona-p2p-server/src/server.rs\<close> and \<^verbatim>\<open>http_api.rs\<close>, and a
  network of nodes and servers under any HTTP requests: \<open>web_request_at\<close> takes one request through the router and the
  handler, \<open>web_run\<close> any sequence of them.  The dispatch and the extractors of \<^verbatim>\<open>axum\<close> are parameters.
  A network maps the relay endpoint of each participant to its state, as in the other theories.
\<close>

subsection \<open>Routers\<close>

datatype node_handler = HandleRelay | HandleIntroduce | HandleInfo | HandlePeers | HandleInbox | HandleSend

text \<open>The administration endpoints are compiled in with the feature \<^verbatim>\<open>admin\<close> only.\<close>

definition node_router :: "bool \<Rightarrow> node_handler router" where
  "node_router feature_admin =
     [((''/api/relay'', ''POST''), HandleRelay), ((''/api/introduce'', ''POST''), HandleIntroduce)] @
     (if feature_admin then
        [((''/api/info'', ''GET''), HandleInfo), ((''/api/peers'', ''GET''), HandlePeers),
         ((''/api/inbox'', ''GET''), HandleInbox), ((''/api/send'', ''POST''), HandleSend)]
      else [])"

datatype server_handler = HttpRelay | HttpIntroduce | HandlePacket

definition server_router :: "server_handler router" where
  "server_router =
     [((''/api/relay'', ''POST''), HttpRelay), ((''/api/introduce'', ''POST''), HttpIntroduce),
      ((''/api/packet'', ''POST''), HandlePacket)]"

text \<open>The client interface alone, for a second socket.\<close>

definition packet_router :: "server_handler router" where
  "packet_router = [((''/api/packet'', ''POST''), HandlePacket)]"

subsection \<open>One request\<close>

text \<open>The JSON extractors: the value of a body, or the status of the rejection.\<close>

record json_bodies =
  jb_relay :: "web_request \<Rightarrow> (relay_request, nat) result"
  jb_introduce :: "web_request \<Rightarrow> (introduce_request, nat) result"
  jb_send :: "web_request \<Rightarrow> (send_request, nat) result"
  jb_packet :: "web_request \<Rightarrow> (packet_req, nat) result"

datatype api_body =
  EmptyBody
| RelayBody relay_response
| IntroduceBody introduce_response
| InfoBody api_info
| PeersBody "api_peer_slot list"
| InboxBody "inbox_entry list"
| SendBody send_response
| PacketBody packet_reply

type_synonym api_reply = "nat \<times> api_body"

text \<open>A handler with its body, or the rejection, which leaves the network as it is.\<close>

definition with_body :: "('b, nat) result \<Rightarrow> ('b \<Rightarrow> (api_reply \<times> mixed) option) \<Rightarrow> mixed \<Rightarrow> (api_reply \<times> mixed) option" where
  "with_body body handler net =
     (case body of Inl status \<Rightarrow> Some ((status, EmptyBody), net) | Inr b \<Rightarrow> handler b)"

definition do_relay :: "'a hex_libs_scheme \<Rightarrow> url_order \<Rightarrow> mixed \<Rightarrow> string \<Rightarrow> relay_request \<Rightarrow> (relay_response \<times> mixed) option" where
  "do_relay L order net ep req =
     (case mixed_at L order (mixed_fuel L net) net ep req of
        Some (Inr resp, net) \<Rightarrow> Some (resp, net)
      | _ \<Rightarrow> None)"

definition node_request ::
  "'a app_libs_scheme \<Rightarrow> json_bodies \<Rightarrow> url_order \<Rightarrow> node_handler \<Rightarrow> web_request \<Rightarrow> mixed \<Rightarrow> string \<Rightarrow> admin_state \<Rightarrow>
   (api_reply \<times> mixed) option" where
  "node_request L J order h req net ep g =
     (case h of
        HandleRelay \<Rightarrow>
          with_body (jb_relay J req)
            (\<lambda>b. map_option (map_prod (\<lambda>resp. (200, RelayBody resp)) (\<lambda>net. net)) (do_relay L order net ep b)) net
      | HandleIntroduce \<Rightarrow>
          with_body (jb_introduce J req)
            (\<lambda>b. let (resp, g) = handle_introduce L g b in Some ((200, IntroduceBody resp), hm_insert ep (PlainNode g) net)) net
      | HandleInfo \<Rightarrow> Some ((200, InfoBody (handle_info L g)), net)
      | HandlePeers \<Rightarrow> Some ((200, PeersBody (handle_peers L order g)), net)
      | HandleInbox \<Rightarrow> Some ((200, InboxBody (handle_inbox g)), net)
      | HandleSend \<Rightarrow>
          with_body (jb_send J req)
            (\<lambda>b. map_option (map_prod (\<lambda>resp. (200, SendBody resp)) (\<lambda>net. net))
               (handle_send L (do_relay L order net ep) g b)) net)"

definition server_request ::
  "'a app_libs_scheme \<Rightarrow> json_bodies \<Rightarrow> url_order \<Rightarrow> server_handler \<Rightarrow> web_request \<Rightarrow> mixed \<Rightarrow> string \<Rightarrow> server_state \<Rightarrow>
   (api_reply \<times> mixed) option" where
  "server_request L J order h req net ep g =
     (case h of
        HttpRelay \<Rightarrow>
          with_body (jb_relay J req)
            (\<lambda>b. map_option (map_prod (\<lambda>resp. (200, RelayBody resp)) (\<lambda>net. net)) (do_relay L order net ep b)) net
      | HttpIntroduce \<Rightarrow>
          with_body (jb_introduce J req)
            (\<lambda>b. let (resp, g) = http_introduce L g b in Some ((200, IntroduceBody resp), hm_insert ep (AppServer g) net)) net
      | HandlePacket \<Rightarrow>
          with_body (jb_packet J req)
            (\<lambda>b. map_option (\<lambda>(status, reply, net). ((status, PacketBody reply), net)) (handle_packet L order net ep g b)) net)"

text \<open>A request to a participant; \<open>None\<close> if nobody listens there, or if a handler did not return.\<close>

record dispatchers =
  di_node :: "node_handler axum"
  di_server :: "server_handler axum"

definition web_request_at ::
  "'a app_libs_scheme \<Rightarrow> json_bodies \<Rightarrow> url_order \<Rightarrow> dispatchers \<Rightarrow> bool \<Rightarrow> mixed \<Rightarrow> string \<Rightarrow> web_request \<Rightarrow>
   (api_reply \<times> mixed) option" where
  "web_request_at L J order D feature_admin net ep req =
     (case hm_get net ep of
        None \<Rightarrow> None
      | Some (PlainNode g) \<Rightarrow>
          (case ax_dispatch (di_node D) (node_router feature_admin) (wq_method req) (wq_path req) of
             Inl status \<Rightarrow> Some ((status, EmptyBody), net)
           | Inr h \<Rightarrow> node_request L J order h req net ep g)
      | Some (AppServer g) \<Rightarrow>
          (case ax_dispatch (di_server D) server_router (wq_method req) (wq_path req) of
             Inl status \<Rightarrow> Some ((status, EmptyBody), net)
           | Inr h \<Rightarrow> server_request L J order h req net ep g))"

text \<open>Any requests, each to some address.\<close>

fun web_run ::
  "'a app_libs_scheme \<Rightarrow> json_bodies \<Rightarrow> url_order \<Rightarrow> dispatchers \<Rightarrow> bool \<Rightarrow> (string \<times> web_request) list \<Rightarrow> mixed \<Rightarrow>
   api_reply option list \<times> mixed" where
  "web_run L J order D feature_admin [] net = ([], net)"
| "web_run L J order D feature_admin ((ep, req) # reqs) net =
     (case web_request_at L J order D feature_admin net ep req of
        None \<Rightarrow> (let (replies, net) = web_run L J order D feature_admin reqs net in (None # replies, net))
      | Some (reply, net) \<Rightarrow>
          (let (replies, net) = web_run L J order D feature_admin reqs net in (Some reply # replies, net)))"

subsection \<open>What requests keep\<close>

text \<open>
  A participant and what it has become: its node has the same identity and is reached by insertions into the
  table, no URL is forgotten, a node's inbox has only grown, and a server has the same handlers, keeps its
  discipline of pending calls and waits for no new one.
\<close>

fun part_keeps :: "participant \<Rightarrow> participant \<Rightarrow> bool" where
  "part_keeps (PlainNode g) (PlainNode g') \<longleftrightarrow>
     only_registers (relay_node.truncate g) (relay_node.truncate g') \<and> prefix (as_inbox g) (as_inbox g')"
| "part_keeps (AppServer g) (AppServer g') \<longleftrightarrow>
     only_registers (relay_node.truncate g) (relay_node.truncate g') \<and> ss_handlers g' = ss_handlers g \<and>
     (server_ok g \<longrightarrow> server_ok g') \<and> (\<forall>c t. hm_get (ss_pending g') c = Some t \<longrightarrow> hm_get (ss_pending g) c = Some t)"
| "part_keeps _ _ \<longleftrightarrow> False"

definition net_keeps :: "mixed \<Rightarrow> mixed \<Rightarrow> bool" where
  "net_keeps net net' \<longleftrightarrow>
     (\<forall>ep. case hm_get net ep of
        None \<Rightarrow> hm_get net' ep = None
      | Some p \<Rightarrow> \<exists>p'. hm_get net' ep = Some p' \<and> part_keeps p p')"

lemma part_keeps_refl [simp]: "part_keeps p p"
  by (cases p) simp_all

lemma part_keeps_trans:
  assumes "part_keeps p q" "part_keeps q r" shows "part_keeps p r"
  using assms by (cases p; cases q; cases r) (auto intro: only_registers_trans prefix_order.trans)

lemma net_keeps_refl [simp]: "net_keeps net net"
  by (simp add: net_keeps_def split: option.split)

lemma net_keeps_trans:
  assumes "net_keeps a b" "net_keeps b c" shows "net_keeps a c"
  unfolding net_keeps_def
proof
  fix ep
  show "case hm_get a ep of None \<Rightarrow> hm_get c ep = None | Some p \<Rightarrow> \<exists>p'. hm_get c ep = Some p' \<and> part_keeps p p'"
    using spec [OF assms(1) [unfolded net_keeps_def], of ep] spec [OF assms(2) [unfolded net_keeps_def], of ep]
    by (auto split: option.splits intro: part_keeps_trans)
qed

lemma net_keeps_insert:
  assumes "hm_get net ep = Some p" "part_keeps p p'" shows "net_keeps net (hm_insert ep p' net)"
  using assms by (simp add: net_keeps_def split: option.split)

lemma mixed_step_keeps: "mixed_step net net' \<Longrightarrow> net_keeps net net'"
proof (induction rule: mixed_step.induct)
  case (step_inbox net ep g entry)
  show ?case by (rule net_keeps_insert [OF step_inbox(1)]) (simp add: relay_node.truncate_def)
next
  case (step_resolve net ep g cid tx t)
  have "only_resolves g (resolve_pending cid tx t g)" by (rule only_resolves_resolve [OF step_resolve.hyps(2)])
  then show ?case
    by (intro net_keeps_insert [OF step_resolve(1)]) (auto simp: only_resolves_def resolve_pending_def relay_node.truncate_def)
qed

lemma mixed_steps_keep: "mixed_step\<^sup>*\<^sup>* net net' \<Longrightarrow> net_keeps net net'"
  by (induction rule: rtranclp_induct) (auto intro: net_keeps_trans mixed_step_keeps)

lemma do_relay_keeps:
  assumes "is_order order" "hm_get net ep = Some p"
  shows "\<exists>resp net'. do_relay L order net ep req = Some (resp, net') \<and> net_keeps net net' \<and>
    path_extends (rr_path req) (mixed_ids L net) (rs_path resp)"
proof -
  have "answers (mixed_outcome L req net) net (mixed_at L order (mixed_fuel L net) net ep req)"
    by (rule mixed_answers [OF assms(1)])
  then show ?thesis
  proof (cases rule: answers_cases)
    case (1 e)
    then show ?thesis using assms(2)
      by (auto simp: mixed_fuel_def split: participant.splits sum.splits option.splits)
  next
    case (2 resp net')
    then show ?thesis by (auto simp: do_relay_def mixed_outcome_def intro: mixed_steps_keep)
  qed
qed

text \<open>A call: nobody but the caller and those on the way has changed, and the caller's own call is closed.\<close>

lemma update_server_other: "ep' \<noteq> ep \<Longrightarrow> hm_get (update_server ep f net) ep' = hm_get net ep'"
  by (simp add: update_server_def split: option.split participant.split)

lemma await_response_other: "ep' \<noteq> ep \<Longrightarrow> hm_get (snd (await_response ep cid tx net)) ep' = hm_get net ep'"
  by (simp add: await_response_def update_server_other split: option.split participant.split)

lemma send_and_wait_others:
  assumes "is_order order" "open_call g = (cid, tx, g1)" "send_and_wait L order net ep g to_id payload = Some (r, net')"
  shows "\<exists>net2. mixed_step\<^sup>*\<^sup>* (hm_insert ep (AppServer g1) net) net2 \<and> (\<forall>ep'. ep' \<noteq> ep \<longrightarrow> hm_get net' ep' = hm_get net2 ep')"
proof (cases "n_id (rn_node g1) = to_id \<or> first_hop_url order g1 to_id = None")
  case True
  then have "net' = update_server ep (remove_pending cid) (hm_insert ep (AppServer g1) net)"
    using assms(3) by (auto simp: send_and_wait_def assms(2) Let_def split: if_splits)
  then show ?thesis by (auto simp: update_server_other)
next
  case False
  let ?net = "hm_insert ep (AppServer g1) net" and ?req = "call_relay L g1 to_id payload cid"
  obtain url where url: "first_hop_url order g1 to_id = Some url" using False by auto
  have "answers (mixed_outcome L ?req ?net) ?net (mixed_at L order (mixed_fuel L ?net) ?net (relay_endpoint url) ?req)"
    by (rule mixed_answers [OF assms(1)])
  then show ?thesis
  proof (cases rule: answers_cases)
    case (1 e)
    then have "net' = update_server ep (remove_pending cid) ?net"
      using assms(3) False url by (simp add: send_and_wait_def assms(2))
    then show ?thesis by (auto simp: update_server_other)
  next
    case (2 resp net2)
    then have "net' = snd (await_response ep cid tx net2)"
      using assms(3) False url by (simp add: send_and_wait_def assms(2))
    then show ?thesis using 2 by (auto simp: await_response_other mixed_outcome_def)
  qed
qed

lemma send_and_wait_keeps:
  assumes "is_order order" "hm_get net ep = Some (AppServer g)" "server_ok g"
    "send_and_wait L order net ep g to_id payload = Some (r, net')"
  shows "net_keeps net net'"
proof -
  obtain cid tx g1 where call: "open_call g = (cid, tx, g1)" by (cases "open_call g") auto
  from send_and_wait_closed [OF assms(1-3) call assms(4)] obtain g' where
    g': "hm_get net' ep = Some (AppServer g')" "only_resolves g1 g'" "hm_get (ss_pending g') cid = None"
    unfolding call_closed_def by blast
  have "g' = g1\<lparr>ss_pending := ss_pending g', ss_sent := ss_sent g'\<rparr>" using g'(2) by (simp add: only_resolves_def)
  then obtain ps sent where "g' = g1\<lparr>ss_pending := ps, ss_sent := sent\<rparr>" by blast
  then have "relay_node.truncate g' = relay_node.truncate g1 \<and> ss_handlers g' = ss_handlers g1"
    by (simp add: relay_node.truncate_def)
  moreover have "hm_get (ss_pending g) c = Some t" if "hm_get (ss_pending g') c = Some t" for c t
  proof -
    have "c \<noteq> cid" using that g'(3) by auto
    moreover have "hm_get (ss_pending g1) c = Some t" using that g'(2) by (simp add: only_resolves_def)
    ultimately show ?thesis using open_call_simps(3) [OF call] by simp
  qed
  moreover have "server_ok g'" using g'(2) server_ok_open [OF call assms(3)] by (simp add: only_resolves_def)
  moreover have "relay_node.truncate g1 = relay_node.truncate g" "ss_handlers g1 = ss_handlers g"
    using open_call_simps(3) [OF call] by (simp_all add: relay_node.truncate_def)
  ultimately have keeps: "part_keeps (AppServer g) (AppServer g')" by simp
  obtain net2 where net2: "net_keeps (hm_insert ep (AppServer g1) net) net2"
    "\<forall>ep'. ep' \<noteq> ep \<longrightarrow> hm_get net' ep' = hm_get net2 ep'"
    using send_and_wait_others [OF assms(1) call assms(4)] mixed_steps_keep by blast
  have "case hm_get net ep' of
        None \<Rightarrow> hm_get net' ep' = None
      | Some p \<Rightarrow> \<exists>p'. hm_get net' ep' = Some p' \<and> part_keeps p p'" for ep'
  proof (cases "ep' = ep")
    case True
    then show ?thesis using assms(2) g'(1) keeps by (simp del: part_keeps.simps)
  next
    case False
    then show ?thesis using spec [OF net2(1) [unfolded net_keeps_def], of ep'] net2(2) by (auto split: option.splits)
  qed
  then show ?thesis by (simp add: net_keeps_def)
qed

lemma only_registers_truncate: "only_registers g g' \<Longrightarrow> only_registers (relay_node.truncate g) (relay_node.truncate g')"
  by (simp add: only_registers_def relay_node.truncate_def)

lemma http_introduce_registers: "http_introduce L g req = (resp, g') \<Longrightarrow> only_registers g g'"
  by (auto simp: http_introduce_def Let_def only_registers_hex)

lemma introduce_part_keeps:
  "handle_introduce L g req = (resp, g') \<Longrightarrow> part_keeps (PlainNode g) (PlainNode g')"
  "http_introduce L s req = (resp, s') \<Longrightarrow> part_keeps (AppServer s) (AppServer s')"
proof -
  assume "handle_introduce L g req = (resp, g')"
  then have reg: "only_registers g g'" using http_introduce_registers introduce_implementations_agree by metis
  then have "as_inbox g' = as_inbox g" by (cases g; cases g') (simp add: only_registers_def)
  then show "part_keeps (PlainNode g) (PlainNode g')" using only_registers_truncate [OF reg] by simp
next
  assume "http_introduce L s req = (resp, s')"
  note reg = http_introduce_registers [OF this]
  then have "ss_handlers s' = ss_handlers s" "ss_pending s' = ss_pending s" "server_ok s' = server_ok s"
    by (cases s; cases s'; simp add: only_registers_def server_ok_def)+
  then show "part_keeps (AppServer s) (AppServer s')" using only_registers_truncate [OF reg] by simp
qed

subsection \<open>Every request is answered\<close>

definition net_ok :: "'a libs_scheme \<Rightarrow> (string \<Rightarrow> node_keypair) \<Rightarrow> (string \<Rightarrow> node_config) \<Rightarrow> mixed \<Rightarrow> bool" where
  "net_ok L kp cfg net \<longleftrightarrow>
     (\<forall>ep p. hm_get net ep = Some p \<longrightarrow>
        node_reachable L (kp ep) (cfg ep) (rn_node (base_of p)) \<and>
        (case p of PlainNode _ \<Rightarrow> True | AppServer g \<Rightarrow> server_ok g))"

lemma net_ok_keeps:
  assumes "net_ok L kp cfg net" "net_keeps net net'" shows "net_ok L kp cfg net'"
  unfolding net_ok_def
proof (intro allI impI)
  fix ep p' assume p': "hm_get net' ep = Some p'"
  then obtain p where p: "hm_get net ep = Some p" "part_keeps p p'"
    using spec [OF assms(2) [unfolded net_keeps_def], of ep] by (auto split: option.splits)
  have "only_registers (base_of p) (base_of p')" using p(2) by (cases p; cases p') simp_all
  then show "node_reachable L (kp ep) (cfg ep) (rn_node (base_of p')) \<and>
      (case p' of PlainNode _ \<Rightarrow> True | AppServer g \<Rightarrow> server_ok g)"
    using assms(1) p only_registers_reachable unfolding net_ok_def by (cases p; cases p') fastforce+
qed

definition settles :: "mixed \<Rightarrow> (api_reply \<times> mixed) option \<Rightarrow> bool" where
  "settles net r \<longleftrightarrow> (\<exists>reply net'. r = Some (reply, net') \<and> net_keeps net net')"

lemma settlesI [intro]: "net_keeps net net' \<Longrightarrow> settles net (Some (reply, net'))"
  by (simp add: settles_def)

lemma with_body_settles: "(\<And>b. settles net (handler b)) \<Longrightarrow> settles net (with_body body handler net)"
  by (auto simp: with_body_def split: sum.split)

lemma relay_settles:
  assumes "is_order order" "hm_get net ep = Some p"
  shows "settles net (map_option (map_prod (\<lambda>resp. (200, RelayBody resp)) (\<lambda>net. net)) (do_relay L order net ep req))"
  using do_relay_keeps [OF assms, of L req] by (auto simp: settles_def)

lemma send_settles:
  assumes "is_order order" "hm_get net ep = Some p"
  shows "settles net (map_option (map_prod (\<lambda>resp. (200, SendBody resp)) (\<lambda>net. net)) (handle_send L (do_relay L order net ep) g req))"
proof -
  have "\<exists>q h. handle_send L f g req = map_option (\<lambda>(resp, net). (h resp, net)) (f q)"
    for f :: "relay_request \<Rightarrow> (relay_response \<times> mixed) option"
    unfolding handle_send_def Let_def by (rule exI)+ (rule refl)
  then obtain q h where "handle_send L (do_relay L order net ep) g req =
      map_option (\<lambda>(resp, net). (h resp, net)) (do_relay L order net ep q)" by blast
  then show ?thesis using do_relay_keeps [OF assms, of L q] by (auto simp: settles_def)
qed

lemma introduce_settles:
  "hm_get net ep = Some (PlainNode g) \<Longrightarrow>
   settles net (case handle_introduce L g b of (resp, g) \<Rightarrow> Some ((200, IntroduceBody resp), hm_insert ep (PlainNode g) net))"
  "hm_get net ep = Some (AppServer s) \<Longrightarrow>
   settles net (case http_introduce L s b of (resp, s) \<Rightarrow> Some ((200, IntroduceBody resp), hm_insert ep (AppServer s) net))"
  unfolding case_prod_beta'
  by (rule settlesI, rule net_keeps_insert, assumption, rule introduce_part_keeps, rule prod.collapse [symmetric])+

lemma packet_settles:
  assumes "is_order order" "hm_get net ep = Some (AppServer g)" "server_ok g"
  shows "settles net (map_option (\<lambda>(status, reply, net). ((status, PacketBody reply), net)) (handle_packet L order net ep g req))"
proof -
  have "\<exists>status reply net'. handle_packet L order net ep g req = Some (status, reply, net') \<and> net_keeps net net'"
  proof (cases "hex_decode L (pq_to_id req)")
    case hex: (Inr bytes)
    show ?thesis
    proof (cases "array32 bytes")
      case arr: (Some a)
      show ?thesis
      proof (cases "b64_decode L (pq_payload req)")
        case (Inr payload)
        obtain r net' where "send_and_wait L order net ep g (from_bytes a) payload = Some (r, net')"
          using send_and_wait_total [OF assms(1)] by fastforce
        then show ?thesis using hex arr Inr send_and_wait_keeps [OF assms] by (cases r) (auto simp: handle_packet_def)
      qed (simp add: handle_packet_def hex arr)
    qed (simp add: handle_packet_def hex)
  qed (simp add: handle_packet_def)
  then show ?thesis by (auto simp: settles_def)
qed

lemma web_request_settles:
  assumes "is_order order" "net_ok L kp cfg net" "hm_get net ep = Some p"
  shows "settles net (web_request_at L J order D feature_admin net ep req)"
proof (cases p)
  case (PlainNode g)
  have "settles net (node_request L J order h req net ep g)" for h
    using assms(1,3) PlainNode
    by (cases h) (auto simp: node_request_def intro!: with_body_settles relay_settles send_settles introduce_settles)
  then show ?thesis using PlainNode assms(3) by (auto simp: web_request_at_def split: sum.split)
next
  case (AppServer g)
  have "server_ok g" using assms(2,3) AppServer unfolding net_ok_def by fastforce
  then have "settles net (server_request L J order h req net ep g)" for h
    using assms(1,3) AppServer
    by (cases h) (auto simp: server_request_def intro!: with_body_settles relay_settles packet_settles introduce_settles)
  then show ?thesis using AppServer assms(3) by (auto simp: web_request_at_def split: sum.split)
qed


text \<open>
  C17: The surface.  A node that was built without the feature \<^verbatim>\<open>admin\<close> answers 404 on every path but those of
  relays and introductions, with it on six paths, and a server on three; a known path with a wrong method is
  answered 405; such a request changes nothing, and neither does a \<^verbatim>\<open>GET\<close> of anything.
\<close>
theorem web_surface:
  assumes "axum_ok (di_node D)" "axum_ok (di_server D)" "hm_get net ep = Some p"
    and "paths = (case p of
        PlainNode _ \<Rightarrow> {''/api/relay'', ''/api/introduce''} \<union>
          (if feature_admin then {''/api/info'', ''/api/peers'', ''/api/inbox'', ''/api/send''} else {})
      | AppServer _ \<Rightarrow> {''/api/relay'', ''/api/introduce'', ''/api/packet''})"
    and "post = (case p of
        PlainNode _ \<Rightarrow> {''/api/relay'', ''/api/introduce'', ''/api/send''} | AppServer _ \<Rightarrow> paths)"
  shows "(wq_path req \<notin> paths \<longrightarrow> web_request_at L J order D feature_admin net ep req = Some ((404, EmptyBody), net)) \<and>
    (wq_path req \<in> paths \<and> wq_method req \<notin> (if wq_path req \<in> post then {''POST''} else {''GET'', ''HEAD''}) \<longrightarrow>
       web_request_at L J order D feature_admin net ep req = Some ((405, EmptyBody), net)) \<and>
    (wq_method req = ''GET'' \<longrightarrow> (\<exists>reply. web_request_at L J order D feature_admin net ep req = Some (reply, net)))"
proof (cases p)
  case (PlainNode g)
  have "distinct (map fst (node_router feature_admin))" by (cases feature_admin) (simp_all add: node_router_def)
  note dispatch = axum_dispatch [OF assms(1) this]
  show ?thesis
    unfolding assms(4,5) web_request_at_def assms(3) PlainNode option.case participant.case dispatch
    by (cases feature_admin; simp add: route_dispatch_def node_router_def) (auto simp: node_request_def)
next
  case (AppServer g)
  have "distinct (map fst server_router)" by (simp add: server_router_def)
  note dispatch = axum_dispatch [OF assms(2) this]
  show ?thesis
    unfolding assms(4,5) web_request_at_def assms(3) AppServer option.case participant.case dispatch
    by (simp add: route_dispatch_def server_router_def)
qed

subsection \<open>An instance\<close>

text \<open>A node and a server as they are created, and bodies that are always readable.\<close>

definition demo_config :: node_config where
  "demo_config = (NodeConfig_new (SocketAddrV4 0 0))\<lparr>nc_max_greedy := 5\<rparr>"

definition demo_pair :: "string \<Rightarrow> node_keypair" where
  "demo_pair ep = keypair_from_seed demo_libs (fill32 (if ep = ''http://a/api/relay'' then 8 else 4))"

definition demo_web :: mixed where
  "demo_web =
     [(''http://a/api/relay'', PlainNode (node_main_state (demo_pair ''http://a/api/relay'') ''http://a'')),
      (''http://b/api/relay'', AppServer (NodeServer_new ''http://b'' (demo_pair ''http://b/api/relay'')))]"

definition demo_bodies :: json_bodies where
  "demo_bodies =
     \<lparr>jb_relay = (\<lambda>_. Err 400),
      jb_introduce = (\<lambda>_. Ok \<lparr>iq_node_id = id_hex demo_app (idn 4), iq_admin_url = ''http://b'', iq_register_peer = True\<rparr>),
      jb_send = (\<lambda>_. Err 400), jb_packet = (\<lambda>_. Err 422)\<rparr>"

definition demo_dispatchers :: dispatchers where
  "demo_dispatchers = \<lparr>di_node = demo_axum, di_server = demo_axum\<rparr>"

definition demo_web_request :: "string \<Rightarrow> string \<Rightarrow> web_request" where
  "demo_web_request meth path = \<lparr>wq_method = meth, wq_path = path, wq_query = None, wq_headers = [], wq_body = []\<rparr>"

lemma demo_web_ok: "net_ok demo_app demo_pair (\<lambda>_. demo_config) demo_web"
proof -
  have "node_reachable demo_app kp demo_config (rn_node (node_main_state kp url))"
    "node_reachable demo_app kp demo_config (rn_node (NodeServer_new url kp))" for kp url
    by (simp_all add: node_main_state_def NodeServer_new_def demo_config_def Let_def node_reach_new)
  then show ?thesis
    by (auto simp: net_ok_def demo_web_def hm_get_def server_ok_new split: if_splits)
qed


theorem web_surface_witness:
  "web_request_at demo_app demo_bodies rev demo_dispatchers False demo_web ''http://a/api/relay'' (demo_web_request ''GET'' ''/api/inbox'') =
     Some ((404, EmptyBody), demo_web)"
proof -
  obtain g where g: "hm_get demo_web ''http://a/api/relay'' = Some (PlainNode g)"
    by (simp add: demo_web_def hm_get_def)
  have "axum_ok (di_node demo_dispatchers)" "axum_ok (di_server demo_dispatchers)"
    by (simp_all add: demo_dispatchers_def demo_axum_ok)
  from web_surface [OF this g refl refl, where req = "demo_web_request ''GET'' ''/api/inbox''" and L = demo_app and
      J = demo_bodies and order = rev and feature_admin = False]
  show ?thesis by (simp add: demo_web_request_def)
qed

end
