(* ===== verification/Wire_Schema.thy ===== *)
theory Wire_Schema
  imports Zona_Prelude Complex_Main
begin

section \<open>The messages between the programs as JSON\<close>

text \<open>
  The programs do not share their message types: \<^verbatim>\<open>zona-p2p-node/src/admin.rs\<close>, \<^verbatim>\<open>zona-p2p-server/src/server.rs\<close>,
  \<^verbatim>\<open>zona-curl/src/p2p.rs\<close>, the two services and the console's \<^verbatim>\<open>backend_docker.rs\<close> each declare their own
  structs and derive \<^verbatim>\<open>Serialize\<close> or \<^verbatim>\<open>Deserialize\<close> for them.  The other theories have one record for the
  copies of a message; this theory has the declarations one by one, as schemas, and shows that what each
  program writes the programs it talks to can read.  The derived code is a parameter; \<open>serde_ok\<close> states
  what \<^verbatim>\<open>serde\<close>'s documentation says of it.
\<close>

subsection \<open>Schemas\<close>

text \<open>A type of the source; a field with its name, its type and whether it has a default when it is absent.\<close>

datatype json_type =
  TString | TBool | TUint nat | TFloat | TOption json_type | TVec json_type | TArray nat json_type
| TStruct "field_schema list"
and field_schema = Field (field_name: string) (field_type: json_type) (field_default: bool)

datatype json =
  JNull | JBool bool | JUint nat | JFloat rat | JString string | JArray "json list" | JObject "(string \<times> json) list"

text \<open>A field that must be present, and one with \<^verbatim>\<open>serde(default)\<close>.\<close>

abbreviation required :: "string \<Rightarrow> json_type \<Rightarrow> field_schema" where
  "required n t \<equiv> Field n t False"

abbreviation defaulted :: "string \<Rightarrow> json_type \<Rightarrow> field_schema" where
  "defaulted n t \<equiv> Field n t True"

subsection \<open>The declarations of the node\<close>

definition node_inbox_entry :: json_type where
  "node_inbox_entry = TStruct [required ''from'' TString, required ''text'' TString]"

definition node_api_info :: json_type where
  "node_api_info = TStruct [required ''node_id'' TString, required ''healthy'' TBool, required ''slots'' (TUint 64)]"

definition node_api_peer_slot :: json_type where
  "node_api_peer_slot =
     TStruct [required ''kind'' TString, required ''peer_id'' TString, required ''peer_idx'' TString,
       required ''loss'' TFloat, required ''referrer'' TString]"

definition node_introduce_request :: json_type where
  "node_introduce_request =
     TStruct [required ''node_id'' TString, required ''admin_url'' TString, defaulted ''register_peer'' TBool]"

definition node_neighbor_info :: json_type where
  "node_neighbor_info = TStruct [required ''node_id'' TString, required ''admin_url'' TString]"

definition node_introduce_response :: json_type where
  "node_introduce_response = TStruct [required ''node_id'' TString, required ''neighbors'' (TVec node_neighbor_info)]"

definition node_relay_request :: json_type where
  "node_relay_request =
     TStruct [required ''to_id'' TString, required ''text'' TString, required ''from_client'' TString,
       required ''path'' (TVec TString), required ''all_nodes'' (TVec TString),
       defaulted ''return_node_url'' (TOption TString), defaulted ''correlation_id'' (TOption (TUint 64))]"

definition node_relay_response :: json_type where
  "node_relay_response =
     TStruct [required ''delivered'' TBool, required ''path'' (TVec TString), required ''error'' (TOption TString),
       defaulted ''response'' (TOption TString)]"

subsection \<open>The declarations of the server\<close>

definition server_relay_request :: json_type where
  "server_relay_request =
     TStruct [required ''to_id'' TString, required ''text'' TString, required ''from_client'' TString,
       required ''path'' (TVec TString), defaulted ''all_nodes'' (TVec TString),
       defaulted ''return_node_url'' (TOption TString), defaulted ''correlation_id'' (TOption (TUint 64))]"

definition server_relay_response :: json_type where
  "server_relay_response =
     TStruct [required ''delivered'' TBool, required ''path'' (TVec TString), required ''error'' (TOption TString),
       defaulted ''response'' (TOption TString)]"

definition server_introduce_request :: json_type where
  "server_introduce_request =
     TStruct [required ''node_id'' TString, required ''admin_url'' TString, defaulted ''register_peer'' TBool]"

definition server_neighbor_info :: json_type where
  "server_neighbor_info = TStruct [required ''node_id'' TString, required ''admin_url'' TString]"

definition server_introduce_response :: json_type where
  "server_introduce_response = TStruct [required ''node_id'' TString, required ''neighbors'' (TVec server_neighbor_info)]"

subsection \<open>The declarations of the services and of zona-curl\<close>

definition dns_query_payload :: json_type where
  "dns_query_payload = TStruct [required ''domain'' TString]"

definition dns_answer_payload :: json_type where
  "dns_answer_payload = TStruct [required ''domain'' TString, required ''nodes'' (TVec TString)]"

definition proxy_request_payload :: json_type where
  "proxy_request_payload =
     TStruct [required ''method'' TString, required ''url'' TString, defaulted ''headers'' (TVec (TArray 2 TString)),
       required ''body'' (TOption TString)]"

definition proxy_response_payload :: json_type where
  "proxy_response_payload =
     TStruct [required ''status'' (TUint 16), required ''headers'' (TVec (TArray 2 TString)), required ''body'' TString,
       required ''error'' (TOption TString)]"

definition curl_proxy_request :: json_type where
  "curl_proxy_request =
     TStruct [required ''method'' TString, required ''url'' TString, required ''headers'' (TVec (TArray 2 TString)),
       required ''body'' (TOption TString)]"

definition curl_proxy_response :: json_type where
  "curl_proxy_response =
     TStruct [required ''status'' (TUint 16), required ''headers'' (TVec (TArray 2 TString)), required ''body'' TString,
       required ''error'' (TOption TString)]"

definition curl_dns_query :: json_type where
  "curl_dns_query = TStruct [required ''domain'' TString]"

definition curl_dns_answer :: json_type where
  "curl_dns_answer = TStruct [required ''domain'' TString, required ''nodes'' (TVec TString)]"

definition curl_introduce_request :: json_type where
  "curl_introduce_request =
     TStruct [required ''node_id'' TString, required ''admin_url'' TString, required ''register_peer'' TBool]"

definition curl_neighbor_info :: json_type where
  "curl_neighbor_info = TStruct [required ''node_id'' TString, required ''admin_url'' TString]"

definition curl_introduce_response :: json_type where
  "curl_introduce_response = TStruct [required ''node_id'' TString, required ''neighbors'' (TVec curl_neighbor_info)]"

definition curl_relay_request :: json_type where
  "curl_relay_request =
     TStruct [required ''to_id'' TString, required ''text'' TString, required ''from_client'' TString,
       required ''path'' (TVec TString), required ''all_nodes'' (TVec TString),
       required ''return_node_url'' (TOption TString), required ''correlation_id'' (TOption (TUint 64))]"

definition curl_relay_response :: json_type where
  "curl_relay_response =
     TStruct [required ''delivered'' TBool, required ''path'' (TVec TString), required ''error'' (TOption TString),
       defaulted ''response'' (TOption TString)]"

subsection \<open>The declarations of the console\<close>

definition docker_api_info :: json_type where
  "docker_api_info = TStruct [required ''node_id'' TString, required ''healthy'' TBool, required ''slots'' (TUint 64)]"

definition docker_api_peer_slot :: json_type where
  "docker_api_peer_slot =
     TStruct [required ''kind'' TString, required ''peer_id'' TString, required ''peer_idx'' TString,
       required ''loss'' TFloat, required ''referrer'' TString]"

definition docker_inbox_entry :: json_type where
  "docker_inbox_entry = TStruct [required ''from'' TString, required ''text'' TString]"

text \<open>The relay that the console puts together with \<^verbatim>\<open>json!\<close>.\<close>

definition docker_relay_request :: json_type where
  "docker_relay_request =
     TStruct [required ''to_id'' TString, required ''text'' TString, required ''from_client'' TString,
       required ''path'' (TArray 1 TString), required ''all_nodes'' (TArray 0 TString)]"

subsection \<open>What serde writes and reads\<close>

definition is_option :: "json_type \<Rightarrow> bool" where
  "is_option t \<longleftrightarrow> (case t of TOption _ \<Rightarrow> True | _ \<Rightarrow> False)"

text \<open>Written: all fields in order.\<close>

fun writes :: "json_type \<Rightarrow> json \<Rightarrow> bool" and writes_fields :: "field_schema list \<Rightarrow> (string \<times> json) list \<Rightarrow> bool" where
  "writes TString v = (case v of JString _ \<Rightarrow> True | _ \<Rightarrow> False)"
| "writes TBool v = (case v of JBool _ \<Rightarrow> True | _ \<Rightarrow> False)"
| "writes (TUint b) v = (case v of JUint n \<Rightarrow> n < 2 ^ b | _ \<Rightarrow> False)"
| "writes TFloat v = (case v of JFloat _ \<Rightarrow> True | _ \<Rightarrow> False)"
| "writes (TOption t) v = (v = JNull \<or> writes t v)"
| "writes (TVec t) v = (case v of JArray vs \<Rightarrow> list_all (writes t) vs | _ \<Rightarrow> False)"
| "writes (TArray n t) v = (case v of JArray vs \<Rightarrow> length vs = n \<and> list_all (writes t) vs | _ \<Rightarrow> False)"
| "writes (TStruct fs) v = (case v of JObject ps \<Rightarrow> writes_fields fs ps | _ \<Rightarrow> False)"
| "writes_fields [] ps = (ps = [])"
| "writes_fields (Field n t d # fs) ps =
     (case ps of [] \<Rightarrow> False | (k, v) # ps \<Rightarrow> k = n \<and> writes t v \<and> writes_fields fs ps)"

text \<open>Read: fields by name, in any order and with unknown ones among them; absent ones if optional or with a default.\<close>

fun accepts :: "json_type \<Rightarrow> json \<Rightarrow> bool" and accepts_fields :: "field_schema list \<Rightarrow> (string \<times> json) list \<Rightarrow> bool" where
  "accepts TString v = (case v of JString _ \<Rightarrow> True | _ \<Rightarrow> False)"
| "accepts TBool v = (case v of JBool _ \<Rightarrow> True | _ \<Rightarrow> False)"
| "accepts (TUint b) v = (case v of JUint n \<Rightarrow> n < 2 ^ b | _ \<Rightarrow> False)"
| "accepts TFloat v = (case v of JFloat _ \<Rightarrow> True | _ \<Rightarrow> False)"
| "accepts (TOption t) v = (v = JNull \<or> accepts t v)"
| "accepts (TVec t) v = (case v of JArray vs \<Rightarrow> list_all (accepts t) vs | _ \<Rightarrow> False)"
| "accepts (TArray n t) v = (case v of JArray vs \<Rightarrow> length vs = n \<and> list_all (accepts t) vs | _ \<Rightarrow> False)"
| "accepts (TStruct fs) v = (case v of JObject ps \<Rightarrow> distinct (map fst ps) \<and> accepts_fields fs ps | _ \<Rightarrow> False)"
| "accepts_fields [] ps = True"
| "accepts_fields (Field n t d # fs) ps =
     ((case map_of ps n of Some v \<Rightarrow> accepts t v | None \<Rightarrow> d \<or> is_option t) \<and> accepts_fields fs ps)"

record serde =
  se_writes :: "json_type \<Rightarrow> json \<Rightarrow> bool"
  se_reads :: "json_type \<Rightarrow> json \<Rightarrow> bool"

definition serde_ok :: "serde \<Rightarrow> bool" where
  "serde_ok S \<longleftrightarrow> (\<forall>t v. (se_writes S t v \<longrightarrow> writes t v) \<and> (accepts t v \<longrightarrow> se_reads S t v))"

subsection \<open>Compatible schemas\<close>

text \<open>Whether a reader's schema can take what a writer's schema gives, decided on the schemas.\<close>

fun compat :: "json_type \<Rightarrow> json_type \<Rightarrow> bool" and compat_fields :: "field_schema list \<Rightarrow> field_schema list \<Rightarrow> bool" where
  "compat w TString \<longleftrightarrow> w = TString"
| "compat w TBool \<longleftrightarrow> w = TBool"
| "compat w (TUint b) \<longleftrightarrow> (case w of TUint a \<Rightarrow> a \<le> b | _ \<Rightarrow> False)"
| "compat w TFloat \<longleftrightarrow> w = TFloat"
| "compat w (TOption r) \<longleftrightarrow> (case w of TOption w' \<Rightarrow> compat w' r | _ \<Rightarrow> compat w r)"
| "compat w (TVec r) \<longleftrightarrow> (case w of TVec w' \<Rightarrow> compat w' r | TArray _ w' \<Rightarrow> compat w' r | _ \<Rightarrow> False)"
| "compat w (TArray n r) \<longleftrightarrow> (case w of TArray m w' \<Rightarrow> m = n \<and> compat w' r | _ \<Rightarrow> False)"
| "compat w (TStruct rs) \<longleftrightarrow> (case w of TStruct ws \<Rightarrow> distinct (map field_name ws) \<and> compat_fields ws rs | _ \<Rightarrow> False)"
| "compat_fields ws [] \<longleftrightarrow> True"
| "compat_fields ws (Field n t d # rs) \<longleftrightarrow>
     (case List.find (\<lambda>f. field_name f = n) ws of Some f \<Rightarrow> compat (field_type f) t | None \<Rightarrow> d \<or> is_option t) \<and>
     compat_fields ws rs"

lemma written_names: "writes_fields ws ps \<Longrightarrow> map fst ps = map field_name ws"
proof (induction ws arbitrary: ps)
  case (Cons w ws)
  then show ?case by (cases w; cases ps) (auto split: prod.splits)
qed simp

lemma written_field:
  "writes_fields ws ps \<Longrightarrow>
   (case List.find (\<lambda>f. field_name f = n) ws of
      Some f \<Rightarrow> \<exists>v. map_of ps n = Some v \<and> writes (field_type f) v
    | None \<Rightarrow> map_of ps n = None)"
proof (induction ws arbitrary: ps)
  case (Cons w ws)
  then show ?case by (cases w; cases ps) (auto split: prod.splits option.splits)
qed simp

lemma compat_accepts:
  "compat w r \<Longrightarrow> writes w v \<Longrightarrow> accepts r v"
  "compat_fields ws rs \<Longrightarrow> writes_fields ws ps \<Longrightarrow> accepts_fields rs ps"
proof (induction w r and ws rs arbitrary: v and ps rule: compat_compat_fields.induct)
  case (5 w r)
  then show ?case by (cases w) auto
next
  case (6 w r)
  then show ?case by (cases w) (auto simp: list_all_iff split: json.splits)
next
  case (7 w n r)
  then show ?case by (cases w) (auto simp: list_all_iff split: json.splits)
next
  case (8 w rs)
  then show ?case by (cases w) (auto simp: written_names split: json.splits)
next
  case (10 ws n t d rs)
  then show ?case
    using written_field [OF "10.prems"(2), of n] by (auto split: option.splits)
qed (auto split: json_type.splits json.splits intro: less_le_trans power_increasing)

subsection \<open>Who sends what to whom\<close>

definition exchanged :: "(json_type \<times> json_type) list" where
  "exchanged =
     List.product [node_relay_request, server_relay_request, curl_relay_request, docker_relay_request]
       [node_relay_request, server_relay_request] @
     List.product [node_relay_response, server_relay_response]
       [node_relay_response, server_relay_response, curl_relay_response] @
     List.product [node_introduce_request, server_introduce_request, curl_introduce_request]
       [node_introduce_request, server_introduce_request] @
     List.product [node_introduce_response, server_introduce_response]
       [node_introduce_response, server_introduce_response, curl_introduce_response] @
     [(curl_proxy_request, proxy_request_payload), (proxy_response_payload, curl_proxy_response),
      (curl_dns_query, dns_query_payload), (dns_answer_payload, curl_dns_answer),
      (node_api_info, docker_api_info), (node_api_peer_slot, docker_api_peer_slot), (node_inbox_entry, docker_inbox_entry)]"

lemma exchanged_compat: "list_all (\<lambda>(w, r). compat w r) exchanged"
  by code_simp

text \<open>
  C16: The copies of the message types fit together.  Whatever a node, a server, zona-curl, a service or the
  console writes as a message of one kind, every program that receives this kind from it can read.
\<close>
theorem wire_compatible:
  assumes "serde_ok S" "(w, r) \<in> set exchanged" "se_writes S w v"
  shows "se_reads S r v"
proof -
  have "compat w r" using exchanged_compat assms(2) by (auto simp: list_all_iff)
  moreover have "writes w v" using assms(1,3) by (simp add: serde_ok_def)
  ultimately show ?thesis using compat_accepts(1) assms(1) by (simp add: serde_ok_def)
qed

theorem wire_compatible_witness:
  "let S = \<lparr>se_writes = writes, se_reads = accepts\<rparr>;
       v = JObject [(''to_id'', JString ''0a''), (''text'', JString ''hi''), (''from_client'', JString ''0b''),
             (''path'', JArray [JString ''0b'']), (''all_nodes'', JArray [])]
   in se_reads S node_relay_request v \<and> se_reads S server_relay_request v"
proof -
  let ?S = "\<lparr>se_writes = writes, se_reads = accepts\<rparr>"
    and ?v = "JObject [(''to_id'', JString ''0a''), (''text'', JString ''hi''), (''from_client'', JString ''0b''),
             (''path'', JArray [JString ''0b'']), (''all_nodes'', JArray [])]"
  have ok: "serde_ok ?S" by (simp add: serde_ok_def)
  have "se_writes ?S docker_relay_request ?v" by (simp add: docker_relay_request_def)
  moreover have "(docker_relay_request, node_relay_request) \<in> set exchanged" "(docker_relay_request, server_relay_request) \<in> set exchanged"
    by (simp_all add: exchanged_def)
  ultimately show ?thesis using wire_compatible [OF ok, of docker_relay_request _ ?v] by (simp add: Let_def)
qed

text \<open>
  The server's copy of a relay is to stay in sync with the node's, but \<^verbatim>\<open>all_nodes\<close> has a default in the server
  only: a relay without it is read by servers and rejected by nodes.
\<close>
lemma relay_request_out_of_sync:
  "\<exists>v. accepts server_relay_request v \<and> \<not> accepts node_relay_request v"
proof -
  let ?v = "JObject [(''to_id'', JString ''0a''), (''text'', JString ''hi''), (''from_client'', JString ''0b''),
             (''path'', JArray [])]"
  have "accepts server_relay_request ?v \<and> \<not> accepts node_relay_request ?v"
    by (simp add: server_relay_request_def node_relay_request_def is_option_def)
  then show ?thesis by blast
qed

end
