(* ===== verification/Spec2Isabelle.thy ===== *)
theory Spec2Isabelle
  imports Connection Light_Client Simulator App_Server Signature_Synth Zona_Curl Sandbox Docker Startup Concurrent_Calls
    Service_Mains Zona_Service Web_Api Wire_Schema
begin

text \<open>
  \<^bold>\<open>Zona: a verification library.\<close>

  The repository holds two Rust programs.  \<^verbatim>\<open>zona-p2p\<close> is a peer-to-peer overlay: nodes with identifiers
  derived from public keys route messages greedily by XOR distance, exchange signed descriptors of
  themselves, limit the rate of requests, and carry HTTP through it to servers that register
  handlers; a library of quorum certificates and a light client goes with it.  \<^verbatim>\<open>zona\<close> is a service
  that collects samples of requests to a web application and, once it has enough, answers
  with profiles and made-up signatures of the traffic.  This library models the Rust code of both, with
  the theorems that state what each part does.  Paths below are under \<^verbatim>\<open>src/\<close>; crates of \<^verbatim>\<open>zona-p2p\<close> are
  under \<^verbatim>\<open>src/zona-p2p/crates\<close> and its servers under \<^verbatim>\<open>src/zona-p2p/servers\<close>.

  \<^bold>\<open>How the code is modelled.\<close>
  \<^item> Structs are records whose fields carry a prefix, enums are datatypes with the source's
    constructors, \<^verbatim>\<open>u8\<close> to \<^verbatim>\<open>u64\<close> are words, \<^verbatim>\<open>usize\<close> is a natural number where the code cannot overflow it
    and is bounded explicitly where it can.  A method that changes its receiver returns the new receiver
    beside its result.  \<^verbatim>\<open>Result\<close> is a sum whose left side is the error, \<^verbatim>\<open>Option\<close> is \<open>option\<close>, and a
    panic is the result \<open>None\<close> of a function that otherwise cannot fail.
  \<^item> A \<^verbatim>\<open>HashMap\<close> is an association list with distinct keys (\<open>hm_ok\<close>).  Where the code iterates over one the
    order is an argument of which only \<open>is_order\<close> is assumed.
  \<^item> A \<^verbatim>\<open>String\<close> is the list of its UTF-8 bytes as characters, so lengths and slices are in bytes as in Rust.
  \<^item> \<^verbatim>\<open>f32\<close> and \<^verbatim>\<open>f64\<close> are rational numbers with rounding to the format's grid, for finite values.
  \<^item> Third-party code is a parameter: the field \<open>L\<close> of nearly every definition is a record of functions
    (SHA-256, Ed25519, serialisation, hexadecimal and base64 text, HTTP) that is extended theory by
    theory: \<open>libs\<close>, \<open>hex_libs\<close>, \<open>app_libs\<close>, \<open>service_libs\<close>, \<open>curl_libs\<close>, \<open>console_libs\<close>, and
    \<open>train_libs\<close> for the training service.  What is relied on is a named hypothesis: \<open>ed25519_ok\<close> (a signature made
    is accepted), \<open>hex_ok\<close>, \<open>hex_text_ok\<close> and \<open>b64_ok\<close> (decoding inverts encoding, two digits to a byte),
    \<open>json_ok\<close>, \<open>form_ok\<close> and \<open>maps_ok\<close> (serialised values are read back if their strings are valid UTF-8),
    \<open>read_back_as\<close> (a stored sample is read back up to the values of its \<^verbatim>\<open>f64\<close> fields), \<open>exp_ok\<close> (bounds of the exponential
    function), \<open>axum_ok\<close>, \<open>framed_ok\<close> and \<open>serde_ok\<close> (the documented behaviour of a router, of a framed stream and
    of derived serialisation), \<open>rng_ok\<close> and \<open>shuffle_ok\<close> (ranges and members only), \<open>lower_ok\<close>, \<open>method_ok\<close> and
    \<open>texts_ok\<close>.  Each is shown to hold of a concrete instance in the witnesses.
  \<^item> Clocks, generated key pairs and the answers of the network or of a disk are arguments.

  \<^bold>\<open>Foundations.\<close>
  \<^item> \<open>Zona_Prelude\<close>: result types, words, searches, maxima, counting; \<open>Hash_Map\<close>: hash maps, with the locales
    \<open>hash_table\<close> (the laws of the map) and \<open>keyed_machine\<close> (independent state machines under the
    keys of one table, which rate limits and the quorum tracker are); \<open>Float_Grid\<close>, \<open>F32\<close>, \<open>F64\<close>: rounding, with
    the locale \<open>binary_grid\<close>; \<open>Utf8\<close>, \<open>Rust_Text\<close>: UTF-8 validity and lossy conversion, \<^verbatim>\<open>str\<close> methods.

  \<^bold>\<open>The overlay.\<close>
  \<^item> \<open>Node_Id\<close> (\<^verbatim>\<open>zona-p2p-types/src/node_id.rs\<close>): identifiers and their distance; the locale \<open>xor_space\<close>
    states the metric, with the types' order as an instance of \<open>linorder\<close>.
  \<^item> \<open>Peer_Table\<close> (\<^verbatim>\<open>slots.rs\<close>): the table of greedy, long-jump and diversity slots; \<open>table_inv\<close> is kept by every
    method (locale \<open>slot_table\<close>), and the outcome of each insertion is stated on every branch.
  \<^item> \<open>Wire_Types\<close>, \<open>Crypto\<close> (\<^verbatim>\<open>zona-p2p-crypto\<close>): messages, keys, signatures of descriptors, envelopes and
    invites; the locale \<open>signed_object\<close> holds of all three.
  \<^item> \<open>Routing\<close> (\<^verbatim>\<open>routing/xor.rs\<close>): \<open>next_hop\<close> is strictly closer than the node itself, so greedy routes end
    (locale \<open>greedy_routing\<close>); \<open>Critical\<close> (\<^verbatim>\<open>routing/critical.rs\<close>): two independent first hops and the tracker that
    accepts a message at its quorum, refined to counting distinct deliveries.
  \<^item> \<open>Descriptor_Store\<close> (\<^verbatim>\<open>descriptor_store.rs\<close>, \<^verbatim>\<open>zona-p2p-gossip\<close>): only verified descriptors are stored, and
    stores that received the same ones agree whatever the order (locale \<open>preference\<close>).
  \<^item> \<open>Rate_Limits\<close>, \<open>Pex\<close>, \<open>Maintenance\<close>: the budget of each peer and window, kept in both directions, peer exchange, repair targets and the
    recovery mode; \<open>Codec\<close> (\<^verbatim>\<open>zona-p2p-transport/src/codec.rs\<close>): frames read back from any chunks;
    \<open>Connection\<close> (\<^verbatim>\<open>connection.rs\<close>, \<^verbatim>\<open>listener.rs\<close>): two ends of a stream, of which one receives in order what the
    other sent.
  \<^item> \<open>P2p_Node\<close>, \<open>Node_Props\<close> (\<^verbatim>\<open>zona-p2p-node/src/node.rs\<close>): the whole handler of an envelope and the repair
    tick; \<open>node_step\<close> and \<open>node_reachable\<close> are its transition system, and the locale \<open>machine_part\<close> lifts the
    invariants of table, store and tracker to it.  \<open>genuine\<close> is what holds of everything a node sends; another node with
    its descriptor processes that, and nothing signed by someone else in its name.
  \<^item> \<open>Simulator\<close> (\<^verbatim>\<open>zona-p2p-sim/src/lib.rs\<close>): rounds with loss and partitions, with \<open>sim_reachable\<close> and its
    invariant; traced routes have at most 30 hops and \<^verbatim>\<open>can_route\<close> looks 20 far, as in the code.

  \<^bold>\<open>Running nodes and servers.\<close>
  \<^item> \<open>Relay\<close> (\<^verbatim>\<open>zona-p2p-node/src/admin.rs\<close>): a relay calls the next node's endpoint and waits, so it is a
    recursion through a map of endpoints.  The fuel \<open>relay_fuel\<close>, one more than the number of identifiers the
    network knows, is enough because every nested request adds a new identifier to the path.
  \<^item> \<open>Bootstrap\<close>, \<open>Startup\<close>: how a node and a server find their first peers, and the main functions from
    the environment to the state that is served.
  \<^item> \<open>App_Server\<close> (\<^verbatim>\<open>zona-p2p-server\<close>): networks of plain nodes and servers; a delivered packet may be answered
    with a request of its own, hence \<open>mixed_fuel\<close>, twice the number of identifiers plus two.
    Blocking calls with their table of pending calls; \<open>route\<close> is the relation of next hops that
    the liveness theorems assume.  There a call runs alone; \<open>Concurrent_Calls\<close> splits it into its regions under
    the lock, a transition system whose runs interleave any number of calls and arriving requests.
  \<^item> \<open>Web_Api\<close> (the routers of \<^verbatim>\<open>admin.rs\<close>, \<^verbatim>\<open>server.rs\<close>, \<^verbatim>\<open>http_api.rs\<close>) puts these under any sequence of HTTP requests
    to any participant; \<open>Axum_Router\<close> is the part of \<^verbatim>\<open>axum\<close> that is relied on.  \<open>Wire_Schema\<close> compares the
    programs' own declarations of the messages they exchange, for which the other theories have one record each.
  \<^item> \<open>Services\<close> (\<^verbatim>\<open>zona-dns\<close>, \<^verbatim>\<open>proxy-server\<close>, \<^verbatim>\<open>hello-server\<close>) and \<open>Zona_Curl\<close> (\<^verbatim>\<open>zona-curl\<close>): name lookup, the
    HTTP proxy and its client.  The locale \<open>overlay_service\<close> says what a client may assume of a
    service behind a relay; interpreted on the mixed network it gives the end-to-end theorem on a
    browser's request.  \<open>Service_Mains\<close> starts the name server and the proxy from their parsed arguments and
    composes all three programs, from zone file and identifiers to the browser's answer.  The main function of
    \<^verbatim>\<open>zona-curl serve\<close> has the outcome of the panic that its blocking HTTP client meets inside the runtime.
  \<^item> \<open>Console\<close> (\<^verbatim>\<open>zona-p2p-client\<close>), \<open>Sandbox\<close>, \<open>Docker\<close> (\<^verbatim>\<open>zona-p2p-sim\<close>): the interactive console over the trait
    \<^verbatim>\<open>AdminBackend\<close>, here a record of operations.  The locale \<open>console_backend\<close> proves once that a
    session keeps whatever the backend's operations keep; it is interpreted on the simulation (as the stronger
    \<open>quiet_backend\<close>) and on containers reached over HTTP, which are a mixed network.

  \<^bold>\<open>Certificates.\<close>
  \<^item> \<open>Bft_Quorum\<close> (\<^verbatim>\<open>zona-p2p-bft/src/validator.rs\<close>, \<^verbatim>\<open>certificate.rs\<close>): the quorum check with its threshold modulo \<open>2 ^ 64\<close>.  For
    a total weight below \<open>2 ^ 63\<close> (\<open>weights_fit\<close>) certificates verify exactly if distinct members of more than two thirds of the weight signed, and
    two of them share more than a third, so that certificates for one height agree if those members
    are honest (locale \<open>weighted_quorum\<close>); beyond it the threshold collapses (\<open>threshold_overflow\<close>).  \<open>Bft_State\<close> (\<^verbatim>\<open>epoch.rs\<close>, \<^verbatim>\<open>state.rs\<close>): finality only advances; \<open>Light_Client\<close>: what a
    client that watches several channels accepts, one checkpoint excusing one acceptance.

  \<^bold>\<open>The training service.\<close>
  \<^item> \<open>Train_Store\<close> (\<^verbatim>\<open>src/zona/src/store.rs\<close>, \<^verbatim>\<open>teach.rs\<close>, \<^verbatim>\<open>query_canonical.rs\<close> and the status endpoints): samples
    by route, refined to a log (locale \<open>sample_log\<close>), completion, and a disk on which writing and renaming may
    fail; a restart restores what was saved, as \<^verbatim>\<open>serde_json\<close> reads it back.  \<open>Mask_Profiles\<close>: quantiles of the samples in \<^verbatim>\<open>f64\<close>;
    \<open>Signature_Synth\<close>: texts of the wanted length and share of one bits, whose loop is bounded by the
    code's own guard of four steps per bit.
  \<^item> \<open>Zona_Service\<close> (\<^verbatim>\<open>lib.rs\<close>, \<^verbatim>\<open>main.rs\<close>, \<^verbatim>\<open>train_store_dump.rs\<close> and the routers) puts them together: for a service started
    from any environment and disk and any sequence of requests, the store is at every request the log of what was
    accepted before, every reply is the one its route prescribes for that log, profiles and signatures are answered as soon as enough was taught, the training status
    settles, and a restart gives the same service up to the last places of floating-point numbers.

  \<^bold>\<open>Findings.\<close>  Where the code does something else than it says, the theory states what it does in a
  lemma at the end of the component: for example \<open>invite_issuer_not_bound\<close>, \<open>quorum_replays_accepted\<close>,
  \<open>colliding_call_misdelivered\<close>, \<open>found_nodes_unverified\<close>, \<open>peers_of_another_node\<close>, \<open>display_panics\<close>.

  \<^bold>\<open>Not modelled.\<close>  Sockets and TLS beyond whether binding and loading succeed, asynchronous
  scheduling and time-outs other than as an outcome; the text layout of terminal output and logs; the
  parsing of command lines by \<^verbatim>\<open>clap\<close>; how \<^verbatim>\<open>axum\<close> reads a request; JSON and YAML syntax.  Apart
  from the pending calls of a server, handlers run one after the other: requests that interleave at an await
  point between two lock regions are not, nor the separate locks under which the training status reads its
  fields.  In \<open>relay_at\<close> and \<open>mixed_at\<close> a request fails only if nobody listens: a response that is lost after the request
  was delivered, and the retry that follows, are not modelled.
  Floating-point infinities and NaN are excluded where they could only come from the outside.  The C#
  proxy, the Go installer and the scripts are other programs.
\<close>

end
